(* ===== verification/Prelude.thy ===== *)
theory Prelude
  imports Main "HOL-Library.Word" "HOL-Library.Monad_Syntax" "HOL-Library.Sublist"
begin

text \<open>
  Shared vocabulary of the development: the machine integers of the C code as words, buffers
  as lists of fixed length, undefined behaviour as \<open>None\<close>, and the generic lemmas on lists and
  words that the components use.

  Conventions used by every theory:
  \<^item> a C operation that could touch memory out of bounds, read an uninitialised or unterminated
    buffer, dereference NULL or overflow a signed computation has the result type \<open>'a option\<close>;
    \<open>None\<close> means that the C standard gives the execution no meaning;
  \<^item> a byte buffer is a list whose length is the size of the C object;
  \<^item> sizes are \<open>nat\<close>; a 64-bit counter that can wrap around is a \<open>64 word\<close>.
\<close>

unbundle bit_operations_syntax

type_synonym u8 = "8 word"
type_synonym u16 = "16 word"
type_synonym u32 = "32 word"
type_synonym u64 = "64 word"

named_theorems mem_simps \<open>rewriting of buffer reads and writes\<close>
named_theorems model_defs \<open>unfolding of the small accessor definitions\<close>

section \<open>Buffers\<close>

text \<open>\<open>memcpy(buf + off, xs, |xs|)\<close> into a buffer of \<open>length buf\<close> bytes.\<close>

definition mem_write :: "'a list \<Rightarrow> nat \<Rightarrow> 'a list \<Rightarrow> 'a list option" where
  "mem_write buf off xs =
     (if off + length xs \<le> length buf
      then Some (take off buf @ xs @ drop (off + length xs) buf) else None)"

text \<open>Reading \<open>n\<close> elements at offset \<open>off\<close>.\<close>

definition mem_read :: "'a list \<Rightarrow> nat \<Rightarrow> nat \<Rightarrow> 'a list option" where
  "mem_read buf off n = (if off + n \<le> length buf then Some (take n (drop off buf)) else None)"

text \<open>One element: \<open>buf[i]\<close> and \<open>buf[i] = x\<close>.\<close>

definition idx :: "'a list \<Rightarrow> nat \<Rightarrow> 'a option" where
  "idx xs i = (if i < length xs then Some (xs ! i) else None)"

definition upd :: "'a list \<Rightarrow> nat \<Rightarrow> 'a \<Rightarrow> 'a list option" where
  "upd xs i x = (if i < length xs then Some (xs[i := x]) else None)"

lemma mem_write_Some [mem_simps]:
  "off + length xs \<le> length buf \<Longrightarrow>
     mem_write buf off xs = Some (take off buf @ xs @ drop (off + length xs) buf)"
  by (simp add: mem_write_def)

lemma mem_write_None [mem_simps]:
  "length buf < off + length xs \<Longrightarrow> mem_write buf off xs = None"
  by (simp add: mem_write_def)

lemma mem_write_length: "mem_write buf off xs = Some buf' \<Longrightarrow> length buf' = length buf"
  by (auto simp: mem_write_def split: if_splits)

lemma mem_write_middle:
  "length p = off \<Longrightarrow> length z = length d \<Longrightarrow> mem_write (p @ z @ r) off d = Some (p @ d @ r)"
  by (auto simp: mem_write_def)

lemma mem_read_write_same:
  "mem_write buf off xs = Some buf' \<Longrightarrow> mem_read buf' off (length xs) = Some xs"
  by (auto simp: mem_write_def mem_read_def min_def split: if_splits)

lemma mem_read_write_disjoint:
  assumes "mem_write buf off xs = Some buf'"
    and "o2 + n \<le> off \<or> off + length xs \<le> o2"
  shows "mem_read buf' o2 n = mem_read buf o2 n"
proof -
  from assms(1) have len: "off + length xs \<le> length buf"
    and buf': "buf' = take off buf @ xs @ drop (off + length xs) buf"
    by (auto simp: mem_write_def split: if_splits)
  from assms(2) show ?thesis
  proof
    assume o2: "o2 + n \<le> off"
    have "take n (drop o2 buf') = take n (drop o2 buf)"
      using len o2 by (intro nth_equalityI) (simp_all add: buf' nth_append)
    then show ?thesis using len o2 by (simp add: mem_read_def buf')
  next
    assume o2: "off + length xs \<le> o2"
    have "drop o2 buf' = drop o2 buf" using len o2
      by (simp add: buf' min_def)
    then show ?thesis using len o2
      by (simp add: mem_read_def buf')
  qed
qed

lemma idx_Some [mem_simps]: "i < length xs \<Longrightarrow> idx xs i = Some (xs ! i)"
  by (simp add: idx_def)

lemma idx_None [mem_simps]: "length xs \<le> i \<Longrightarrow> idx xs i = None"
  by (simp add: idx_def)

lemma upd_Some [mem_simps]: "i < length xs \<Longrightarrow> upd xs i x = Some (xs[i := x])"
  by (simp add: upd_def)

lemma upd_None [mem_simps]: "length xs \<le> i \<Longrightarrow> upd xs i x = None"
  by (simp add: upd_def)

text \<open>A computation in the 64-bit \<open>size_t\<close>.\<close>

definition size_t :: "nat \<Rightarrow> nat" where "size_t n = unat (of_nat n :: u64)"

lemma size_t_mod: "size_t n = n mod 2 ^ 64"
  by (simp add: size_t_def unat_of_nat)

lemma size_t_small [simp]: "n < 2 ^ 64 \<Longrightarrow> size_t n = n"
  by (simp add: size_t_mod)

text \<open>A signed computation in \<open>int\<close>: undefined when the result does not fit.\<close>

definition c_int :: "int \<Rightarrow> int option" where
  "c_int v = (if - (2 ^ 31) \<le> v \<and> v < 2 ^ 31 then Some v else None)"

lemma c_int_Some: "0 \<le> v \<Longrightarrow> v < 2 ^ 31 \<Longrightarrow> c_int v = Some v"
  by (simp add: c_int_def)

section \<open>Lists\<close>

lemma takeWhile_append_stop:
  "\<forall>c \<in> set xs. P c \<Longrightarrow> \<not> P y \<Longrightarrow> takeWhile P (xs @ y # ys) = xs"
  by (simp add: takeWhile_tail)

lemma dropWhile_append_stop:
  "\<forall>c \<in> set xs. P c \<Longrightarrow> \<not> P y \<Longrightarrow> dropWhile P (xs @ y # ys) = y # ys"
  by (induction xs) auto

lemma list_eq_take_length: "take (length xs) ys = xs \<longleftrightarrow> prefix xs ys"
  by (metis append_take_drop_id append_eq_conv_conj prefixE prefixI)

lemma dropWhile_length_less: "dropWhile P s = c # r \<Longrightarrow> length r < length s"
  using length_dropWhile_le [of P s] by simp

section \<open>Words\<close>

lemma byte_less: "unat (b :: u8) < 256"
proof -
  have "unat b < 2 ^ LENGTH(8)" by (rule unsigned_less)
  then show ?thesis by simp
qed

lemma nat_and_mask: "(n::nat) AND (2 ^ k - 1) = n mod 2 ^ k"
  by (simp flip: take_bit_eq_mod add: take_bit_eq_mask mask_eq_exp_minus_1)

lemma mask6_mod: "unat ((of_nat n :: u64) AND 63) = n mod 64"
proof -
  have "unat ((of_nat n :: u64) AND 63) = (n mod 2 ^ 64) AND 63"
    by (simp add: unsigned_and_eq unat_of_nat)
  also have "\<dots> = n mod 2 ^ 64 mod 2 ^ 6"
    using nat_and_mask [of "n mod 2 ^ 64" 6] by simp
  also have "\<dots> = n mod 64"
    by (simp add: mod_mod_cancel)
  finally show ?thesis .
qed

end
