(* ===== verification/CString.thy ===== *)
theory CString
  imports Prelude
begin

text \<open>
  The part of the C library that the components call on strings: character arrays with a
  terminating NUL, \<open>strcmp\<close>, \<open>strstr\<close>, \<open>strncpy\<close>, the conversions \<open>%d\<close>, \<open>%02d\<close> and \<open>%02x\<close> of
  \<open>printf\<close>, and \<open>atoi\<close>/\<open>atol\<close>. A C string value is a \<open>string\<close> without NUL; a C array of
  characters is a \<open>char list\<close> of the array's size, read back with \<open>cstr\<close>. Reading an array with
  no NUL in it runs past its end and is \<open>None\<close>.
\<close>

section \<open>Strings in arrays\<close>

definition NUL :: char where "NUL = CHR 0x00"

definition cstr :: "char list \<Rightarrow> string option" where
  "cstr a = (if NUL \<in> set a then Some (takeWhile (\<lambda>c. c \<noteq> NUL) a) else None)"

definition CRLF :: string where "CRLF = [CHR 0x0D, CHR 0x0A]"

text \<open>A zero-filled array of \<open>n\<close> characters, as \<open>char a[n] = {0}\<close> or \<open>calloc\<close> gives it.\<close>

definition zeros :: "nat \<Rightarrow> char list" where "zeros n = replicate n NUL"

text \<open>A string as the bytes a routine on \<open>unsigned char\<close> sees.\<close>

definition bytes_of :: "string \<Rightarrow> u8 list" where "bytes_of s = map of_char s"

definition text_of :: "u8 list \<Rightarrow> string" where "text_of b = map (\<lambda>c. char_of (unat c)) b"

text \<open>\<open>sprintf(a, "%s", s)\<close>, \<open>snprintf(a, n, "%s", s)\<close> with \<open>n > 0\<close>, \<open>strncpy(a, s, n)\<close>.\<close>

definition sprintf_to :: "char list \<Rightarrow> string \<Rightarrow> char list option" where
  "sprintf_to a s = mem_write a 0 (s @ [NUL])"

definition snprintf_to :: "char list \<Rightarrow> nat \<Rightarrow> string \<Rightarrow> char list option" where
  "snprintf_to a n s = (if n = 0 then Some a else mem_write a 0 (take (n - 1) s @ [NUL]))"

definition strncpy_to :: "char list \<Rightarrow> string \<Rightarrow> nat \<Rightarrow> char list option" where
  "strncpy_to a s n = mem_write a 0 (take n (s @ replicate n NUL))"

text \<open>What \<open>strncpy(a, src, n)\<close> copies from a block that may end without a terminator.\<close>

definition src_prefix :: "char list \<Rightarrow> nat \<Rightarrow> string option" where
  "src_prefix src n =
     (let s = takeWhile (\<lambda>c. c \<noteq> NUL) src in
      if length s = length src \<and> length s < n then None else Some (take n s))"

text \<open>\<open>strcat(a, s)\<close>.\<close>

definition strcat_to :: "char list \<Rightarrow> string \<Rightarrow> char list option" where
  "strcat_to a s = do { t \<leftarrow> cstr a; mem_write a (length t) (s @ [NUL]) }"

text \<open>\<open>malloc(n)\<close> with an \<open>int\<close> argument, through the allocator \<open>mal\<close> (what it returns for a size:
  NULL or a fresh object of that size); a negative size is a request no allocator can serve.\<close>

definition malloc_int :: "(nat \<Rightarrow> char list option) \<Rightarrow> int \<Rightarrow> char list option" where
  "malloc_int mal n = (if n < 0 then None else mal (nat n))"

lemma text_of_bytes [simp]: "text_of (bytes_of s) = s"
proof -
  have "unat (of_char c :: u8) = of_char c" for c
  proof -
    have "(of_nat (of_char c) :: u8) = of_char c" by (rule of_nat_of_char)
    moreover have "unat (of_nat (of_char c) :: u8) = of_char c" by (simp add: unat_of_nat)
    ultimately show ?thesis by (simp only:)
  qed
  then show ?thesis by (simp add: text_of_def bytes_of_def comp_def)
qed

lemma bytes_of_append [simp]: "bytes_of (s @ t) = bytes_of s @ bytes_of t"
  by (simp add: bytes_of_def)

lemma bytes_of_eq_Nil [simp]: "bytes_of s = [] \<longleftrightarrow> s = []"
  by (simp add: bytes_of_def)

lemma length_text_bytes [simp]: "length (bytes_of s) = length s" "length (text_of b) = length b"
  by (simp_all add: bytes_of_def text_of_def)

lemma cstr_append_NUL [simp]: "NUL \<notin> set s \<Longrightarrow> cstr (s @ NUL # r) = Some s"
  by (simp add: cstr_def takeWhile_tail) (metis takeWhile_append_stop)

lemma cstr_zeros [simp]: "0 < n \<Longrightarrow> cstr (zeros n) = Some []"
  by (cases n) (simp_all add: cstr_def zeros_def)

lemma cstr_zeros_padded [simp]: "NUL \<notin> set s \<Longrightarrow> 0 < k \<Longrightarrow> cstr (s @ zeros k) = Some s"
  by (cases k) (auto simp: zeros_def)

lemma cstr_no_NUL: "cstr a = Some s \<Longrightarrow> NUL \<notin> set s"
  by (auto simp: cstr_def split: if_splits dest: set_takeWhileD)

lemma cstr_length: "cstr a = Some s \<Longrightarrow> length s < length a"
  by (auto simp: cstr_def split: if_splits)
     (metis length_takeWhile_le nat_less_le set_takeWhileD takeWhile_eq_take take_all_iff order_refl)

lemma cstr_split: "cstr a = Some s \<Longrightarrow> \<exists>r. a = s @ NUL # r \<and> NUL \<notin> set s"
proof -
  assume a: "cstr a = Some s"
  then have "NUL \<in> set a" by (auto simp: cstr_def split: if_splits)
  then obtain ys r where "a = ys @ NUL # r" "NUL \<notin> set ys" by (meson split_list_first)
  with a show ?thesis by auto
qed

lemma length_zeros [simp]: "length (zeros n) = n"
  by (simp add: zeros_def)

lemma sprintf_to_Some:
  "length s < length a \<Longrightarrow> sprintf_to a s = Some (s @ NUL # drop (Suc (length s)) a)"
  by (simp add: sprintf_to_def mem_write_def)

lemma sprintf_to_None: "length a \<le> length s \<Longrightarrow> sprintf_to a s = None"
  by (simp add: sprintf_to_def mem_write_def)

lemma sprintf_to_cstr:
  assumes "sprintf_to a s = Some a'" and "NUL \<notin> set s"
  shows "cstr a' = Some s \<and> length a' = length a"
  using assms by (cases "length s < length a")
    (auto simp: sprintf_to_Some sprintf_to_None min_def)

lemma strcat_to_Some:
  "NUL \<notin> set t \<Longrightarrow> length t + length s < Suc (length r + length t) \<Longrightarrow>
     strcat_to (t @ NUL # r) s = Some (t @ s @ NUL # drop (length s) r)"
  by (simp add: strcat_to_def mem_write_def)

lemma snprintf_to_Some:
  "0 < n \<Longrightarrow> n \<le> length a \<Longrightarrow>
     snprintf_to a n s = Some (take (n - 1) s @ NUL # drop (Suc (length (take (n - 1) s))) a)"
  by (simp add: snprintf_to_def mem_write_def)

lemma snprintf_to_cstr:
  assumes "snprintf_to a n s = Some a'" and "NUL \<notin> set s" and "0 < n" and "n \<le> length a"
  shows "cstr a' = Some (take (n - 1) s) \<and> length a' = length a"
proof -
  have "NUL \<notin> set (take (n - 1) s)" using assms(2) by (meson in_set_takeD)
  then show ?thesis using assms
    by (auto simp: snprintf_to_Some min_def)
qed

lemma strncpy_to_Some:
  "n \<le> length a \<Longrightarrow>
     strncpy_to a s n = Some (take n (s @ replicate n NUL) @ drop n a)"
  by (simp add: strncpy_to_def mem_write_def min_def)

lemma strncpy_to_None: "length a < n \<Longrightarrow> strncpy_to a s n = None"
  by (simp add: strncpy_to_def mem_write_def)

text \<open>Copying a whole field of \<open>n\<close> characters into a larger zeroed array leaves it terminated.\<close>

lemma strncpy_zeros:
  assumes "n < m" and "n \<le> length s"
  shows "strncpy_to (zeros m) s n = Some (take n s @ NUL # zeros (m - Suc n))"
proof -
  have "drop n (zeros m) = NUL # zeros (m - Suc n)"
    using assms(1) by (simp add: zeros_def Suc_diff_Suc flip: replicate_Suc)
  then show ?thesis using assms by (simp add: strncpy_to_Some)
qed

section \<open>strcmp, strncmp, strstr, strchr\<close>

fun strcmp :: "string \<Rightarrow> string \<Rightarrow> int" where
  "strcmp [] [] = 0"
| "strcmp [] (y # ys) = - 1"
| "strcmp (x # xs) [] = 1"
| "strcmp (x # xs) (y # ys) =
     (if x = y then strcmp xs ys else if of_char x < (of_char y :: nat) then - 1 else 1)"

text \<open>\<open>strncmp(s, t, n) == 0\<close> for terminated strings.\<close>

definition strneq :: "string \<Rightarrow> string \<Rightarrow> nat \<Rightarrow> bool" where
  "strneq s t n = (take n s = take n t)"

lemma strcmp_eq_0 [simp]: "strcmp s t = 0 \<longleftrightarrow> s = t"
  by (induction s t rule: strcmp.induct) auto

lemma strcmp_append_same [simp]: "strcmp (p @ s) (p @ t) = strcmp s t"
  by (induction p) auto

text \<open>\<open>strstr\<close> returns the offset of the first occurrence.\<close>

fun strstr :: "string \<Rightarrow> string \<Rightarrow> nat option" where
  "strstr [] needle = (if needle = [] then Some 0 else None)"
| "strstr (c # cs) needle =
     (if take (length needle) (c # cs) = needle then Some 0
      else map_option Suc (strstr cs needle))"

lemma strstr_first:
  assumes "needle \<noteq> []" and "hd needle \<notin> set pre"
  shows "strstr (pre @ needle @ post) needle = Some (length pre)"
  using assms
proof (induction pre)
  case Nil
  then obtain c cs where "needle = c # cs" by (cases needle) auto
  then show ?case by simp
next
  case (Cons p pre)
  then obtain c cs where "needle = c # cs" "c \<noteq> p" by (cases needle) auto
  with Cons show ?case by simp
qed

lemma strstr_None:
  assumes "needle \<noteq> []" and "hd needle \<notin> set s"
  shows "strstr s needle = None"
  using assms
proof (induction s)
  case (Cons p s)
  then obtain c cs where "needle = c # cs" "c \<noteq> p" by (cases needle) auto
  with Cons show ?case by simp
qed simp

lemma strstr_bound:
  "strstr s needle = Some k \<Longrightarrow> take (length needle) (drop k s) = needle \<and> k \<le> length s"
  by (induction s arbitrary: k) (auto split: if_splits)

end
