(* ===== verification/CNumber.thy ===== *)
theory CNumber
  imports CString "HOL-Library.Char_ord"
begin

text \<open>
  Numbers as text: the \<open>printf\<close> conversions \<open>%d\<close>/\<open>%ld\<close>, \<open>%02d\<close> and \<open>%02x\<close>, and the C library
  functions \<open>atoi\<close> and \<open>atol\<close>, with the lemmas that reading back what was printed gives the
  number.
\<close>

section \<open>Digits\<close>

definition digit_char :: "nat \<Rightarrow> char" where "digit_char d = char_of (48 + d)"

definition digit_val :: "char \<Rightarrow> nat" where "digit_val c = of_char c - 48"

definition is_digit :: "char \<Rightarrow> bool" where
  "is_digit c = (48 \<le> (of_char c :: nat) \<and> (of_char c :: nat) \<le> 57)"

definition is_space :: "char \<Rightarrow> bool" where
  "is_space c = (of_char c = (32 :: nat) \<or> (9 \<le> (of_char c :: nat) \<and> (of_char c :: nat) \<le> 13))"

lemma of_char_digit_char: "d < 10 \<Longrightarrow> of_char (digit_char d) = 48 + d"
  by (simp add: digit_char_def)

lemma digit_val_char [simp]: "d < 10 \<Longrightarrow> digit_val (digit_char d) = d"
  by (simp add: digit_val_def of_char_digit_char)

lemma is_digit_char [simp]: "d < 10 \<Longrightarrow> is_digit (digit_char d)"
  by (simp add: is_digit_def of_char_digit_char)

lemma digit_not_space: "is_digit c \<Longrightarrow> \<not> is_space c"
  by (auto simp: is_digit_def is_space_def)

lemma digit_neq_NUL: "is_digit c \<Longrightarrow> c \<noteq> NUL"
  by (auto simp: is_digit_def NUL_def)

lemma digit_neq_sign: "is_digit c \<Longrightarrow> c \<noteq> CHR ''-'' \<and> c \<noteq> CHR ''+''"
  by (auto simp: is_digit_def)

section \<open>Printing\<close>

fun show_nat :: "nat \<Rightarrow> string" where
  "show_nat n = (if n < 10 then [digit_char n] else show_nat (n div 10) @ [digit_char (n mod 10)])"

declare show_nat.simps [simp del]

definition fmt_d :: "int \<Rightarrow> string" where
  "fmt_d i = (if i < 0 then CHR ''-'' # show_nat (nat (- i)) else show_nat (nat i))"

text \<open>\<open>%02d\<close>: at least two characters, the sign included, filled with zeros.\<close>

definition fmt_02d :: "int \<Rightarrow> string" where
  "fmt_02d i =
     (let s = show_nat (nat \<bar>i\<bar>) in
      if i < 0 then CHR ''-'' # s else replicate (2 - length s) (CHR ''0'') @ s)"

text \<open>\<open>%0wd\<close> for any width.\<close>

definition fmt_0d :: "nat \<Rightarrow> int \<Rightarrow> string" where
  "fmt_0d w i =
     (let s = show_nat (nat \<bar>i\<bar>) in
      if i < 0 then CHR ''-'' # replicate (w - 1 - length s) (CHR ''0'') @ s
      else replicate (w - length s) (CHR ''0'') @ s)"

definition hex_digit :: "nat \<Rightarrow> char" where
  "hex_digit d = (if d < 10 then char_of (48 + d) else char_of (87 + d))"

definition fmt_02x :: "u8 \<Rightarrow> string" where
  "fmt_02x b = [hex_digit (unat b div 16), hex_digit (unat b mod 16)]"

lemma show_nat_digits: "c \<in> set (show_nat n) \<Longrightarrow> is_digit c"
proof (induction n rule: show_nat.induct)
  case (1 n)
  then show ?case by (subst (asm) (2) show_nat.simps) (auto split: if_splits)
qed

lemma show_nat_nonempty [simp]: "show_nat n \<noteq> []"
  by (subst show_nat.simps) simp

lemma show_nat_length: "n < 10 ^ k \<Longrightarrow> 0 < k \<Longrightarrow> length (show_nat n) \<le> k"
proof (induction n arbitrary: k rule: show_nat.induct)
  case (1 n)
  show ?case
  proof (cases "n < 10")
    case True
    then show ?thesis using 1 by (subst show_nat.simps) simp
  next
    case False
    then have "k \<noteq> 1" using 1 by auto
    then obtain m where k: "k = Suc m" "0 < m" using 1 by (cases k) auto
    then have "n div 10 < 10 ^ m" using 1
      by (simp add: less_mult_imp_div_less mult.commute)
    with 1 False k have "length (show_nat (n div 10)) \<le> m" by simp
    with False k show ?thesis by (subst show_nat.simps) simp
  qed
qed

section \<open>Reading\<close>

definition num_of_digits :: "string \<Rightarrow> nat" where
  "num_of_digits s = foldl (\<lambda>acc c. 10 * acc + digit_val c) 0 s"

text \<open>The value \<open>strtol(s, NULL, 10)\<close> reads, before any range check.\<close>

definition strtol_val :: "string \<Rightarrow> int" where
  "strtol_val s =
     (case dropWhile is_space s of
        [] \<Rightarrow> 0
      | c # t \<Rightarrow>
          if c = CHR ''-'' then - int (num_of_digits (takeWhile is_digit t))
          else if c = CHR ''+'' then int (num_of_digits (takeWhile is_digit t))
          else int (num_of_digits (takeWhile is_digit (c # t))))"

text \<open>\<open>atoi\<close> and \<open>atol\<close> are undefined when the value does not fit the result type.\<close>

definition atoi :: "string \<Rightarrow> int option" where
  "atoi s = (let v = strtol_val s in if - (2 ^ 31) \<le> v \<and> v < 2 ^ 31 then Some v else None)"

definition atol :: "string \<Rightarrow> int option" where
  "atol s = (let v = strtol_val s in if - (2 ^ 63) \<le> v \<and> v < 2 ^ 63 then Some v else None)"

lemma takeWhile_all: "(\<And>c. c \<in> set s \<Longrightarrow> P c) \<Longrightarrow> takeWhile P s = s"
  by (induction s) auto

lemma num_of_digits_snoc: "num_of_digits (s @ [c]) = 10 * num_of_digits s + digit_val c"
  by (simp add: num_of_digits_def)

lemma num_of_show_nat [simp]: "num_of_digits (show_nat n) = n"
proof (induction n rule: show_nat.induct)
  case (1 n)
  then show ?case
    by (subst show_nat.simps) (auto simp: num_of_digits_snoc num_of_digits_def)
qed

lemma takeWhile_show_nat [simp]: "takeWhile is_digit (show_nat n) = show_nat n"
  using show_nat_digits by (simp add: takeWhile_eq_all_conv)

lemma strtol_digits:
  assumes "s \<noteq> []" and "\<And>c. c \<in> set s \<Longrightarrow> is_digit c"
  shows "strtol_val s = int (num_of_digits s)"
proof -
  obtain c t where s: "s = c # t" using assms(1) by (cases s) auto
  then have c: "is_digit c" using assms(2) by simp
  then have "dropWhile is_space s = c # t" using s digit_not_space by simp
  then have "strtol_val s = int (num_of_digits (takeWhile is_digit (c # t)))"
    unfolding strtol_val_def using digit_neq_sign [OF c] by simp
  moreover have "takeWhile is_digit (c # t) = c # t"
    using assms(2) s by (intro takeWhile_all) simp
  ultimately show ?thesis using s by (simp del: takeWhile.simps)
qed

lemma strtol_show_nat [simp]: "strtol_val (show_nat n) = int n"
  by (simp add: strtol_digits show_nat_digits)

lemma strtol_minus_show_nat [simp]: "strtol_val (CHR ''-'' # show_nat n) = - int n"
  by (simp add: strtol_val_def is_space_def)

lemma strtol_fmt_d [simp]: "strtol_val (fmt_d i) = i"
  by (simp add: fmt_d_def)

lemma num_of_digits_zeros: "num_of_digits (replicate k (CHR ''0'') @ s) = num_of_digits s"
  by (induction k) (simp_all add: num_of_digits_def digit_val_def)

lemma fmt_02d_digits: "0 \<le> i \<Longrightarrow> c \<in> set (fmt_02d i) \<Longrightarrow> is_digit c"
  by (auto simp: fmt_02d_def Let_def is_digit_def dest: show_nat_digits)

lemma fmt_02d_nonempty [simp]: "fmt_02d i \<noteq> []"
  by (simp add: fmt_02d_def Let_def)

lemma strtol_fmt_02d [simp]: "strtol_val (fmt_02d i) = i"
proof (cases "i < 0")
  case True
  then show ?thesis by (simp add: fmt_02d_def Let_def)
next
  case False
  then have "strtol_val (fmt_02d i) = int (num_of_digits (fmt_02d i))"
    by (intro strtol_digits) (auto dest: fmt_02d_digits [rotated])
  with False show ?thesis
    by (simp add: fmt_02d_def Let_def num_of_digits_zeros)
qed

theorem atoi_fmt_d: "- (2 ^ 31) \<le> i \<Longrightarrow> i < 2 ^ 31 \<Longrightarrow> atoi (fmt_d i) = Some i"
  by (simp add: atoi_def)

theorem atol_fmt_d: "- (2 ^ 63) \<le> i \<Longrightarrow> i < 2 ^ 63 \<Longrightarrow> atol (fmt_d i) = Some i"
  by (simp add: atol_def)

theorem atoi_fmt_02d: "- (2 ^ 31) \<le> i \<Longrightarrow> i < 2 ^ 31 \<Longrightarrow> atoi (fmt_02d i) = Some i"
  by (simp add: atoi_def)

section \<open>Characters that printed numbers never contain\<close>

lemma fmt_d_chars: "c \<in> set (fmt_d i) \<Longrightarrow> is_digit c \<or> c = CHR ''-''"
  by (auto simp: fmt_d_def split: if_splits dest: show_nat_digits)

lemma fmt_d_nonneg_chars: "0 \<le> i \<Longrightarrow> c \<in> set (fmt_d i) \<Longrightarrow> is_digit c"
  by (auto simp: fmt_d_def dest: show_nat_digits)

lemma fmt_d_no_NUL [simp]: "NUL \<notin> set (fmt_d i)"
  using fmt_d_chars [of NUL i] by (auto simp: NUL_def is_digit_def)

lemma fmt_d_no_CR [simp]: "CHR 0x0D \<notin> set (fmt_d i)"
  using fmt_d_chars [of "CHR 0x0D" i] by (auto simp: is_digit_def)

lemma fmt_d_no_dash [simp]: "0 \<le> i \<Longrightarrow> CHR ''-'' \<notin> set (fmt_d i)"
  using fmt_d_nonneg_chars [of i "CHR ''-''"] by (auto simp: is_digit_def)

lemma fmt_02d_no_dash [simp]: "0 \<le> i \<Longrightarrow> CHR ''-'' \<notin> set (fmt_02d i)"
  using fmt_02d_digits [of i "CHR ''-''"] by (auto simp: is_digit_def)

lemma fmt_02d_no_NUL [simp]: "0 \<le> i \<Longrightarrow> NUL \<notin> set (fmt_02d i)"
  using fmt_02d_digits [of i NUL] by (auto simp: is_digit_def NUL_def)

lemma fmt_d_length:
  assumes "0 \<le> i" and "i < 10 ^ k" and "0 < k"
  shows "length (fmt_d i) \<le> k"
proof -
  have "nat i < 10 ^ k" using assms(1,2) by (simp add: nat_less_iff)
  then show ?thesis using assms by (simp add: fmt_d_def show_nat_length)
qed

lemma fmt_d_nonempty [simp]: "fmt_d i \<noteq> []"
  by (simp add: fmt_d_def)

lemma hex_digit_char: "d < 16 \<Longrightarrow>
  of_char (hex_digit d) = (if d < 10 then 48 + d else 87 + d)"
  by (simp add: hex_digit_def)

lemma fmt_02x_chars:
  assumes "c \<in> set (fmt_02x b)"
  shows "is_digit c \<or> (97 \<le> (of_char c :: nat) \<and> (of_char c :: nat) \<le> 102)"
proof -
  have "unat b < 256" using unsigned_less [of b] by simp
  then have "unat b div 16 < 16" "unat b mod 16 < 16" by (simp_all add: less_mult_imp_div_less)
  then show ?thesis using assms
    by (auto simp: fmt_02x_def hex_digit_char is_digit_def split: if_splits)
qed

lemma length_fmt_02x [simp]: "length (fmt_02x b) = 2"
  by (simp add: fmt_02x_def)

lemma fmt_02x_inj: "fmt_02x a = fmt_02x b \<longleftrightarrow> a = b"
proof
  assume eq: "fmt_02x a = fmt_02x b"
  have lt: "unat a < 256" "unat b < 256" using unsigned_less [of a] unsigned_less [of b] by simp_all
  have inj: "d = e" if "hex_digit d = hex_digit e" "d < 16" "e < 16" for d e
  proof -
    from that(1) have "of_char (hex_digit d) = (of_char (hex_digit e) :: nat)" by (rule arg_cong)
    with that(2,3) show ?thesis by (simp only: hex_digit_char) (simp split: if_splits)
  qed
  from lt have small: "unat x div 16 < 16" if "x \<in> {a, b}" for x
    using that by (auto simp: less_mult_imp_div_less)
  from eq have "unat a div 16 = unat b div 16" "unat a mod 16 = unat b mod 16"
    using small by (auto simp: fmt_02x_def intro!: inj)
  then have "unat a = unat b" by (metis div_mult_mod_eq)
  then show "a = b" by (rule word_unat_eq_iff [THEN iffD2])
qed simp

section \<open>Comparing printed numbers\<close>

text \<open>Digit strings of the same length compare like the numbers they stand for.\<close>

lemma fmt_0d_digits: "0 \<le> i \<Longrightarrow> c \<in> set (fmt_0d w i) \<Longrightarrow> is_digit c"
  by (auto simp: fmt_0d_def Let_def is_digit_def dest: show_nat_digits)

lemma length_fmt_0d:
  assumes "0 \<le> i" and "i < 10 ^ w" and "0 < w"
  shows "length (fmt_0d w i) = w"
proof -
  have "length (show_nat (nat i)) \<le> w" using assms show_nat_length [of "nat i" w] by (simp add: nat_less_iff)
  then show ?thesis using assms(1) by (simp add: fmt_0d_def Let_def)
qed

lemma num_of_fmt_0d [simp]: "0 \<le> i \<Longrightarrow> num_of_digits (fmt_0d w i) = nat i"
  by (simp add: fmt_0d_def Let_def num_of_digits_zeros)

lemma num_of_digits_append:
  "num_of_digits (s @ t) = num_of_digits s * 10 ^ length t + num_of_digits t"
proof (induction t rule: rev_induct)
  case (snoc c t)
  have "num_of_digits (s @ t @ [c]) = 10 * num_of_digits (s @ t) + digit_val c"
    using num_of_digits_snoc [of "s @ t" c] by simp
  with snoc show ?case by (simp add: num_of_digits_snoc algebra_simps)
qed (simp add: num_of_digits_def)

lemma num_of_digits_less:
  "(\<And>c. c \<in> set s \<Longrightarrow> is_digit c) \<Longrightarrow> num_of_digits s < 10 ^ length s"
proof (induction s rule: rev_induct)
  case (snoc c s)
  have "digit_val c < 10" using snoc.prems [of c] by (auto simp: digit_val_def is_digit_def)
  moreover have "num_of_digits s < 10 ^ length s" using snoc by simp
  ultimately show ?case by (simp add: num_of_digits_snoc)
qed (simp add: num_of_digits_def)

lemma strcmp_digits:
  assumes "length s = length t" and "\<And>c. c \<in> set s \<union> set t \<Longrightarrow> is_digit c"
  shows "strcmp s t = (if num_of_digits s < num_of_digits t then - 1 else if num_of_digits s = num_of_digits t then 0 else 1)"
  using assms
proof (induction s t rule: list_induct2)
  case (Cons x xs y ys)
  have d: "is_digit x" "is_digit y" "num_of_digits xs < 10 ^ length ys" "num_of_digits ys < 10 ^ length ys"
    using Cons.prems Cons.hyps num_of_digits_less [of xs] num_of_digits_less [of ys] by auto
  have one: "num_of_digits [c] = digit_val c" for c by (simp add: num_of_digits_def)
  have n: "num_of_digits (x # xs) = digit_val x * 10 ^ length ys + num_of_digits xs"
    "num_of_digits (y # ys) = digit_val y * 10 ^ length ys + num_of_digits ys"
    using num_of_digits_append [of "[x]" xs] num_of_digits_append [of "[y]" ys] Cons.hyps by (simp_all add: one)
  have lt: "digit_val a * 10 ^ length ys + p < digit_val b * 10 ^ length ys + q"
    if "digit_val a < digit_val b" "p < 10 ^ length ys" for a b and p q :: nat
  proof -
    have "Suc (digit_val a) * 10 ^ length ys \<le> digit_val b * 10 ^ length ys"
      using that(1) by (intro mult_right_mono) simp_all
    with that(2) show ?thesis by simp
  qed
  have v: "of_char x < (of_char y :: nat) \<longleftrightarrow> digit_val x < digit_val y" "x = y \<longleftrightarrow> digit_val x = digit_val y"
    using d(1,2) of_char_eq_iff [of x y, where ?'a = nat] unfolding digit_val_def is_digit_def by linarith+
  consider "x = y" | "digit_val x < digit_val y" | "digit_val y < digit_val x" using v(2) by linarith
  then show ?case
  proof cases
    case 1
    then show ?thesis using Cons n by auto
  next
    case 2
    then show ?thesis using lt [OF 2 d(3), of "num_of_digits ys"] v by (auto simp: n)
  next
    case 3
    then show ?thesis using lt [OF 3 d(4), of "num_of_digits xs"] v by (auto simp: n)
  qed
qed (simp add: num_of_digits_def)

end
