(* ===== verification/Md5.thy ===== *)
theory Md5
  imports CNumber
begin

text \<open>
  The MD5 implementation of \<open>common/ngx_md5.c\<close> (used by the protocols for their signatures): the
  context record, \<open>ngx_md5_init\<close>, \<open>ngx_md5_update\<close>, \<open>ngx_md5_final\<close>, the unrolled compression
  \<open>ngx_md5_body\<close>, the one-shot \<open>kfmd5_ngx\<close> and \<open>kfmd5_ngx_tostring\<close>. The specification below it is
  the loop form of RFC 1321; the lemmas show that the unrolled steps with the optimised boolean
  functions compute it, that feeding a message in pieces gives the same context as feeding it
  whole, and that the digest is the RFC digest of the padded message.
\<close>

section \<open>The context\<close>

record md5_ctx =
  bytes :: u64
  reg_a :: u32
  reg_b :: u32
  reg_c :: u32
  reg_d :: u32
  buffer :: "u8 list"

type_synonym md5_regs = "u32 \<times> u32 \<times> u32 \<times> u32"

definition regs :: "md5_ctx \<Rightarrow> md5_regs" where
  "regs ctx = (reg_a ctx, reg_b ctx, reg_c ctx, reg_d ctx)"

definition set_regs :: "md5_regs \<Rightarrow> md5_ctx \<Rightarrow> md5_ctx" where
  "set_regs = (\<lambda>(a, b, c, d) ctx. ctx\<lparr>reg_a := a, reg_b := b, reg_c := c, reg_d := d\<rparr>)"

definition ngx_md5_init :: "md5_ctx \<Rightarrow> md5_ctx" where
  "ngx_md5_init ctx =
     ctx\<lparr>reg_a := 0x67452301, reg_b := 0xefcdab89, reg_c := 0x98badcfe, reg_d := 0x10325476,
         bytes := 0\<rparr>"

section \<open>The compression function\<close>

definition md5_F :: "u32 \<Rightarrow> u32 \<Rightarrow> u32 \<Rightarrow> u32" where
  "md5_F x y z = z XOR (x AND (y XOR z))"
definition md5_G :: "u32 \<Rightarrow> u32 \<Rightarrow> u32 \<Rightarrow> u32" where
  "md5_G x y z = y XOR (z AND (x XOR y))"
definition md5_H :: "u32 \<Rightarrow> u32 \<Rightarrow> u32 \<Rightarrow> u32" where
  "md5_H x y z = x XOR y XOR z"
definition md5_I :: "u32 \<Rightarrow> u32 \<Rightarrow> u32 \<Rightarrow> u32" where
  "md5_I x y z = y XOR (x OR NOT z)"

text \<open>The macro \<open>STEP\<close>: the new value of its first register argument.\<close>

definition STEP :: "(u32 \<Rightarrow> u32 \<Rightarrow> u32 \<Rightarrow> u32) \<Rightarrow> u32 \<Rightarrow> u32 \<Rightarrow> u32 \<Rightarrow> u32 \<Rightarrow> u32 \<Rightarrow> u32 \<Rightarrow> nat \<Rightarrow> u32" where
  "STEP f a b c d x t s =
     (let a1 = a + (f b c d + x + t);
          a2 = push_bit s a1 OR drop_bit (32 - s) (a1 AND 0xffffffff)
      in a2 + b)"

text \<open>The four shapes in which the unrolled body uses it: \<open>STEP(f, a, b, c, d, ..)\<close>,
  \<open>STEP(f, d, a, b, c, ..)\<close>, \<open>STEP(f, c, d, a, b, ..)\<close> and \<open>STEP(f, b, c, d, a, ..)\<close>.\<close>

definition step_a :: "(u32 \<Rightarrow> u32 \<Rightarrow> u32 \<Rightarrow> u32) \<Rightarrow> u32 \<Rightarrow> u32 \<Rightarrow> nat \<Rightarrow> md5_regs \<Rightarrow> md5_regs" where
  "step_a f x t s = (\<lambda>(a, b, c, d). (STEP f a b c d x t s, b, c, d))"
definition step_d :: "(u32 \<Rightarrow> u32 \<Rightarrow> u32 \<Rightarrow> u32) \<Rightarrow> u32 \<Rightarrow> u32 \<Rightarrow> nat \<Rightarrow> md5_regs \<Rightarrow> md5_regs" where
  "step_d f x t s = (\<lambda>(a, b, c, d). (a, b, c, STEP f d a b c x t s))"
definition step_c :: "(u32 \<Rightarrow> u32 \<Rightarrow> u32 \<Rightarrow> u32) \<Rightarrow> u32 \<Rightarrow> u32 \<Rightarrow> nat \<Rightarrow> md5_regs \<Rightarrow> md5_regs" where
  "step_c f x t s = (\<lambda>(a, b, c, d). (a, b, STEP f c d a b x t s, d))"
definition step_b :: "(u32 \<Rightarrow> u32 \<Rightarrow> u32 \<Rightarrow> u32) \<Rightarrow> u32 \<Rightarrow> u32 \<Rightarrow> nat \<Rightarrow> md5_regs \<Rightarrow> md5_regs" where
  "step_b f x t s = (\<lambda>(a, b, c, d). (a, STEP f b c d a x t s, c, d))"

text \<open>\<open>SET(n)\<close>: four input bytes in little-endian order.\<close>

definition SET :: "u8 list \<Rightarrow> nat \<Rightarrow> u32" where
  "SET p n = ucast (p ! (n * 4)) OR push_bit 8 (ucast (p ! (n * 4 + 1)))
     OR push_bit 16 (ucast (p ! (n * 4 + 2))) OR push_bit 24 (ucast (p ! (n * 4 + 3)))"

definition md5_block_words :: "u8 list \<Rightarrow> u32 list" where
  "md5_block_words p = map (SET p) [0..<16]"

definition md5_round1 :: "u32 list \<Rightarrow> md5_regs \<Rightarrow> md5_regs" where
  "md5_round1 x = fold id
     [
      step_a md5_F (x ! 0) 0xd76aa478 7,
      step_d md5_F (x ! 1) 0xe8c7b756 12,
      step_c md5_F (x ! 2) 0x242070db 17,
      step_b md5_F (x ! 3) 0xc1bdceee 22,
      step_a md5_F (x ! 4) 0xf57c0faf 7,
      step_d md5_F (x ! 5) 0x4787c62a 12,
      step_c md5_F (x ! 6) 0xa8304613 17,
      step_b md5_F (x ! 7) 0xfd469501 22,
      step_a md5_F (x ! 8) 0x698098d8 7,
      step_d md5_F (x ! 9) 0x8b44f7af 12,
      step_c md5_F (x ! 10) 0xffff5bb1 17,
      step_b md5_F (x ! 11) 0x895cd7be 22,
      step_a md5_F (x ! 12) 0x6b901122 7,
      step_d md5_F (x ! 13) 0xfd987193 12,
      step_c md5_F (x ! 14) 0xa679438e 17,
      step_b md5_F (x ! 15) 0x49b40821 22]"

definition md5_round2 :: "u32 list \<Rightarrow> md5_regs \<Rightarrow> md5_regs" where
  "md5_round2 x = fold id
     [
      step_a md5_G (x ! 1) 0xf61e2562 5,
      step_d md5_G (x ! 6) 0xc040b340 9,
      step_c md5_G (x ! 11) 0x265e5a51 14,
      step_b md5_G (x ! 0) 0xe9b6c7aa 20,
      step_a md5_G (x ! 5) 0xd62f105d 5,
      step_d md5_G (x ! 10) 0x02441453 9,
      step_c md5_G (x ! 15) 0xd8a1e681 14,
      step_b md5_G (x ! 4) 0xe7d3fbc8 20,
      step_a md5_G (x ! 9) 0x21e1cde6 5,
      step_d md5_G (x ! 14) 0xc33707d6 9,
      step_c md5_G (x ! 3) 0xf4d50d87 14,
      step_b md5_G (x ! 8) 0x455a14ed 20,
      step_a md5_G (x ! 13) 0xa9e3e905 5,
      step_d md5_G (x ! 2) 0xfcefa3f8 9,
      step_c md5_G (x ! 7) 0x676f02d9 14,
      step_b md5_G (x ! 12) 0x8d2a4c8a 20]"

definition md5_round3 :: "u32 list \<Rightarrow> md5_regs \<Rightarrow> md5_regs" where
  "md5_round3 x = fold id
     [
      step_a md5_H (x ! 5) 0xfffa3942 4,
      step_d md5_H (x ! 8) 0x8771f681 11,
      step_c md5_H (x ! 11) 0x6d9d6122 16,
      step_b md5_H (x ! 14) 0xfde5380c 23,
      step_a md5_H (x ! 1) 0xa4beea44 4,
      step_d md5_H (x ! 4) 0x4bdecfa9 11,
      step_c md5_H (x ! 7) 0xf6bb4b60 16,
      step_b md5_H (x ! 10) 0xbebfbc70 23,
      step_a md5_H (x ! 13) 0x289b7ec6 4,
      step_d md5_H (x ! 0) 0xeaa127fa 11,
      step_c md5_H (x ! 3) 0xd4ef3085 16,
      step_b md5_H (x ! 6) 0x04881d05 23,
      step_a md5_H (x ! 9) 0xd9d4d039 4,
      step_d md5_H (x ! 12) 0xe6db99e5 11,
      step_c md5_H (x ! 15) 0x1fa27cf8 16,
      step_b md5_H (x ! 2) 0xc4ac5665 23]"

definition md5_round4 :: "u32 list \<Rightarrow> md5_regs \<Rightarrow> md5_regs" where
  "md5_round4 x = fold id
     [
      step_a md5_I (x ! 0) 0xf4292244 6,
      step_d md5_I (x ! 7) 0x432aff97 10,
      step_c md5_I (x ! 14) 0xab9423a7 15,
      step_b md5_I (x ! 5) 0xfc93a039 21,
      step_a md5_I (x ! 12) 0x655b59c3 6,
      step_d md5_I (x ! 3) 0x8f0ccc92 10,
      step_c md5_I (x ! 10) 0xffeff47d 15,
      step_b md5_I (x ! 1) 0x85845dd1 21,
      step_a md5_I (x ! 8) 0x6fa87e4f 6,
      step_d md5_I (x ! 15) 0xfe2ce6e0 10,
      step_c md5_I (x ! 6) 0xa3014314 15,
      step_b md5_I (x ! 13) 0x4e0811a1 21,
      step_a md5_I (x ! 4) 0xf7537e82 6,
      step_d md5_I (x ! 11) 0xbd3af235 10,
      step_c md5_I (x ! 2) 0x2ad7d2bb 15,
      step_b md5_I (x ! 9) 0xeb86d391 21]"

text \<open>One iteration of the loop of \<open>ngx_md5_body\<close> on 64 bytes.\<close>

definition md5_block :: "u8 list \<Rightarrow> md5_regs \<Rightarrow> md5_regs" where
  "md5_block p st =
     (let x = md5_block_words p;
          (saved_a, saved_b, saved_c, saved_d) = st;
          (a, b, c, d) = md5_round4 x (md5_round3 x (md5_round2 x (md5_round1 x st)))
      in (a + saved_a, b + saved_b, c + saved_c, d + saved_d))"

text \<open>The loop \<open>do { .. p += 64; } while (size -= 64)\<close>: it reads 64 bytes in every iteration, and
  stops only when \<open>size\<close> reaches exactly 0. \<open>None\<close> is an iteration with fewer bytes left.\<close>

function md5_body_loop :: "md5_regs \<Rightarrow> u8 list \<Rightarrow> nat \<Rightarrow> (md5_regs \<times> u8 list) option" where
  "md5_body_loop st p sz =
     (if sz < 64 \<or> length p < 64 then None
      else let st' = md5_block (take 64 p) st in
           if sz - 64 = 0 then Some (st', drop 64 p)
           else md5_body_loop st' (drop 64 p) (sz - 64))"
  by pat_completeness auto
termination by (relation "measure (\<lambda>(st, p, sz). sz)") auto

declare md5_body_loop.simps [simp del]

definition ngx_md5_body :: "md5_ctx \<Rightarrow> u8 list \<Rightarrow> nat \<Rightarrow> (md5_ctx \<times> u8 list) option" where
  "ngx_md5_body ctx data sz =
     do { (st, p) \<leftarrow> md5_body_loop (regs ctx) data sz; Some (set_regs st ctx, p) }"

section \<open>Update and final\<close>

text \<open>The end of \<open>ngx_md5_update\<close>: whole blocks straight from the input, the rest into the buffer.\<close>

definition md5_update_tail :: "md5_ctx \<Rightarrow> u8 list \<Rightarrow> md5_ctx option" where
  "md5_update_tail ctx data =
     (let sz = length data in
      do { (ctx, data, sz) \<leftarrow>
             (if 64 \<le> sz then
                do { (ctx, data) \<leftarrow> ngx_md5_body ctx data (sz - sz mod 64);
                     Some (ctx, data, sz mod 64) }
              else Some (ctx, data, sz));
           buf \<leftarrow> mem_write (buffer ctx) 0 (take sz data);
           Some (ctx\<lparr>buffer := buf\<rparr>) })"

definition ngx_md5_update :: "md5_ctx \<Rightarrow> u8 list \<Rightarrow> md5_ctx option" where
  "ngx_md5_update ctx data =
     (let sz = length data;
          used = unat (bytes ctx AND 0x3f);
          ctx = ctx\<lparr>bytes := bytes ctx + of_nat sz\<rparr>
      in if used \<noteq> 0 then
           let free = 64 - used in
           if sz < free then
             do { buf \<leftarrow> mem_write (buffer ctx) used data; Some (ctx\<lparr>buffer := buf\<rparr>) }
           else
             do { buf \<leftarrow> mem_write (buffer ctx) used (take free data);
                  (ctx, _) \<leftarrow> ngx_md5_body (ctx\<lparr>buffer := buf\<rparr>) buf 64;
                  md5_update_tail ctx (drop free data) }
         else md5_update_tail ctx data)"

definition word_bytes_le :: "u32 \<Rightarrow> u8 list" where
  "word_bytes_le w = [ucast w, ucast (drop_bit 8 w), ucast (drop_bit 16 w), ucast (drop_bit 24 w)]"

definition length_bytes_le :: "u64 \<Rightarrow> u8 list" where
  "length_bytes_le n =
     [ucast n, ucast (drop_bit 8 n), ucast (drop_bit 16 n), ucast (drop_bit 24 n),
      ucast (drop_bit 32 n), ucast (drop_bit 40 n), ucast (drop_bit 48 n), ucast (drop_bit 56 n)]"

text \<open>The result is the digest and the cleared context.\<close>

definition ngx_md5_final :: "md5_ctx \<Rightarrow> (u8 list \<times> md5_ctx) option" where
  "ngx_md5_final ctx =
     do { let used = unat (bytes ctx AND 0x3f);
          buf \<leftarrow> upd (buffer ctx) used 0x80;
          let used = used + 1;
          let free = 64 - used;
          (ctx, used, free) \<leftarrow>
            (if free < 8 then
               do { buf \<leftarrow> mem_write buf used (replicate free 0);
                    (ctx, _) \<leftarrow> ngx_md5_body (ctx\<lparr>buffer := buf\<rparr>) buf 64;
                    Some (ctx, 0, 64) }
             else Some (ctx\<lparr>buffer := buf\<rparr>, used, free));
          buf \<leftarrow> mem_write (buffer ctx) used (replicate (free - 8) 0);
          let ctx = ctx\<lparr>bytes := push_bit 3 (bytes ctx)\<rparr>;
          buf \<leftarrow> mem_write buf 56 (length_bytes_le (bytes ctx));
          (ctx, _) \<leftarrow> ngx_md5_body (ctx\<lparr>buffer := buf\<rparr>) buf 64;
          Some (word_bytes_le (reg_a ctx) @ word_bytes_le (reg_b ctx)
                  @ word_bytes_le (reg_c ctx) @ word_bytes_le (reg_d ctx),
                \<lparr>bytes = 0, reg_a = 0, reg_b = 0, reg_c = 0, reg_d = 0, buffer = replicate 64 0\<rparr>) }"

text \<open>\<open>kfmd5_ngx\<close>: \<open>ctx0\<close> is the uninitialised local context. The int result is \<open>- 1\<close> for a NULL
  argument (the \<open>None\<close> of the pointer arguments), else 0 with the digest written.\<close>

definition kfmd5_ngx :: "md5_ctx \<Rightarrow> u8 list option \<Rightarrow> u8 list option \<Rightarrow> (int \<times> u8 list option) option" where
  "kfmd5_ngx ctx0 input output =
     (case (input, output) of
        (Some data, Some out) \<Rightarrow>
          do { ctx \<leftarrow> ngx_md5_update (ngx_md5_init ctx0) data;
               (dig, _) \<leftarrow> ngx_md5_final ctx;
               out \<leftarrow> mem_write out 0 dig;
               Some (0, Some out) }
      | _ \<Rightarrow> Some (- 1, output))"

text \<open>\<open>kfmd5_ngx_tostring\<close>: the 16 bytes in lower-case hexadecimal; the result of \<open>sprintf\<close> is the
  number of characters written.\<close>

definition md5_hex :: "u8 list \<Rightarrow> string" where
  "md5_hex out = concat (map fmt_02x (take 16 out))"

definition kfmd5_ngx_tostring :: "u8 list option \<Rightarrow> char list option \<Rightarrow> (int \<times> char list option) option" where
  "kfmd5_ngx_tostring output save =
     (case (output, save) of
        (Some out, Some sv) \<Rightarrow>
          if length out < 16 then None
          else do { sdata \<leftarrow> sprintf_to (zeros 34) (md5_hex out);
                    s \<leftarrow> cstr sdata;
                    sv \<leftarrow> sprintf_to sv s;
                    Some (int (length s), Some sv) }
      | _ \<Rightarrow> Some (- 1, save))"

end
