(* ===== verification/Md5_Spec.thy ===== *)
theory Md5_Spec
  imports Md5
begin

text \<open>
  MD5 as RFC 1321 defines it (a loop over 64 operations with index, constant and shift tables, and
  the padding of the whole message), the proof that \<open>ngx_md5_body\<close> computes its compression, the
  relation between a context and the message fed to it so far, and the digest theorem.
\<close>

section \<open>The RFC functions and operations\<close>

definition rfc_fun :: "nat \<Rightarrow> u32 \<Rightarrow> u32 \<Rightarrow> u32 \<Rightarrow> u32" where
  "rfc_fun i b c d =
     (if i < 16 then (b AND c) OR (NOT b AND d)
      else if i < 32 then (b AND d) OR (c AND NOT d)
      else if i < 48 then b XOR c XOR d
      else c XOR (b OR NOT d))"

definition rfc_index :: "nat \<Rightarrow> nat" where
  "rfc_index i =
     (if i < 16 then i
      else if i < 32 then (5 * i + 1) mod 16
      else if i < 48 then (3 * i + 5) mod 16
      else (7 * i) mod 16)"

definition rfc_shift :: "nat \<Rightarrow> nat" where
  "rfc_shift i =
     (if i < 16 then [7, 12, 17, 22]
      else if i < 32 then [5, 9, 14, 20]
      else if i < 48 then [4, 11, 16, 23]
      else [6, 10, 15, 21]) ! (i mod 4)"

definition rfc_K :: "u32 list" where
  "rfc_K =
    [0xd76aa478, 0xe8c7b756, 0x242070db, 0xc1bdceee,
     0xf57c0faf, 0x4787c62a, 0xa8304613, 0xfd469501,
     0x698098d8, 0x8b44f7af, 0xffff5bb1, 0x895cd7be,
     0x6b901122, 0xfd987193, 0xa679438e, 0x49b40821,
     0xf61e2562, 0xc040b340, 0x265e5a51, 0xe9b6c7aa,
     0xd62f105d, 0x02441453, 0xd8a1e681, 0xe7d3fbc8,
     0x21e1cde6, 0xc33707d6, 0xf4d50d87, 0x455a14ed,
     0xa9e3e905, 0xfcefa3f8, 0x676f02d9, 0x8d2a4c8a,
     0xfffa3942, 0x8771f681, 0x6d9d6122, 0xfde5380c,
     0xa4beea44, 0x4bdecfa9, 0xf6bb4b60, 0xbebfbc70,
     0x289b7ec6, 0xeaa127fa, 0xd4ef3085, 0x04881d05,
     0xd9d4d039, 0xe6db99e5, 0x1fa27cf8, 0xc4ac5665,
     0xf4292244, 0x432aff97, 0xab9423a7, 0xfc93a039,
     0x655b59c3, 0x8f0ccc92, 0xffeff47d, 0x85845dd1,
     0x6fa87e4f, 0xfe2ce6e0, 0xa3014314, 0x4e0811a1,
     0xf7537e82, 0xbd3af235, 0x2ad7d2bb, 0xeb86d391]"

definition rfc_step :: "u32 list \<Rightarrow> nat \<Rightarrow> md5_regs \<Rightarrow> md5_regs" where
  "rfc_step x i = (\<lambda>(a, b, c, d).
     (d, b + word_rotl (rfc_shift i) (a + rfc_fun i b c d + rfc_K ! i + x ! rfc_index i), b, c))"

definition rfc_compress :: "u8 list \<Rightarrow> md5_regs \<Rightarrow> md5_regs" where
  "rfc_compress p = (\<lambda>(a0, b0, c0, d0).
     case fold (rfc_step (md5_block_words p)) [0..<64] (a0, b0, c0, d0) of
       (a, b, c, d) \<Rightarrow> (a0 + a, b0 + b, c0 + c, d0 + d))"

fun rfc_blocks :: "u8 list \<Rightarrow> md5_regs \<Rightarrow> md5_regs" where
  "rfc_blocks m st =
     (if length m < 64 then st else rfc_blocks (drop 64 m) (rfc_compress (take 64 m) st))"

declare rfc_blocks.simps [simp del]

definition rfc_iv :: md5_regs where
  "rfc_iv = (0x67452301, 0xefcdab89, 0x98badcfe, 0x10325476)"

definition rfc_pad :: "u8 list \<Rightarrow> u8 list" where
  "rfc_pad m =
     m @ [0x80] @ replicate ((119 - length m mod 64) mod 64) 0
       @ length_bytes_le (of_nat (8 * length m))"

definition regs_bytes :: "md5_regs \<Rightarrow> u8 list" where
  "regs_bytes = (\<lambda>(a, b, c, d).
     word_bytes_le a @ word_bytes_le b @ word_bytes_le c @ word_bytes_le d)"

definition rfc_digest :: "u8 list \<Rightarrow> u8 list" where
  "rfc_digest m = regs_bytes (rfc_blocks (rfc_pad m) rfc_iv)"

section \<open>The unrolled body computes the RFC compression\<close>

lemma md5_F_rfc: "md5_F b c d = (b AND c) OR (NOT b AND d)"
  by (rule bit_eqI) (auto simp: md5_F_def bit_simps)

lemma md5_G_rfc: "md5_G b c d = (b AND d) OR (c AND NOT d)"
  by (rule bit_eqI) (auto simp: md5_G_def bit_simps)

lemma md5_I_rfc: "md5_I b c d = c XOR (b OR NOT d)"
  by (simp add: md5_I_def)

lemma rotl_shifts:
  fixes w :: u32
  assumes "0 < s" and "s < 32"
  shows "push_bit s w OR drop_bit (32 - s) w = word_rotl s w"
proof (rule bit_word_eqI)
  fix n assume "n < LENGTH(32)"
  then have n: "n < 32" by simp
  show "bit (push_bit s w OR drop_bit (32 - s) w) n = bit (word_rotl s w) n"
  proof (cases "s \<le> n")
    case True
    have "\<not> bit w (32 - s + n)" using True bit_imp_le_length [of w "32 - s + n"] assms by auto
    moreover have "(n + (32 - s)) mod 32 = n - s" using True n assms by (simp add: mod_if)
    ultimately show ?thesis using True n assms
      by (simp add: bit_simps bit_word_rotl_iff)
  next
    case False
    then have "(n + (32 - s)) mod 32 = 32 - s + n" using assms by simp
    then show ?thesis using False n assms by (simp add: bit_simps bit_word_rotl_iff)
  qed
qed

lemma STEP_rotl:
  assumes "0 < s" and "s < 32"
  shows "STEP f a b c d x t s = b + word_rotl s (a + f b c d + t + x)"
proof -
  have "(0xffffffff :: u32) = - 1" by simp
  then have "(w :: u32) AND 0xffffffff = w" for w by (simp only: and.right_neutral)
  then show ?thesis
    using assms by (simp add: STEP_def Let_def rotl_shifts ac_simps)
qed

text \<open>One operation of the RFC with its tables looked up.\<close>

definition rfc_op :: "(u32 \<Rightarrow> u32 \<Rightarrow> u32 \<Rightarrow> u32) \<Rightarrow> u32 \<Rightarrow> u32 \<Rightarrow> nat \<Rightarrow> md5_regs \<Rightarrow> md5_regs" where
  "rfc_op f x t s = (\<lambda>(a, b, c, d). (d, b + word_rotl s (a + f b c d + t + x), b, c))"

lemma rfc_step_op: "rfc_step x i = rfc_op (rfc_fun i) (x ! rfc_index i) (rfc_K ! i) (rfc_shift i)"
  by (simp add: rfc_step_def rfc_op_def fun_eq_iff)

text \<open>Four unrolled steps, each writing another register, are four operations of the RFC, which
  rotate the registers instead.\<close>

lemma four_steps:
  assumes "0 < s0" "s0 < 32" "0 < s1" "s1 < 32" "0 < s2" "s2 < 32" "0 < s3" "s3 < 32"
  shows "step_b f x3 t3 s3 (step_c f x2 t2 s2 (step_d f x1 t1 s1 (step_a f x0 t0 s0 st)))
       = rfc_op f x3 t3 s3 (rfc_op f x2 t2 s2 (rfc_op f x1 t1 s1 (rfc_op f x0 t0 s0 st)))"
  using assms
  by (cases st) (simp add: step_a_def step_b_def step_c_def step_d_def rfc_op_def STEP_rotl)

lemma rfc_fun_rounds:
  "i < 16 \<Longrightarrow> rfc_fun i = md5_F"
  "16 \<le> i \<Longrightarrow> i < 32 \<Longrightarrow> rfc_fun i = md5_G"
  "32 \<le> i \<Longrightarrow> i < 48 \<Longrightarrow> rfc_fun i = md5_H"
  "48 \<le> i \<Longrightarrow> rfc_fun i = md5_I"
  by (simp_all add: rfc_fun_def fun_eq_iff md5_F_rfc md5_G_rfc md5_H_def md5_I_rfc)

lemmas rfc_tables = rfc_step_op rfc_fun_rounds rfc_index_def rfc_shift_def rfc_K_def upt_rec_numeral

lemma round1_rfc: "md5_round1 x st = fold (rfc_step x) [0..<16] st"
proof -
  have "[0..<16] = (0::nat) # 1 # [2..<16]"
    using upt_conv_Cons [of 0 16] upt_conv_Cons [of 1 16] by (simp add: numeral_2_eq_2)
  then show ?thesis by (simp add: md5_round1_def four_steps rfc_tables)
qed

lemma round2_rfc: "md5_round2 x st = fold (rfc_step x) [16..<32] st"
  by (simp add: md5_round2_def four_steps rfc_tables)

lemma round3_rfc: "md5_round3 x st = fold (rfc_step x) [32..<48] st"
  by (simp add: md5_round3_def four_steps rfc_tables)

lemma round4_rfc: "md5_round4 x st = fold (rfc_step x) [48..<64] st"
  by (simp add: md5_round4_def four_steps rfc_tables)

theorem md5_block_rfc: "md5_block p st = rfc_compress p st"
proof -
  have "[0..<64] = [0..<16] @ [16..<32] @ [32..<48] @ [48..<64::nat]"
    using upt_add_eq_append [of 0 16 48] upt_add_eq_append [of 16 32 32]
      upt_add_eq_append [of 32 48 16] by simp
  then have "fold (rfc_step x) [0..<64] st
      = md5_round4 x (md5_round3 x (md5_round2 x (md5_round1 x st)))" for x
    by (simp only: fold_append comp_apply round1_rfc round2_rfc round3_rfc round4_rfc)
  then show ?thesis
    by (cases st) (simp add: md5_block_def rfc_compress_def Let_def add.commute split: prod.split)
qed

section \<open>Messages fed in pieces\<close>

lemma rfc_blocks_short [simp]: "length m < 64 \<Longrightarrow> rfc_blocks m st = st"
  by (subst rfc_blocks.simps) simp

lemma rfc_blocks_block [simp]:
  "length b = 64 \<Longrightarrow> rfc_blocks (b @ m) st = rfc_blocks m (rfc_compress b st)"
  by (subst rfc_blocks.simps) simp

lemma rfc_blocks_append:
  "64 dvd length m \<Longrightarrow> rfc_blocks (m @ m') st = rfc_blocks m' (rfc_blocks m st)"
proof (induction m st rule: rfc_blocks.induct)
  case (1 m st)
  show ?case
  proof (cases "length m < 64")
    case True
    then have "m = []" using 1 by (auto dest: dvd_imp_le)
    then show ?thesis by simp
  next
    case False
    then have len: "length (take 64 m) = 64" by simp
    have "64 dvd length (drop 64 m)" using 1(2) False by (simp add: dvd_minus_self)
    then have "rfc_blocks (drop 64 m @ m') (rfc_compress (take 64 m) st)
        = rfc_blocks m' (rfc_blocks (drop 64 m) (rfc_compress (take 64 m) st))"
      using 1(1) False by simp
    moreover have "m @ m' = take 64 m @ (drop 64 m @ m')" by simp
    ultimately show ?thesis
      using len rfc_blocks_block [of "take 64 m" "drop 64 m @ m'" st]
        rfc_blocks_block [of "take 64 m" "drop 64 m" st]
      by (metis append_take_drop_id)
  qed
qed

lemma body_loop_rfc:
  "64 dvd sz \<Longrightarrow> 0 < sz \<Longrightarrow> sz \<le> length p \<Longrightarrow>
     md5_body_loop st p sz = Some (rfc_blocks (take sz p) st, drop sz p)"
proof (induction st p sz rule: md5_body_loop.induct)
  case (1 st p sz)
  then have sz: "64 \<le> sz" by (auto dest: dvd_imp_le)
  have tk: "take sz p = take 64 p @ take (sz - 64) (drop 64 p)"
    using sz by (metis le_add_diff_inverse take_add)
  have blk: "length (take 64 p) = 64" using sz 1(4) by simp
  show ?case
  proof (cases "sz = 64")
    case True
    then show ?thesis using 1(4) blk
      by (subst md5_body_loop.simps) (simp add: md5_block_rfc rfc_blocks_block [of _ "[]", simplified])
  next
    case False
    then have "md5_body_loop (md5_block (take 64 p) st) (drop 64 p) (sz - 64)
        = Some (rfc_blocks (take (sz - 64) (drop 64 p)) (md5_block (take 64 p) st),
                drop (sz - 64) (drop 64 p))"
      using 1 sz by (simp add: dvd_minus_self)
    then show ?thesis using False 1(4) sz blk
      by (subst md5_body_loop.simps) (simp add: tk md5_block_rfc)
  qed
qed

lemma body_rfc:
  assumes "64 dvd sz" "0 < sz" "sz \<le> length p"
  shows "ngx_md5_body ctx p sz
       = Some (set_regs (rfc_blocks (take sz p) (regs ctx)) ctx, drop sz p)"
  using assms by (simp add: ngx_md5_body_def body_loop_rfc)

lemma rfc_blocks_one: "length b = 64 \<Longrightarrow> rfc_blocks b st = rfc_compress b st"
  using rfc_blocks_block [of b "[]" st] by simp

lemma body_block:
  assumes "length b = 64"
  shows "ngx_md5_body c b 64 = Some (set_regs (rfc_compress b (regs c)) c, [])"
  using assms body_rfc [of 64 b c] by (simp add: rfc_blocks_one)

text \<open>The context after the message \<open>m\<close>: the length counter, the registers after its full blocks,
  and its last incomplete block in the buffer.\<close>

definition full_len :: "u8 list \<Rightarrow> nat" where "full_len m = length m - length m mod 64"

definition md5_repr :: "md5_ctx \<Rightarrow> u8 list \<Rightarrow> bool" where
  "md5_repr ctx m \<longleftrightarrow>
     bytes ctx = of_nat (length m) \<and>
     regs ctx = rfc_blocks (take (full_len m) m) rfc_iv \<and>
     length (buffer ctx) = 64 \<and>
     take (length m mod 64) (buffer ctx) = drop (full_len m) m"

lemma md5_repr_init: "length (buffer ctx) = 64 \<Longrightarrow> md5_repr (ngx_md5_init ctx) []"
  by (simp add: md5_repr_def ngx_md5_init_def regs_def rfc_iv_def full_len_def)

lemma regs_set_regs [simp]: "regs (set_regs st ctx) = st"
  by (cases st) (simp add: regs_def set_regs_def)

lemma set_regs_other [simp]:
  "bytes (set_regs st ctx) = bytes ctx" "buffer (set_regs st ctx) = buffer ctx"
  by (cases st, simp add: set_regs_def)+

lemma regs_update [simp]:
  "regs (ctx\<lparr>bytes := n\<rparr>) = regs ctx" "regs (ctx\<lparr>buffer := b\<rparr>) = regs ctx"
  by (simp_all add: regs_def)

lemma used_mod: "bytes ctx = of_nat n \<Longrightarrow> unat (bytes ctx AND 0x3f) = n mod 64"
  by (simp add: mask6_mod)


lemma dvd_full_len [simp]: "64 dvd full_len m"
  by (simp add: full_len_def dvd_minus_mod)

lemma full_len_le: "full_len m \<le> length m"
  by (simp add: full_len_def)

lemma full_len_add: "full_len m + length m mod 64 = length m"
  by (simp add: full_len_def)

text \<open>The context after a whole number of blocks, with the rest of the data in the buffer.\<close>

lemma md5_repr_tail:
  assumes "bytes ctx = of_nat (length (m @ r))"
    and "regs ctx = rfc_blocks m rfc_iv" and "64 dvd length m"
    and "length r < 64" and "length (buffer ctx) = 64" and "take (length r) (buffer ctx) = r"
  shows "md5_repr ctx (m @ r)"
proof -
  have "length (m @ r) mod 64 = length r" "full_len (m @ r) = length m"
    using assms(3,4) by (auto simp: full_len_def mod_simps elim: dvdE)
  then show ?thesis using assms by (simp add: md5_repr_def)
qed

text \<open>The part of \<open>ngx_md5_update\<close> after the buffer has been filled up.\<close>

lemma update_tail:
  assumes "bytes ctx = of_nat (length m + length data)"
    and "regs ctx = rfc_blocks m rfc_iv" and "64 dvd length m" and "length (buffer ctx) = 64"
  shows "\<exists>ctx'. md5_update_tail ctx data = Some ctx' \<and> md5_repr ctx' (m @ data)"
proof (cases "64 \<le> length data")
  case False
  then show ?thesis
    using assms by (auto simp: md5_update_tail_def mem_simps intro!: md5_repr_tail)
next
  case True
  let ?k = "full_len data"
  let ?r = "drop ?k data"
  have k: "64 dvd ?k" "0 < ?k" "?k \<le> length data"
    using True by (auto simp: full_len_le) (simp add: full_len_def)
  have r: "length ?r = length data mod 64" by (simp add: full_len_def)
  have split: "m @ data = (m @ take ?k data) @ ?r" by simp
  let ?c = "set_regs (rfc_blocks (take ?k data) (regs ctx)) ctx"
  have "md5_repr (?c\<lparr>buffer := ?r @ drop (length ?r) (buffer ctx)\<rparr>) ((m @ take ?k data) @ ?r)"
  proof (rule md5_repr_tail)
    show "64 dvd length (m @ take ?k data)" using k assms(3) by simp
    show "regs (?c\<lparr>buffer := ?r @ drop (length ?r) (buffer ctx)\<rparr>)
        = rfc_blocks (m @ take ?k data) rfc_iv"
      using assms(2,3) by (simp add: rfc_blocks_append)
  qed (use assms k r in \<open>simp_all add: less_imp_le\<close>)
  moreover have "ngx_md5_body ctx data (length data - length data mod 64) = Some (?c, ?r)"
    using k body_rfc [of ?k data ctx] by (simp add: full_len_def)
  moreover have "mem_write (buffer ctx) 0 ?r = Some (?r @ drop (length ?r) (buffer ctx))"
    using assms(4) r by (intro mem_write_Some [of 0, simplified]) (simp add: less_imp_le)
  ultimately show ?thesis
    using True r split by (auto simp: md5_update_tail_def Let_def simp del: append_assoc)
qed


theorem update_repr:
  assumes "md5_repr ctx m"
  shows "\<exists>ctx'. ngx_md5_update ctx data = Some ctx' \<and> md5_repr ctx' (m @ data)"
proof -
  let ?used = "length m mod 64"
  let ?free = "64 - ?used"
  let ?old = "drop (full_len m) m"
  let ?ctx = "ctx\<lparr>bytes := bytes ctx + of_nat (length data)\<rparr>"
  have rep: "bytes ctx = of_nat (length m)" "regs ctx = rfc_blocks (take (full_len m) m) rfc_iv"
      "length (buffer ctx) = 64" "take ?used (buffer ctx) = ?old"
    using assms by (auto simp: md5_repr_def)
  have used: "unat (bytes ctx AND 0x3f) = ?used" using rep(1) by (rule used_mod)
  have old: "length ?old = ?used" by (simp add: full_len_def)
  have m: "m = take (full_len m) m @ ?old" by simp
  have by': "bytes ?ctx = of_nat (length m + length data)" using rep(1) by simp
  consider (none) "?used = 0" | (fits) "?used \<noteq> 0" "length data < ?free"
    | (fill) "?used \<noteq> 0" "?free \<le> length data" by linarith
  then show ?thesis
  proof cases
    case none
    then have "full_len m = length m" by (simp add: full_len_def)
    then show ?thesis
      using update_tail [of ?ctx m data] rep(2,3) by' none used dvd_full_len [of m]
      by (simp add: ngx_md5_update_def Let_def)
  next
    case fits
    let ?b = "take ?used (buffer ctx) @ data @ drop (?used + length data) (buffer ctx)"
    have wr: "mem_write (buffer ctx) ?used data = Some ?b"
      using fits rep(3) by (intro mem_write_Some) simp
    have "md5_repr (?ctx\<lparr>buffer := ?b\<rparr>) (take (full_len m) m @ (?old @ data))"
    proof (rule md5_repr_tail)
      show "length (?old @ data) < 64" using fits(2) by (simp add: full_len_def)
      show "take (length (?old @ data)) (buffer (?ctx\<lparr>buffer := ?b\<rparr>)) = ?old @ data"
        using rep(4) old by simp
    qed (use rep by' fits full_len_le [of m] full_len_add [of m] in \<open>simp_all add: mem_write_length [OF wr]\<close>)
    moreover have "take (full_len m) m @ (?old @ data) = m @ data"
      by (simp flip: append_assoc)
    ultimately show ?thesis using fits used wr by (simp add: ngx_md5_update_def Let_def)
  next
    case fill
    let ?b = "?old @ take ?free data"
    have blen: "length ?b = 64" using fill old by simp
    have wr: "mem_write (buffer ctx) ?used (take ?free data) = Some ?b"
      using fill rep(3,4) by (simp add: mem_write_def)
    let ?c = "set_regs (rfc_blocks ?b (regs ctx)) (?ctx\<lparr>buffer := ?b\<rparr>)"
    have body: "ngx_md5_body (?ctx\<lparr>buffer := ?b\<rparr>) ?b 64 = Some (?c, [])"
      by (simp only: body_block [OF blen] rfc_blocks_one [OF blen] regs_update)
    let ?m = "take (full_len m) m @ ?b"
    have "length ?m = full_len m + 64"
      using blen by (simp only: length_append [of "take (full_len m) m"]) (simp add: full_len_le min_absorb2)
    then have "64 dvd length ?m"
      using dvd_add [OF dvd_full_len [of m] dvd_refl [of 64]] by (simp only:)
    moreover have "regs ?c = rfc_blocks ?m rfc_iv"
      using rep(2) by (simp add: rfc_blocks_append full_len_le min_absorb2 del: rfc_blocks_block)
    moreover have mm: "?m @ drop ?free data = m @ data" by simp
    moreover have "bytes ?c = of_nat (length ?m + length (drop ?free data))"
      using by' arg_cong [OF mm, of length] by (simp only: set_regs_other length_append) simp
    ultimately obtain ctx' where tl: "md5_update_tail ?c (drop ?free data) = Some ctx'"
        and rp: "md5_repr ctx' (?m @ drop ?free data)"
      using update_tail [of ?c ?m "drop ?free data"] blen by auto
    from rp have "md5_repr ctx' (m @ data)" by (simp only: mm)
    then show ?thesis using fill used wr body tl
      by (simp add: ngx_md5_update_def Let_def)
  qed
qed


section \<open>The digest\<close>

lemma length_length_bytes_le [simp]: "length (length_bytes_le n) = 8"
  by (simp add: length_bytes_le_def)

lemma length_word_bytes_le [simp]: "length (word_bytes_le w) = 4"
  by (simp add: word_bytes_le_def)

lemma length_rfc_digest [simp]: "length (rfc_digest m) = 16"
  by (simp add: rfc_digest_def regs_bytes_def split: prod.split)

lemma bit_count_shift: "push_bit 3 (of_nat n :: u64) = of_nat (8 * n)"
  by (simp add: push_bit_eq_mult mult.commute)

text \<open>The digest of a message whose full blocks give \<open>st\<close> and whose rest is \<open>r\<close>.\<close>

lemma rfc_digest_rest:
  assumes "m = m' @ r" and "64 dvd length m'" and "length r < 64"
  shows "rfc_digest m = regs_bytes (rfc_blocks (r @ [0x80]
      @ replicate ((119 - length r) mod 64) 0 @ length_bytes_le (of_nat (8 * length m)))
      (rfc_blocks m' rfc_iv))"
proof -
  have "length m mod 64 = length r" using assms by (auto elim!: dvdE)
  then have "rfc_pad m = m' @ (r @ [0x80] @ replicate ((119 - length r) mod 64) 0
            @ length_bytes_le (of_nat (8 * length m)))"
    unfolding rfc_pad_def using assms(1) by simp
  then show ?thesis unfolding rfc_digest_def using assms(2) by (simp only: rfc_blocks_append)
qed

definition zero_ctx :: md5_ctx where
  "zero_ctx = \<lparr>bytes = 0, reg_a = 0, reg_b = 0, reg_c = 0, reg_d = 0, buffer = replicate 64 0\<rparr>"

lemma regs_bytes_ctx: "word_bytes_le (reg_a ctx) @ word_bytes_le (reg_b ctx)
    @ word_bytes_le (reg_c ctx) @ word_bytes_le (reg_d ctx) = regs_bytes (regs ctx)"
  by (simp add: regs_bytes_def regs_def)

text \<open>The last block of \<open>ngx_md5_final\<close>: \<open>used\<close> bytes of padding or data, zeros, the length.\<close>

lemma final_last_block:
  assumes "length buf = 64" and "take used buf = pre" and "used \<le> 56"
  shows "\<exists>b2. mem_write buf used (replicate (64 - used - 8) 0) = Some b2 \<and>
     mem_write b2 56 (length_bytes_le n)
       = Some (pre @ replicate (56 - used) 0 @ length_bytes_le n)"
proof -
  have pre: "length pre = used" using assms by auto
  have "mem_write buf used (replicate (64 - used - 8) 0)
      = Some (pre @ replicate (56 - used) 0 @ drop 56 buf)"
    using assms by (simp add: mem_write_def)
  then show ?thesis using assms pre by (simp add: mem_write_def)
qed

lemma pad_small: "u < 56 \<Longrightarrow> (119 - u) mod 64 = (56 - Suc u :: nat)"
proof -
  assume "u < 56"
  then have "119 - u = (56 - Suc u) + 64" by simp
  then show ?thesis by (simp only: mod_add_self2) simp
qed

lemma pad_large: "56 \<le> u \<Longrightarrow> u < 64 \<Longrightarrow> (119 - u) mod 64 = (64 - Suc u) + (56 :: nat)"
  by simp

text \<open>The two shapes of the padding.\<close>

lemma final_one_block:
  assumes u: "unat (bytes ctx AND 0x3f) = u" "u < 56" and buf: "length (buffer ctx) = 64"
    "take u (buffer ctx) = r" and n: "push_bit 3 (bytes ctx) = n"
  shows "ngx_md5_final ctx = Some (regs_bytes (rfc_compress
    (r @ [0x80] @ replicate (56 - Suc u) 0 @ length_bytes_le n) (regs ctx)), zero_ctx)"
proof -
  define b1 where "b1 = (buffer ctx)[u := 0x80]"
  define blk where "blk = r @ [0x80] @ replicate (56 - Suc u) 0 @ length_bytes_le n"
  have b1: "upd (buffer ctx) u 0x80 = Some b1" "length b1 = 64" "take (Suc u) b1 = r @ [0x80]"
    using buf u(2) by (simp_all add: b1_def upd_def take_Suc_conv_app_nth)
  obtain b2 where b2: "mem_write b1 (Suc u) (replicate (64 - Suc u - 8) 0) = Some b2"
      "mem_write b2 56 (length_bytes_le n) = Some blk"
    using final_last_block [OF b1(2,3), of n] u(2) by (auto simp: blk_def)
  have "length blk = 64" using buf u(2) by (auto simp: blk_def)
  then have "ngx_md5_body c blk 64 = Some (set_regs (rfc_compress blk (regs c)) c, [])" for c
    by (rule body_block)
  moreover have "\<not> 63 - u < 8" using u(2) by arith
  ultimately show ?thesis unfolding blk_def [symmetric]
    using u b1(1) b2 n by (simp add: ngx_md5_final_def Let_def regs_bytes_ctx zero_ctx_def)
qed

lemma final_two_blocks:
  assumes u: "unat (bytes ctx AND 0x3f) = u" "56 \<le> u" "u < 64" and buf: "length (buffer ctx) = 64"
    "take u (buffer ctx) = r" and n: "push_bit 3 (bytes ctx) = n"
  shows "ngx_md5_final ctx = Some (regs_bytes (rfc_compress (replicate 56 0 @ length_bytes_le n)
    (rfc_compress (r @ [0x80] @ replicate (64 - Suc u) 0) (regs ctx))), zero_ctx)"
proof -
  define b1 where "b1 = (buffer ctx)[u := 0x80]"
  define blk1 where "blk1 = r @ [0x80] @ replicate (64 - Suc u) 0"
  define blk2 where "blk2 = replicate 56 0 @ length_bytes_le n"
  have b1: "upd (buffer ctx) u 0x80 = Some b1" "length b1 = 64" "take (Suc u) b1 = r @ [0x80]"
    using buf u(3) by (simp_all add: b1_def upd_def take_Suc_conv_app_nth)
  have w1: "mem_write b1 (Suc u) (replicate (64 - Suc u) 0) = Some blk1"
    using b1 u(3) by (simp add: mem_write_def blk1_def)
  have len: "length blk1 = 64" "length blk2 = 64"
    using buf u(3) by (auto simp: blk1_def blk2_def)
  obtain b2 where b2: "mem_write blk1 0 (replicate 56 0) = Some b2"
      "mem_write b2 56 (length_bytes_le n) = Some blk2"
    using final_last_block [of blk1 0 "[]" n] len by (auto simp: blk2_def)
  have "63 - u < 8" using u(2) by arith
  then show ?thesis unfolding blk1_def [symmetric] blk2_def [symmetric]
    using u b1(1) w1 b2 n body_block [OF len(1)] body_block [OF len(2)]
    by (simp add: ngx_md5_final_def Let_def regs_bytes_ctx zero_ctx_def)
qed

theorem final_repr:
  assumes "md5_repr ctx m"
  shows "ngx_md5_final ctx = Some (rfc_digest m, zero_ctx)"
proof -
  define u where "u = length m mod 64"
  define r where "r = drop (full_len m) m"
  define n where "n = (of_nat (8 * length m) :: u64)"
  have rep: "bytes ctx = of_nat (length m)" "regs ctx = rfc_blocks (take (full_len m) m) rfc_iv"
      "length (buffer ctx) = 64" "take u (buffer ctx) = r"
    using assms by (auto simp: md5_repr_def u_def r_def)
  have used: "unat (bytes ctx AND 0x3f) = u" unfolding u_def using rep(1) by (rule used_mod)
  have r: "length r = u" "u < 64" by (simp_all add: full_len_def r_def u_def)
  have n: "push_bit 3 (bytes ctx) = n" using rep(1) unfolding n_def by (simp only: bit_count_shift)
  have "rfc_digest m = regs_bytes (rfc_blocks (r @ [0x80]
      @ replicate ((119 - length r) mod 64) 0 @ length_bytes_le n) (regs ctx))"
    unfolding rep(2) n_def using r by (intro rfc_digest_rest) (simp_all add: full_len_le min_absorb2, simp add: r_def)
  then have digest: "rfc_digest m = regs_bytes (rfc_blocks (r @ [0x80]
      @ replicate ((119 - u) mod 64) 0 @ length_bytes_le n) (regs ctx))"
    unfolding r .
  show ?thesis
  proof (cases "u < 56")
    case True
    then have "length (r @ [0x80] @ replicate (56 - Suc u) 0 @ length_bytes_le n) = 64"
      using r by simp
    then show ?thesis
      using final_one_block [OF used True rep(3,4) n] True
      by (simp only: digest pad_small rfc_blocks_one)
  next
    case False
    then have u: "56 \<le> u" by simp
    let ?blk1 = "r @ [0x80] @ replicate (64 - Suc u) 0"
    let ?blk2 = "replicate 56 0 @ length_bytes_le n"
    have len: "length ?blk1 = 64" "length ?blk2 = 64" using r by simp_all
    have "r @ [0x80] @ replicate ((119 - u) mod 64) 0 @ length_bytes_le n = ?blk1 @ ?blk2"
      unfolding pad_large [OF u r(2)] replicate_add by simp
    then show ?thesis
      using final_two_blocks [OF used u r(2) rep(3,4) n]
      by (simp only: digest rfc_blocks_block [OF len(1)] rfc_blocks_one [OF len(2)])
  qed
qed



lemma kfmd5_ngx_digest:
  assumes "length (buffer ctx0) = 64" and "16 \<le> length out"
  shows "kfmd5_ngx ctx0 (Some data) (Some out) = Some (0, Some (rfc_digest data @ drop 16 out))"
proof -
  obtain ctx where "ngx_md5_update (ngx_md5_init ctx0) data = Some ctx" "md5_repr ctx data"
    using update_repr [OF md5_repr_init [OF assms(1)], of data] by auto
  then show ?thesis
    using final_repr [of ctx data] assms(2) by (simp add: kfmd5_ngx_def mem_write_def)
qed

section \<open>The printed digest\<close>

lemma length_md5_hex: "length d = 16 \<Longrightarrow> length (md5_hex d) = 32"
proof -
  have "length (concat (map fmt_02x xs)) = 2 * length xs" for xs by (induction xs) simp_all
  then show "length d = 16 \<Longrightarrow> length (md5_hex d) = 32" by (simp add: md5_hex_def)
qed

lemma md5_hex_chars:
  "c \<in> set (md5_hex d) \<Longrightarrow> is_digit c \<or> (97 \<le> (of_char c :: nat) \<and> (of_char c :: nat) \<le> 102)"
  by (auto simp: md5_hex_def dest: fmt_02x_chars)

lemma md5_hex_no_NUL [simp]: "NUL \<notin> set (md5_hex d)"
  using md5_hex_chars [of NUL d] by (auto simp: NUL_def is_digit_def)

lemma md5_hex_no_dash [simp]: "CHR ''-'' \<notin> set (md5_hex d)"
  using md5_hex_chars [of "CHR ''-''" d] by (auto simp: is_digit_def)

lemma md5_hex_no_CR [simp]: "CHR 0x0D \<notin> set (md5_hex d)"
  using md5_hex_chars [of "CHR 0x0D" d] by (auto simp: is_digit_def)

lemma md5_hex_inj:
  assumes "length d = 16" and "length e = 16" and "md5_hex d = md5_hex e"
  shows "d = e"
proof -
  have "concat (map fmt_02x xs) = concat (map fmt_02x ys) \<Longrightarrow> length xs = length ys \<Longrightarrow> xs = ys" for xs ys
  proof (induction xs arbitrary: ys)
    case (Cons x xs)
    then obtain y zs where "ys = y # zs" by (cases ys) auto
    with Cons show ?case by (auto simp: append_eq_append_conv fmt_02x_inj)
  qed simp
  with assms show ?thesis by (simp add: md5_hex_def)
qed

lemma kfmd5_tostring:
  assumes "length d = 16" and "32 < length sv"
  shows "kfmd5_ngx_tostring (Some d) (Some sv)
       = Some (32, Some (md5_hex d @ NUL # drop 33 sv))"
  using assms by (auto simp: kfmd5_ngx_tostring_def length_md5_hex sprintf_to_Some)

section \<open>Properties\<close>



text \<open>\<open>kfmd5_ngx\<close> followed by \<open>kfmd5_ngx_tostring\<close> writes the RFC 1321 digest of the input as 32
  lower-case hexadecimal characters and a NUL, without leaving the caller's buffers and without
  reading the uninitialised context; the second call returns 32.\<close>

theorem kfmd5_ngx_text:
  assumes "length (buffer ctx0) = 64" and "length out = 16" and "33 \<le> length save"
  shows "\<exists>dig. kfmd5_ngx ctx0 (Some data) (Some out) = Some (0, Some dig)
     \<and> dig = rfc_digest data
     \<and> kfmd5_ngx_tostring (Some dig) (Some save) = Some (32, Some (md5_hex dig @ NUL # drop 33 save))
     \<and> length (md5_hex dig) = 32"
proof -
  have len: "length (rfc_digest data) = 16"
    by (simp add: rfc_digest_def regs_bytes_def word_bytes_le_def split: prod.split)
  then have "kfmd5_ngx ctx0 (Some data) (Some out) = Some (0, Some (rfc_digest data))"
    using kfmd5_ngx_digest [OF assms(1), of out data] assms(2) by simp
  then show ?thesis
    using kfmd5_tostring [OF len, of save] length_md5_hex [OF len] assms(3) by simp
qed

theorem kfmd5_ngx_text_witness:
  "\<exists>dig. kfmd5_ngx zero_ctx (Some []) (Some (replicate 16 0)) = Some (0, Some dig)
     \<and> dig = rfc_digest []
     \<and> kfmd5_ngx_tostring (Some dig) (Some (zeros 33)) = Some (32, Some (md5_hex dig @ [NUL]))
     \<and> length (md5_hex dig) = 32"
  using kfmd5_ngx_text [of zero_ctx "replicate 16 0" "zeros 33" "[]"]
  by (simp add: zero_ctx_def zeros_def)

text \<open>A test vector of RFC 1321, evaluated through the model of the C code: the digest of
  \<open>abc\<close> is \<open>900150983cd24fb0d6963f7d28e17f72\<close>.\<close>

theorem md5_abc:
  "kfmd5_ngx zero_ctx (Some [97, 98, 99]) (Some (replicate 16 0))
   = Some (0, Some [0x90, 0x01, 0x50, 0x98, 0x3c, 0xd2, 0x4f, 0xb0,
                    0xd6, 0x96, 0x3f, 0x7d, 0x28, 0xe1, 0x7f, 0x72])"
  by code_simp

end
