(* ===== verification/Base64_Correct.thy ===== *)
theory Base64_Correct
  imports Base64
begin

text \<open>
  Lemmas on the Base64 component: the alphabet and its inverse table, the sizes, one group of the
  encoder undone by the second pass of the decoder, and the passes over a whole encoded buffer.
\<close>

section \<open>The alphabet\<close>

lemma base64_enc_map_val:
  "base64_enc_map = [65, 66, 67, 68, 69, 70, 71, 72, 73, 74, 75, 76, 77, 78, 79, 80, 81, 82, 83, 84, 85, 86, 87, 88, 89, 90, 97, 98, 99, 100, 101, 102, 103, 104, 105, 106, 107, 108, 109, 110, 111, 112, 113, 114, 115, 116, 117, 118, 119, 120, 121, 122, 48, 49, 50, 51, 52, 53, 54, 55, 56, 57, 43, 47]"
  by (simp add: base64_enc_map_def bytes_of_def)

lemma alphabet_table:
  "list_all (\<lambda>v. base64_enc_map ! v \<le> 127 \<and> base64_enc_map ! v \<notin> {10, 13, 32, 61}
     \<and> idx base64_dec_map (unat (base64_enc_map ! v)) = Some (of_nat v)
     \<and> base64_dec_map ! unat (base64_enc_map ! v) = of_nat v) [0..<64]"
  by (simp add: base64_enc_map_val base64_dec_map_def idx_def upt_conv_Cons)

lemma enc_char_mod: "enc_char e = base64_enc_map ! (e mod 64)"
  using nat_and_mask [of e 6] by (simp add: enc_char_def)

lemma enc_char_props:
  "\<not> 127 < enc_char e" "enc_char e \<noteq> 10" "enc_char e \<noteq> 13" "enc_char e \<noteq> 32" "enc_char e \<noteq> 61"
  "idx base64_dec_map (unat (enc_char e)) = Some (of_nat (e mod 64))"
  "base64_dec_map ! unat (enc_char e) = of_nat (e mod 64)"
  using alphabet_table by (simp_all add: list_all_iff enc_char_mod linorder_not_less)

lemma sextet_less: "(of_nat (e mod 64) :: u8) < 64"
  by (simp add: word_less_nat_alt unat_of_nat)

lemma sextet_neq: "(of_nat (e mod 64) :: u8) \<noteq> 64" "(of_nat (e mod 64) :: u8) \<noteq> 127"
  using sextet_less [of e] by (auto simp: word_less_nat_alt)

lemma equals_table: "base64_dec_map ! 61 = 64" "idx base64_dec_map 61 = Some 64"
  by code_simp+

section \<open>Sizes\<close>

lemma less_3_cases: "(m :: nat) < 3 \<Longrightarrow> m = 0 \<or> m = 1 \<or> m = 2"
  by arith

lemma group_div: "(3 + n) div 3 = Suc (n div 3)"
  by simp

lemma enc_size: "slen < 2 ^ 60 \<Longrightarrow> base64_enc_size slen = 4 * ((slen + 2) div 3)"
proof -
  assume "slen < 2 ^ 60"
  then have s: "size_t (slen * 8) = slen * 8" by simp
  then have e: "base64_enc_size slen = (let bits = slen * 8; n = bits div 6; r = bits - n * 6 in
      if r = 2 then n + 3 else if r = 4 then n + 2 else n)"
    by (simp only: base64_enc_size_def)
  have "slen mod 3 < 3" "slen = 3 * (slen div 3) + slen mod 3" by simp_all
  then consider (0) q where "slen = 3 * q" | (1) q where "slen = 3 * q + 1" | (2) q where "slen = 3 * q + 2"
    by (metis add.right_neutral less_3_cases)
  then show ?thesis
  proof cases
    case 0
    then have "slen * 8 div 6 = 4 * q" by simp
    moreover have "(slen + 2) div 3 = q" using 0 by arith
    ultimately show ?thesis unfolding e Let_def using 0 by simp
  next
    case 1
    then have "slen * 8 div 6 = 4 * q + 1" by simp
    moreover have "(slen + 2) div 3 = q + 1" using 1 by arith
    ultimately show ?thesis unfolding e Let_def using 1 by simp
  next
    case 2
    then have "slen * 8 div 6 = 4 * q + 2" by simp
    moreover have "(slen + 2) div 3 = q + 1" using 2 by arith
    ultimately show ?thesis unfolding e Let_def using 2 by simp
  qed
qed

lemma length_enc_groups: "length (base64_enc_groups xs) = 4 * (length xs div 3)"
  by (induction xs rule: base64_enc_groups.induct) (auto simp: Let_def group_div)

lemma length_enc_tail: "length (base64_enc_tail r) = (if r = [] then 0 else 4)"
  by (simp add: base64_enc_tail_def Let_def)

section \<open>The first pass on encoded text\<close>

lemma scan_char:
  "base64_dec_scan (enc_char e # r) n 0 = base64_dec_scan r (n + 1) 0"
  using sextet_neq [of e] sextet_less [of e]
  by (subst base64_dec_scan.simps) (simp add: enc_char_props Let_def)

lemma scan_equals:
  "j < 2 \<Longrightarrow> base64_dec_scan (61 # r) n j = base64_dec_scan r (n + 1) (j + 1)"
  by (subst base64_dec_scan.simps) (simp add: Let_def equals_table)

lemma scan_end [simp]: "base64_dec_scan [] n j = Inr (n, j)"
  by (subst base64_dec_scan.simps) simp

lemma scan_groups:
  "base64_dec_scan (base64_enc_groups xs @ r) n 0 = base64_dec_scan r (n + 4 * (length xs div 3)) 0"
proof (induction xs arbitrary: n rule: base64_enc_groups.induct)
  case (1 b1 b2 b3 src)
  have "base64_dec_scan (base64_enc_groups (b1 # b2 # b3 # src) @ r) n 0
      = base64_dec_scan r (Suc (Suc (Suc (Suc (n + 4 * (length src div 3)))))) 0"
    using 1 by (simp add: Let_def scan_char)
  also have "Suc (Suc (Suc (Suc (n + 4 * (length src div 3)))))
      = n + 4 * (length (b1 # b2 # b3 # src) div 3)"
    by (simp add: group_div)
  finally show ?case .
qed auto

lemma scan_tail:
  "0 < length r \<Longrightarrow> length r < 3 \<Longrightarrow>
     base64_dec_scan (base64_enc_tail r) n 0 = Inr (n + 4, 3 - length r)"
proof -
  assume "0 < length r" "length r < 3"
  then consider b where "r = [b]" | b c where "r = [b, c]"
    by (cases r; cases "tl r"; cases "tl (tl r)") auto
  then show ?thesis
    by cases (simp_all add: base64_enc_tail_def Let_def scan_char scan_equals)
qed

section \<open>The second pass undoes a group\<close>

lemma push_or_add:
  "a < 64 \<Longrightarrow> push_bit 6 (x :: u32) OR of_nat a = x * 64 + of_nat a"
proof -
  assume a: "a < 64"
  then have "take_bit 6 a = a" by (simp add: take_bit_eq_mod)
  then have "bit a n \<Longrightarrow> n < 6" for n by (metis bit_take_bit_iff)
  then have "push_bit 6 x OR of_nat a = push_bit 6 x + of_nat a"
    by (intro disjunctive_add [symmetric]) (auto simp: bit_simps not_le [symmetric])
  then show ?thesis by (simp add: push_bit_eq_mult)
qed

text \<open>Four sextets shifted into the accumulator.\<close>

lemma accumulate_four:
  assumes "a < 64" "b < 64" "c < 64" "d < 64"
  shows "push_bit 6 (push_bit 6 (push_bit 6 (push_bit 6 (x :: u32) OR of_nat a) OR of_nat b)
           OR of_nat c) OR of_nat d
       = x * 2 ^ 24 + of_nat (a * 2 ^ 18 + b * 2 ^ 12 + c * 2 ^ 6 + d)"
  using assms by (simp add: push_or_add algebra_simps)

lemma low_bytes:
  fixes x :: u32
  assumes "v < 2 ^ 24"
  shows "ucast (drop_bit 16 (x * 2 ^ 24 + of_nat v)) = (of_nat (v div 2 ^ 16) :: u8)"
    and "ucast (drop_bit 8 (x * 2 ^ 24 + of_nat v)) = (of_nat (v div 2 ^ 8) :: u8)"
    and "ucast (x * 2 ^ 24 + of_nat v) = (of_nat v :: u8)"
proof -
  have "take_bit 24 v = v" using assms by (simp add: take_bit_eq_mod)
  then have "bit v n \<Longrightarrow> n < 24" for n by (metis bit_take_bit_iff)
  then have "push_bit 24 x OR of_nat v = push_bit 24 x + of_nat v"
    by (intro disjunctive_add [symmetric]) (auto simp: bit_simps not_le [symmetric])
  then have y: "x * 2 ^ 24 + of_nat v = push_bit 24 x OR of_nat v"
    by (simp add: push_bit_eq_mult)
  show "ucast (drop_bit 16 (x * 2 ^ 24 + of_nat v)) = (of_nat (v div 2 ^ 16) :: u8)"
    "ucast (drop_bit 8 (x * 2 ^ 24 + of_nat v)) = (of_nat (v div 2 ^ 8) :: u8)"
    "ucast (x * 2 ^ 24 + of_nat v) = (of_nat v :: u8)"
    unfolding y drop_bit_eq_div [symmetric]
    by ((rule bit_word_eqI), simp add: bit_simps ac_simps)+
qed

text \<open>The four sextets of three bytes, as the encoder computes them, put together again.\<close>

lemma sextet_sum:
  "c1 = 4 * q1 + r1 \<Longrightarrow> c2 = 16 * q2 + r2 \<Longrightarrow> c3 = 64 * q3 + r3 \<Longrightarrow>
    q1 * 2 ^ 18 + (r1 * 16 + q2) * 2 ^ 12 + (r2 * 4 + q3) * 2 ^ 6 + r3
    = c1 * 2 ^ 16 + c2 * 2 ^ 8 + (c3 :: nat)"
  by simp

lemma sextets_of_bytes:
  fixes b1 b2 b3 :: u8
  defines "c1 \<equiv> unat b1" and "c2 \<equiv> unat b2" and "c3 \<equiv> unat b3"
  shows "drop_bit 2 c1 mod 64 * 2 ^ 18
    + (push_bit 4 (c1 AND 3) + drop_bit 4 c2) mod 64 * 2 ^ 12
    + (push_bit 2 (c2 AND 15) + drop_bit 6 c3) mod 64 * 2 ^ 6 + c3 mod 64
    = c1 * 2 ^ 16 + c2 * 2 ^ 8 + c3"
proof -
  have lt: "c1 < 256" "c2 < 256" "c3 < 256"
    using unsigned_less [of b1] unsigned_less [of b2] unsigned_less [of b3]
    by (simp_all add: c1_def c2_def c3_def)
  have m: "c1 AND 3 = c1 mod 4" "c2 AND 15 = c2 mod 16"
    using nat_and_mask [of c1 2] nat_and_mask [of c2 4] by simp_all
  have s: "c1 div 4 mod 64 = c1 div 4"
    "(c1 mod 4 * 16 + c2 div 16) mod 64 = c1 mod 4 * 16 + c2 div 16"
    "(c2 mod 16 * 4 + c3 div 64) mod 64 = c2 mod 16 * 4 + c3 div 64"
    using lt by (intro mod_less, arith)+
  have t: "drop_bit 2 c1 mod 64 = c1 div 4"
    "(push_bit 4 (c1 mod 4) + drop_bit 4 c2) mod 64 = c1 mod 4 * 16 + c2 div 16"
    "(push_bit 2 (c2 mod 16) + drop_bit 6 c3) mod 64 = c2 mod 16 * 4 + c3 div 64"
    using s by (simp_all add: drop_bit_eq_div push_bit_eq_mult)
  have "c1 = 4 * (c1 div 4) + c1 mod 4" "c2 = 16 * (c2 div 16) + c2 mod 16"
    "c3 = 64 * (c3 div 64) + c3 mod 64"
    by simp_all
  then show ?thesis unfolding m t by (rule sextet_sum)
qed

lemma sextet_and: "(of_nat (e mod 64) :: u8) AND 63 = of_nat (e mod 64)"
proof -
  have "take_bit 6 (e mod 64) = e mod 64" by (simp add: take_bit_eq_mod)
  then have "take_bit 6 (of_nat (e mod 64) :: u8) = of_nat (e mod 64)"
    by (simp only: take_bit_of_nat)
  then show ?thesis by (simp add: take_bit_eq_mask mask_eq_exp_minus_1)
qed

lemma sextet_ucast: "ucast (of_nat (e mod 64) :: u8) = (of_nat (e mod 64) :: u32)"
proof -
  have "take_bit 8 (e mod 64) = e mod 64" by (simp add: take_bit_eq_mod)
  then show ?thesis by (simp add: unsigned_of_nat)
qed

lemma dec_sextet:
  "base64_dec_bytes (enc_char e # src) n j x =
     (let y = push_bit 6 x OR of_nat (e mod 64) in
      if Suc n = 4 then
        do { out \<leftarrow> base64_dec_bytes src 0 j y;
             Some ((if 0 < j then [ucast (drop_bit 16 y)] else [])
                 @ (if 1 < j then [ucast (drop_bit 8 y)] else [])
                 @ (if 2 < j then [ucast y] else []) @ out) }
      else base64_dec_bytes src (Suc n) j y)"
  using sextet_neq [of e] by (simp add: enc_char_props Let_def sextet_and sextet_ucast)

lemma dec_equals:
  "base64_dec_bytes (61 # src) n j x =
     (let y = push_bit 6 x in
      if Suc n = 4 then
        do { out \<leftarrow> base64_dec_bytes src 0 (j - 1) y;
             Some ((if 0 < j - 1 then [ucast (drop_bit 16 y)] else [])
                 @ (if 1 < j - 1 then [ucast (drop_bit 8 y)] else [])
                 @ (if 2 < j - 1 then [ucast y] else []) @ out) }
      else base64_dec_bytes src (Suc n) (j - 1) y)"
  by (simp add: equals_table Let_def)


declare base64_dec_bytes.simps(2) [simp del]

text \<open>One whole group, and the two kinds of last group.\<close>

lemma byte_zero: "(b :: u8) * 256 = 0" "(b :: u8) * 65536 = 0"
proof -
  have "(256 :: u8) = 0" "(65536 :: u8) = 0" by simp_all
  then show "(b :: u8) * 256 = 0" "(b :: u8) * 65536 = 0" by (metis mult_zero_right)+
qed

lemma dec_group:
  fixes b1 b2 b3 :: u8
  shows "\<exists>y. base64_dec_bytes (base64_enc_groups [b1, b2, b3] @ src) 0 3 x
       = do { out \<leftarrow> base64_dec_bytes src 0 3 y; Some ([b1, b2, b3] @ out) }"
proof -
  define v where "v = unat b1 * 2 ^ 16 + unat b2 * 2 ^ 8 + unat b3"
  have lt: "unat b1 < 256" "unat b2 < 256" "unat b3 < 256"
    using unsigned_less [of b1] unsigned_less [of b2] unsigned_less [of b3] by simp_all
  have v: "v < 2 ^ 24" "v div 2 ^ 16 = unat b1" "v div 2 ^ 8 = unat b1 * 256 + unat b2"
    using lt by (simp_all add: v_def)
  have out: "(of_nat (v div 2 ^ 16) :: u8) = b1" "(of_nat (v div 2 ^ 8) :: u8) = b2"
      "(of_nat v :: u8) = b3"
    unfolding v(2,3) unfolding v_def by (simp_all add: byte_zero)
  define y where "y = x * 2 ^ 24 + of_nat v"
  have acc: "push_bit 6 (push_bit 6 (push_bit 6 (push_bit 6 x OR of_nat (drop_bit 2 (unat b1) mod 64))
        OR of_nat ((push_bit 4 (unat b1 AND 3) + drop_bit 4 (unat b2)) mod 64))
        OR of_nat ((push_bit 2 (unat b2 AND 15) + drop_bit 6 (unat b3)) mod 64))
        OR of_nat (unat b3 mod 64) = y"
    unfolding y_def v_def sextets_of_bytes [symmetric] by (rule accumulate_four) simp_all
  show ?thesis
    using low_bytes [OF v(1), of x, folded y_def] out
    by (intro exI [of _ y]) (simp add: Let_def dec_sextet acc y_def [symmetric] del: push_bit_or push_bit_and push_bit_push_bit drop_bit_or)
qed

lemma dec_groups:
  "\<exists>y. base64_dec_bytes (base64_enc_groups xs @ src) 0 3 x
     = do { out \<leftarrow> base64_dec_bytes src 0 3 y; Some (take (length xs div 3 * 3) xs @ out) }"
proof (induction xs arbitrary: x rule: base64_enc_groups.induct)
  case (1 b1 b2 b3 xs)
  obtain y where y: "base64_dec_bytes (base64_enc_groups [b1, b2, b3] @ base64_enc_groups xs @ src) 0 3 x
       = do { out \<leftarrow> base64_dec_bytes (base64_enc_groups xs @ src) 0 3 y; Some ([b1, b2, b3] @ out) }"
    using dec_group by blast
  obtain z where z: "base64_dec_bytes (base64_enc_groups xs @ src) 0 3 y
     = do { out \<leftarrow> base64_dec_bytes src 0 3 z; Some (take (length xs div 3 * 3) xs @ out) }"
    using 1 by blast
  have tk: "take (Suc k * 3) (b1 # b2 # b3 # xs) = b1 # b2 # b3 # take (k * 3) xs" for k
    by (simp add: numeral_3_eq_3)
  have "base64_enc_groups (b1 # b2 # b3 # xs) = base64_enc_groups [b1, b2, b3] @ base64_enc_groups xs"
    by (simp add: Let_def)
  then show ?case
    using y z tk by (intro exI [of _ z]) (simp add: group_div del: base64_enc_groups.simps)
qed auto

lemma dec_tail:
  assumes "0 < length r" and "length r < 3"
  shows "base64_dec_bytes (base64_enc_tail r) 0 3 x = Some r"
proof -
  have and3: "(n :: nat) AND 3 = n mod 4" "(n :: nat) AND 15 = n mod 16" for n
    using nat_and_mask [of n 2] nat_and_mask [of n 4] by simp_all
  from assms consider b where "r = [b]" | b c where "r = [b, c]"
    by (cases r; cases "tl r"; cases "tl (tl r)") auto
  then show ?thesis
  proof cases
    case (1 b)
    define v where "v = unat b * 2 ^ 16"
    have v: "v < 2 ^ 24" "v div 2 ^ 16 = unat b"
      using byte_less [of b] by (simp_all add: v_def)
    let ?s1 = "drop_bit 2 (unat b) mod 64" and ?s2 = "push_bit 4 (unat b AND 3) mod 64"
    have V: "?s1 * 2 ^ 18 + ?s2 * 2 ^ 12 + 0 * 2 ^ 6 + 0 = v"
      using sextets_of_bytes [of b 0 0] by (simp add: v_def)
    have lt: "?s1 < 64" "?s2 < 64" "0 < (64 :: nat)" by simp_all
    have acc: "push_bit 6 (push_bit 6 (push_bit 6 (push_bit 6 x OR of_nat ?s1) OR of_nat ?s2))
        = x * 2 ^ 24 + of_nat v"
      using accumulate_four [OF lt(1,2,3,3), of x] unfolding V
      by (simp del: push_bit_or push_bit_and push_bit_push_bit)
    have "base64_enc_tail r = [enc_char (drop_bit 2 (unat b)), enc_char (push_bit 4 (unat b AND 3)), 61, 61]"
      using 1 by (simp add: base64_enc_tail_def Let_def)
    then show ?thesis using 1 low_bytes(1) [OF v(1), of x] v(2)
      by (simp add: Let_def dec_sextet dec_equals acc del: push_bit_or push_bit_and push_bit_push_bit drop_bit_or)
  next
    case (2 b c)
    define v where "v = unat b * 2 ^ 16 + unat c * 2 ^ 8"
    have v: "v < 2 ^ 24" "v div 2 ^ 16 = unat b" "v div 2 ^ 8 = unat b * 256 + unat c"
      using byte_less [of b] byte_less [of c] by (simp_all add: v_def)
    let ?s1 = "drop_bit 2 (unat b) mod 64" and ?s3 = "push_bit 2 (unat c AND 15) mod 64"
      and ?s2 = "(push_bit 4 (unat b AND 3) + drop_bit 4 (unat c)) mod 64"
    have V: "?s1 * 2 ^ 18 + ?s2 * 2 ^ 12 + ?s3 * 2 ^ 6 + 0 = v"
      using sextets_of_bytes [of b c 0] by (simp add: v_def)
    have lt: "?s1 < 64" "?s2 < 64" "?s3 < 64" "0 < (64 :: nat)" by simp_all
    have acc: "push_bit 6 (push_bit 6 (push_bit 6 (push_bit 6 x OR of_nat ?s1) OR of_nat ?s2)
        OR of_nat ?s3) = x * 2 ^ 24 + of_nat v"
      using accumulate_four [OF lt(1,2,3,4), of x] unfolding V
      by (simp del: push_bit_or push_bit_and push_bit_push_bit)
    have "base64_enc_tail r = [enc_char (drop_bit 2 (unat b)),
        enc_char (push_bit 4 (unat b AND 3) + drop_bit 4 (unat c)), enc_char (push_bit 2 (unat c AND 15)), 61]"
      using 2 by (simp add: base64_enc_tail_def Let_def)
    then show ?thesis using 2 low_bytes(1,2) [OF v(1), of x] v(2,3) byte_zero(1) [of b]
      by (simp add: Let_def dec_sextet dec_equals acc del: push_bit_or push_bit_and push_bit_push_bit drop_bit_or)
  qed
qed


section \<open>Whole buffers\<close>

text \<open>The text of a message, and what the encoder stores.\<close>

definition base64_text :: "u8 list \<Rightarrow> u8 list" where
  "base64_text src = base64_enc_groups (take (length src div 3 * 3) src)
     @ base64_enc_tail (drop (length src div 3 * 3) src)"

lemma thirds_up: "4 * (n div 3) + (if n mod 3 = 0 then 0 else 4) = 4 * ((n + 2) div (3 :: nat))"
proof -
  obtain q r where n: "n = 3 * q + r" "r < 3" by (metis mod_less_divisor mult_div_mod_eq zero_less_numeral)
  then consider "r = 0" | "r = 1" | "r = 2" using less_3_cases by blast
  moreover have "(3 * q + 2) div 3 = q" "(3 * q + 2) mod 3 = 2" "(3 * q + 1 + 2) div 3 = q + 1" "(3 * q + 2 + 2) div 3 = q + 1"
    by presburger+
  ultimately show ?thesis by cases (simp_all only: n(1), simp_all)
qed

lemma length_base64_text: "length (base64_text src) = 4 * ((length src + 2) div 3)"
proof -
  have "length src div 3 * 3 \<le> length src" "length src \<le> length src div 3 * 3 \<longleftrightarrow> length src mod 3 = 0"
    using div_mult_mod_eq [of "length src" 3] by linarith+
  then have "length (base64_text src) = 4 * (length src div 3) + (if length src mod 3 = 0 then 0 else 4)"
    by (simp add: base64_text_def length_enc_groups length_enc_tail min_absorb2)
  then show ?thesis using thirds_up [of "length src"] by simp
qed

lemma encode_Some:
  assumes "src \<noteq> []" and "length src < 2 ^ 60"
    and "length (base64_text src) < dlen" and "dlen \<le> length dst"
  shows "cm_base64_encode dst dlen src (length src)
    = Some (0, base64_text src @ 0 # drop (Suc (length (base64_text src))) dst,
            length (base64_text src))"
  using assms enc_size [of "length src"] length_base64_text [of src]
  by (simp add: cm_base64_encode_def Let_def mem_write_def base64_text_def)

lemma scan_text:
  "src \<noteq> [] \<Longrightarrow> base64_dec_scan (base64_text src) 0 0
     = Inr (length (base64_text src), (3 - length src mod 3) mod 3)"
proof (cases "length src mod 3 = 0")
  case True
  then have "length src div 3 * 3 = length src" by (simp add: dvd_mult_div_cancel dvd_eq_mod_eq_0 flip: mult.commute)
  then show ?thesis using True scan_groups [of src "[]" 0]
    by (simp add: base64_text_def base64_enc_tail_def length_enc_groups)
next
  case False
  let ?r = "drop (length src div 3 * 3) src"
  have r: "length ?r = length src mod 3" by (simp add: minus_div_mult_eq_mod)
  then have "0 < length ?r" "length ?r < 3" using False by simp_all
  then have "base64_dec_scan (base64_enc_tail ?r) n 0 = Inr (n + 4, 3 - length src mod 3)" for n
    using scan_tail [of ?r n] r by simp
  moreover have "(3 - length src mod 3) mod 3 = 3 - length src mod 3" using False by simp
  ultimately show ?thesis using \<open>0 < length ?r\<close>
    by (simp add: base64_text_def scan_groups length_enc_groups length_enc_tail min_absorb2)
qed

lemma dec_text: "base64_dec_bytes (base64_text src) 0 3 x = Some src"
proof -
  let ?k = "length src div 3 * 3"
  obtain y where y: "base64_dec_bytes (base64_text src) 0 3 x
     = do { out \<leftarrow> base64_dec_bytes (base64_enc_tail (drop ?k src)) 0 3 y; Some (take ?k src @ out) }"
    using dec_groups [of "take ?k src" "base64_enc_tail (drop ?k src)" x]
    by (auto simp: base64_text_def min_absorb2)
  have "base64_dec_bytes (base64_enc_tail (drop ?k src)) 0 3 y = Some (drop ?k src)"
  proof (cases "drop ?k src = []")
    case True then show ?thesis by (simp add: base64_enc_tail_def)
  next
    case False
    then have "0 < length (drop ?k src)" by simp
    moreover have "length (drop ?k src) < 3" by (simp add: minus_div_mult_eq_mod)
    ultimately show ?thesis by (rule dec_tail)
  qed
  with y show ?thesis by simp
qed


section \<open>Memory safety of the second pass\<close>

text \<open>The bytes stored after \<open>n\<close> characters, the last \<open>j\<close> of them padding.\<close>

definition emitted :: "nat \<Rightarrow> nat \<Rightarrow> nat" where
  "emitted n j = 3 * (n div 4) - (j - n mod 4)"

lemma emitted_bound: "j \<le> 2 \<Longrightarrow> j \<le> n \<Longrightarrow> emitted n j \<le> (n * 6 + 7) div 8 - j"
proof -
  assume j: "j \<le> 2" "j \<le> n"
  have "n = 4 * (n div 4) + n mod 4" "n mod 4 < 4" by simp_all
  then obtain q r where n: "n = 4 * q + r" "r < 4" by blast
  then have "n div 4 = q" "n mod 4 = r" by simp_all
  moreover have "(n * 6 + 7) div 8 = 3 * q + (6 * r + 7) div 8" unfolding n by simp
  moreover have "r = 0 \<or> r = 1 \<or> r = 2 \<or> r = 3" "j = 0 \<or> j = 1 \<or> j = 2" using n j by arith+
  ultimately show ?thesis using j n by (auto simp: emitted_def)
qed

lemma dec_table:
  "list_all (\<lambda>k. base64_dec_map ! k = 127 \<or> (k = 61 \<and> base64_dec_map ! k = 64)
      \<or> (k \<noteq> 61 \<and> base64_dec_map ! k < 64)) [0..<128]"
  by (simp add: base64_dec_map_def upt_conv_Cons)

lemma dec_map_cases:
  assumes "\<not> 127 < (c :: u8)" and "base64_dec_map ! unat c \<noteq> 127"
  shows "idx base64_dec_map (unat c) = Some (base64_dec_map ! unat c)"
    and "c = 61 \<and> base64_dec_map ! unat c = 64 \<or> c \<noteq> 61 \<and> base64_dec_map ! unat c < 64"
proof -
  have k: "unat c < 128" using assms(1) by (simp add: word_less_nat_alt)
  moreover have "length base64_dec_map = 128" by (simp add: base64_dec_map_def)
  ultimately show "idx base64_dec_map (unat c) = Some (base64_dec_map ! unat c)" by (simp add: idx_def)
  have "unat c = 61 \<longleftrightarrow> c = 61" by (auto simp: word_unat_eq_iff)
  then show "c = 61 \<and> base64_dec_map ! unat c = 64 \<or> c \<noteq> 61 \<and> base64_dec_map ! unat c < 64"
    using dec_table k assms(2) by (auto simp: list_all_iff)
qed

text \<open>One character other than a space in the first pass.\<close>

lemma scan_step:
  assumes "c \<noteq> 32" and "base64_dec_scan (c # r) n j = Inr (N, J)"
  shows "((c = 10 \<or> c = 13) \<and> base64_dec_scan r n j = Inr (N, J))
    \<or> (c \<noteq> 10 \<and> c \<noteq> 13 \<and> \<not> 127 < c \<and> base64_dec_map ! unat c \<noteq> 127 \<and>
        ((c = 61 \<and> j < 2 \<and> base64_dec_scan r (n + 1) (j + 1) = Inr (N, J))
          \<or> (c \<noteq> 61 \<and> j = 0 \<and> base64_dec_scan r (n + 1) 0 = Inr (N, J))))"
proof -
  have t13: "base64_dec_map ! 13 = 127" by (simp add: base64_dec_map_def)
  show ?thesis
    using assms dec_map_cases(2) [of c] t13
    by (subst (asm) base64_dec_scan.simps) (auto simp: Let_def split: if_splits)
qed

lemma dec_emitted:
  assumes "32 \<notin> set s" and "base64_dec_scan s n j = Inr (N, J)" and "j \<le> 2" and "j \<le> n"
  shows "J \<le> 2 \<and> J \<le> N \<and> (\<exists>out. base64_dec_bytes s (n mod 4) (3 - of_nat j) x = Some out
           \<and> emitted n j + length out = emitted N J)"
  using assms
proof (induction s arbitrary: n j x)
  case Nil
  then show ?case by simp
next
  case (Cons c r)
  let ?v = "base64_dec_map ! unat c"
  from Cons.prems have "c \<noteq> 32" "32 \<notin> set r" by auto
  from scan_step [OF this(1) Cons.prems(2)]
  consider (nl) "c = 10 \<or> c = 13" "base64_dec_scan r n j = Inr (N, J)"
    | (pad) "\<not> 127 < c" "?v \<noteq> 127" "c = 61" "j < 2" "base64_dec_scan r (n + 1) (j + 1) = Inr (N, J)"
    | (chr) "c \<noteq> 10" "c \<noteq> 13" "\<not> 127 < c" "?v \<noteq> 127" "c \<noteq> 61" "j = 0"
        "base64_dec_scan r (n + 1) 0 = Inr (N, J)"
    by blast
  then show ?case
  proof cases
    case nl
    then show ?thesis using Cons.IH [of n j x] Cons.prems by (auto simp: base64_dec_bytes.simps(2))
  next
    case pad
    let ?x = "push_bit 6 x"
    have eq: "base64_dec_bytes (c # r) (n mod 4) (3 - of_nat j) x =
        (if Suc (n mod 4) = 4 then
          do { out \<leftarrow> base64_dec_bytes r 0 (3 - of_nat (j + 1)) ?x;
             Some ((if 0 < (3 - of_nat (j + 1) :: u32) then [ucast (drop_bit 16 ?x)] else [])
                 @ (if 1 < (3 - of_nat (j + 1) :: u32) then [ucast (drop_bit 8 ?x)] else [])
                 @ (if 2 < (3 - of_nat (j + 1) :: u32) then [ucast ?x] else []) @ out) }
        else base64_dec_bytes r (Suc (n mod 4)) (3 - of_nat (j + 1)) ?x)"
      using pad(3) by (simp add: dec_equals Let_def algebra_simps)
    have "J \<le> 2 \<and> J \<le> N \<and> (\<exists>out. base64_dec_bytes r ((n + 1) mod 4) (3 - of_nat (j + 1)) ?x = Some out
           \<and> emitted (n + 1) (j + 1) + length out = emitted N J)"
      using Cons.IH [of "n + 1" "j + 1" ?x] pad Cons.prems by simp
    moreover have "j = 0 \<or> j = 1" using pad by auto
    ultimately show ?thesis unfolding eq
      by (cases "n mod 4 = 3") (auto simp: emitted_def mod_Suc div_Suc)
  next
    case chr
    let ?x = "push_bit 6 x OR ucast (?v AND 63)"
    have "?v < 64" using dec_map_cases(2) [OF chr(3,4)] chr by auto
    then have "?v \<noteq> 64" by auto
    then have eq: "base64_dec_bytes (c # r) (n mod 4) 3 x =
        (if Suc (n mod 4) = 4 then
          do { out \<leftarrow> base64_dec_bytes r 0 3 ?x;
               Some ([ucast (drop_bit 16 ?x), ucast (drop_bit 8 ?x), ucast ?x] @ out) }
        else base64_dec_bytes r (Suc (n mod 4)) 3 ?x)"
      using chr dec_map_cases(1) [OF chr(3,4)] by (simp add: base64_dec_bytes.simps(2) Let_def)
    have "J \<le> 2 \<and> J \<le> N \<and> (\<exists>out. base64_dec_bytes r ((n + 1) mod 4) 3 ?x = Some out
           \<and> emitted (n + 1) 0 + length out = emitted N J)"
      using Cons.IH [of "n + 1" 0 ?x] chr Cons.prems by simp
    then show ?thesis using chr(6) eq
      by (cases "n mod 4 = 3") (auto simp: emitted_def mod_Suc div_Suc)
  qed
qed


section \<open>Properties\<close>

lemma announced_size: "(4 * (((m::nat) + 2) div 3) * 6 + 7) div 8 - (3 - m mod 3) mod 3 = m"
proof -
  obtain q r where m: "m = 3 * q + r" "r < 3"
    by (metis mod_less_divisor mult_div_mod_eq zero_less_numeral)
  then consider "r = 0" | "r = 1" | "r = 2" by linarith
  then show ?thesis
  proof cases
    case 1
    then have "(m + 2) div 3 = q" using m by simp
    then show ?thesis using m 1 by simp
  next
    case 2
    then have "(m + 2) div 3 = q + 1" "m mod 3 = 1" using m by (simp, presburger)
    then show ?thesis using m 2 by simp
  next
    case 3
    then have "(m + 2) div 3 = q + 1" "m mod 3 = 2" using m by (simp_all, presburger+)
    then show ?thesis using m 3 by simp
  qed
qed

lemma scan_bound: "base64_dec_scan s n j = Inr (N, J) \<Longrightarrow> N \<le> n + length s"
proof (induction "length s" arbitrary: s n j rule: less_induct)
  case less
  show ?case
  proof (cases "dropWhile (\<lambda>c. c = of_char CHR '' '') s")
    case Nil
    then show ?thesis using less.prems
      by (subst (asm) base64_dec_scan.simps) (simp del: dropWhile_eq_Nil_conv)
  next
    case (Cons c r)
    have len: "length r < length s" using Cons by (rule dropWhile_length_less)
    from less.prems Cons obtain n' j' where "base64_dec_scan r n' j' = Inr (N, J)" "n' \<le> n + 1"
      by (subst (asm) base64_dec_scan.simps) (force simp: Let_def split: if_splits)
    with less.hyps [OF len, of n' j'] len show ?thesis by linarith
  qed
qed

lemma scan_error: "base64_dec_scan s n j = Inl e \<Longrightarrow> e = ERR_BASE64_INVALID_CHARACTER"
proof (induction "length s" arbitrary: s n j rule: less_induct)
  case less
  show ?case
  proof (cases "dropWhile (\<lambda>c. c = of_char CHR '' '') s")
    case Nil
    then show ?thesis using less.prems
      by (subst (asm) base64_dec_scan.simps) (simp del: dropWhile_eq_Nil_conv)
  next
    case (Cons c r)
    have len: "length r < length s" using Cons by (rule dropWhile_length_less)
    from less.prems Cons have "e = ERR_BASE64_INVALID_CHARACTER \<or> (\<exists>n' j'. base64_dec_scan r n' j' = Inl e)"
      by (subst (asm) base64_dec_scan.simps) (auto simp: Let_def split: if_splits)
    with less.hyps [OF len] show ?thesis by blast
  qed
qed

text \<open>C2: Round trip of \<open>cm_base64_encode\<close> and \<open>cm_base64_decode\<close>. A non-empty message encoded into
  a buffer that is large enough, and the reported number of characters decoded again into a buffer
  with room for the message, gives the message back; both calls return 0 and both report exactly
  the number of bytes they stored.\<close>

theorem base64_roundtrip:
  assumes "src \<noteq> []" and "length src < 2 ^ 60"
    and "4 * ((length src + 2) div 3) < dlen" and "dlen \<le> length dst"
    and "length src \<le> dlen'" and "dlen' \<le> length dst'"
  shows "\<exists>buf n. cm_base64_encode dst dlen src (length src) = Some (0, buf, n)
     \<and> n = 4 * ((length src + 2) div 3)
     \<and> cm_base64_decode dst' dlen' buf n = Some (0, src @ drop (length src) dst', length src)"
proof -
  let ?t = "base64_text src"
  let ?buf = "?t @ 0 # drop (Suc (length ?t)) dst"
  let ?n = "length ?t"
  have n: "?n = 4 * ((length src + 2) div 3)" by (rule length_base64_text)
  have enc: "cm_base64_encode dst dlen src (length src) = Some (0, ?buf, ?n)"
    using assms n by (intro encode_Some) simp_all
  have "size_t (?n * 6 + 7) div 8 - (3 - length src mod 3) mod 3 = length src"
  proof -
    have "?n * 6 + 7 < 2 ^ 64" using assms(2) n by simp
    then have "size_t (?n * 6 + 7) = ?n * 6 + 7" by (rule size_t_small)
    then show ?thesis using n announced_size [of "length src"] by simp
  qed
  moreover have "?n \<noteq> 0" using n assms(1) by (cases src) (simp_all add: div_greater_zero_iff)
  ultimately have "cm_base64_decode dst' dlen' ?buf ?n = Some (0, src @ drop (length src) dst', length src)"
    using scan_text [OF assms(1)] dec_text [of src 0] assms(5,6)
    by (simp add: cm_base64_decode_def Let_def mem_write_def)
  with enc n show ?thesis by blast
qed

theorem base64_roundtrip_witness:
  "\<exists>buf n. cm_base64_encode (replicate 9 0) 9 [1, 2, 3, 4] 4 = Some (0, buf, n)
     \<and> n = 8 \<and> cm_base64_decode (replicate 5 0) 5 buf n = Some (0, [1, 2, 3, 4, 0], 4)"
proof -
  have l: "length [1, 2, 3, 4 :: u8] = 4" by simp
  show ?thesis
    using base64_roundtrip [of "[1, 2, 3, 4]" 9 "replicate 9 0" 5 "replicate 5 0", unfolded l] by simp
qed

text \<open>The size contract of \<open>cm_base64_encode\<close>. With a source of the announced length and
  \<open>*dlen\<close> bytes of room, the encoder never leaves its buffers. It refuses exactly the buffers
  that cannot hold the text and its terminating zero, leaves them untouched and reports the size
  needed; otherwise it stores four characters per started group of three bytes.\<close>

theorem base64_encode_sizes:
  assumes "src \<noteq> []" and "length src < 2 ^ 60" and "dlen \<le> length dst"
  shows "\<exists>ret buf n. cm_base64_encode dst dlen src (length src) = Some (ret, buf, n)
     \<and> length buf = length dst
     \<and> (if 4 * ((length src + 2) div 3) < dlen
        then ret = 0 \<and> n = 4 * ((length src + 2) div 3) \<and> buf ! n = 0
        else ret = - 0x2A \<and> n = 4 * ((length src + 2) div 3) + 1 \<and> buf = dst)"
proof (cases "4 * ((length src + 2) div 3) < dlen")
  case True
  then have lt: "length (base64_text src) < dlen" by (simp add: length_base64_text)
  show ?thesis
    using encode_Some [OF assms(1,2) lt assms(3)] True lt assms(3) length_base64_text [of src]
    by (auto simp: nth_append)
next
  case False
  then show ?thesis
    using assms enc_size [of "length src"]
    by (simp add: cm_base64_encode_def Let_def ERR_BASE64_BUFFER_TOO_SMALL_def)
qed

theorem base64_encode_sizes_witness:
  "\<exists>ret buf n. cm_base64_encode [0, 0, 0] 3 [7] 1 = Some (ret, buf, n)
     \<and> length buf = 3 \<and> ret = - 0x2A \<and> n = 5 \<and> buf = [0, 0, 0]"
  using base64_encode_sizes [of "[7]" 3 "[0, 0, 0]"] by simp

text \<open>C3: Memory safety of \<open>cm_base64_decode\<close> on input without spaces. Whatever bytes the input
  holds, the decoder reads and writes inside its buffers, keeps the destination's length, and on
  success reports no more bytes than the room it was given.\<close>

theorem base64_decode_safe:
  assumes "32 \<notin> set src" and "length src < 2 ^ 60" and "dlen \<le> length dst"
  shows "\<exists>ret buf n. cm_base64_decode dst dlen src (length src) = Some (ret, buf, n)
     \<and> length buf = length dst \<and> (ret = 0 \<longrightarrow> n \<le> dlen)"
proof (cases "base64_dec_scan src 0 0")
  case (Inl e)
  have "e \<noteq> 0" using scan_error [OF Inl] by (simp add: ERR_BASE64_INVALID_CHARACTER_def)
  with Inl show ?thesis by (simp add: cm_base64_decode_def)
next
  case (Inr a)
  then obtain N J where NJ: "base64_dec_scan src 0 0 = Inr (N, J)" by (cases a) auto
  obtain out where out: "base64_dec_bytes src 0 3 0 = Some out" "length out = emitted N J" "J \<le> 2" "J \<le> N"
    using dec_emitted [OF assms(1) NJ, of 0] by (auto simp: emitted_def)
  have "N * 6 + 7 < 2 ^ 64" using scan_bound [OF NJ] assms(2) by simp
  then have "size_t (N * 6 + 7) = N * 6 + 7" by (rule size_t_small)
  moreover have "emitted N J \<le> (N * 6 + 7) div 8 - J" using out by (intro emitted_bound)
  ultimately show ?thesis
    using NJ out assms(3) by (auto simp: cm_base64_decode_def Let_def mem_write_def ERR_BASE64_BUFFER_TOO_SMALL_def)
qed

theorem base64_decode_safe_witness:
  "\<exists>ret buf n. cm_base64_decode [0, 0] 2 [81, 81, 61, 61] 4 = Some (ret, buf, n)
     \<and> length buf = 2 \<and> (ret = 0 \<longrightarrow> n \<le> 2)"
proof -
  have l: "length [81, 81, 61, 61 :: u8] = 4" "length [0, 0 :: u8] = 2" by simp_all
  show ?thesis
    using base64_decode_safe [of "[81, 81, 61, 61]" 2 "[0, 0]", unfolded l] by simp
qed

text \<open>Spaces at the end of the input, which the first pass of \<open>cm_base64_decode\<close> accepts, are
  shifted into the output by the second pass: four of them after a complete group store three more
  bytes than the size the function announces and checks, so a destination of exactly the announced
  size is overrun.\<close>

theorem base64_decode_trailing_spaces:
  "cm_base64_decode [0, 0, 0] 0 (bytes_of ''QUJD    '') 8 = Some (- 0x2A, [0, 0, 0], 3)
   \<and> cm_base64_decode [0, 0, 0] 3 (bytes_of ''QUJD    '') 8 = None
   \<and> cm_base64_decode [0, 0, 0, 0, 0, 0] 3 (bytes_of ''QUJD    '') 8
       = Some (0, [65, 66, 67, 255, 255, 255], 6)"
  by code_simp

end
