(* ===== verification/Aes.thy ===== *)
theory Aes
  imports CString
begin

text \<open>
  AES-256 of \<open>common/crypto/aeslib.c\<close>: the tables, the key expansion, the block functions and the
  ECB and CBC modes, and \<open>trimKey\<close>. A \<open>state_t\<close> is four rows of four bytes, as in the source
  (\<open>state[i][j]\<close> is byte \<open>4 * i + j\<close> of the block). Results are \<open>None\<close> where the code leaves an array.
\<close>

section \<open>Tables\<close>

definition Rcon :: "u8 list" where
  "Rcon =
    [0x8d, 0x01, 0x02, 0x04, 0x08, 0x10, 0x20, 0x40, 0x80, 0x1b, 0x36, 0x6c,
     0xd8, 0xab, 0x4d, 0x9a, 0x2f, 0x5e, 0xbc, 0x63, 0xc6, 0x97, 0x35, 0x6a,
     0xd4, 0xb3, 0x7d, 0xfa, 0xef, 0xc5, 0x91, 0x39, 0x72, 0xe4, 0xd3, 0xbd,
     0x61, 0xc2, 0x9f, 0x25, 0x4a, 0x94, 0x33, 0x66, 0xcc, 0x83, 0x1d, 0x3a,
     0x74, 0xe8, 0xcb, 0x8d, 0x01, 0x02, 0x04, 0x08, 0x10, 0x20, 0x40, 0x80,
     0x1b, 0x36, 0x6c, 0xd8, 0xab, 0x4d, 0x9a, 0x2f, 0x5e, 0xbc, 0x63, 0xc6,
     0x97, 0x35, 0x6a, 0xd4, 0xb3, 0x7d, 0xfa, 0xef, 0xc5, 0x91, 0x39, 0x72,
     0xe4, 0xd3, 0xbd, 0x61, 0xc2, 0x9f, 0x25, 0x4a, 0x94, 0x33, 0x66, 0xcc,
     0x83, 0x1d, 0x3a, 0x74, 0xe8, 0xcb, 0x8d, 0x01, 0x02, 0x04, 0x08, 0x10,
     0x20, 0x40, 0x80, 0x1b, 0x36, 0x6c, 0xd8, 0xab, 0x4d, 0x9a, 0x2f, 0x5e,
     0xbc, 0x63, 0xc6, 0x97, 0x35, 0x6a, 0xd4, 0xb3, 0x7d, 0xfa, 0xef, 0xc5,
     0x91, 0x39, 0x72, 0xe4, 0xd3, 0xbd, 0x61, 0xc2, 0x9f, 0x25, 0x4a, 0x94,
     0x33, 0x66, 0xcc, 0x83, 0x1d, 0x3a, 0x74, 0xe8, 0xcb, 0x8d, 0x01, 0x02,
     0x04, 0x08, 0x10, 0x20, 0x40, 0x80, 0x1b, 0x36, 0x6c, 0xd8, 0xab, 0x4d,
     0x9a, 0x2f, 0x5e, 0xbc, 0x63, 0xc6, 0x97, 0x35, 0x6a, 0xd4, 0xb3, 0x7d,
     0xfa, 0xef, 0xc5, 0x91, 0x39, 0x72, 0xe4, 0xd3, 0xbd, 0x61, 0xc2, 0x9f,
     0x25, 0x4a, 0x94, 0x33, 0x66, 0xcc, 0x83, 0x1d, 0x3a, 0x74, 0xe8, 0xcb,
     0x8d, 0x01, 0x02, 0x04, 0x08, 0x10, 0x20, 0x40, 0x80, 0x1b, 0x36, 0x6c,
     0xd8, 0xab, 0x4d, 0x9a, 0x2f, 0x5e, 0xbc, 0x63, 0xc6, 0x97, 0x35, 0x6a,
     0xd4, 0xb3, 0x7d, 0xfa, 0xef, 0xc5, 0x91, 0x39, 0x72, 0xe4, 0xd3, 0xbd,
     0x61, 0xc2, 0x9f, 0x25, 0x4a, 0x94, 0x33, 0x66, 0xcc, 0x83, 0x1d, 0x3a,
     0x74, 0xe8, 0xcb]"

definition Sbox :: "u8 list" where
  "Sbox =
    [0x63, 0x7c, 0x77, 0x7b, 0xf2, 0x6b, 0x6f, 0xc5, 0x30, 0x01, 0x67, 0x2b,
     0xfe, 0xd7, 0xab, 0x76, 0xca, 0x82, 0xc9, 0x7d, 0xfa, 0x59, 0x47, 0xf0,
     0xad, 0xd4, 0xa2, 0xaf, 0x9c, 0xa4, 0x72, 0xc0, 0xb7, 0xfd, 0x93, 0x26,
     0x36, 0x3f, 0xf7, 0xcc, 0x34, 0xa5, 0xe5, 0xf1, 0x71, 0xd8, 0x31, 0x15,
     0x04, 0xc7, 0x23, 0xc3, 0x18, 0x96, 0x05, 0x9a, 0x07, 0x12, 0x80, 0xe2,
     0xeb, 0x27, 0xb2, 0x75, 0x09, 0x83, 0x2c, 0x1a, 0x1b, 0x6e, 0x5a, 0xa0,
     0x52, 0x3b, 0xd6, 0xb3, 0x29, 0xe3, 0x2f, 0x84, 0x53, 0xd1, 0x00, 0xed,
     0x20, 0xfc, 0xb1, 0x5b, 0x6a, 0xcb, 0xbe, 0x39, 0x4a, 0x4c, 0x58, 0xcf,
     0xd0, 0xef, 0xaa, 0xfb, 0x43, 0x4d, 0x33, 0x85, 0x45, 0xf9, 0x02, 0x7f,
     0x50, 0x3c, 0x9f, 0xa8, 0x51, 0xa3, 0x40, 0x8f, 0x92, 0x9d, 0x38, 0xf5,
     0xbc, 0xb6, 0xda, 0x21, 0x10, 0xff, 0xf3, 0xd2, 0xcd, 0x0c, 0x13, 0xec,
     0x5f, 0x97, 0x44, 0x17, 0xc4, 0xa7, 0x7e, 0x3d, 0x64, 0x5d, 0x19, 0x73,
     0x60, 0x81, 0x4f, 0xdc, 0x22, 0x2a, 0x90, 0x88, 0x46, 0xee, 0xb8, 0x14,
     0xde, 0x5e, 0x0b, 0xdb, 0xe0, 0x32, 0x3a, 0x0a, 0x49, 0x06, 0x24, 0x5c,
     0xc2, 0xd3, 0xac, 0x62, 0x91, 0x95, 0xe4, 0x79, 0xe7, 0xc8, 0x37, 0x6d,
     0x8d, 0xd5, 0x4e, 0xa9, 0x6c, 0x56, 0xf4, 0xea, 0x65, 0x7a, 0xae, 0x08,
     0xba, 0x78, 0x25, 0x2e, 0x1c, 0xa6, 0xb4, 0xc6, 0xe8, 0xdd, 0x74, 0x1f,
     0x4b, 0xbd, 0x8b, 0x8a, 0x70, 0x3e, 0xb5, 0x66, 0x48, 0x03, 0xf6, 0x0e,
     0x61, 0x35, 0x57, 0xb9, 0x86, 0xc1, 0x1d, 0x9e, 0xe1, 0xf8, 0x98, 0x11,
     0x69, 0xd9, 0x8e, 0x94, 0x9b, 0x1e, 0x87, 0xe9, 0xce, 0x55, 0x28, 0xdf,
     0x8c, 0xa1, 0x89, 0x0d, 0xbf, 0xe6, 0x42, 0x68, 0x41, 0x99, 0x2d, 0x0f,
     0xb0, 0x54, 0xbb, 0x16]"

definition InvSbox :: "u8 list" where
  "InvSbox =
    [0x52, 0x09, 0x6a, 0xd5, 0x30, 0x36, 0xa5, 0x38, 0xbf, 0x40, 0xa3, 0x9e,
     0x81, 0xf3, 0xd7, 0xfb, 0x7c, 0xe3, 0x39, 0x82, 0x9b, 0x2f, 0xff, 0x87,
     0x34, 0x8e, 0x43, 0x44, 0xc4, 0xde, 0xe9, 0xcb, 0x54, 0x7b, 0x94, 0x32,
     0xa6, 0xc2, 0x23, 0x3d, 0xee, 0x4c, 0x95, 0x0b, 0x42, 0xfa, 0xc3, 0x4e,
     0x08, 0x2e, 0xa1, 0x66, 0x28, 0xd9, 0x24, 0xb2, 0x76, 0x5b, 0xa2, 0x49,
     0x6d, 0x8b, 0xd1, 0x25, 0x72, 0xf8, 0xf6, 0x64, 0x86, 0x68, 0x98, 0x16,
     0xd4, 0xa4, 0x5c, 0xcc, 0x5d, 0x65, 0xb6, 0x92, 0x6c, 0x70, 0x48, 0x50,
     0xfd, 0xed, 0xb9, 0xda, 0x5e, 0x15, 0x46, 0x57, 0xa7, 0x8d, 0x9d, 0x84,
     0x90, 0xd8, 0xab, 0x00, 0x8c, 0xbc, 0xd3, 0x0a, 0xf7, 0xe4, 0x58, 0x05,
     0xb8, 0xb3, 0x45, 0x06, 0xd0, 0x2c, 0x1e, 0x8f, 0xca, 0x3f, 0x0f, 0x02,
     0xc1, 0xaf, 0xbd, 0x03, 0x01, 0x13, 0x8a, 0x6b, 0x3a, 0x91, 0x11, 0x41,
     0x4f, 0x67, 0xdc, 0xea, 0x97, 0xf2, 0xcf, 0xce, 0xf0, 0xb4, 0xe6, 0x73,
     0x96, 0xac, 0x74, 0x22, 0xe7, 0xad, 0x35, 0x85, 0xe2, 0xf9, 0x37, 0xe8,
     0x1c, 0x75, 0xdf, 0x6e, 0x47, 0xf1, 0x1a, 0x71, 0x1d, 0x29, 0xc5, 0x89,
     0x6f, 0xb7, 0x62, 0x0e, 0xaa, 0x18, 0xbe, 0x1b, 0xfc, 0x56, 0x3e, 0x4b,
     0xc6, 0xd2, 0x79, 0x20, 0x9a, 0xdb, 0xc0, 0xfe, 0x78, 0xcd, 0x5a, 0xf4,
     0x1f, 0xdd, 0xa8, 0x33, 0x88, 0x07, 0xc7, 0x31, 0xb1, 0x12, 0x10, 0x59,
     0x27, 0x80, 0xec, 0x5f, 0x60, 0x51, 0x7f, 0xa9, 0x19, 0xb5, 0x4a, 0x0d,
     0x2d, 0xe5, 0x7a, 0x9f, 0x93, 0xc9, 0x9c, 0xef, 0xa0, 0xe0, 0x3b, 0x4d,
     0xae, 0x2a, 0xf5, 0xb0, 0xc8, 0xeb, 0xbb, 0x3c, 0x83, 0x53, 0x99, 0x61,
     0x17, 0x2b, 0x04, 0x7e, 0xba, 0x77, 0xd6, 0x26, 0xe1, 0x69, 0x14, 0x63,
     0x55, 0x21, 0x0c, 0x7d]"

definition GFMul2 :: "u8 list" where
  "GFMul2 =
    [0x00, 0x02, 0x04, 0x06, 0x08, 0x0a, 0x0c, 0x0e, 0x10, 0x12, 0x14, 0x16,
     0x18, 0x1a, 0x1c, 0x1e, 0x20, 0x22, 0x24, 0x26, 0x28, 0x2a, 0x2c, 0x2e,
     0x30, 0x32, 0x34, 0x36, 0x38, 0x3a, 0x3c, 0x3e, 0x40, 0x42, 0x44, 0x46,
     0x48, 0x4a, 0x4c, 0x4e, 0x50, 0x52, 0x54, 0x56, 0x58, 0x5a, 0x5c, 0x5e,
     0x60, 0x62, 0x64, 0x66, 0x68, 0x6a, 0x6c, 0x6e, 0x70, 0x72, 0x74, 0x76,
     0x78, 0x7a, 0x7c, 0x7e, 0x80, 0x82, 0x84, 0x86, 0x88, 0x8a, 0x8c, 0x8e,
     0x90, 0x92, 0x94, 0x96, 0x98, 0x9a, 0x9c, 0x9e, 0xa0, 0xa2, 0xa4, 0xa6,
     0xa8, 0xaa, 0xac, 0xae, 0xb0, 0xb2, 0xb4, 0xb6, 0xb8, 0xba, 0xbc, 0xbe,
     0xc0, 0xc2, 0xc4, 0xc6, 0xc8, 0xca, 0xcc, 0xce, 0xd0, 0xd2, 0xd4, 0xd6,
     0xd8, 0xda, 0xdc, 0xde, 0xe0, 0xe2, 0xe4, 0xe6, 0xe8, 0xea, 0xec, 0xee,
     0xf0, 0xf2, 0xf4, 0xf6, 0xf8, 0xfa, 0xfc, 0xfe, 0x1b, 0x19, 0x1f, 0x1d,
     0x13, 0x11, 0x17, 0x15, 0x0b, 0x09, 0x0f, 0x0d, 0x03, 0x01, 0x07, 0x05,
     0x3b, 0x39, 0x3f, 0x3d, 0x33, 0x31, 0x37, 0x35, 0x2b, 0x29, 0x2f, 0x2d,
     0x23, 0x21, 0x27, 0x25, 0x5b, 0x59, 0x5f, 0x5d, 0x53, 0x51, 0x57, 0x55,
     0x4b, 0x49, 0x4f, 0x4d, 0x43, 0x41, 0x47, 0x45, 0x7b, 0x79, 0x7f, 0x7d,
     0x73, 0x71, 0x77, 0x75, 0x6b, 0x69, 0x6f, 0x6d, 0x63, 0x61, 0x67, 0x65,
     0x9b, 0x99, 0x9f, 0x9d, 0x93, 0x91, 0x97, 0x95, 0x8b, 0x89, 0x8f, 0x8d,
     0x83, 0x81, 0x87, 0x85, 0xbb, 0xb9, 0xbf, 0xbd, 0xb3, 0xb1, 0xb7, 0xb5,
     0xab, 0xa9, 0xaf, 0xad, 0xa3, 0xa1, 0xa7, 0xa5, 0xdb, 0xd9, 0xdf, 0xdd,
     0xd3, 0xd1, 0xd7, 0xd5, 0xcb, 0xc9, 0xcf, 0xcd, 0xc3, 0xc1, 0xc7, 0xc5,
     0xfb, 0xf9, 0xff, 0xfd, 0xf3, 0xf1, 0xf7, 0xf5, 0xeb, 0xe9, 0xef, 0xed,
     0xe3, 0xe1, 0xe7, 0xe5]"

definition GFMul4 :: "u8 list" where
  "GFMul4 =
    [0x00, 0x04, 0x08, 0x0c, 0x10, 0x14, 0x18, 0x1c, 0x20, 0x24, 0x28, 0x2c,
     0x30, 0x34, 0x38, 0x3c, 0x40, 0x44, 0x48, 0x4c, 0x50, 0x54, 0x58, 0x5c,
     0x60, 0x64, 0x68, 0x6c, 0x70, 0x74, 0x78, 0x7c, 0x80, 0x84, 0x88, 0x8c,
     0x90, 0x94, 0x98, 0x9c, 0xa0, 0xa4, 0xa8, 0xac, 0xb0, 0xb4, 0xb8, 0xbc,
     0xc0, 0xc4, 0xc8, 0xcc, 0xd0, 0xd4, 0xd8, 0xdc, 0xe0, 0xe4, 0xe8, 0xec,
     0xf0, 0xf4, 0xf8, 0xfc, 0x1b, 0x1f, 0x13, 0x17, 0x0b, 0x0f, 0x03, 0x07,
     0x3b, 0x3f, 0x33, 0x37, 0x2b, 0x2f, 0x23, 0x27, 0x5b, 0x5f, 0x53, 0x57,
     0x4b, 0x4f, 0x43, 0x47, 0x7b, 0x7f, 0x73, 0x77, 0x6b, 0x6f, 0x63, 0x67,
     0x9b, 0x9f, 0x93, 0x97, 0x8b, 0x8f, 0x83, 0x87, 0xbb, 0xbf, 0xb3, 0xb7,
     0xab, 0xaf, 0xa3, 0xa7, 0xdb, 0xdf, 0xd3, 0xd7, 0xcb, 0xcf, 0xc3, 0xc7,
     0xfb, 0xff, 0xf3, 0xf7, 0xeb, 0xef, 0xe3, 0xe7, 0x36, 0x32, 0x3e, 0x3a,
     0x26, 0x22, 0x2e, 0x2a, 0x16, 0x12, 0x1e, 0x1a, 0x06, 0x02, 0x0e, 0x0a,
     0x76, 0x72, 0x7e, 0x7a, 0x66, 0x62, 0x6e, 0x6a, 0x56, 0x52, 0x5e, 0x5a,
     0x46, 0x42, 0x4e, 0x4a, 0xb6, 0xb2, 0xbe, 0xba, 0xa6, 0xa2, 0xae, 0xaa,
     0x96, 0x92, 0x9e, 0x9a, 0x86, 0x82, 0x8e, 0x8a, 0xf6, 0xf2, 0xfe, 0xfa,
     0xe6, 0xe2, 0xee, 0xea, 0xd6, 0xd2, 0xde, 0xda, 0xc6, 0xc2, 0xce, 0xca,
     0x2d, 0x29, 0x25, 0x21, 0x3d, 0x39, 0x35, 0x31, 0x0d, 0x09, 0x05, 0x01,
     0x1d, 0x19, 0x15, 0x11, 0x6d, 0x69, 0x65, 0x61, 0x7d, 0x79, 0x75, 0x71,
     0x4d, 0x49, 0x45, 0x41, 0x5d, 0x59, 0x55, 0x51, 0xad, 0xa9, 0xa5, 0xa1,
     0xbd, 0xb9, 0xb5, 0xb1, 0x8d, 0x89, 0x85, 0x81, 0x9d, 0x99, 0x95, 0x91,
     0xed, 0xe9, 0xe5, 0xe1, 0xfd, 0xf9, 0xf5, 0xf1, 0xcd, 0xc9, 0xc5, 0xc1,
     0xdd, 0xd9, 0xd5, 0xd1]"

definition GFMul8 :: "u8 list" where
  "GFMul8 =
    [0x00, 0x08, 0x10, 0x18, 0x20, 0x28, 0x30, 0x38, 0x40, 0x48, 0x50, 0x58,
     0x60, 0x68, 0x70, 0x78, 0x80, 0x88, 0x90, 0x98, 0xa0, 0xa8, 0xb0, 0xb8,
     0xc0, 0xc8, 0xd0, 0xd8, 0xe0, 0xe8, 0xf0, 0xf8, 0x1b, 0x13, 0x0b, 0x03,
     0x3b, 0x33, 0x2b, 0x23, 0x5b, 0x53, 0x4b, 0x43, 0x7b, 0x73, 0x6b, 0x63,
     0x9b, 0x93, 0x8b, 0x83, 0xbb, 0xb3, 0xab, 0xa3, 0xdb, 0xd3, 0xcb, 0xc3,
     0xfb, 0xf3, 0xeb, 0xe3, 0x36, 0x3e, 0x26, 0x2e, 0x16, 0x1e, 0x06, 0x0e,
     0x76, 0x7e, 0x66, 0x6e, 0x56, 0x5e, 0x46, 0x4e, 0xb6, 0xbe, 0xa6, 0xae,
     0x96, 0x9e, 0x86, 0x8e, 0xf6, 0xfe, 0xe6, 0xee, 0xd6, 0xde, 0xc6, 0xce,
     0x2d, 0x25, 0x3d, 0x35, 0x0d, 0x05, 0x1d, 0x15, 0x6d, 0x65, 0x7d, 0x75,
     0x4d, 0x45, 0x5d, 0x55, 0xad, 0xa5, 0xbd, 0xb5, 0x8d, 0x85, 0x9d, 0x95,
     0xed, 0xe5, 0xfd, 0xf5, 0xcd, 0xc5, 0xdd, 0xd5, 0x6c, 0x64, 0x7c, 0x74,
     0x4c, 0x44, 0x5c, 0x54, 0x2c, 0x24, 0x3c, 0x34, 0x0c, 0x04, 0x1c, 0x14,
     0xec, 0xe4, 0xfc, 0xf4, 0xcc, 0xc4, 0xdc, 0xd4, 0xac, 0xa4, 0xbc, 0xb4,
     0x8c, 0x84, 0x9c, 0x94, 0x77, 0x7f, 0x67, 0x6f, 0x57, 0x5f, 0x47, 0x4f,
     0x37, 0x3f, 0x27, 0x2f, 0x17, 0x1f, 0x07, 0x0f, 0xf7, 0xff, 0xe7, 0xef,
     0xd7, 0xdf, 0xc7, 0xcf, 0xb7, 0xbf, 0xa7, 0xaf, 0x97, 0x9f, 0x87, 0x8f,
     0x5a, 0x52, 0x4a, 0x42, 0x7a, 0x72, 0x6a, 0x62, 0x1a, 0x12, 0x0a, 0x02,
     0x3a, 0x32, 0x2a, 0x22, 0xda, 0xd2, 0xca, 0xc2, 0xfa, 0xf2, 0xea, 0xe2,
     0x9a, 0x92, 0x8a, 0x82, 0xba, 0xb2, 0xaa, 0xa2, 0x41, 0x49, 0x51, 0x59,
     0x61, 0x69, 0x71, 0x79, 0x01, 0x09, 0x11, 0x19, 0x21, 0x29, 0x31, 0x39,
     0xc1, 0xc9, 0xd1, 0xd9, 0xe1, 0xe9, 0xf1, 0xf9, 0x81, 0x89, 0x91, 0x99,
     0xa1, 0xa9, 0xb1, 0xb9]"

section \<open>Key expansion\<close>

type_synonym row_t = "u8 \<times> u8 \<times> u8 \<times> u8"
type_synonym state_t = "row_t \<times> row_t \<times> row_t \<times> row_t"

text \<open>Tables of 256 entries are indexed with a byte.\<close>

definition sub :: "u8 \<Rightarrow> u8" where "sub b = Sbox ! unat b"
definition inv_sub :: "u8 \<Rightarrow> u8" where "inv_sub b = InvSbox ! unat b"
definition mul2 :: "u8 \<Rightarrow> u8" where "mul2 b = GFMul2 ! unat b"
definition mul4 :: "u8 \<Rightarrow> u8" where "mul4 b = GFMul4 ! unat b"
definition mul8 :: "u8 \<Rightarrow> u8" where "mul8 b = GFMul8 ! unat b"

definition SubWord :: "row_t \<Rightarrow> row_t" where
  "SubWord = (\<lambda>(w0, w1, w2, w3). (sub w0, sub w1, sub w2, sub w3))"

definition RotWord :: "row_t \<Rightarrow> row_t" where
  "RotWord = (\<lambda>(w0, w1, w2, w3). (w1, w2, w3, w0))"

definition row_bytes :: "row_t \<Rightarrow> u8 list" where
  "row_bytes = (\<lambda>(a, b, c, d). [a, b, c, d])"

definition read_row :: "u8 list \<Rightarrow> nat \<Rightarrow> row_t option" where
  "read_row w i =
     (case mem_read w i 4 of Some [a, b, c, d] \<Rightarrow> Some (a, b, c, d) | _ \<Rightarrow> None)"

definition xor_row :: "row_t \<Rightarrow> row_t \<Rightarrow> row_t" where
  "xor_row = (\<lambda>(a, b, c, d) (a', b', c', d'). (a XOR a', b XOR b', c XOR c', d XOR d'))"

text \<open>The word \<open>temp\<close> of iteration \<open>i\<close>, and the loop; \<open>w\<close> holds the \<open>4 * i\<close> bytes written so far.\<close>

definition key_temp :: "nat \<Rightarrow> nat \<Rightarrow> row_t \<Rightarrow> row_t option" where
  "key_temp klen i temp =
     (if i mod klen = 0 then
        do { r \<leftarrow> idx Rcon (i div klen);
             let (t0, t1, t2, t3) = SubWord (RotWord temp);
             Some (t0 XOR r, t1, t2, t3) }
      else if 6 < klen \<and> i mod klen = 4 then Some (SubWord temp)
      else Some temp)"

function key_loop :: "nat \<Rightarrow> nat \<Rightarrow> nat \<Rightarrow> u8 list \<Rightarrow> u8 list option" where
  "key_loop klen r i w =
     (if i < r then
        do { temp \<leftarrow> read_row w ((i - 1) * 4);
             temp \<leftarrow> key_temp klen i temp;
             old \<leftarrow> read_row w ((i - klen) * 4);
             key_loop klen r (i + 1) (w @ row_bytes (xor_row old temp)) }
      else Some w)"
  by pat_completeness auto
termination by (relation "measure (\<lambda>(klen, r, i, w). r - i)") auto

declare key_loop.simps [simp del]

definition KeyExpansion :: "u8 list \<Rightarrow> nat \<Rightarrow> u8 list option" where
  "KeyExpansion key klen =
     do { w \<leftarrow> mem_read key 0 (klen * 4);
          key_loop klen (4 * (klen + 7)) klen w }"

section \<open>Rounds\<close>

definition read_state :: "u8 list \<Rightarrow> nat \<Rightarrow> state_t option" where
  "read_state b i =
     do { r0 \<leftarrow> read_row b i; r1 \<leftarrow> read_row b (i + 4);
          r2 \<leftarrow> read_row b (i + 8); r3 \<leftarrow> read_row b (i + 12);
          Some (r0, r1, r2, r3) }"

definition state_bytes :: "state_t \<Rightarrow> u8 list" where
  "state_bytes = (\<lambda>(r0, r1, r2, r3). row_bytes r0 @ row_bytes r1 @ row_bytes r2 @ row_bytes r3)"

definition xor_state :: "state_t \<Rightarrow> state_t \<Rightarrow> state_t" where
  "xor_state = (\<lambda>(r0, r1, r2, r3) (k0, k1, k2, k3).
     (xor_row r0 k0, xor_row r1 k1, xor_row r2 k2, xor_row r3 k3))"

definition AddRoundKey :: "state_t \<Rightarrow> u8 list \<Rightarrow> nat \<Rightarrow> state_t option" where
  "AddRoundKey st key round = do { k \<leftarrow> read_state key (round * 16); Some (xor_state st k) }"

definition SubShiftRows :: "state_t \<Rightarrow> state_t" where
  "SubShiftRows =
     (\<lambda>((s00, s01, s02, s03), (s10, s11, s12, s13), (s20, s21, s22, s23), (s30, s31, s32, s33)).
       ((sub s00, sub s11, sub s22, sub s33),
        (sub s10, sub s21, sub s32, sub s03),
        (sub s20, sub s31, sub s02, sub s13),
        (sub s30, sub s01, sub s12, sub s23)))"

definition SubInvShiftRows :: "state_t \<Rightarrow> state_t" where
  "SubInvShiftRows =
     (\<lambda>((s00, s01, s02, s03), (s10, s11, s12, s13), (s20, s21, s22, s23), (s30, s31, s32, s33)).
       ((inv_sub s00, inv_sub s31, inv_sub s22, inv_sub s13),
        (inv_sub s10, inv_sub s01, inv_sub s32, inv_sub s23),
        (inv_sub s20, inv_sub s11, inv_sub s02, inv_sub s33),
        (inv_sub s30, inv_sub s21, inv_sub s12, inv_sub s03)))"

definition mix_row :: "row_t \<Rightarrow> row_t" where
  "mix_row = (\<lambda>(a, b, c, d).
     let ad = a XOR d; bc = b XOR c; abcd = ad XOR bc in
     (a XOR (abcd XOR mul2 (a XOR b)), b XOR (abcd XOR mul2 bc),
      c XOR (abcd XOR mul2 (c XOR d)), d XOR (abcd XOR mul2 ad)))"

definition MixColumns :: "state_t \<Rightarrow> state_t" where
  "MixColumns = (\<lambda>(r0, r1, r2, r3). (mix_row r0, mix_row r1, mix_row r2, mix_row r3))"

definition inv_mix_row :: "row_t \<Rightarrow> row_t" where
  "inv_mix_row = (\<lambda>(a, b, c, d).
     let ad = a XOR d; bc = b XOR c; q = ad XOR bc; q = q XOR mul8 q;
         p = q XOR mul4 (a XOR c); q = q XOR mul4 (b XOR d) in
     (a XOR (p XOR mul2 (a XOR b)), b XOR (q XOR mul2 bc),
      c XOR (p XOR mul2 (c XOR d)), d XOR (q XOR mul2 ad)))"

definition InvMixColumns :: "state_t \<Rightarrow> state_t" where
  "InvMixColumns =
     (\<lambda>(r0, r1, r2, r3). (inv_mix_row r0, inv_mix_row r1, inv_mix_row r2, inv_mix_row r3))"

text \<open>The rounds \<open>round = r .. r + n - 1\<close> of \<open>encryptBlock\<close>, and \<open>round = n .. 1\<close> of \<open>decryptBlock\<close>.\<close>

fun enc_rounds :: "u8 list \<Rightarrow> nat \<Rightarrow> nat \<Rightarrow> state_t \<Rightarrow> state_t option" where
  "enc_rounds w r 0 st = Some st"
| "enc_rounds w r (Suc n) st =
     do { st \<leftarrow> AddRoundKey (MixColumns (SubShiftRows st)) w r; enc_rounds w (r + 1) n st }"

fun dec_rounds :: "u8 list \<Rightarrow> nat \<Rightarrow> state_t \<Rightarrow> state_t option" where
  "dec_rounds w 0 st = Some st"
| "dec_rounds w (Suc n) st =
     do { st \<leftarrow> AddRoundKey (SubInvShiftRows st) w (Suc n); dec_rounds w n (InvMixColumns st) }"

definition encryptBlock :: "u8 list \<Rightarrow> u8 list \<Rightarrow> nat \<Rightarrow> u8 list option" where
  "encryptBlock input w Nr =
     do { st \<leftarrow> read_state input 0;
          st \<leftarrow> AddRoundKey st w 0;
          st \<leftarrow> enc_rounds w 1 (Nr - 1) st;
          st \<leftarrow> AddRoundKey (SubShiftRows st) w Nr;
          Some (state_bytes st) }"

definition decryptBlock :: "u8 list \<Rightarrow> u8 list \<Rightarrow> nat \<Rightarrow> u8 list option" where
  "decryptBlock input w Nr =
     do { st \<leftarrow> read_state input 0;
          st \<leftarrow> AddRoundKey st w Nr;
          st \<leftarrow> dec_rounds w (Nr - 1) st;
          st \<leftarrow> AddRoundKey (SubInvShiftRows st) w 0;
          Some (state_bytes st) }"

section \<open>Modes\<close>

text \<open>The loops \<open>for (i = 0; i < len; i += 16)\<close>, on the rest of the buffer and the rest \<open>n\<close> of
  \<open>len\<close>; a last partial block is read and written in full.\<close>

function ecb_loop :: "(u8 list \<Rightarrow> u8 list option) \<Rightarrow> u8 list \<Rightarrow> nat \<Rightarrow> u8 list option" where
  "ecb_loop f input n =
     (if n = 0 then Some input
      else do { b \<leftarrow> mem_read input 0 16;
                c \<leftarrow> f b;
                rest \<leftarrow> ecb_loop f (drop 16 input) (n - 16);
                Some (c @ rest) })"
  by pat_completeness auto
termination by (relation "measure (\<lambda>(f, input, n). n)") auto

definition xor_bytes :: "u8 list \<Rightarrow> u8 list \<Rightarrow> u8 list" where
  "xor_bytes xs ys = map2 (XOR) xs ys"

function cbc_enc_loop ::
    "(u8 list \<Rightarrow> u8 list option) \<Rightarrow> u8 list \<Rightarrow> u8 list \<Rightarrow> nat \<Rightarrow> u8 list option" where
  "cbc_enc_loop f piv input n =
     (if n = 0 then Some input
      else do { b \<leftarrow> mem_read input 0 16;
                c \<leftarrow> f (xor_bytes b piv);
                rest \<leftarrow> cbc_enc_loop f c (drop 16 input) (n - 16);
                Some (c @ rest) })"
  by pat_completeness auto
termination by (relation "measure (\<lambda>(f, piv, input, n). n)") auto

function cbc_dec_loop ::
    "(u8 list \<Rightarrow> u8 list option) \<Rightarrow> u8 list \<Rightarrow> u8 list \<Rightarrow> nat \<Rightarrow> u8 list option" where
  "cbc_dec_loop f piv input n =
     (if n = 0 then Some input
      else do { tpiv \<leftarrow> mem_read input 0 16;
                c \<leftarrow> f tpiv;
                rest \<leftarrow> cbc_dec_loop f tpiv (drop 16 input) (n - 16);
                Some (xor_bytes c piv @ rest) })"
  by pat_completeness auto
termination by (relation "measure (\<lambda>(f, piv, input, n). n)") auto

declare ecb_loop.simps [simp del] cbc_enc_loop.simps [simp del] cbc_dec_loop.simps [simp del]

text \<open>The zeroed 32-byte key with \<open>min(klen, 32)\<close> bytes copied in, expanded; a negative \<open>klen\<close>
  becomes a huge \<open>size_t\<close>.\<close>

definition schedule :: "u8 list \<Rightarrow> int \<Rightarrow> u8 list option" where
  "schedule key klen =
     (if klen < 0 then None
      else do { kb \<leftarrow> mem_read key 0 (nat (min klen 32));
                k \<leftarrow> mem_write (replicate 32 0) 0 kb;
                KeyExpansion k 8 })"

text \<open>The counter \<open>i += 16\<close> overflows when the last block starts at \<open>2^31 - 16\<close>.\<close>

definition counter_ok :: "int \<Rightarrow> bool" where "counter_ok len = (len \<le> 2147483632)"

text \<open>A NULL pointer is \<open>None\<close>; the result is the return value and the buffer \<open>input\<close>.\<close>

definition encrypt ::
    "u8 list option \<Rightarrow> int \<Rightarrow> u8 list option \<Rightarrow> int \<Rightarrow> (int \<times> u8 list option) option" where
  "encrypt input len key klen =
     (case (input, key) of
        (Some inp, Some ky) \<Rightarrow>
          do { w \<leftarrow> schedule ky klen;
               out \<leftarrow> (if counter_ok len then ecb_loop (\<lambda>b. encryptBlock b w 14) inp (nat len) else None);
               Some (1, Some out) }
      | _ \<Rightarrow> Some (0, input))"

definition decrypt ::
    "u8 list option \<Rightarrow> int \<Rightarrow> u8 list option \<Rightarrow> int \<Rightarrow> (int \<times> u8 list option) option" where
  "decrypt input len key klen =
     (case (input, key) of
        (Some inp, Some ky) \<Rightarrow>
          do { w \<leftarrow> schedule ky klen;
               out \<leftarrow> (if counter_ok len then ecb_loop (\<lambda>b. decryptBlock b w 14) inp (nat len) else None);
               Some (1, Some out) }
      | _ \<Rightarrow> Some (0, input))"

definition encryptCBC ::
    "u8 list option \<Rightarrow> int \<Rightarrow> u8 list option \<Rightarrow> int \<Rightarrow> u8 list option
       \<Rightarrow> (int \<times> u8 list option) option" where
  "encryptCBC input len key klen iv =
     (case (input, key, iv) of
        (Some inp, Some ky, Some v) \<Rightarrow>
          do { piv \<leftarrow> mem_read v 0 16;
               w \<leftarrow> schedule ky klen;
               out \<leftarrow> (if counter_ok len
                       then cbc_enc_loop (\<lambda>b. encryptBlock b w 14) piv inp (nat len) else None);
               Some (1, Some out) }
      | _ \<Rightarrow> Some (0, input))"

definition decryptCBC ::
    "u8 list option \<Rightarrow> int \<Rightarrow> u8 list option \<Rightarrow> int \<Rightarrow> u8 list option
       \<Rightarrow> (int \<times> u8 list option) option" where
  "decryptCBC input len key klen iv =
     (case (input, key, iv) of
        (Some inp, Some ky, Some v) \<Rightarrow>
          do { piv \<leftarrow> mem_read v 0 16;
               w \<leftarrow> schedule ky klen;
               out \<leftarrow> (if counter_ok len
                       then cbc_dec_loop (\<lambda>b. decryptBlock b w 14) piv inp (nat len) else None);
               Some (1, Some out) }
      | _ \<Rightarrow> Some (0, input))"

section \<open>trimKey\<close>

text \<open>The loop from the terminator \<open>ep\<close> downwards, on the character array.\<close>

fun trim_loop :: "char list \<Rightarrow> nat \<Rightarrow> char list" where
  "trim_loop a 0 = a"
| "trim_loop a (Suc ep) =
     (if a ! ep = CHR 0x0D \<or> a ! ep = CHR 0x0A then trim_loop (a[ep := NUL]) ep else a)"

definition trimKey :: "char list \<Rightarrow> char list option" where
  "trimKey key = do { s \<leftarrow> cstr key; Some (trim_loop key (length s)) }"

end
