(* ===== verification/Aes_Spec.thy ===== *)
theory Aes_Spec
  imports Aes
begin

text \<open>
  FIPS-197 as a specification of its own: the field GF(2^8), the substitution as inverse and affine map, the round functions
  on a column-major list of 16 bytes; and the proof that the table-driven code of \<open>Aes\<close> computes it. The
  block functions are inverse to each other; the modes inherit this through the locale \<open>block_cipher\<close>.
\<close>

section \<open>The field\<close>

definition xtime :: "u8 \<Rightarrow> u8" where
  "xtime b = push_bit 1 b XOR (if bit b 7 then 0x1b else 0)"

lemma xtime_xor: "xtime (a XOR b) = xtime a XOR xtime b"
  by (rule bit_word_eqI) (auto simp: xtime_def bit_simps)

lemma GFMul2_table: "GFMul2 = map (\<lambda>i. xtime (of_nat i)) [0..<256]"
  by code_simp

lemma GFMul4_table: "GFMul4 = map (\<lambda>i. xtime (xtime (of_nat i))) [0..<256]"
  by code_simp

lemma GFMul8_table: "GFMul8 = map (\<lambda>i. xtime (xtime (xtime (of_nat i)))) [0..<256]"
  by code_simp

lemma byte_table: "map f [0..<256] ! unat (b :: u8) = f (unat b)"
  using byte_less [of b] by simp

lemma mul2_xtime: "mul2 b = xtime b"
  unfolding mul2_def GFMul2_table byte_table by simp

lemma mul4_xtime: "mul4 b = xtime (xtime b)"
  unfolding mul4_def GFMul4_table byte_table by simp

lemma mul8_xtime: "mul8 b = xtime (xtime (xtime b))"
  unfolding mul8_def GFMul8_table byte_table by simp

lemmas mul_xtime = mul2_xtime mul4_xtime mul8_xtime xtime_xor

section \<open>The S-box\<close>

lemma InvSbox_table: "list_all (\<lambda>i. InvSbox ! unat (Sbox ! i) = of_nat i) [0..<256]"
  by code_simp

lemma byte_list_all: "list_all P [0..<256] \<Longrightarrow> P (unat (b :: u8))"
  using byte_less [of b] by (simp add: list_all_iff)

lemma inv_sub_sub [simp]: "inv_sub (sub b) = b"
  using byte_list_all [OF InvSbox_table, of b] by (simp add: sub_def inv_sub_def)

lemma bij_sub: "bij sub"
proof -
  have "inj sub" by (metis injI inv_sub_sub)
  then show ?thesis by (simp add: finite_UNIV_inj_surj bij_def)
qed

lemma sub_inv_sub [simp]: "sub (inv_sub b) = b"
  by (metis bij_sub bij_pointE inv_sub_sub)

text \<open>Multiplication in the field, one bit of the second factor after the other, and inverses in it.\<close>

fun gf_times :: "nat \<Rightarrow> u8 \<Rightarrow> u8 \<Rightarrow> u8" where
  "gf_times 0 a b = 0"
| "gf_times (Suc n) a b = (if bit b 0 then a else 0) XOR gf_times n (xtime a) (drop_bit 1 b)"

definition gf_mul :: "u8 \<Rightarrow> u8 \<Rightarrow> u8" where "gf_mul a b = gf_times 8 a b"

definition gf_inverse :: "u8 \<Rightarrow> u8" where
  "gf_inverse b = (case List.find (\<lambda>c. gf_mul b c = 1) (map of_nat [0..<256]) of None \<Rightarrow> 0 | Some c \<Rightarrow> c)"

text \<open>The substitution of SubBytes: the inverse in the field, then the affine map over the bits.\<close>

definition rotl :: "nat \<Rightarrow> u8 \<Rightarrow> u8" where
  "rotl n b = push_bit n b OR drop_bit (8 - n) b"

definition fips_affine :: "u8 \<Rightarrow> u8" where
  "fips_affine b = b XOR rotl 1 b XOR rotl 2 b XOR rotl 3 b XOR rotl 4 b XOR 0x63"

definition fips_sub :: "u8 \<Rightarrow> u8" where
  "fips_sub b = fips_affine (gf_inverse b)"

lemma xtime_0 [simp]: "xtime 0 = 0"
  by (simp add: xtime_def)

lemma gf_times_xor: "gf_times n a (b XOR c) = gf_times n a b XOR gf_times n a c"
  by (induction n arbitrary: a b c) (auto simp: bit_simps ac_simps)

lemma gf_times_xtime: "gf_times n (xtime a) b = xtime (gf_times n a b)"
  by (induction n arbitrary: a b) (auto simp: xtime_xor)

lemma gf_times_0 [simp]: "gf_times n a 0 = 0"
  by (induction n arbitrary: a) auto

lemma gf_times_add: "gf_times n (a XOR b) c = gf_times n a c XOR gf_times n b c"
  by (induction n arbitrary: a b c) (auto simp: xtime_xor ac_simps)

lemma gf_times_zero [simp]: "gf_times n 0 b = 0"
  by (induction n arbitrary: b) auto

lemma gf_times_comm: "gf_times n (gf_times m x a) b = gf_times m (gf_times n x b) a"
proof (induction m arbitrary: x a)
  case (Suc m)
  show ?case using Suc.IH [of "xtime x" "drop_bit 1 a"]
    by (simp add: gf_times_add gf_times_xtime)
next
  case 0
  show ?case by (induction n arbitrary: b) simp_all
qed

lemma gf_times_unit: "k + n \<le> 8 \<Longrightarrow> gf_times n (push_bit k 1) a = push_bit k (take_bit n a)"
proof (induction n arbitrary: k a)
  case (Suc n)
  have "gf_times n (xtime (push_bit k 1)) (drop_bit 1 a) = push_bit (Suc k) (take_bit n (drop_bit 1 a))"
  proof (cases n)
    case (Suc j)
    then have "xtime (push_bit k 1) = push_bit (Suc k) 1"
      using Suc.prems by (auto simp: xtime_def bit_simps)
    then show ?thesis using Suc.IH [of "Suc k" "drop_bit 1 a"] Suc.prems by simp
  qed simp
  moreover have "(if bit a 0 then push_bit k 1 else 0) XOR push_bit (Suc k) (take_bit n (drop_bit 1 a)) = push_bit k (take_bit (Suc n) a)"
  proof (rule bit_word_eqI)
    fix i assume "i < LENGTH(8)"
    consider "i < k" | "i = k" | j where "i = Suc (k + j)" by (metis less_imp_Suc_add linorder_neqE_nat)
    then show "bit ((if bit a 0 then push_bit k 1 else 0) XOR push_bit (Suc k) (take_bit n (drop_bit 1 a))) i =
        bit (push_bit k (take_bit (Suc n) a)) i"
      by cases (auto simp: bit_simps simp del: push_bit_Suc)
  qed
  ultimately show ?case by (simp only: gf_times.simps(2))
qed simp

lemma gf_mul_1 [simp]: "gf_mul 1 b = b" "gf_mul b 1 = b"
proof -
  have "take_bit 8 b = b" using take_bit_length_eq [of b] by simp
  then show "gf_mul 1 b = b" using gf_times_unit [of 0 8 b] unfolding gf_mul_def by simp
  show "gf_mul b 1 = b" by (simp add: gf_mul_def numeral_eq_Suc)
qed

lemma gf_mul_comm: "gf_mul a b = gf_mul b a"
  using gf_times_comm [of 8 8 1 a b] gf_mul_1 by (simp add: gf_mul_def)

lemma gf_mul_xtime: "gf_mul a (xtime b) = xtime (gf_mul a b)"
  by (metis gf_mul_comm gf_mul_def gf_times_xtime)

lemma gf_mul_assoc: "gf_mul a (gf_mul b c) = gf_mul (gf_mul a b) c"
proof -
  have "gf_mul a (gf_times n b c) = gf_times n (gf_mul a b) c" for n
  proof (induction n arbitrary: b c)
    case (Suc n)
    have "gf_mul a (gf_times (Suc n) b c) = gf_mul a (if bit c 0 then b else 0) XOR gf_mul a (gf_times n (xtime b) (drop_bit 1 c))"
      by (simp add: gf_mul_def gf_times_xor)
    then show ?case using Suc.IH [of "xtime b" "drop_bit 1 c"] by (simp add: gf_mul_xtime) (simp add: gf_mul_def)
  qed (simp add: gf_mul_def)
  then show ?thesis by (simp add: gf_mul_def)
qed

lemma gf_inverse_eq:
  assumes "gf_mul b c = 1" and "gf_mul c b = 1"
  shows "gf_inverse b = c"
proof -
  have u: "d = c" if "gf_mul b d = 1" for d
    using gf_mul_assoc [of c b d] assms(2) that by simp
  have "List.find (\<lambda>c. gf_mul b c = 1) (map of_nat [0..<256]) \<noteq> None"
  proof
    assume "List.find (\<lambda>c. gf_mul b c = 1) (map of_nat [0..<256]) = None"
    then have "\<forall>i < 256. gf_mul b (of_nat i) \<noteq> 1" by (auto simp: find_None_iff)
    then have "gf_mul b (of_nat (unat c)) \<noteq> 1" using byte_less [of c] by blast
    then show False using assms(1) by simp
  qed
  then obtain d where "List.find (\<lambda>c. gf_mul b c = 1) (map of_nat [0..<256]) = Some d" by blast
  moreover from this have "gf_mul b d = 1" by (auto simp: find_Some_iff)
  ultimately show ?thesis using u by (simp add: gf_inverse_def)
qed


lemma gf_mul_bits: "gf_mul a b = (if bit b 0 then a else 0) XOR (if bit b 1 then xtime a else 0) XOR (if bit b 2 then xtime (xtime a) else 0) XOR
  (if bit b 3 then xtime (xtime (xtime a)) else 0) XOR  (if bit b 4 then xtime (xtime (xtime (xtime a))) else 0) XOR
  (if bit b 5 then xtime (xtime (xtime (xtime (xtime a)))) else 0) XOR  (if bit b 6 then xtime (xtime (xtime (xtime (xtime (xtime a))))) else 0) XOR
  (if bit b 7 then xtime (xtime (xtime (xtime (xtime (xtime (xtime a)))))) else 0)"
  by (simp add: gf_mul_def numeral_eq_Suc bit_drop_bit_eq)

definition unaffine :: "u8 \<Rightarrow> u8" where
  "unaffine s = rotl 1 s XOR rotl 3 s XOR rotl 6 s XOR 0x05"

text \<open>What the table holds is the affine image of the inverse, entry by entry.\<close>

fun inverses_from :: "u8 \<Rightarrow> u8 list \<Rightarrow> bool" where
  "inverses_from i [] = True"
| "inverses_from i (s # ss) = (fips_affine (unaffine s) = s \<and> gf_mul i (unaffine s) = 1 \<and> inverses_from (i + 1) ss)"

lemma Sbox_inverses: "inverses_from 1 (tl Sbox)"
  by (simp add: Sbox_def gf_mul_bits unaffine_def fips_affine_def rotl_def xtime_def)

lemma inverses_from_nth:
  "inverses_from i ss \<Longrightarrow> k < length ss \<Longrightarrow>
     fips_affine (unaffine (ss ! k)) = ss ! k \<and> gf_mul (i + of_nat k) (unaffine (ss ! k)) = 1"
proof (induction ss arbitrary: i k)
  case (Cons s ss)
  then show ?case using Cons.IH [of "i + 1"] by (cases k) (auto simp: add.assoc)
qed simp

lemma sub_fips: "sub b = fips_sub b"
proof (cases "b = 0")
  case True
  have "gf_mul 0 c = 0" for c by (simp add: gf_mul_def)
  then have "List.find (\<lambda>c. gf_mul 0 c = 1) xs = None" for xs by (simp add: find_None_iff)
  then have "gf_inverse 0 = 0" by (simp add: gf_inverse_def)
  then show ?thesis by (simp add: True sub_def fips_sub_def fips_affine_def rotl_def Sbox_def)
next
  case False
  define k where "k = unat b - 1"
  have k: "unat b = Suc k" using False by (simp add: k_def unat_eq_0 neq0_conv [symmetric])
  then have "Suc k < 256" using byte_less [of b] by simp
  then have "k < length (tl Sbox)" "Sbox ! Suc k = tl Sbox ! k" by (simp_all add: Sbox_def)
  moreover have "b = of_nat (Suc k)" using k [symmetric] by simp
  then have "b = 1 + of_nat k" by simp
  ultimately have "fips_affine (unaffine (sub b)) = sub b" "gf_mul b (unaffine (sub b)) = 1"
    using inverses_from_nth [OF Sbox_inverses, of k] k by (simp_all add: sub_def)
  moreover from this have "gf_inverse b = unaffine (sub b)" using gf_mul_comm by (intro gf_inverse_eq) simp_all
  ultimately show ?thesis by (simp add: fips_sub_def)
qed

section \<open>Inverse round functions\<close>

lemma xor_cancel [simp]: "(x :: u8) XOR (x XOR y) = y"
  by (simp flip: xor.assoc)

lemma xor_row_cancel [simp]: "xor_row (xor_row r k) k = r"
  by (cases r; cases k) (simp add: xor_row_def xor.assoc)

lemma xor_state_cancel [simp]: "xor_state (xor_state s k) k = s"
  by (cases s; cases k) (simp add: xor_state_def)

lemma SubInvShiftRows_inv [simp]: "SubInvShiftRows (SubShiftRows s) = s"
  by (simp add: SubInvShiftRows_def SubShiftRows_def split: prod.split)

text \<open>The rows of the two matrices multiply to the identity over \<open>GF(2^8)\<close>; the computation only
  uses that multiplication by x is additive.\<close>

lemma inv_mix_row_inv [simp]: "inv_mix_row (mix_row r) = r"
  by (cases r) (simp add: inv_mix_row_def mix_row_def Let_def mul_xtime ac_simps)

lemma InvMixColumns_inv [simp]: "InvMixColumns (MixColumns s) = s"
  by (cases s) (simp add: InvMixColumns_def MixColumns_def)

section \<open>Blocks\<close>

lemma list4:
  assumes "length xs = 4"
  shows "xs = [xs ! 0, xs ! 1, xs ! 2, xs ! 3]"
  using assms by (intro nth_equalityI) (auto simp: less_Suc_eq numeral_eq_Suc)

lemma read_row_Some:
  "i + 4 \<le> length w \<Longrightarrow> read_row w i = Some (w ! i, w ! (i + 1), w ! (i + 2), w ! (i + 3))"
proof -
  assume i: "i + 4 \<le> length w"
  then have "take 4 (drop i w) = [w ! i, w ! (i + 1), w ! (i + 2), w ! (i + 3)]"
    by (subst list4) (auto simp: min_def)
  then show ?thesis using i by (simp add: read_row_def mem_read_def)
qed

lemma read_state_Some:
  "i + 16 \<le> length w \<Longrightarrow> read_state w i = Some
     ((w ! i, w ! (i + 1), w ! (i + 2), w ! (i + 3)), (w ! (i + 4), w ! (i + 5), w ! (i + 6), w ! (i + 7)),
      (w ! (i + 8), w ! (i + 9), w ! (i + 10), w ! (i + 11)),
      (w ! (i + 12), w ! (i + 13), w ! (i + 14), w ! (i + 15)))"
  by (simp add: read_state_def read_row_Some ac_simps)

lemma state_cases:
  obtains a0 a1 a2 a3 b0 b1 b2 b3 c0 c1 c2 c3 d0 d1 d2 d3
  where "(s :: state_t) = ((a0, a1, a2, a3), (b0, b1, b2, b3), (c0, c1, c2, c3), (d0, d1, d2, d3))"
  by (cases s) auto

lemma length_state_bytes [simp]: "length (state_bytes s) = 16"
  by (cases s) (simp add: state_bytes_def row_bytes_def split: prod.split)

lemma read_state_bytes [simp]: "read_state (state_bytes s) 0 = Some s"
  by (cases s rule: state_cases) (simp add: read_state_Some, simp add: state_bytes_def row_bytes_def)

lemma state_bytes_read:
  assumes "length b = 16"
  shows "\<exists>s. read_state b 0 = Some s \<and> state_bytes s = b"
proof -
  let ?s = "((b ! 0, b ! 1, b ! 2, b ! 3), (b ! 4, b ! 5, b ! 6, b ! 7),
    (b ! 8, b ! 9, b ! 10, b ! 11), (b ! 12, b ! 13, b ! 14, b ! 15))"
  have "read_state b 0 = Some ?s" using assms read_state_Some [of 0 b] by (simp add: numeral_2_eq_2)
  moreover have "state_bytes ?s = b"
  proof -
    have "[0..<16] = [0, 1, 2, 3, 4, 5, 6, 7, 8, 9, 10, 11, 12, 13, 14, 15 :: nat]"
      by (simp add: upt_rec)
    then show ?thesis using map_nth [of b] unfolding assms
      by (simp only: state_bytes_def row_bytes_def prod.case list.map append.simps)
  qed
  ultimately show ?thesis by blast
qed

text \<open>The key of a round, and the rounds as total functions on a schedule that is long enough.\<close>

definition round_key :: "u8 list \<Rightarrow> nat \<Rightarrow> state_t" where
  "round_key w r = the (read_state w (r * 16))"

lemma AddRoundKey_Some:
  "16 * Suc r \<le> length w \<Longrightarrow> AddRoundKey s w r = Some (xor_state s (round_key w r))"
  by (simp add: AddRoundKey_def round_key_def read_state_Some)

lemma enc_rounds_snoc:
  "enc_rounds w r (Suc n) s =
     do { s \<leftarrow> enc_rounds w r n s; AddRoundKey (MixColumns (SubShiftRows s)) w (r + n) }"
proof (induction n arbitrary: r s)
  case 0
  show ?case by (cases "AddRoundKey (MixColumns (SubShiftRows s)) w r") simp_all
next
  case (Suc n)
  have "enc_rounds w (Suc r) (Suc n) = (\<lambda>s. enc_rounds w (Suc r) n s \<bind>
      (\<lambda>s. AddRoundKey (MixColumns (SubShiftRows s)) w (Suc (r + n))))"
    using Suc.IH [of "Suc r"] by (intro ext) simp
  then show ?case
    by (simp only: enc_rounds.simps(2) [of w r "Suc n"] add_Suc_right Suc_eq_plus1 [symmetric])
       (simp add: Option.bind_assoc)
qed

lemma rounds_inverse:
  assumes "16 * Suc n \<le> length w"
  shows "\<exists>t. enc_rounds w 1 n s = Some t \<and> dec_rounds w n (SubShiftRows t) = Some (SubShiftRows s)"
  using assms
proof (induction n)
  case (Suc n)
  then obtain t where t: "enc_rounds w 1 n s = Some t" "dec_rounds w n (SubShiftRows t) = Some (SubShiftRows s)"
    by auto
  then show ?case using Suc.prems
    by (subst enc_rounds_snoc) (simp add: AddRoundKey_Some)
qed simp

lemma block_inverse:
  assumes "length b = 16" and "16 * Suc Nr \<le> length w" and "0 < Nr"
  shows "\<exists>c. encryptBlock b w Nr = Some c \<and> length c = 16 \<and> decryptBlock c w Nr = Some b"
proof -
  obtain s where s: "read_state b 0 = Some s" "state_bytes s = b" using state_bytes_read [OF assms(1)] by blast
  obtain n where n: "Nr = Suc n" using assms(3) by (cases Nr) auto
  have "16 * Suc n \<le> length w" using assms(2) n by simp
  from rounds_inverse [OF this, of "xor_state s (round_key w 0)"] obtain t where
    "enc_rounds w 1 n (xor_state s (round_key w 0)) = Some t"
    "dec_rounds w n (SubShiftRows t) = Some (SubShiftRows (xor_state s (round_key w 0)))" by blast
  with s n assms(2) show ?thesis
    by (simp add: encryptBlock_def decryptBlock_def AddRoundKey_Some)
qed

section \<open>The cipher of FIPS-197\<close>

definition fips_shift_rows :: "u8 list \<Rightarrow> u8 list" where
  "fips_shift_rows s =
     concat (map (\<lambda>c. map (\<lambda>r. s ! (r + 4 * ((c + r) mod 4))) [0..<4]) [0..<4])"

definition fips_mix_columns :: "u8 list \<Rightarrow> u8 list" where
  "fips_mix_columns s = concat (map (\<lambda>c.
     let s0 = s ! (4 * c); s1 = s ! (4 * c + 1); s2 = s ! (4 * c + 2); s3 = s ! (4 * c + 3);
         m3 = (\<lambda>x. xtime x XOR x) in
     [xtime s0 XOR m3 s1 XOR s2 XOR s3, s0 XOR xtime s1 XOR m3 s2 XOR s3,
      s0 XOR s1 XOR xtime s2 XOR m3 s3, m3 s0 XOR s1 XOR s2 XOR xtime s3]) [0..<4])"

definition fips_add_round_key :: "u8 list \<Rightarrow> nat \<Rightarrow> u8 list \<Rightarrow> u8 list" where
  "fips_add_round_key w r s = map2 (XOR) s (take 16 (drop (16 * r) w))"

definition fips_round :: "u8 list \<Rightarrow> u8 list \<Rightarrow> nat \<Rightarrow> u8 list" where
  "fips_round w s r = fips_add_round_key w r (fips_mix_columns (fips_shift_rows (map fips_sub s)))"

definition fips_cipher :: "u8 list \<Rightarrow> nat \<Rightarrow> u8 list \<Rightarrow> u8 list" where
  "fips_cipher w Nr s =
     fips_add_round_key w Nr (fips_shift_rows (map fips_sub
       (foldl (fips_round w) (fips_add_round_key w 0 s) [1..<Nr])))"

lemma upt4: "[0..<4] = [0, 1, 2, 3 :: nat]"
  by (simp add: upt_rec)

lemma SubShiftRows_fips: "state_bytes (SubShiftRows s) = fips_shift_rows (map fips_sub (state_bytes s))"
  by (cases s rule: state_cases)
     (simp add: sub_fips SubShiftRows_def fips_shift_rows_def state_bytes_def row_bytes_def upt4)

lemma MixColumns_fips: "state_bytes (MixColumns s) = fips_mix_columns (state_bytes s)"
  by (cases s rule: state_cases)
     (simp add: MixColumns_def mix_row_def fips_mix_columns_def state_bytes_def row_bytes_def upt4
        Let_def mul_xtime ac_simps)

lemma xor_state_bytes: "state_bytes (xor_state s k) = map2 (XOR) (state_bytes s) (state_bytes k)"
  by (cases s rule: state_cases; cases k rule: state_cases)
     (simp add: xor_state_def xor_row_def state_bytes_def row_bytes_def)

lemma round_key_bytes:
  assumes "16 * Suc r \<le> length w"
  shows "state_bytes (round_key w r) = take 16 (drop (16 * r) w)"
proof -
  let ?k = "take 16 (drop (16 * r) w)"
  have len: "length ?k = 16" using assms by simp
  obtain s where s: "read_state ?k 0 = Some s" "state_bytes s = ?k"
    using state_bytes_read [OF len] by blast
  have "read_state w (r * 16) = read_state ?k 0"
    using assms by (simp add: read_state_Some mult.commute)
  then show ?thesis using s by (simp add: round_key_def)
qed

lemma AddRoundKey_fips:
  "16 * Suc r \<le> length w \<Longrightarrow>
     \<exists>t. AddRoundKey s w r = Some t \<and> state_bytes t = fips_add_round_key w r (state_bytes s)"
  by (simp add: AddRoundKey_Some fips_add_round_key_def xor_state_bytes round_key_bytes)

lemma enc_rounds_fips:
  assumes "16 * Suc n \<le> length w"
  shows "\<exists>t. enc_rounds w 1 n s = Some t
     \<and> state_bytes t = foldl (fips_round w) (state_bytes s) [1..<Suc n]"
  using assms
proof (induction n)
  case (Suc n)
  then obtain t where t: "enc_rounds w 1 n s = Some t"
    "state_bytes t = foldl (fips_round w) (state_bytes s) [1..<Suc n]" by auto
  obtain u where "AddRoundKey (MixColumns (SubShiftRows t)) w (Suc n) = Some u"
    "state_bytes u = fips_round w (state_bytes t) (Suc n)"
    using AddRoundKey_fips [of "Suc n" w "MixColumns (SubShiftRows t)"] Suc.prems
    by (auto simp: fips_round_def MixColumns_fips SubShiftRows_fips)
  with t show ?case by (subst enc_rounds_snoc) simp
qed simp

lemma encryptBlock_fips:
  assumes "length b = 16" and "16 * Suc Nr \<le> length w" and "0 < Nr"
  shows "encryptBlock b w Nr = Some (fips_cipher w Nr b)"
proof -
  obtain s where s: "read_state b 0 = Some s" "state_bytes s = b" using state_bytes_read [OF assms(1)] by blast
  obtain n where n: "Nr = Suc n" using assms(3) by (cases Nr) auto
  obtain s0 where s0: "AddRoundKey s w 0 = Some s0" "state_bytes s0 = fips_add_round_key w 0 b"
    using AddRoundKey_fips [of 0 w s] assms(2) s n by auto
  obtain t where t: "enc_rounds w 1 n s0 = Some t"
    "state_bytes t = foldl (fips_round w) (state_bytes s0) [1..<Suc n]"
    using enc_rounds_fips [of n w s0] assms(2) n by auto
  obtain u where "AddRoundKey (SubShiftRows t) w Nr = Some u"
    "state_bytes u = fips_add_round_key w Nr (state_bytes (SubShiftRows t))"
    using AddRoundKey_fips [of Nr w "SubShiftRows t"] assms(2) by auto
  then show ?thesis using s s0 t n
    by (simp add: encryptBlock_def fips_cipher_def SubShiftRows_fips)
qed

end
