(* ===== verification/Aes_Modes.thy ===== *)
theory Aes_Modes
  imports Aes_Spec
begin

text \<open>
  The key schedule against FIPS-197, the ECB and CBC modes over an abstract block cipher (locale
  \<open>block_cipher\<close>, interpreted on \<open>encryptBlock\<close>/\<open>decryptBlock\<close>), the four exported functions and
  \<open>trimKey\<close>.
\<close>

section \<open>The key schedule\<close>

definition fips_rcon :: "nat \<Rightarrow> u8" where "fips_rcon i = (xtime ^^ (i - 1)) 1"

definition fips_xor_word :: "u8 list \<Rightarrow> u8 list \<Rightarrow> u8 list" where
  "fips_xor_word v w = map2 (XOR) v w"

function fips_word :: "u8 list \<Rightarrow> nat \<Rightarrow> nat \<Rightarrow> u8 list" where
  "fips_word key nk i =
     (if i < nk \<or> nk = 0 then take 4 (drop (4 * i) key)
      else let temp = fips_word key nk (i - 1) in
        fips_xor_word (fips_word key nk (i - nk))
          (if i mod nk = 0 then fips_xor_word (map fips_sub (rotate1 temp)) [fips_rcon (i div nk), 0, 0, 0]
           else if 6 < nk \<and> i mod nk = 4 then map fips_sub temp else temp))"
  by pat_completeness auto
termination by (relation "measure (\<lambda>(key, nk, i). i)") auto

declare fips_word.simps [simp del]

definition fips_schedule :: "u8 list \<Rightarrow> nat \<Rightarrow> u8 list" where
  "fips_schedule key nk = concat (map (fips_word key nk) [0..<4 * (nk + 7)])"

text \<open>The words as the code handles them.\<close>

function key_word :: "u8 list \<Rightarrow> nat \<Rightarrow> nat \<Rightarrow> row_t" where
  "key_word key nk i =
     (if i < nk \<or> nk = 0 then (key ! (4 * i), key ! (4 * i + 1), key ! (4 * i + 2), key ! (4 * i + 3))
      else let temp = key_word key nk (i - 1) in
        xor_row (key_word key nk (i - nk))
          (if i mod nk = 0 then xor_row (SubWord (RotWord temp)) (fips_rcon (i div nk), 0, 0, 0)
           else if 6 < nk \<and> i mod nk = 4 then SubWord temp else temp))"
  by pat_completeness auto
termination by (relation "measure (\<lambda>(key, nk, i). i)") auto

declare key_word.simps [simp del]

lemma row_words:
  "row_bytes (xor_row r q) = fips_xor_word (row_bytes r) (row_bytes q)"
  "row_bytes (SubWord r) = map fips_sub (row_bytes r)"
  "row_bytes (RotWord r) = rotate1 (row_bytes r)"
  "row_bytes (a, b, c, d) = [a, b, c, d]"
  by (cases r; cases q; simp add: row_bytes_def xor_row_def fips_xor_word_def SubWord_def RotWord_def sub_fips)+

lemma fips_word_key:
  assumes "0 < nk" and "4 * nk \<le> length key"
  shows "fips_word key nk i = row_bytes (key_word key nk i)"
proof (induction i rule: less_induct)
  case (less i)
  show ?case
  proof (cases "i < nk")
    case True
    then have i: "4 * i + 4 \<le> length key" using assms(2) by simp
    have "take 4 (drop (4 * i) key) = [key ! (4 * i), key ! (4 * i + 1), key ! (4 * i + 2), key ! (4 * i + 3)]"
      by (subst list4) (use i in simp_all)
    then show ?thesis using True by (simp add: fips_word.simps [of key nk i] key_word.simps [of key nk i] row_words(4))
  next
    case False
    then have "fips_word key nk (i - 1) = row_bytes (key_word key nk (i - 1))"
      "fips_word key nk (i - nk) = row_bytes (key_word key nk (i - nk))" using assms(1) by (simp_all add: less)
    then show ?thesis using False assms(1)
      by (simp add: fips_word.simps [of key nk i] key_word.simps [of key nk i] Let_def row_words)
  qed
qed

lemma fips_schedule_key:
  assumes "0 < nk" and "4 * nk \<le> length key"
  shows "fips_schedule key nk = concat (map (\<lambda>i. row_bytes (key_word key nk i)) [0..<4 * (nk + 7)])"
  using fips_word_key [OF assms] by (simp add: fips_schedule_def cong: map_cong)

lemma Rcon_step: "list_all (\<lambda>i. Rcon ! Suc i = xtime (Rcon ! i)) [1..<254]"
  by code_simp

lemma Rcon_fips: "0 < i \<Longrightarrow> i < 255 \<Longrightarrow> Rcon ! i = fips_rcon i"
proof (induction i)
  case (Suc i)
  show ?case
  proof (cases "i = 0")
    case True
    then show ?thesis by (simp add: Rcon_def fips_rcon_def)
  next
    case False
    then have "Rcon ! Suc i = xtime (Rcon ! i)"
      using Rcon_step Suc.prems by (simp add: list_all_iff)
    moreover obtain j where "i = Suc j" using False by (cases i) auto
    ultimately show ?thesis using Suc.IH Suc.prems False by (simp add: fips_rcon_def)
  qed
qed simp

lemma length_row_bytes [simp]: "length (row_bytes r) = 4"
  by (cases r) (simp add: row_bytes_def)

lemma read_row_concat:
  assumes "j < length rs"
  shows "read_row (concat (map row_bytes rs)) (j * 4) = Some (rs ! j)"
proof -
  have "take 4 (drop (j * 4) (concat (map row_bytes rs))) = row_bytes (rs ! j)"
    using assms
  proof (induction rs arbitrary: j)
    case (Cons r rs)
    then show ?case by (cases j) simp_all
  qed simp
  moreover have "length (concat (map row_bytes rs)) = 4 * length rs" by (induction rs) simp_all
  ultimately show ?thesis using assms
    by (cases "rs ! j") (simp add: read_row_def mem_read_def row_bytes_def)
qed

lemma key_temp_fips:
  assumes "0 < klen" and "klen \<le> i" and "i div klen < 255"
  shows "key_temp klen i t = Some
    (if i mod klen = 0 then xor_row (SubWord (RotWord t)) (fips_rcon (i div klen), 0, 0, 0)
     else if 6 < klen \<and> i mod klen = 4 then SubWord t else t)"
proof -
  have "0 < i div klen" using assms by (simp add: div_greater_zero_iff)
  moreover have "length Rcon = 255" by (simp add: Rcon_def)
  ultimately show ?thesis using assms(3)
    by (cases "SubWord (RotWord t)") (simp add: key_temp_def Rcon_fips idx_Some xor_row_def)
qed

lemma key_loop_fips:
  assumes "0 < klen" and "klen \<le> i" and "i \<le> r" and "r div klen < 255"
  shows "key_loop klen r i (concat (map (\<lambda>i. row_bytes (key_word key klen i)) [0..<i]))
    = Some (concat (map (\<lambda>i. row_bytes (key_word key klen i)) [0..<r]))"
  using assms
proof (induction "r - i" arbitrary: i)
  case 0
  then show ?case by (simp add: key_loop.simps)
next
  case (Suc d)
  let ?rs = "map (key_word key klen) [0..<i]"
  have lt: "i < r" using Suc.hyps(2) by simp
  have w: "concat (map (\<lambda>i. row_bytes (key_word key klen i)) [0..<i]) = concat (map row_bytes ?rs)"
    by (simp add: comp_def)
  have "i div klen \<le> r div klen" using lt by (simp add: div_le_mono)
  then have temp: "key_temp klen i t = Some (if i mod klen = 0 then xor_row (SubWord (RotWord t)) (fips_rcon (i div klen), 0, 0, 0)
     else if 6 < klen \<and> i mod klen = 4 then SubWord t else t)" for t
    using Suc.prems by (intro key_temp_fips) auto
  have old: "read_row (concat (map row_bytes ?rs)) ((i - 1) * 4) = Some (key_word key klen (i - 1))"
    "read_row (concat (map row_bytes ?rs)) ((i - klen) * 4) = Some (key_word key klen (i - klen))"
    using Suc.prems by (simp_all add: read_row_concat del: map_map)
  have new: "key_word key klen i = xor_row (key_word key klen (i - klen))
      (if i mod klen = 0 then xor_row (SubWord (RotWord (key_word key klen (i - 1)))) (fips_rcon (i div klen), 0, 0, 0)
       else if 6 < klen \<and> i mod klen = 4 then SubWord (key_word key klen (i - 1)) else key_word key klen (i - 1))"
    using Suc.prems by (subst key_word.simps) (simp add: Let_def)
  have "key_loop klen r i (concat (map row_bytes ?rs))
      = key_loop klen r (Suc i) (concat (map row_bytes ?rs) @ row_bytes (key_word key klen i))"
    using lt by (subst key_loop.simps) (simp add: old [unfolded One_nat_def] temp new del: map_map)
  also have "concat (map row_bytes ?rs) @ row_bytes (key_word key klen i)
      = concat (map (\<lambda>i. row_bytes (key_word key klen i)) [0..<Suc i])"
    by (simp add: comp_def)
  also have "key_loop klen r (Suc i) \<dots> = Some (concat (map (\<lambda>i. row_bytes (key_word key klen i)) [0..<r]))"
    using Suc.hyps Suc.prems lt by (intro Suc.hyps(1)) auto
  finally show ?case using w by simp
qed

lemma length_key_words:
  "length (concat (map (\<lambda>i. row_bytes (key_word key nk i)) [0..<n])) = 4 * n"
  by (induction n) simp_all

lemma concat_rows:
  assumes "4 * n \<le> length key" and "n \<le> nk"
  shows "concat (map (\<lambda>i. row_bytes (key_word key nk i)) [0..<n]) = take (4 * n) key"
  using assms
proof (induction n)
  case (Suc n)
  have "key_word key nk n = (key ! (4 * n), key ! (4 * n + 1), key ! (4 * n + 2), key ! (4 * n + 3))"
    using Suc.prems by (subst key_word.simps) simp
  moreover have "take (4 * Suc n) key
      = take (4 * n) key @ [key ! (4 * n), key ! (4 * n + 1), key ! (4 * n + 2), key ! (4 * n + 3)]"
  proof -
    have "take 4 (drop (4 * n) key) = [key ! (4 * n), key ! (4 * n + 1), key ! (4 * n + 2), key ! (4 * n + 3)]"
      using Suc.prems by (subst list4) simp_all
    then show ?thesis using take_add [of "4 * n" 4 key] by (simp add: add.commute)
  qed
  ultimately show ?case using Suc by (simp add: row_bytes_def)
qed simp

lemma KeyExpansion_fips:
  assumes "length key = 4 * nk" and "4 \<le> nk" and "nk \<le> 8"
  shows "KeyExpansion key nk = Some (fips_schedule key nk)"
proof -
  have "4 * (nk + 7) div nk < 255" using assms(2,3) by (simp add: less_mult_imp_div_less)
  then have "key_loop nk (4 * (nk + 7)) nk (concat (map (\<lambda>i. row_bytes (key_word key nk i)) [0..<nk]))
      = Some (fips_schedule key nk)"
    using assms by (simp add: fips_schedule_key) (intro key_loop_fips, simp_all)
  then show ?thesis using assms concat_rows [of nk key nk]
    by (simp add: KeyExpansion_def mem_read_def mult.commute)
qed

lemma length_fips_schedule:
  "0 < nk \<Longrightarrow> 4 * nk \<le> length key \<Longrightarrow> length (fips_schedule key nk) = 16 * (nk + 7)"
  by (simp add: fips_schedule_key length_key_words)

text \<open>The 256-bit key the functions really use: the first 32 bytes, filled up with zeros.\<close>

definition eff_key :: "u8 list \<Rightarrow> int \<Rightarrow> u8 list" where
  "eff_key key klen = take (nat (min klen 32)) key @ replicate (32 - nat (min klen 32)) 0"

lemma length_eff_key: "0 \<le> klen \<Longrightarrow> nat (min klen 32) \<le> length key \<Longrightarrow> length (eff_key key klen) = 32"
  by (simp add: eff_key_def)

lemma schedule_fips:
  assumes "0 \<le> klen" and "nat (min klen 32) \<le> length key"
  shows "schedule key klen = Some (fips_schedule (eff_key key klen) 8)"
proof -
  have "nat (min klen 32) \<le> 32" using assms(1) by simp
  then have "length (eff_key key klen) = 32" using assms by (simp add: eff_key_def)
  then have "KeyExpansion (eff_key key klen) 8 = Some (fips_schedule (eff_key key klen) 8)"
    by (intro KeyExpansion_fips) simp_all
  then show ?thesis using assms \<open>nat (min klen 32) \<le> 32\<close>
    by (simp add: schedule_def mem_read_def mem_write_def eff_key_def)
qed

section \<open>Modes of a block cipher\<close>

lemma xor_bytes_cancel: "length x = length y \<Longrightarrow> xor_bytes (xor_bytes x y) y = x"
  by (induction x y rule: list_induct2) (simp_all add: xor_bytes_def xor.assoc)

lemma length_xor_bytes [simp]: "length (xor_bytes x y) = min (length x) (length y)"
  by (simp add: xor_bytes_def)

locale block_cipher =
  fixes enc dec :: "'k \<Rightarrow> u8 list \<Rightarrow> u8 list option" and valid :: "'k \<Rightarrow> bool"
  assumes inverse: "valid k \<Longrightarrow> length b = 16 \<Longrightarrow> \<exists>c. enc k b = Some c \<and> length c = 16 \<and> dec k c = Some b"
begin

lemma ecb_inverse:
  "valid k \<Longrightarrow> n * 16 \<le> length xs \<Longrightarrow>
     \<exists>c. ecb_loop (enc k) xs (n * 16) = Some c \<and> length c = length xs
       \<and> drop (n * 16) c = drop (n * 16) xs \<and> ecb_loop (dec k) c (n * 16) = Some xs"
proof (induction n arbitrary: xs)
  case 0
  show ?case by (simp add: ecb_loop.simps)
next
  case (Suc n)
  have b: "length (take 16 xs) = 16" and r: "n * 16 \<le> length (drop 16 xs)" using Suc.prems by simp_all
  obtain c where c: "enc k (take 16 xs) = Some c" "length c = 16" "dec k c = Some (take 16 xs)"
    using inverse [OF Suc.prems(1) b] by blast
  obtain cs where cs: "ecb_loop (enc k) (drop 16 xs) (n * 16) = Some cs" "length cs = length (drop 16 xs)"
    "drop (n * 16) cs = drop (n * 16) (drop 16 xs)" "ecb_loop (dec k) cs (n * 16) = Some (drop 16 xs)"
    using Suc.IH [OF Suc.prems(1) r] by blast
  have "ecb_loop (enc k) xs (Suc n * 16) = Some (c @ cs)"
    using c cs Suc.prems by (subst ecb_loop.simps) (simp add: mem_read_def)
  moreover have "ecb_loop (dec k) (c @ cs) (Suc n * 16) = Some xs"
    using c cs Suc.prems by (subst ecb_loop.simps) (simp add: mem_read_def)
  moreover have "drop (Suc n * 16) (c @ cs) = drop (Suc n * 16) xs"
    using c(2) cs(3) by (simp add: add.commute)
  ultimately show ?case using c(2) cs(2) Suc.prems by (intro exI [of _ "c @ cs"]) simp
qed

lemma cbc_inverse:
  "valid k \<Longrightarrow> length piv = 16 \<Longrightarrow> n * 16 \<le> length xs \<Longrightarrow>
     \<exists>c. cbc_enc_loop (enc k) piv xs (n * 16) = Some c \<and> length c = length xs
       \<and> drop (n * 16) c = drop (n * 16) xs \<and> cbc_dec_loop (dec k) piv c (n * 16) = Some xs"
proof (induction n arbitrary: xs piv)
  case 0
  show ?case by (simp add: cbc_enc_loop.simps cbc_dec_loop.simps)
next
  case (Suc n)
  let ?x = "xor_bytes (take 16 xs) piv"
  have b: "length ?x = 16" and r: "n * 16 \<le> length (drop 16 xs)" using Suc.prems by simp_all
  obtain c where c: "enc k ?x = Some c" "length c = 16" "dec k c = Some ?x"
    using inverse [OF Suc.prems(1) b] by blast
  obtain cs where cs: "cbc_enc_loop (enc k) c (drop 16 xs) (n * 16) = Some cs" "length cs = length (drop 16 xs)"
    "drop (n * 16) cs = drop (n * 16) (drop 16 xs)" "cbc_dec_loop (dec k) c cs (n * 16) = Some (drop 16 xs)"
    using Suc.IH [OF Suc.prems(1) c(2) r] by blast
  have "cbc_enc_loop (enc k) piv xs (Suc n * 16) = Some (c @ cs)"
    using c cs Suc.prems by (subst cbc_enc_loop.simps) (simp add: mem_read_def)
  moreover have "cbc_dec_loop (dec k) piv (c @ cs) (Suc n * 16) = Some xs"
    using c cs Suc.prems by (subst cbc_dec_loop.simps) (simp add: mem_read_def xor_bytes_cancel)
  moreover have "drop (Suc n * 16) (c @ cs) = drop (Suc n * 16) xs"
    using c(2) cs(3) by (simp add: add.commute)
  ultimately show ?case using c(2) cs(2) Suc.prems by (intro exI [of _ "c @ cs"]) simp
qed

end

definition aes_valid :: "u8 list \<Rightarrow> bool" where "aes_valid w = (240 \<le> length w)"

interpretation aes: block_cipher "\<lambda>w b. encryptBlock b w 14" "\<lambda>w b. decryptBlock b w 14" aes_valid
  by unfold_locales (auto simp: aes_valid_def intro!: block_inverse)

section \<open>trimKey\<close>

definition is_eol :: "char \<Rightarrow> bool" where "is_eol c = (c = CHR 0x0D \<or> c = CHR 0x0A)"

lemma trim_loop_strip:
  "NUL \<notin> set s \<Longrightarrow> \<exists>r'. trim_loop (s @ NUL # r) (length s)
     = rev (dropWhile is_eol (rev s)) @ NUL # r' \<and> length r' = length r + (length s - length (dropWhile is_eol (rev s)))"
proof (induction s arbitrary: r rule: rev_induct)
  case Nil
  show ?case by simp
next
  case (snoc c s)
  have c: "(s @ c # NUL # r) ! length s = c" by simp
  show ?case
  proof (cases "is_eol c")
    case True
    then have "trim_loop ((s @ [c]) @ NUL # r) (length (s @ [c])) = trim_loop (s @ NUL # NUL # r) (length s)"
      by (simp add: is_eol_def nth_append)
    moreover obtain r' where r': "trim_loop (s @ NUL # NUL # r) (length s) = rev (dropWhile is_eol (rev s)) @ NUL # r'"
        "length r' = length (NUL # r) + (length s - length (dropWhile is_eol (rev s)))"
      using snoc.IH [of "NUL # r"] snoc.prems by auto
    moreover have "length r' = length r + (length (s @ [c]) - length (dropWhile is_eol (rev (s @ [c]))))"
      using True r'(2) length_dropWhile_le [of is_eol "rev s"] by (simp add: Suc_diff_le)
    ultimately show ?thesis using True by (intro exI [of _ r']) simp
  next
    case False
    then show ?thesis by (auto simp: is_eol_def nth_append)
  qed
qed

section \<open>Properties\<close>

text \<open>C4: With a 32-byte key the code computes AES-256: \<open>KeyExpansion\<close> gives the key schedule of
  FIPS-197, and \<open>encryptBlock\<close> with that schedule and 14 rounds gives the cipher of the standard
  (SubBytes, ShiftRows, MixColumns over GF(2^8), AddRoundKey), for every block and key; \<open>decryptBlock\<close>
  takes it back. The standard is written down without the tables of the code: the substitution is the
  inverse in GF(2^8) followed by the affine map over the bits, the words of the schedule are lists of bytes.\<close>

theorem aes_block_fips:
  assumes "length b = 16" and "length key = 32"
  shows "\<exists>w. KeyExpansion key 8 = Some w \<and> w = fips_schedule key 8
     \<and> encryptBlock b w 14 = Some (fips_cipher w 14 b) \<and> decryptBlock (fips_cipher w 14 b) w 14 = Some b"
proof -
  have "16 * Suc 14 \<le> length (fips_schedule key 8)" using assms(2) by (simp add: length_fips_schedule)
  then show ?thesis
    using KeyExpansion_fips [of key 8] encryptBlock_fips [OF assms(1)] block_inverse [OF assms(1), of 14] assms(2) by force
qed

theorem aes_block_fips_witness:
  "\<exists>w. KeyExpansion (replicate 32 0) 8 = Some w \<and> w = fips_schedule (replicate 32 0) 8
     \<and> encryptBlock (replicate 16 0) w 14 = Some (fips_cipher w 14 (replicate 16 0))
     \<and> decryptBlock (fips_cipher w 14 (replicate 16 0)) w 14 = Some (replicate 16 0)"
  by (rule aes_block_fips) simp_all

text \<open>ECB round trip at the exported functions. On whole blocks, with a key of at least
  \<open>min(klen, 32)\<close> bytes, \<open>encrypt\<close> returns 1, changes only the first \<open>len\<close> bytes of the buffer, and
  \<open>decrypt\<close> with the same key restores it.\<close>

theorem aes_ecb_roundtrip:
  assumes "len = 16 * int n" and "len \<le> 2147483632" and "16 * n \<le> length buf"
    and "0 \<le> klen" and "nat (min klen 32) \<le> length key"
  shows "\<exists>c. encrypt (Some buf) len (Some key) klen = Some (1, Some c)
     \<and> length c = length buf \<and> drop (16 * n) c = drop (16 * n) buf
     \<and> decrypt (Some c) len (Some key) klen = Some (1, Some buf)"
proof -
  let ?w = "fips_schedule (eff_key key klen) 8"
  have w: "schedule key klen = Some ?w" using assms(4,5) by (rule schedule_fips)
  have "aes_valid ?w" using length_eff_key [OF assms(4,5)] by (simp add: aes_valid_def length_fips_schedule)
  moreover have "n * 16 \<le> length buf" using assms(3) by simp
  ultimately obtain c where "ecb_loop (\<lambda>b. encryptBlock b ?w 14) buf (n * 16) = Some c"
      "length c = length buf" "drop (n * 16) c = drop (n * 16) buf"
      "ecb_loop (\<lambda>b. decryptBlock b ?w 14) c (n * 16) = Some buf"
    using aes.ecb_inverse by blast
  moreover have "nat len = n * 16" using assms(1) by simp
  ultimately show ?thesis using w assms(2)
    by (simp add: encrypt_def decrypt_def counter_ok_def mult.commute)
qed

theorem aes_ecb_roundtrip_witness:
  "\<exists>c. encrypt (Some (replicate 20 7)) 16 (Some [1, 2, 3]) 3 = Some (1, Some c)
     \<and> length c = 20 \<and> drop 16 c = replicate 4 7
     \<and> decrypt (Some c) 16 (Some [1, 2, 3]) 3 = Some (1, Some (replicate 20 7))"
  using aes_ecb_roundtrip [of 16 1 "replicate 20 7" 3 "[1, 2, 3]"]
  by simp

text \<open>C5: CBC round trip at the exported functions, for every 16-byte initialization vector.\<close>

theorem aes_cbc_roundtrip:
  assumes "len = 16 * int n" and "len \<le> 2147483632" and "16 * n \<le> length buf"
    and "0 \<le> klen" and "nat (min klen 32) \<le> length key" and "16 \<le> length iv"
  shows "\<exists>c. encryptCBC (Some buf) len (Some key) klen (Some iv) = Some (1, Some c)
     \<and> length c = length buf \<and> drop (16 * n) c = drop (16 * n) buf
     \<and> decryptCBC (Some c) len (Some key) klen (Some iv) = Some (1, Some buf)"
proof -
  let ?w = "fips_schedule (eff_key key klen) 8"
  have w: "schedule key klen = Some ?w" using assms(4,5) by (rule schedule_fips)
  have "aes_valid ?w" using length_eff_key [OF assms(4,5)] by (simp add: aes_valid_def length_fips_schedule)
  moreover have "n * 16 \<le> length buf" using assms(3) by simp
  moreover have "length (take 16 iv) = 16" using assms(6) by simp
  ultimately obtain c where "cbc_enc_loop (\<lambda>b. encryptBlock b ?w 14) (take 16 iv) buf (n * 16) = Some c"
      "length c = length buf" "drop (n * 16) c = drop (n * 16) buf"
      "cbc_dec_loop (\<lambda>b. decryptBlock b ?w 14) (take 16 iv) c (n * 16) = Some buf"
    using aes.cbc_inverse by blast
  moreover have "nat len = n * 16" using assms(1) by simp
  ultimately show ?thesis using w assms(2,6)
    by (simp add: encryptCBC_def decryptCBC_def counter_ok_def mem_read_def mult.commute)
qed

theorem aes_cbc_roundtrip_witness:
  "\<exists>c. encryptCBC (Some (replicate 32 7)) 32 (Some [1, 2]) 2 (Some (replicate 16 5)) = Some (1, Some c)
     \<and> length c = 32 \<and> drop 32 c = []
     \<and> decryptCBC (Some c) 32 (Some [1, 2]) 2 (Some (replicate 16 5)) = Some (1, Some (replicate 32 7))"
  using aes_cbc_roundtrip [of 32 2 "replicate 32 7" 2 "[1, 2]" "replicate 16 5"]
  by simp

text \<open>A length that is not a multiple of 16 is not rejected: with a buffer of exactly \<open>len\<close>
  bytes the last block is read past its end.\<close>

theorem aes_partial_block_overrun:
  assumes "length buf = n" and "n mod 16 \<noteq> 0"
  shows "encrypt (Some buf) (int n) (Some key) klen = None
       \<and> decrypt (Some buf) (int n) (Some key) klen = None"
proof -
  have "ecb_loop f xs (length xs) = None" if "length xs mod 16 \<noteq> 0" for f xs
    using that
  proof (induction "length xs" arbitrary: xs rule: less_induct)
    case less
    show ?case
    proof (cases "length xs < 16")
      case True
      then show ?thesis using less.prems by (subst ecb_loop.simps) (auto simp: mem_read_def)
    next
      case False
      then have "length (drop 16 xs) mod 16 \<noteq> 0" using less.prems by (simp add: mod_if [of "length xs"])
      then have "ecb_loop f (drop 16 xs) (length xs - 16) = None"
        using less.hyps [of "drop 16 xs"] False by simp
      then show ?thesis using False by (subst ecb_loop.simps) (auto simp: mem_read_def split: Option.bind_split)
    qed
  qed
  then show ?thesis using assms
    by (auto simp: encrypt_def decrypt_def split: Option.bind_split)
qed

theorem aes_partial_block_overrun_witness:
  "encrypt (Some [1, 2, 3]) 3 (Some [0]) 1 = None \<and> decrypt (Some [1, 2, 3]) 3 (Some [0]) 1 = None"
  using aes_partial_block_overrun [of "[1, 2, 3]" 3 "[0]" 1] by simp

text \<open>\<open>trimKey\<close> removes exactly the carriage returns and line feeds at the end of the key, in
  place and inside the string's own array.\<close>

theorem trimKey_strip:
  assumes "cstr key = Some s"
  shows "\<exists>key'. trimKey key = Some key' \<and> length key' = length key
     \<and> cstr key' = Some (rev (dropWhile (\<lambda>c. c = CHR 0x0D \<or> c = CHR 0x0A) (rev s)))"
proof -
  obtain r where r: "key = s @ NUL # r" "NUL \<notin> set s" using cstr_split [OF assms] by blast
  obtain r' where r': "trim_loop key (length s) = rev (dropWhile is_eol (rev s)) @ NUL # r'"
      "length r' = length r + (length s - length (dropWhile is_eol (rev s)))"
    using trim_loop_strip [OF r(2), of r] r(1) by blast
  have "NUL \<notin> set (rev (dropWhile is_eol (rev s)))"
    using r(2) set_dropWhileD [of NUL is_eol "rev s"] by auto
  moreover have "length (dropWhile is_eol (rev s)) \<le> length s"
    using length_dropWhile_le [of is_eol "rev s"] by simp
  moreover have "is_eol = (\<lambda>c. c = CHR 0x0D \<or> c = CHR 0x0A)" by (rule ext) (simp add: is_eol_def)
  ultimately show ?thesis using r r' assms by (simp add: trimKey_def)
qed

theorem trimKey_strip_witness:
  "\<exists>key'. trimKey (''ab'' @ [CHR 0x0D, CHR 0x0A, NUL]) = Some key' \<and> length key' = 5
     \<and> cstr key' = Some ''ab''"
proof -
  let ?a = "''ab'' @ [CHR 0x0D, CHR 0x0A, NUL]"
  have c: "cstr ?a = Some (''ab'' @ [CHR 0x0D, CHR 0x0A])" by (simp add: cstr_def NUL_def)
  have l: "length ?a = 5" by simp
  show ?thesis using trimKey_strip [OF c] unfolding l by simp
qed

end
