(* ===== verification/Signature.thy ===== *)
theory Signature
  imports Md5_Spec CNumber
begin

text \<open>
  The interface between the protocols and the digest: a signature is a text of 32 lower-case
  hexadecimal characters. The locale \<open>signature\<close> states it and derives what a parser of separated
  fields needs; it is interpreted on the MD5 of the code.
\<close>

locale signature =
  fixes sign :: "string \<Rightarrow> string"
  assumes length_sign: "length (sign s) = 32"
    and hex_sign: "c \<in> set (sign s) \<Longrightarrow> is_digit c \<or> (97 \<le> (of_char c :: nat) \<and> (of_char c :: nat) \<le> 102)"
begin

lemma sign_no_NUL: "NUL \<notin> set (sign s)"
  using hex_sign [of NUL s] by (auto simp: NUL_def is_digit_def)

lemma sign_no_dash: "CHR ''-'' \<notin> set (sign s)"
  using hex_sign [of "CHR ''-''" s] by (auto simp: is_digit_def)

lemma sign_no_CR: "CHR 0x0D \<notin> set (sign s)"
  using hex_sign [of "CHR 0x0D" s] by (auto simp: is_digit_def)

lemma sign_fits:
  assumes "33 \<le> n"
  shows "sprintf_to (zeros n) (sign s) = Some (sign s @ NUL # zeros (n - 33))"
  using assms by (simp add: sprintf_to_Some length_sign zeros_def)

lemma sign_array: "cstr (sign s @ NUL # r) = Some (sign s)"
  by (simp add: sign_no_NUL)

end

text \<open>The signature of the code: the MD5 of the text's bytes in hexadecimal.\<close>

definition sign_text :: "string \<Rightarrow> string" where
  "sign_text s = md5_hex (rfc_digest (bytes_of s))"

interpretation md5: signature sign_text
  by unfold_locales (auto simp: sign_text_def length_md5_hex dest: md5_hex_chars)

lemma kfmd5_sign:
  "kfmd5_ngx zero_ctx (Some (bytes_of s)) (Some (replicate 16 0)) = Some (0, Some (rfc_digest (bytes_of s)))"
  by (simp add: kfmd5_ngx_digest zero_ctx_def)

section \<open>Numbers in fixed arrays\<close>

lemma fmt_d_short: "\<bar>i\<bar> < 10 ^ k \<Longrightarrow> 0 < k \<Longrightarrow> length (fmt_d i) \<le> Suc k"
proof -
  assume i: "\<bar>i\<bar> < 10 ^ k" "0 < k"
  then have "nat \<bar>i\<bar> < 10 ^ k" by (simp add: nat_less_iff)
  then have "length (show_nat (nat \<bar>i\<bar>)) \<le> k" using i(2) by (rule show_nat_length)
  then show ?thesis by (auto simp: fmt_d_def abs_if split: if_splits)
qed

lemma sprintf_fmt_d:
  "length (fmt_d i) < n \<Longrightarrow> sprintf_to (zeros n) (fmt_d i) \<bind> cstr = Some (fmt_d i)"
  by (simp add: sprintf_to_Some)

text \<open>\<open>strncpy\<close> of a whole string with room for its terminator.\<close>

lemma strncpy_whole:
  assumes "length s < n" and "n \<le> length a" and "NUL \<notin> set s"
  shows "\<exists>r. strncpy_to a s n = Some (s @ NUL # r) \<and> length (s @ NUL # r) = length a"
proof -
  have "take n (s @ replicate n NUL) = s @ replicate (n - length s) NUL"
    using assms(1) by simp
  moreover obtain k where "n - length s = Suc k" using assms(1) by (cases "n - length s") auto
  ultimately have "strncpy_to a s n = Some (s @ NUL # (replicate k NUL @ drop n a))"
    using assms(2) by (simp add: strncpy_to_Some)
  moreover have "length (s @ NUL # (replicate k NUL @ drop n a)) = length a"
    using assms \<open>n - length s = Suc k\<close> by simp
  ultimately show ?thesis by blast
qed

end
