(* ===== verification/JkProtocol.thy ===== *)
theory JkProtocol
  imports Signature
begin

text \<open>
  The text protocol of \<open>jkprotocol/jkprotocol.c\<close>: a head of six fields, each followed by
  \<open>\r\n\<close> (version, id, cmd, subCmd, time, signature), then the data, for the savefile subcommand
  with a file name in front. The structure's arrays keep their sizes; the allocator \<open>mal\<close> (the
  external \<open>jk_mem_malloc\<close>), the clock \<open>now\<close> and \<open>strdup\<close>'s success are arguments. Log output is
  not modelled. Results are \<open>None\<close> where the code overruns an array, reads an unterminated one or
  converts a number that does not fit.
\<close>

section \<open>Data\<close>

definition key :: string where "key = ''ab3w-be82f231-aa-cd1b''"
definition version :: string where "version = ''0.0.1''"
definition seperate :: string where "seperate = [CHR 0x0D, CHR 0x0A]"

definition JK_PROTOCOL_CMD_REGISTER :: int where "JK_PROTOCOL_CMD_REGISTER = 1"
definition JK_PROTOCOL_CMD_NOTIFY :: int where "JK_PROTOCOL_CMD_NOTIFY = 2"
definition JK_PROTOCOL_CMD_CONTROL :: int where "JK_PROTOCOL_CMD_CONTROL = 4"
definition JK_PROTOCOL_SUBCMD_SAVEFILE :: int where "JK_PROTOCOL_SUBCMD_SAVEFILE = 1"

record jk_protocol =
  h_version :: "char list"
  h_id :: "char list"
  h_cmd :: int
  h_subCmd :: int
  h_tm :: int
  h_sign :: "char list"
  b_filename :: "char list"
  b_data :: "char list option"

text \<open>\<open>calloc(1, sizeof(struct tagJKProtocol))\<close>, which is also what \<open>memset\<close> makes of it.\<close>

definition jk_zero :: jk_protocol where
  "jk_zero = \<lparr>h_version = zeros 8, h_id = zeros 16, h_cmd = 0, h_subCmd = 0, h_tm = 0,
     h_sign = zeros 40, b_filename = zeros 256, b_data = None\<rparr>"

section \<open>Generation\<close>

text \<open>A pointer argument that may be NULL is an option. \<open>alloc_ok\<close>: the allocation succeeded; the
  created object is returned next to the return value and stored through \<open>pro\<close> unless it is NULL.\<close>

definition jk_protocol_init :: "bool \<Rightarrow> string \<Rightarrow> (int \<times> jk_protocol option) option" where
  "jk_protocol_init alloc_ok idn =
     (if \<not> alloc_ok then Some (- 1, None)
      else do { i \<leftarrow> sprintf_to (h_id jk_zero) idn;
                v \<leftarrow> sprintf_to (h_version jk_zero) version;
                Some (0, Some (jk_zero\<lparr>h_id := i, h_version := v\<rparr>)) })"

text \<open>\<open>jk_protocol_deinit\<close> on the pointer to the handle: NULL, or the handle it points to.\<close>

definition jk_protocol_deinit ::
    "jk_protocol option option \<Rightarrow> (int \<times> jk_protocol option option) option" where
  "jk_protocol_deinit pro =
     (case pro of None \<Rightarrow> Some (0, None)
      | Some None \<Rightarrow> None
      | Some (Some p) \<Rightarrow> Some (0, Some None))"

fun tostring_loop :: "u8 list \<Rightarrow> char list \<Rightarrow> char list option" where
  "tostring_loop [] save = Some save"
| "tostring_loop (b # bs) save = do { save \<leftarrow> strcat_to save (fmt_02x b); tostring_loop bs save }"

definition jk_protocol_tostring :: "u8 list \<Rightarrow> char list \<Rightarrow> char list option" where
  "jk_protocol_tostring data save =
     (if length data < 16 then None else tostring_loop (take 16 data) save)"

text \<open>The text that is signed, from the string values of the fields.\<close>

definition sign_input :: "string \<Rightarrow> string \<Rightarrow> int \<Rightarrow> int \<Rightarrow> int \<Rightarrow> string" where
  "sign_input v i cmd sub tm =
     v @ seperate @ i @ seperate @ fmt_d cmd @ seperate @ fmt_d sub @ seperate @ fmt_d tm
       @ seperate @ key"

text \<open>\<open>jk_protocol_generate_sign(pro, sign)\<close> for a non-NULL \<open>pro\<close> (its callers have checked it)
  appends to \<open>sign\<close>; the local buffers of 16 and 1024 characters bound the fields. The result is the
  return value and the new contents of \<open>sign\<close>.\<close>

definition jk_protocol_generate_sign :: "jk_protocol \<Rightarrow> char list \<Rightarrow> (int \<times> char list) option" where
  "jk_protocol_generate_sign pro sign =
     do { tmpcmd \<leftarrow> sprintf_to (zeros 16) (fmt_d (h_cmd pro)) \<bind> cstr;
          tmpsubcmd \<leftarrow> sprintf_to (zeros 16) (fmt_d (h_subCmd pro)) \<bind> cstr;
          tmptm \<leftarrow> sprintf_to (zeros 16) (fmt_d (h_tm pro)) \<bind> cstr;
          v \<leftarrow> cstr (h_version pro);
          i \<leftarrow> cstr (h_id pro);
          str \<leftarrow> sprintf_to (zeros 1024)
             (v @ seperate @ i @ seperate @ tmpcmd @ seperate @ tmpsubcmd @ seperate @ tmptm
               @ seperate @ key) \<bind> cstr;
          (ret, output) \<leftarrow> kfmd5_ngx zero_ctx (Some (bytes_of str)) (Some (replicate 16 0));
          out \<leftarrow> output;
          sign \<leftarrow> jk_protocol_tostring out sign;
          Some (ret, sign) }"

text \<open>\<open>memset(pro->head.sign, 0, ..)\<close> and signing into the structure.\<close>

definition jk_resign :: "jk_protocol \<Rightarrow> jk_protocol option" where
  "jk_resign pro =
     do { (_, s) \<leftarrow> jk_protocol_generate_sign pro (zeros 40); Some (pro\<lparr>h_sign := s\<rparr>) }"

definition jk_protocol_generate_register ::
    "int \<Rightarrow> jk_protocol option \<Rightarrow> (int \<times> jk_protocol option) option" where
  "jk_protocol_generate_register now pro =
     (case pro of None \<Rightarrow> Some (- 1, None)
      | Some pro \<Rightarrow>
          do { pro \<leftarrow> jk_resign (pro\<lparr>h_cmd := JK_PROTOCOL_CMD_REGISTER, h_tm := now\<rparr>);
               Some (0, Some pro) })"

definition jk_protocol_generate_notify_savefile ::
    "int \<Rightarrow> jk_protocol option \<Rightarrow> string \<Rightarrow> (int \<times> jk_protocol option) option" where
  "jk_protocol_generate_notify_savefile now pro filename =
     (case pro of None \<Rightarrow> Some (- 1, None)
      | Some pro \<Rightarrow>
          do { pro \<leftarrow> jk_resign (pro\<lparr>h_cmd := JK_PROTOCOL_CMD_NOTIFY,
                      h_subCmd := JK_PROTOCOL_SUBCMD_SAVEFILE, h_tm := now\<rparr>);
               f \<leftarrow> snprintf_to (b_filename pro) 256 filename;
               Some (0, Some (pro\<lparr>b_filename := f\<rparr>)) })"

definition jk_protocol_generate_control_savefile ::
    "int \<Rightarrow> jk_protocol option \<Rightarrow> string \<Rightarrow> (int \<times> jk_protocol option) option" where
  "jk_protocol_generate_control_savefile now pro filename =
     (case pro of None \<Rightarrow> Some (- 1, None)
      | Some pro \<Rightarrow>
          do { pro \<leftarrow> jk_resign (pro\<lparr>h_cmd := JK_PROTOCOL_CMD_CONTROL,
                      h_subCmd := JK_PROTOCOL_SUBCMD_SAVEFILE, h_tm := now\<rparr>);
               f \<leftarrow> snprintf_to (b_filename pro) 256 filename;
               Some (0, Some (pro\<lparr>b_filename := f\<rparr>)) })"

text \<open>This function checks \<open>data\<close> and \<open>save\<close>, but not \<open>pro\<close>.\<close>

definition jk_protocol_generate_string ::
    "jk_protocol option \<Rightarrow> string option \<Rightarrow> char list option \<Rightarrow> (int \<times> char list option) option" where
  "jk_protocol_generate_string pro data save =
     (case (data, save) of
        (Some data, Some save) \<Rightarrow>
          do { pro \<leftarrow> pro;
               tmpcmd \<leftarrow> sprintf_to (zeros 16) (fmt_d (h_cmd pro)) \<bind> cstr;
               tmpsubcmd \<leftarrow> sprintf_to (zeros 16) (fmt_d (h_subCmd pro)) \<bind> cstr;
               tmptm \<leftarrow> sprintf_to (zeros 16) (fmt_d (h_tm pro)) \<bind> cstr;
               v \<leftarrow> cstr (h_version pro);
               i \<leftarrow> cstr (h_id pro);
               s \<leftarrow> cstr (h_sign pro);
               f \<leftarrow> (if h_subCmd pro = JK_PROTOCOL_SUBCMD_SAVEFILE
                     then do { f \<leftarrow> cstr (b_filename pro); Some (f @ seperate) } else Some []);
               save \<leftarrow> sprintf_to save
                  (v @ seperate @ i @ seperate @ tmpcmd @ seperate @ tmpsubcmd @ seperate @ tmptm
                    @ seperate @ s @ seperate @ f @ data);
               Some (0, Some save) }
      | _ \<Rightarrow> Some (- 1, save))"

section \<open>Parsing\<close>

text \<open>One step of the parser: the field before the next separator and what follows it.\<close>

definition next_field :: "string \<Rightarrow> (string \<times> string) option" where
  "next_field p =
     (case strstr p seperate of None \<Rightarrow> None
      | Some k \<Rightarrow> Some (take k p, drop (k + length seperate) p))"

text \<open>A field copied into an array: the new array, the rest of the text and of \<open>headlen\<close>; and a
  number field, read through a temporary array of \<open>n\<close> characters.\<close>

definition parse_str :: "char list \<Rightarrow> string \<Rightarrow> int \<Rightarrow> (char list \<times> string \<times> int) option" where
  "parse_str a p headlen =
     (case next_field p of None \<Rightarrow> Some (a, p, headlen)
      | Some (f, p') \<Rightarrow>
          do { a \<leftarrow> strncpy_to a f (length f);
               Some (a, p', headlen + int (length f) + int (length seperate)) })"

definition parse_int :: "int \<Rightarrow> nat \<Rightarrow> string \<Rightarrow> int \<Rightarrow> (int \<times> string \<times> int) option" where
  "parse_int x n p headlen =
     (case next_field p of None \<Rightarrow> Some (x, p, headlen)
      | Some (f, p') \<Rightarrow>
          do { tmp \<leftarrow> strncpy_to (zeros n) f (length f);
               v \<leftarrow> cstr tmp \<bind> atoi;
               Some (v, p', headlen + int (length f) + int (length seperate)) })"

text \<open>Splitting the file name off the copied data (the block under the savefile subcommand);
  \<open>dup_ok\<close>: \<open>strdup\<close> succeeded. A huge \<open>size_t\<close> as the count of \<open>strncpy\<close> overruns the array.\<close>

definition parse_filename :: "bool \<Rightarrow> jk_protocol \<Rightarrow> int \<Rightarrow> jk_protocol option" where
  "parse_filename dup_ok pro datalen =
     (if h_subCmd pro \<noteq> JK_PROTOCOL_SUBCMD_SAVEFILE then Some pro
      else case b_data pro of None \<Rightarrow> None
      | Some d \<Rightarrow>
          do { sdata \<leftarrow> cstr d;
               if \<not> dup_ok then None
               else case strstr sdata seperate of None \<Rightarrow> Some pro
               | Some k \<Rightarrow>
                   do { f \<leftarrow> strncpy_to (b_filename pro) (take k sdata) k;
                        let rest = datalen - int k - int (length seperate);
                        (if rest < 0 then None else
                         do { d \<leftarrow> strncpy_to (zeros (length d)) (drop (k + length seperate) sdata) (nat rest);
                              Some (pro\<lparr>b_filename := f, b_data := Some d\<rparr>) }) } })"

text \<open>The parse proper, with both pointers non-NULL, from the \<open>memset\<close> on.\<close>

definition parse_pro ::
    "(nat \<Rightarrow> char list option) \<Rightarrow> bool \<Rightarrow> string \<Rightarrow> int \<Rightarrow> (int \<times> jk_protocol) option" where
  "parse_pro mal dup_ok data len =
     do { let pro = jk_zero;
          (v, p, headlen) \<leftarrow> parse_str (h_version pro) data 0;
          (i, p, headlen) \<leftarrow> parse_str (h_id pro) p headlen;
          (cmd, p, headlen) \<leftarrow> parse_int (h_cmd pro) 4 p headlen;
          (sub, p, headlen) \<leftarrow> parse_int (h_subCmd pro) 4 p headlen;
          (tm, p, headlen) \<leftarrow> parse_int (h_tm pro) 16 p headlen;
          (sign, p, headlen) \<leftarrow> parse_str (zeros 40) p headlen;
          pro \<leftarrow> jk_resign (pro\<lparr>h_version := v, h_id := i, h_cmd := cmd, h_subCmd := sub, h_tm := tm\<rparr>);
          s1 \<leftarrow> cstr sign;
          s2 \<leftarrow> cstr (h_sign pro);
          (if strcmp s1 s2 \<noteq> 0 then Some (- 2, pro)
           else do { let datalen = len - headlen - int (length seperate);
                     d \<leftarrow> (case malloc_int mal datalen of None \<Rightarrow> Some None
                           | Some a \<Rightarrow> do { a \<leftarrow> sprintf_to a p; Some (Some a) });
                     pro \<leftarrow> parse_filename dup_ok (pro\<lparr>b_data := d\<rparr>) datalen;
                     Some (0, pro) }) }"

definition jk_protocol_parse ::
    "(nat \<Rightarrow> char list option) \<Rightarrow> bool \<Rightarrow> jk_protocol option \<Rightarrow> string option \<Rightarrow> int
       \<Rightarrow> (int \<times> jk_protocol option) option" where
  "jk_protocol_parse mal dup_ok pro data len =
     (case (pro, data) of
        (Some _, Some d) \<Rightarrow> do { (ret, p) \<leftarrow> parse_pro mal dup_ok d len; Some (ret, Some p) }
      | _ \<Rightarrow> Some (- 1, pro))"

text \<open>The accessors; NULL is \<open>None\<close>.\<close>

definition jk_protocol_cmd :: "jk_protocol option \<Rightarrow> int" where
  "jk_protocol_cmd p = (case p of Some pro \<Rightarrow> h_cmd pro | None \<Rightarrow> - 1)"

definition jk_protocol_subcmd :: "jk_protocol option \<Rightarrow> int" where
  "jk_protocol_subcmd p = (case p of Some pro \<Rightarrow> h_subCmd pro | None \<Rightarrow> - 1)"

definition jk_protocol_data :: "jk_protocol option \<Rightarrow> char list option" where
  "jk_protocol_data p = (case p of Some pro \<Rightarrow> b_data pro | None \<Rightarrow> None)"

definition jk_protocol_data_free :: "jk_protocol option \<Rightarrow> (int \<times> jk_protocol) option" where
  "jk_protocol_data_free p = (case p of Some pro \<Rightarrow> Some (0, pro\<lparr>b_data := None\<rparr>) | None \<Rightarrow> None)"

end
