(* ===== verification/JkProtocol_Correct.thy ===== *)
theory JkProtocol_Correct
  imports JkProtocol
begin

text \<open>
  Correctness of the text protocol: the well-formedness of the structure's arrays and its
  preservation, the text a signed structure is written to, and the parser on such texts: the round
  trip, the rejection of a wrong signature, and the room the parser needs beyond the text.
\<close>

section \<open>Signing\<close>

lemma tostring_loop_Some:
  "NUL \<notin> set t \<Longrightarrow> 2 * length bs \<le> length r \<Longrightarrow>
     tostring_loop bs (t @ NUL # r) = Some (t @ concat (map fmt_02x bs) @ NUL # drop (2 * length bs) r)"
proof (induction bs arbitrary: t r)
  case (Cons b bs)
  have no: "NUL \<notin> set (fmt_02x b)"
    using fmt_02x_chars [of NUL b] by (auto simp: NUL_def is_digit_def)
  have "strcat_to (t @ NUL # r) (fmt_02x b) = Some ((t @ fmt_02x b) @ NUL # drop 2 r)"
    using Cons.prems by (simp add: strcat_to_Some)
  then show ?case using Cons.IH [of "t @ fmt_02x b" "drop 2 r"] Cons.prems no by simp
qed simp

text \<open>Well-formed structures: terminated arrays of the declared sizes, numbers of the declared
  types, and a time that fits the code's 16-character buffer.\<close>

definition terminated :: "char list \<Rightarrow> nat \<Rightarrow> bool" where
  "terminated a n = (length a = n \<and> NUL \<in> set a)"

definition jk_wf :: "jk_protocol \<Rightarrow> bool" where
  "jk_wf pro = (terminated (h_version pro) 8 \<and> terminated (h_id pro) 16 \<and> terminated (h_sign pro) 40
     \<and> terminated (b_filename pro) 256 \<and> \<bar>h_cmd pro\<bar> \<le> 2 ^ 31 \<and> \<bar>h_subCmd pro\<bar> \<le> 2 ^ 31
     \<and> \<bar>h_tm pro\<bar> < 10 ^ 14)"

lemma terminated_cstr: "terminated a n \<Longrightarrow> \<exists>s. cstr a = Some s \<and> length s < n \<and> NUL \<notin> set s"
proof -
  assume a: "terminated a n"
  then obtain s where s: "cstr a = Some s" by (auto simp: terminated_def cstr_def)
  show ?thesis using a s cstr_length [OF s] cstr_no_NUL [OF s] by (auto simp: terminated_def)
qed

lemma int_short: "\<bar>i\<bar> \<le> 2 ^ 31 \<Longrightarrow> length (fmt_d i) \<le> 11"
  using fmt_d_short [of i 10] by simp

lemma time_short: "\<bar>i\<bar> < 10 ^ 14 \<Longrightarrow> length (fmt_d i) \<le> 15"
  using fmt_d_short [of i 14] by simp

lemma sign_input_short:
  assumes "length v < 8" and "length i < 16" and "length (fmt_d cmd) \<le> 11"
    and "length (fmt_d sub) \<le> 11" and "length (fmt_d tm) \<le> 15"
  shows "length (sign_input v i cmd sub tm) < 1024"
  using assms by (simp add: sign_input_def seperate_def key_def)

lemma consts_no_NUL [simp]: "NUL \<notin> set seperate" "NUL \<notin> set key" "NUL \<notin> set version"
  by (simp_all add: seperate_def key_def version_def NUL_def)

lemma sign_input_no_NUL:
  "NUL \<notin> set v \<Longrightarrow> NUL \<notin> set i \<Longrightarrow> NUL \<notin> set (sign_input v i cmd sub tm)"
  by (simp add: sign_input_def)

lemma generate_sign:
  assumes "cstr (h_version pro) = Some v" and "cstr (h_id pro) = Some i"
    and "length v < 8" and "length i < 16"
    and "\<bar>h_cmd pro\<bar> \<le> 2 ^ 31" and "\<bar>h_subCmd pro\<bar> \<le> 2 ^ 31" and "\<bar>h_tm pro\<bar> < 10 ^ 14"
  shows "jk_protocol_generate_sign pro (zeros 40)
    = Some (0, sign_text (sign_input v i (h_cmd pro) (h_subCmd pro) (h_tm pro)) @ NUL # zeros 7)"
proof -
  let ?in = "sign_input v i (h_cmd pro) (h_subCmd pro) (h_tm pro)"
  have short: "length (fmt_d (h_cmd pro)) \<le> 11" "length (fmt_d (h_subCmd pro)) \<le> 11"
    "length (fmt_d (h_tm pro)) \<le> 15"
    using assms int_short time_short by auto
  have "length ?in < 1024" using assms short by (intro sign_input_short)
  moreover have "NUL \<notin> set ?in"
    using assms(1,2) cstr_no_NUL by (intro sign_input_no_NUL) auto
  ultimately obtain a where str: "sprintf_to (zeros 1024) ?in = Some a" "cstr a = Some ?in"
    by (simp add: sprintf_to_Some)
  have "tostring_loop ds ([] @ NUL # zeros 39) = Some ([] @ concat (map fmt_02x ds) @ NUL # drop 32 (zeros 39))"
    if "length ds = 16" for ds using tostring_loop_Some [of "[]" ds "zeros 39"] that by simp
  then have hex: "tostring_loop ds (zeros 40) = Some (concat (map fmt_02x ds) @ NUL # zeros 7)"
    if "length ds = 16" for ds
    using that by (simp add: zeros_def flip: replicate_Suc)
  show ?thesis
    using short assms str
    by (simp add: jk_protocol_generate_sign_def sprintf_fmt_d kfmd5_sign
        jk_protocol_tostring_def hex sign_text_def md5_hex_def flip: sign_input_def)
qed

text \<open>A field value: no terminator and no separator in it.\<close>

definition plain :: "string \<Rightarrow> bool" where
  "plain s = (NUL \<notin> set s \<and> CHR 0x0D \<notin> set s)"

lemma plain_fmt_d [simp]: "plain (fmt_d i)"
  by (simp add: plain_def)

lemma plain_sign [simp]: "plain (sign_text s)"
  by (simp add: plain_def md5.sign_no_NUL md5.sign_no_CR)

lemma plain_version [simp]: "plain version"
  by (simp add: plain_def version_def NUL_def)

lemma length_seperate [simp]: "length seperate = 2"
  by (simp add: seperate_def)

lemma next_field_plain:
  assumes "plain f"
  shows "next_field (f @ seperate @ rest) = Some (f, rest)"
proof -
  have "strstr (f @ seperate @ rest) seperate = Some (length f)"
    using assms by (intro strstr_first) (auto simp: seperate_def plain_def)
  then show ?thesis by (simp add: next_field_def)
qed

lemma strncpy_field:
  assumes "length f < n"
  shows "strncpy_to (zeros n) f (length f) = Some (f @ NUL # zeros (n - Suc (length f)))"
  using strncpy_zeros [OF assms order_refl] by simp

lemma parse_str_field:
  "plain f \<Longrightarrow> length f < n \<Longrightarrow> parse_str (zeros n) (f @ seperate @ rest) h
     = Some (f @ NUL # zeros (n - Suc (length f)), rest, h + int (length f) + 2)"
  by (simp add: parse_str_def next_field_plain strncpy_field)

lemma parse_int_field:
  "length (fmt_d v) < n \<Longrightarrow> - (2 ^ 31) \<le> v \<Longrightarrow> v < 2 ^ 31 \<Longrightarrow>
     parse_int x n (fmt_d v @ seperate @ rest) h = Some (v, rest, h + int (length (fmt_d v)) + 2)"
  using next_field_plain [of "fmt_d v" rest] strncpy_field [of "fmt_d v" n]
  by (simp add: parse_int_def atoi_fmt_d)

text \<open>The head as text: six fields, each followed by the separator.\<close>

definition head_text :: "string \<Rightarrow> string \<Rightarrow> int \<Rightarrow> int \<Rightarrow> int \<Rightarrow> string \<Rightarrow> string" where
  "head_text v i cmd sub tm sg =
     v @ seperate @ i @ seperate @ fmt_d cmd @ seperate @ fmt_d sub @ seperate @ fmt_d tm
       @ seperate @ sg @ seperate"

definition head_ok :: "string \<Rightarrow> string \<Rightarrow> int \<Rightarrow> int \<Rightarrow> int \<Rightarrow> bool" where
  "head_ok v i cmd sub tm = (plain v \<and> plain i \<and> length v < 8 \<and> length i < 16
     \<and> - 99 \<le> cmd \<and> cmd \<le> 999 \<and> - 99 \<le> sub \<and> sub \<le> 999 \<and> 0 \<le> tm \<and> tm < 2 ^ 31)"

lemma code_short: "- 99 \<le> c \<Longrightarrow> c \<le> 999 \<Longrightarrow> length (fmt_d c) < 4"
proof -
  assume c: "- 99 \<le> c" "c \<le> 999"
  show ?thesis
  proof (cases "0 \<le> c")
    case True
    then show ?thesis using c fmt_d_length [of c 3] by simp
  next
    case False
    then show ?thesis using c fmt_d_short [of c 2] by simp
  qed
qed

lemma head_short:
  assumes "head_ok v i cmd sub tm"
  shows "length (fmt_d cmd) < 4" "length (fmt_d sub) < 4" "length (fmt_d tm) < 16"
  using assms code_short [of cmd] code_short [of sub] fmt_d_length [of tm 10] by (auto simp: head_ok_def)

lemma jk_resign_Some:
  assumes "cstr (h_version pro) = Some v" and "cstr (h_id pro) = Some i"
    and "length v < 8" and "length i < 16"
    and "\<bar>h_cmd pro\<bar> \<le> 2 ^ 31" and "\<bar>h_subCmd pro\<bar> \<le> 2 ^ 31" and "\<bar>h_tm pro\<bar> < 10 ^ 14"
  shows "jk_resign pro = Some (pro\<lparr>h_sign :=
    sign_text (sign_input v i (h_cmd pro) (h_subCmd pro) (h_tm pro)) @ NUL # zeros 7\<rparr>)"
  using generate_sign [OF assms] by (simp add: jk_resign_def)

text \<open>What the parser has in the structure after a well-formed head.\<close>

definition parsed_head :: "string \<Rightarrow> string \<Rightarrow> int \<Rightarrow> int \<Rightarrow> int \<Rightarrow> jk_protocol" where
  "parsed_head v i cmd sub tm = jk_zero\<lparr>h_version := v @ NUL # zeros (8 - Suc (length v)),
     h_id := i @ NUL # zeros (16 - Suc (length i)), h_cmd := cmd, h_subCmd := sub, h_tm := tm,
     h_sign := sign_text (sign_input v i cmd sub tm) @ NUL # zeros 7\<rparr>"

lemma parse_head:
  assumes "head_ok v i cmd sub tm" and "plain sg" and "length sg < 40"
  shows "parse_pro mal dup_ok (head_text v i cmd sub tm sg @ p) len =
    (if sg \<noteq> sign_text (sign_input v i cmd sub tm) then Some (- 2, parsed_head v i cmd sub tm)
     else do { let datalen = len - int (length (head_text v i cmd sub tm sg)) - 2;
               d \<leftarrow> (case malloc_int mal datalen of None \<Rightarrow> Some None
                     | Some a \<Rightarrow> do { a \<leftarrow> sprintf_to a p; Some (Some a) });
               pro \<leftarrow> parse_filename dup_ok (parsed_head v i cmd sub tm\<lparr>b_data := d\<rparr>) datalen;
               Some (0, pro) })"
proof -
  define va where "va = v @ NUL # zeros (8 - Suc (length v))"
  define ia where "ia = i @ NUL # zeros (16 - Suc (length i))"
  define sa where "sa = sg @ NUL # zeros (40 - Suc (length sg))"
  have ok: "plain v" "plain i" "length v < 8" "length i < 16" "NUL \<notin> set v" "NUL \<notin> set i" "NUL \<notin> set sg"
    using assms by (auto simp: head_ok_def plain_def)
  have num: "- (2 ^ 31) \<le> cmd" "cmd < 2 ^ 31" "- (2 ^ 31) \<le> sub" "sub < 2 ^ 31" "- (2 ^ 31) \<le> tm" "tm < 2 ^ 31"
    "\<bar>cmd\<bar> \<le> 2 ^ 31" "\<bar>sub\<bar> \<le> 2 ^ 31" "\<bar>tm\<bar> < 10 ^ 14"
    using assms(1) by (auto simp: head_ok_def)
  have sg: "jk_resign (jk_zero\<lparr>h_version := va, h_id := ia, h_cmd := cmd, h_subCmd := sub, h_tm := tm\<rparr>)
      = Some (parsed_head v i cmd sub tm)"
    using ok num jk_resign_Some [of "jk_zero\<lparr>h_version := va, h_id := ia, h_cmd := cmd, h_subCmd := sub, h_tm := tm\<rparr>" v i]
    by (simp add: parsed_head_def va_def ia_def)
  have c2: "cstr (h_sign (parsed_head v i cmd sub tm)) = Some (sign_text (sign_input v i cmd sub tm))"
    by (simp add: parsed_head_def md5.sign_array)
  have flds: "parse_str (h_version jk_zero) (v @ seperate @ r) 0 = Some (va, r, int (length v) + 2)"
    "parse_str (h_id jk_zero) (i @ seperate @ r) h = Some (ia, r, h + int (length i) + 2)"
    "parse_int (h_cmd jk_zero) 4 (fmt_d cmd @ seperate @ r) h = Some (cmd, r, h + int (length (fmt_d cmd)) + 2)"
    "parse_int (h_subCmd jk_zero) 4 (fmt_d sub @ seperate @ r) h = Some (sub, r, h + int (length (fmt_d sub)) + 2)"
    "parse_int (h_tm jk_zero) 16 (fmt_d tm @ seperate @ r) h = Some (tm, r, h + int (length (fmt_d tm)) + 2)"
    "parse_str (zeros 40) (sg @ seperate @ r) h = Some (sa, r, h + int (length sg) + 2)"
    for r h
    using ok num head_short [OF assms(1)] assms(2,3) parse_str_field [of v 8 r 0]
    by (simp_all add: parse_str_field parse_int_field jk_zero_def va_def ia_def sa_def)
  have len: "int (length (head_text v i cmd sub tm sg)) = int (length v) + 2 + int (length i) + 2
     + int (length (fmt_d cmd)) + 2 + int (length (fmt_d sub)) + 2 + int (length (fmt_d tm)) + 2 + int (length sg) + 2"
    by (simp add: head_text_def)
  have sa: "cstr sa = Some sg" using ok by (simp add: sa_def)
  show ?thesis unfolding len unfolding head_text_def
    by (simp add: parse_pro_def flds sg c2 sa Let_def del: length_append)
qed

section \<open>The text of a structure\<close>

lemma generate_string_text:
  assumes "cstr (h_version pro) = Some v" and "cstr (h_id pro) = Some i" and "cstr (h_sign pro) = Some sg"
    and "cstr (b_filename pro) = Some f"
    and "head_ok v i (h_cmd pro) (h_subCmd pro) (h_tm pro)"
    and "t = head_text v i (h_cmd pro) (h_subCmd pro) (h_tm pro) sg
           @ (if h_subCmd pro = JK_PROTOCOL_SUBCMD_SAVEFILE then f @ seperate else []) @ data"
    and "length t < length save"
  shows "jk_protocol_generate_string (Some pro) (Some data) (Some save)
    = Some (0, Some (t @ NUL # drop (Suc (length t)) save))"
proof -
  have short: "length (fmt_d (h_cmd pro)) < 16" "length (fmt_d (h_subCmd pro)) < 16" "length (fmt_d (h_tm pro)) < 16"
    using head_short [OF assms(5)] by simp_all
  have t: "v @ seperate @ i @ seperate @ fmt_d (h_cmd pro) @ seperate @ fmt_d (h_subCmd pro) @ seperate
      @ fmt_d (h_tm pro) @ seperate @ sg @ seperate
      @ (if h_subCmd pro = JK_PROTOCOL_SUBCMD_SAVEFILE then f @ seperate else []) @ data = t"
    by (simp add: assms(6) head_text_def)
  have "sprintf_to save t = Some (t @ NUL # drop (Suc (length t)) save)"
    using assms(7) by (rule sprintf_to_Some)
  moreover have "sprintf_to (zeros 16) (fmt_d x) = Some (fmt_d x @ NUL # drop (Suc (length (fmt_d x))) (zeros 16))"
    if "length (fmt_d x) < 16" for x using that by (intro sprintf_to_Some) simp
  ultimately show ?thesis using t short assms(1-4)
    by (cases "h_subCmd pro = JK_PROTOCOL_SUBCMD_SAVEFILE") (simp_all add: jk_protocol_generate_string_def)
qed

text \<open>The body: data without a file name, and data behind a file name.\<close>

lemma parse_plain_data:
  assumes "head_ok v i cmd sub tm" and "sub \<noteq> JK_PROTOCOL_SUBCMD_SAVEFILE"
    and "\<And>n. \<exists>a. mal n = Some a \<and> length a = n" and "NUL \<notin> set data"
    and "t = head_text v i cmd sub tm (sign_text (sign_input v i cmd sub tm)) @ data"
    and "int (length t) + 3 \<le> len"
  shows "\<exists>d. parse_pro mal dup_ok t len = Some (0, parsed_head v i cmd sub tm\<lparr>b_data := Some d\<rparr>)
     \<and> cstr d = Some data"
proof -
  let ?h = "head_text v i cmd sub tm (sign_text (sign_input v i cmd sub tm))"
  define dl where "dl = len - int (length ?h) - 2"
  have dl: "int (length data) < dl" using assms(5,6) by (simp add: dl_def)
  obtain a where a: "mal (nat dl) = Some a" "length a = nat dl" using assms(3) by blast
  have "sprintf_to a data = Some (data @ NUL # drop (Suc (length data)) a)"
    using dl a(2) by (intro sprintf_to_Some) simp
  moreover have "parse_filename dup_ok (parsed_head v i cmd sub tm\<lparr>b_data := Some d\<rparr>) dl
      = Some (parsed_head v i cmd sub tm\<lparr>b_data := Some d\<rparr>)" for d
    using assms(2) by (simp add: parse_filename_def parsed_head_def)
  ultimately have "parse_pro mal dup_ok t len = Some (0, parsed_head v i cmd sub tm
      \<lparr>b_data := Some (data @ NUL # drop (Suc (length data)) a)\<rparr>)"
    using parse_head [OF assms(1), of "sign_text (sign_input v i cmd sub tm)" mal dup_ok data len] dl a(1)
    by (simp add: assms(5) malloc_int_def md5.length_sign Let_def flip: dl_def)
  with cstr_append_NUL [OF assms(4)] show ?thesis by blast
qed

lemma parse_savefile_data:
  assumes "head_ok v i cmd sub tm" and "sub = JK_PROTOCOL_SUBCMD_SAVEFILE"
    and "\<And>n. \<exists>a. mal n = Some a \<and> length a = n" and "NUL \<notin> set data"
    and "plain f" and "length f < 256"
    and "t = head_text v i cmd sub tm (sign_text (sign_input v i cmd sub tm)) @ f @ seperate @ data"
    and "int (length t) + 3 \<le> len"
  shows "\<exists>d fa. parse_pro mal True t len
       = Some (0, parsed_head v i cmd sub tm\<lparr>b_filename := fa, b_data := Some d\<rparr>)
     \<and> cstr d = Some data \<and> cstr fa = Some f"
proof -
  let ?h = "head_text v i cmd sub tm (sign_text (sign_input v i cmd sub tm))"
  let ?p = "f @ seperate @ data"
  define dl where "dl = len - int (length ?h) - 2"
  have dl: "int (length ?p) < dl" using assms(7,8) by (simp add: dl_def)
  obtain a where a: "mal (nat dl) = Some a" "length a = nat dl" using assms(3) by blast
  have pN: "NUL \<notin> set ?p" using assms(4,5) by (simp add: plain_def)
  have "sprintf_to a ?p = Some (?p @ NUL # drop (Suc (length ?p)) a)"
    using dl a(2) by (intro sprintf_to_Some) simp
  then obtain d where d: "sprintf_to a ?p = Some d" "cstr d = Some ?p" "length d = nat dl"
    using pN a(2) dl by (auto simp: cstr_append_NUL [of ?p, simplified] simp del: append_assoc simp flip: append_assoc)
  obtain fa where fa: "strncpy_to (zeros 256) f (length f) = Some fa" "cstr fa = Some f"
    using strncpy_field [OF assms(6)] assms(5) by (simp add: plain_def)
  define n where "n = nat (dl - int (length f) - 2)"
  have n: "length data < n" "n \<le> nat dl" using dl by (auto simp: n_def)
  obtain r where r: "strncpy_to (zeros (nat dl)) data n = Some (data @ NUL # r)"
    using strncpy_whole [of data n "zeros (nat dl)"] n assms(4) by auto
  have k: "strstr ?p seperate = Some (length f)"
    using assms(5) by (intro strstr_first) (auto simp: seperate_def plain_def)
  have "parse_filename True (parsed_head v i cmd sub tm\<lparr>b_data := Some d\<rparr>) dl
      = Some (parsed_head v i cmd sub tm\<lparr>b_filename := fa, b_data := Some (data @ NUL # r)\<rparr>)"
    using d k fa r dl assms(2) unfolding n_def
    by (simp add: parse_filename_def parsed_head_def jk_zero_def Let_def)
  then have "parse_pro mal True t len = Some (0, parsed_head v i cmd sub tm
      \<lparr>b_filename := fa, b_data := Some (data @ NUL # r)\<rparr>)"
    using parse_head [OF assms(1), of "sign_text (sign_input v i cmd sub tm)" mal True ?p len] dl a(1) d(1)
    by (simp add: assms(7) malloc_int_def md5.length_sign Let_def flip: dl_def)
  with cstr_append_NUL [OF assms(4)] fa(2) show ?thesis by blast
qed

text \<open>With less room than the text and three characters, the copy of the body overruns its block, or there is no
  block and the file name is searched in a null pointer.\<close>

lemma parse_savefile_short:
  assumes "head_ok v i cmd sub tm" and "sub = JK_PROTOCOL_SUBCMD_SAVEFILE"
    and "\<And>n. \<exists>a. mal n = Some a \<and> length a = n"
    and "t = head_text v i cmd sub tm (sign_text (sign_input v i cmd sub tm)) @ f @ seperate @ data"
    and "len < int (length t) + 3"
  shows "parse_pro mal True t len = None"
proof -
  let ?h = "head_text v i cmd sub tm (sign_text (sign_input v i cmd sub tm))"
  let ?p = "f @ seperate @ data"
  define dl where "dl = len - int (length ?h) - 2"
  have dl: "dl \<le> int (length ?p)" using assms(4,5) by (simp add: dl_def)
  have "(case malloc_int mal dl of None \<Rightarrow> Some None | Some a \<Rightarrow> do { a \<leftarrow> sprintf_to a ?p; Some (Some a) }) =
      (if dl < 0 then Some None else None)"
  proof (cases "dl < 0")
    case False
    obtain a where "mal (nat dl) = Some a" "length a = nat dl" using assms(3) by blast
    then show ?thesis using False dl sprintf_to_None [of a ?p] by (simp add: malloc_int_def)
  qed (simp add: malloc_int_def)
  moreover have "parse_filename True (parsed_head v i cmd sub tm\<lparr>b_data := None\<rparr>) n = None" for n
    using assms(2) by (simp add: parse_filename_def parsed_head_def)
  ultimately show ?thesis
    using parse_head [OF assms(1), of "sign_text (sign_input v i cmd sub tm)" mal True ?p len]
    by (simp add: assms(4) md5.length_sign Let_def flip: dl_def)
qed

section \<open>Properties\<close>

lemma jk_init:
  assumes "plain idn" and "length idn < 16"
  shows "\<exists>p. jk_protocol_init True idn = Some (0, Some p) \<and> cstr (h_version p) = Some version
     \<and> cstr (h_id p) = Some idn \<and> h_subCmd p = 0 \<and> h_sign p = zeros 40 \<and> b_filename p = zeros 256 \<and> jk_wf p"
proof -
  have "length version = 5" "NUL \<notin> set idn" using assms(1) by (simp_all add: version_def plain_def)
  moreover obtain r where "sprintf_to (zeros 16) idn = Some (idn @ NUL # r)" "length r = 15 - length idn"
    using assms(2) by (simp add: sprintf_to_Some)
  moreover obtain q where "sprintf_to (zeros 8) version = Some (version @ NUL # q)" "length q = 2"
    using calculation(1) by (simp add: sprintf_to_Some)
  ultimately show ?thesis using assms
    by (simp add: jk_protocol_init_def jk_zero_def jk_wf_def terminated_def zeros_def)
qed

text \<open>C6: Round trip of a savefile message, with an id of fewer than 16 characters and a file name of fewer than 256
  (longer ones do not fit their arrays), neither with a carriage return, data without a NUL, a time of 31 bits, room for
  the text where it is written, and an allocator that gives what it is asked for. A structure made by \<open>jk_protocol_init\<close>,
  turned into a notify or a control savefile message and written with \<open>jk_protocol_generate_string\<close>, is accepted by
  \<open>jk_protocol_parse\<close>, which returns the same command, subcommand, time, id, file name and data, exactly when the
  announced length \<open>L\<close> is at least three more than the length of the text; with less the parser overruns its block or
  uses a null pointer.\<close>

theorem jk_savefile_roundtrip:
  assumes "plain idn" and "length idn < 16" and "plain file" and "length file < 256"
    and "NUL \<notin> set data" and "0 \<le> now" and "now < 2 ^ 31"
    and "(gen, c) \<in> {(jk_protocol_generate_notify_savefile, 2), (jk_protocol_generate_control_savefile, 4)}"
    and "length idn + length file + length data + 64 < length save"
    and "\<And>n. \<exists>a. mal n = Some a \<and> length a = n"
  shows "\<exists>p0 p1 save' t. jk_protocol_init True idn = Some (0, Some p0)
     \<and> gen now (Some p0) file = Some (0, Some p1)
     \<and> jk_protocol_generate_string (Some p1) (Some data) (Some save) = Some (0, Some save')
     \<and> cstr save' = Some t
     \<and> (if int (length t) + 3 \<le> L
        then \<exists>p2 d. jk_protocol_parse mal True (Some q) (Some t) L = Some (0, Some p2)
          \<and> h_cmd p2 = c \<and> h_subCmd p2 = 1 \<and> h_tm p2 = now \<and> cstr (h_id p2) = Some idn
          \<and> cstr (b_filename p2) = Some file \<and> b_data p2 = Some d \<and> cstr d = Some data
        else jk_protocol_parse mal True (Some q) (Some t) L = None)"
proof -
  obtain p0 where p0: "jk_protocol_init True idn = Some (0, Some p0)" "cstr (h_version p0) = Some version"
      "cstr (h_id p0) = Some idn" "b_filename p0 = zeros 256"
    using jk_init [OF assms(1,2)] by blast
  let ?sg = "sign_text (sign_input version idn c 1 now)"
  have c: "c = 2 \<or> c = 4" using assms(8) by auto
  have v: "length version = 5" by (simp add: version_def)
  define p1 where "p1 = p0\<lparr>h_cmd := c, h_subCmd := 1, h_tm := now, h_sign := ?sg @ NUL # zeros 7,
    b_filename := file @ NUL # zeros (256 - Suc (length file))\<rparr>"
  have "jk_resign (p0\<lparr>h_cmd := c, h_subCmd := 1, h_tm := now\<rparr>)
      = Some (p0\<lparr>h_cmd := c, h_subCmd := 1, h_tm := now, h_sign := ?sg @ NUL # zeros 7\<rparr>)"
    using p0 v c assms(2,6,7)
    by (subst jk_resign_Some [of _ version idn]) auto
  moreover have "snprintf_to (zeros 256) 256 file = Some (file @ NUL # zeros (256 - Suc (length file)))"
    using assms(4) by (simp add: snprintf_to_Some zeros_def)
  ultimately have p1: "gen now (Some p0) file = Some (0, Some p1)"
    using assms(8) p0(4) by (auto simp: p1_def jk_protocol_generate_notify_savefile_def
      jk_protocol_generate_control_savefile_def JK_PROTOCOL_CMD_NOTIFY_def JK_PROTOCOL_CMD_CONTROL_def
      JK_PROTOCOL_SUBCMD_SAVEFILE_def)
  have ok: "head_ok version idn c 1 now"
    using assms(1,2,6,7) v c by (auto simp: head_ok_def)
  define t where "t = head_text version idn c 1 now ?sg @ file @ seperate @ data"
  have "length (fmt_d c) \<le> 1" "length (fmt_d 1) \<le> 1" "length (fmt_d now) \<le> 10"
    using fmt_d_length [of c 1] fmt_d_length [of 1 1] fmt_d_length [of now 10] c assms(6,7) by auto
  then have "length t < length save"
    using assms(9) v by (simp add: t_def head_text_def md5.length_sign)
  then have gs: "jk_protocol_generate_string (Some p1) (Some data) (Some save)
      = Some (0, Some (t @ NUL # drop (Suc (length t)) save))"
    using p0 ok assms(3) by (intro generate_string_text [of p1 version idn ?sg "file"])
      (simp_all add: p1_def t_def md5.sign_array JK_PROTOCOL_SUBCMD_SAVEFILE_def plain_def)
  have tN: "NUL \<notin> set t" using assms(1,3,5) plain_fmt_d plain_sign
    by (simp add: t_def head_text_def plain_def md5.sign_no_NUL)
  have sub: "(1 :: int) = JK_PROTOCOL_SUBCMD_SAVEFILE" by (simp add: JK_PROTOCOL_SUBCMD_SAVEFILE_def)
  have iN: "NUL \<notin> set idn" using assms(1) by (simp add: plain_def)
  have "if int (length t) + 3 \<le> L
        then \<exists>p2 d. jk_protocol_parse mal True (Some q) (Some t) L = Some (0, Some p2)
          \<and> h_cmd p2 = c \<and> h_subCmd p2 = 1 \<and> h_tm p2 = now \<and> cstr (h_id p2) = Some idn
          \<and> cstr (b_filename p2) = Some file \<and> b_data p2 = Some d \<and> cstr d = Some data
        else jk_protocol_parse mal True (Some q) (Some t) L = None"
    using parse_savefile_data [OF ok sub assms(10,5,3,4) t_def, of L] parse_savefile_short [OF ok sub assms(10) t_def, of L] iN
    by (auto simp: jk_protocol_parse_def parsed_head_def)
  with p0(1) p1 gs cstr_append_NUL [OF tN] show ?thesis by blast
qed

theorem jk_savefile_roundtrip_witness:
  "\<exists>p0 p1 save' t. jk_protocol_init True ''cam-1'' = Some (0, Some p0)
     \<and> jk_protocol_generate_notify_savefile 1445324002 (Some p0) ''a.bin'' = Some (0, Some p1)
     \<and> jk_protocol_generate_string (Some p1) (Some ''data'') (Some (zeros 200)) = Some (0, Some save')
     \<and> cstr save' = Some t
     \<and> (if int (length t) + 3 \<le> 90
        then \<exists>p2 d. jk_protocol_parse (\<lambda>n. Some (zeros n)) True (Some jk_zero) (Some t) 90 = Some (0, Some p2)
          \<and> h_cmd p2 = 2 \<and> h_subCmd p2 = 1 \<and> h_tm p2 = 1445324002 \<and> cstr (h_id p2) = Some ''cam-1''
          \<and> cstr (b_filename p2) = Some ''a.bin'' \<and> b_data p2 = Some d \<and> cstr d = Some ''data''
        else jk_protocol_parse (\<lambda>n. Some (zeros n)) True (Some jk_zero) (Some t) 90 = None)"
  by (rule jk_savefile_roundtrip) (simp_all add: plain_def NUL_def)

text \<open>C7: Authentication. Whatever follows a well-formed head, \<open>jk_protocol_parse\<close> returns - 2 and
  allocates nothing when the signature field is not the MD5 of the other head fields and the key.\<close>

theorem jk_reject_bad_sign:
  assumes "head_ok v i cmd sub tm" and "plain sg" and "length sg < 40"
    and "sg \<noteq> sign_text (sign_input v i cmd sub tm)"
  shows "\<exists>p'. jk_protocol_parse mal dup_ok (Some q) (Some (head_text v i cmd sub tm sg @ rest)) len
    = Some (- 2, Some p') \<and> b_data p' = None"
  using parse_head [OF assms(1-3), of mal dup_ok rest len] assms(4)
  by (simp add: jk_protocol_parse_def parsed_head_def jk_zero_def)

theorem jk_reject_bad_sign_witness:
  "\<exists>p'. jk_protocol_parse (\<lambda>n. Some (zeros n)) True (Some jk_zero)
      (Some (head_text ''0.0.1'' ''cam'' 2 1 7 ''00'' @ ''x'')) 60 = Some (- 2, Some p') \<and> b_data p' = None"
proof -
  have "length (sign_text s) \<noteq> length ''00''" for s by (simp add: md5.length_sign)
  then have "''00'' \<noteq> sign_text s" for s by (metis (no_types))
  then show ?thesis
    by (intro jk_reject_bad_sign) (simp_all add: head_ok_def plain_def NUL_def)
qed

text \<open>The register message. It carries the signature of its own head, and what
  \<open>jk_protocol_generate_string\<close> writes for it is parsed back with the data unchanged, whatever
  characters the data holds.\<close>

theorem jk_register_roundtrip:
  assumes "plain idn" and "length idn < 16" and "NUL \<notin> set data" and "0 \<le> now" and "now < 2 ^ 31"
    and "length idn + length data + 64 < length save"
    and "\<And>n. \<exists>a. mal n = Some a \<and> length a = n"
  shows "\<exists>p0 p1 save' t. jk_protocol_init True idn = Some (0, Some p0)
     \<and> jk_protocol_generate_register now (Some p0) = Some (0, Some p1)
     \<and> cstr (h_sign p1) = Some (sign_text (sign_input version idn 1 0 now))
     \<and> jk_protocol_generate_string (Some p1) (Some data) (Some save) = Some (0, Some save')
     \<and> cstr save' = Some t
     \<and> (\<exists>p2 d. jk_protocol_parse mal dup_ok (Some q) (Some t) (int (length t) + 3) = Some (0, Some p2)
          \<and> h_cmd p2 = 1 \<and> h_subCmd p2 = 0 \<and> h_tm p2 = now \<and> cstr (h_id p2) = Some idn
          \<and> b_data p2 = Some d \<and> cstr d = Some data)"
proof -
  obtain p0 where p0: "jk_protocol_init True idn = Some (0, Some p0)" "cstr (h_version p0) = Some version"
      "cstr (h_id p0) = Some idn" "h_subCmd p0 = 0" "b_filename p0 = zeros 256"
    using jk_init [OF assms(1,2)] by blast
  let ?sg = "sign_text (sign_input version idn 1 0 now)"
  have v: "length version = 5" by (simp add: version_def)
  define p1 where "p1 = p0\<lparr>h_cmd := 1, h_tm := now, h_sign := ?sg @ NUL # zeros 7\<rparr>"
  have "jk_resign (p0\<lparr>h_cmd := 1, h_tm := now\<rparr>) = Some p1"
    unfolding p1_def using p0 v assms(2,4,5)
    by (subst jk_resign_Some [of _ version idn]) auto
  then have p1: "jk_protocol_generate_register now (Some p0) = Some (0, Some p1)"
    by (simp add: jk_protocol_generate_register_def JK_PROTOCOL_CMD_REGISTER_def)
  have ok: "head_ok version idn 1 0 now"
    using assms(1,2,4,5) v by (auto simp: head_ok_def)
  define t where "t = head_text version idn 1 0 now ?sg @ data"
  have "length (fmt_d 1) \<le> 1" "length (fmt_d 0) \<le> 1" "length (fmt_d now) \<le> 10"
    using fmt_d_length [of 0 1] fmt_d_length [of 1 1] fmt_d_length [of now 10] assms(4,5) by auto
  then have "length t < length save"
    using assms(6) v by (simp add: t_def head_text_def md5.length_sign)
  then have gs: "jk_protocol_generate_string (Some p1) (Some data) (Some save)
      = Some (0, Some (t @ NUL # drop (Suc (length t)) save))"
    using p0 ok by (intro generate_string_text [of p1 version idn ?sg "[]"])
      (simp_all add: p1_def t_def md5.sign_array JK_PROTOCOL_SUBCMD_SAVEFILE_def)
  have tN: "NUL \<notin> set t" using assms(1,3) plain_fmt_d plain_sign
    by (simp add: t_def head_text_def plain_def md5.sign_no_NUL)
  obtain d where "parse_pro mal dup_ok t (int (length t) + 3)
       = Some (0, parsed_head version idn 1 0 now\<lparr>b_data := Some d\<rparr>)" "cstr d = Some data"
    using parse_plain_data [OF ok _ assms(7,3) t_def order_refl]
    by (auto simp: JK_PROTOCOL_SUBCMD_SAVEFILE_def)
  moreover have "NUL \<notin> set idn" using assms(1) by (simp add: plain_def)
  ultimately have "\<exists>p2 d. jk_protocol_parse mal dup_ok (Some q) (Some t) (int (length t) + 3) = Some (0, Some p2)
          \<and> h_cmd p2 = 1 \<and> h_subCmd p2 = 0 \<and> h_tm p2 = now \<and> cstr (h_id p2) = Some idn
          \<and> b_data p2 = Some d \<and> cstr d = Some data"
    by (simp add: jk_protocol_parse_def parsed_head_def)
  moreover have "cstr (h_sign p1) = Some ?sg" by (simp add: p1_def md5.sign_array)
  ultimately show ?thesis using p0(1) p1 gs cstr_append_NUL [OF tN] by blast
qed

theorem jk_register_roundtrip_witness:
  "\<exists>p0 p1 save' t. jk_protocol_init True ''cam'' = Some (0, Some p0)
     \<and> jk_protocol_generate_register 9 (Some p0) = Some (0, Some p1)
     \<and> cstr (h_sign p1) = Some (sign_text (sign_input version ''cam'' 1 0 9))
     \<and> jk_protocol_generate_string (Some p1) (Some ''hello'') (Some (zeros 100)) = Some (0, Some save')
     \<and> cstr save' = Some t
     \<and> (\<exists>p2 d. jk_protocol_parse (\<lambda>n. Some (zeros n)) True (Some jk_zero) (Some t) (int (length t) + 3)
            = Some (0, Some p2)
          \<and> h_cmd p2 = 1 \<and> h_subCmd p2 = 0 \<and> h_tm p2 = 9 \<and> cstr (h_id p2) = Some ''cam''
          \<and> b_data p2 = Some d \<and> cstr d = Some ''hello'')"
  by (rule jk_register_roundtrip) (simp_all add: plain_def NUL_def)

text \<open>The data buffer of the parser is three bytes too small for the text's own length: parsing
  a correctly signed message with \<open>len\<close> its number of characters writes past the allocation
  (every \<open>len\<close> below the text's length plus 3 that still gives a non-negative size does).\<close>

theorem jk_parse_exact_length_overrun:
  assumes "head_ok v i cmd sub tm"
    and "t = head_text v i cmd sub tm (sign_text (sign_input v i cmd sub tm)) @ data"
    and "2 \<le> length data" and "int (length t) \<le> len" and "len < int (length t) + 3"
    and "\<And>n. \<exists>a. mal n = Some a \<and> length a = n"
  shows "jk_protocol_parse mal dup_ok (Some q) (Some t) len = None"
proof -
  let ?h = "head_text v i cmd sub tm (sign_text (sign_input v i cmd sub tm))"
  define dl where "dl = len - int (length ?h) - 2"
  have dl: "0 \<le> dl" "nat dl \<le> length data" using assms(2-5) by (simp_all add: dl_def)
  obtain a where a: "mal (nat dl) = Some a" "length a = nat dl" using assms(6) by blast
  have "sprintf_to a data = None" using dl a(2) by (intro sprintf_to_None) simp
  then have "parse_pro mal dup_ok t len = None"
    using parse_head [OF assms(1), of "sign_text (sign_input v i cmd sub tm)" mal dup_ok data len] dl(1) a(1)
    by (simp add: assms(2) malloc_int_def md5.length_sign Let_def flip: dl_def)
  then show ?thesis by (simp add: jk_protocol_parse_def)
qed

theorem jk_parse_exact_length_overrun_witness:
  "jk_protocol_parse (\<lambda>n. Some (zeros n)) True (Some jk_zero)
     (Some (head_text ''0.0.1'' ''cam'' 1 0 7 (sign_text (sign_input ''0.0.1'' ''cam'' 1 0 7)) @ ''hello''))
     (int (length (head_text ''0.0.1'' ''cam'' 1 0 7 (sign_text (sign_input ''0.0.1'' ''cam'' 1 0 7)) @ ''hello'')))
   = None"
proof -
  have l: "2 \<le> length ''hello''" by code_simp
  show ?thesis
    by (rule jk_parse_exact_length_overrun [OF _ refl l]) (simp_all add: head_ok_def plain_def NUL_def)
qed

end
