(* ===== verification/JkProtocolBin.thy ===== *)
theory JkProtocolBin
  imports Signature
begin

text \<open>
  The command protocol of \<open>jkprotocol/binary/jkprotocolbin.c\<close>: a header of eleven fields separated by
  dashes, padded to 120 bytes, and the data. The text functions are the ones in use
  (\<open>JK_USE_TEXT\<close>); the bit-packed \<open>jk_protocol_bin_memcpy_data\<close> and \<open>jk_protocol_bin_parse_data_ex\<close>
  are modelled as well. The clock \<open>now\<close> and the success of allocations are arguments. The limits are
  written as the code writes them, where \<open>1 << n - 1\<close> is \<open>1 << (n - 1)\<close>. \<open>memcpy\<close> of 0 bytes
  from NULL is taken as doing nothing.
\<close>

section \<open>Data\<close>

definition jkpbin_key :: string where "jkpbin_key = ''ab3w-be82f231-aa-cd1b''"
definition valid_header_len :: int where "valid_header_len = 120"

record pbin =
  bh_version :: int
  bh_direction :: int
  bh_cmd :: int
  bh_subcmd :: int
  bh_id :: "char list"
  bh_transaction :: int
  bh_sequence :: int
  bh_length :: int
  bh_sign :: "char list"
  bh_headerLen :: int
  bh_ret :: int
  bh_retCode :: int
  bb_length :: int
  bb_data :: "char list option"
  curseq :: int

definition pbin_zero :: pbin where
  "pbin_zero = \<lparr>bh_version = 0, bh_direction = 0, bh_cmd = 0, bh_subcmd = 0, bh_id = zeros 16,
     bh_transaction = 0, bh_sequence = 0, bh_length = 0, bh_sign = zeros 34, bh_headerLen = 0,
     bh_ret = 0, bh_retCode = 0, bb_length = 0, bb_data = None, curseq = 0\<rparr>"

text \<open>A NULL handle is \<open>None\<close>.\<close>

definition jk_protocol_bin_init :: "bool \<Rightarrow> int \<times> pbin option" where
  "jk_protocol_bin_init alloc_ok =
     (if \<not> alloc_ok then (- 1, None)
      else (0, Some (pbin_zero\<lparr>bh_version := 1, bh_headerLen := valid_header_len, curseq := 1\<rparr>)))"

text \<open>The pointer to the handle is NULL, or points to a handle; the handle is freed and cleared.\<close>

definition jk_protocol_bin_deinit :: "pbin option option \<Rightarrow> int \<times> pbin option option" where
  "jk_protocol_bin_deinit p = (case p of None \<Rightarrow> (0, None) | Some _ \<Rightarrow> (0, Some None))"

definition jk_protocol_bin_set_args ::
    "pbin option \<Rightarrow> int \<Rightarrow> int \<Rightarrow> string \<Rightarrow> (int \<times> pbin option) option" where
  "jk_protocol_bin_set_args p cmd subcmd idn =
     (case p of None \<Rightarrow> Some (- 1, None)
      | Some b \<Rightarrow> do { i \<leftarrow> snprintf_to (bh_id b) 16 idn;
                      Some (0, Some (b\<lparr>bh_cmd := cmd, bh_subcmd := subcmd, bh_id := i\<rparr>)) })"

definition jk_protocol_bin_set_data ::
    "pbin option \<Rightarrow> int \<Rightarrow> char list option \<Rightarrow> int \<times> pbin option" where
  "jk_protocol_bin_set_data p len data =
     (case p of None \<Rightarrow> (- 1, None)
      | Some b \<Rightarrow> (0, Some (b\<lparr>bh_length := len, bb_length := len,
                  bb_data := (case data of None \<Rightarrow> bb_data b | Some d \<Rightarrow> Some d)\<rparr>)))"

section \<open>Signature and validity\<close>

definition bin_sign_input :: "string \<Rightarrow> string \<Rightarrow> int \<Rightarrow> int \<Rightarrow> int \<Rightarrow> int \<Rightarrow> int \<Rightarrow> string" where
  "bin_sign_input v i cmd sub tr sq len =
     v @ ''-'' @ i @ ''-'' @ fmt_d cmd @ ''-'' @ fmt_d sub @ ''-'' @ fmt_d tr @ ''-'' @ fmt_d sq
       @ ''-'' @ jkpbin_key @ ''-'' @ fmt_d len"

text \<open>The string in the static buffer \<open>saveSign\<close> that the function returns.\<close>

definition jk_protocol_bin_generate_sign :: "pbin \<Rightarrow> string option" where
  "jk_protocol_bin_generate_sign b =
     do { v \<leftarrow> sprintf_to (zeros 4) (fmt_02d (bh_version b)) \<bind> cstr;
          i \<leftarrow> cstr (bh_id b);
          s \<leftarrow> sprintf_to (zeros 1024) (bin_sign_input v i (bh_cmd b) (bh_subcmd b)
                 (bh_transaction b) (bh_sequence b) (bh_length b)) \<bind> cstr;
          (_, output) \<leftarrow> kfmd5_ngx zero_ctx (Some (bytes_of s)) (Some (replicate 16 0));
          (_, saveSign) \<leftarrow> kfmd5_ngx_tostring output (Some (zeros 34));
          a \<leftarrow> saveSign;
          cstr a }"

definition limit :: "nat \<Rightarrow> int" where "limit n = push_bit (n - 1) 1"

definition jk_protocol_bin_check_valid :: "pbin \<Rightarrow> int" where
  "jk_protocol_bin_check_valid b =
     (if bh_version b > limit 4 then - 7
      else if bh_cmd b > limit 4 then - 2
      else if bh_subcmd b > limit 12 then - 3
      else if bh_direction b \<noteq> 0 \<and> bh_direction b \<noteq> 1 then - 4
      else if bh_length b > limit 16 then - 5
      else if bh_sequence b > limit 16 then - 6
      else if bh_headerLen b \<noteq> valid_header_len then - 7
      else if bh_ret b \<noteq> 1 \<and> bh_ret b \<noteq> 0 then - 8
      else if bh_retCode b < 0 \<or> bh_retCode b > limit 7 then - 9
      else 1)"

text \<open>Copying \<open>n\<close> (an \<open>int\<close> turned \<open>size_t\<close>) characters out of a buffer that may be NULL.\<close>

definition copy_data :: "char list option \<Rightarrow> int \<Rightarrow> char list option" where
  "copy_data d n =
     (if n = 0 then Some [] else if n < 0 then None
      else do { d \<leftarrow> d; mem_read d 0 (nat n) })"

section \<open>Generation\<close>

definition header_text :: "pbin \<Rightarrow> string \<Rightarrow> string \<Rightarrow> string" where
  "header_text b i sg =
     fmt_02d (bh_version b) @ ''-'' @ i @ ''-'' @ fmt_d (bh_direction b) @ ''-'' @ fmt_d (bh_cmd b)
       @ ''-'' @ fmt_d (bh_subcmd b) @ ''-'' @ fmt_d (bh_transaction b) @ ''-'' @ fmt_d (bh_sequence b)
       @ ''-'' @ sg @ ''-'' @ fmt_d (bh_length b) @ ''-'' @ fmt_d (bh_ret b) @ ''-'' @ fmt_d (bh_retCode b)"

text \<open>The result is the buffer \<open>save\<close> and the value for \<open>*len\<close>; the return value is 0.\<close>

definition jk_protocol_bin_save_text :: "pbin \<Rightarrow> char list \<Rightarrow> (char list \<times> int) option" where
  "jk_protocol_bin_save_text b save =
     do { let total = bh_headerLen b + bh_length b;
          (if total < 0 then None else Some ());
          save \<leftarrow> mem_write save 0 (zeros (nat total));
          i \<leftarrow> cstr (bh_id b);
          sg \<leftarrow> cstr (bh_sign b);
          save \<leftarrow> sprintf_to save (header_text b i sg);
          d \<leftarrow> copy_data (bb_data b) (bh_length b);
          save \<leftarrow> (if bh_headerLen b < 0 then None else mem_write save (nat (bh_headerLen b)) d);
          Some (save, total) }"

definition jk_protocol_bin_generate_data ::
    "int \<Rightarrow> pbin option \<Rightarrow> char list option \<Rightarrow> (int \<times> pbin option \<times> char list option \<times> int option) option" where
  "jk_protocol_bin_generate_data now p save =
     (case (p, save) of
        (Some b, Some sv) \<Rightarrow>
          do { let b = b\<lparr>bh_transaction := now\<rparr>;
               let b = (if curseq b > limit 16 then b\<lparr>curseq := 0\<rparr> else b);
               let b = b\<lparr>bh_sequence := curseq b, curseq := curseq b + 1\<rparr>;
               sign \<leftarrow> jk_protocol_bin_generate_sign b;
               a \<leftarrow> snprintf_to (bh_sign b) 34 sign;
               let b = b\<lparr>bh_sign := a\<rparr>;
               (if jk_protocol_bin_check_valid b < 0 then Some (- 2, Some b, Some sv, None)
                else do { (sv, n) \<leftarrow> jk_protocol_bin_save_text b sv;
                          Some (0, Some b, Some sv, Some n) }) }
      | _ \<Rightarrow> Some (- 1, p, save, None))"

definition jk_protocol_bin_set_response :: "pbin option \<Rightarrow> int \<Rightarrow> int \<Rightarrow> int \<times> pbin option" where
  "jk_protocol_bin_set_response p ret retcode =
     (case p of None \<Rightarrow> (- 1, None)
      | Some b \<Rightarrow>
          if retcode > limit 7 then (- 1, Some b)
          else if retcode < 0 then (- 2, Some b)
          else (0, Some (b\<lparr>bh_ret := (if ret = 0 then 0 else 1), bh_retCode := retcode, bh_direction := 1\<rparr>)))"

section \<open>Parsing\<close>

text \<open>\<open>strstr(pn, "-")\<close> on the rest of the received buffer: running past its end without meeting the
  character or a NUL is undefined; \<open>Some None\<close> is NULL.\<close>

definition find_dash :: "char list \<Rightarrow> nat option option" where
  "find_dash buf =
     (let s = takeWhile (\<lambda>c. c \<noteq> NUL) buf in
      case strstr s ''-'' of
        Some k \<Rightarrow> Some (Some k)
      | None \<Rightarrow> if NUL \<in> set buf then Some None else None)"

text \<open>A field that is followed by another: the code goes on with \<open>NULL + 1\<close> when there is no dash,
  and reads there, so no dash is undefined behaviour.\<close>

definition dash_field :: "char list \<Rightarrow> (string \<times> char list) option" where
  "dash_field buf =
     do { r \<leftarrow> find_dash buf; k \<leftarrow> r; Some (take k buf, drop (k + 1) buf) }"

text \<open>A field copied into the zeroed \<open>char tmp[16]\<close>.\<close>

definition to_tmp :: "string \<Rightarrow> char list option" where
  "to_tmp f = mem_write (zeros 16) 0 f"

definition int_field :: "char list \<Rightarrow> (int \<times> char list) option" where
  "int_field buf = do { (f, buf) \<leftarrow> dash_field buf; t \<leftarrow> to_tmp f; v \<leftarrow> cstr t \<bind> atoi; Some (v, buf) }"

definition long_field :: "char list \<Rightarrow> (int \<times> char list) option" where
  "long_field buf = do { (f, buf) \<leftarrow> dash_field buf; t \<leftarrow> to_tmp f; v \<leftarrow> cstr t \<bind> atol; Some (v, buf) }"

text \<open>The header fields, in the order of the text. The last one is read only if a dash follows it.\<close>

definition parse_fields :: "pbin \<Rightarrow> char list \<Rightarrow> pbin option" where
  "parse_fields b data =
     do { (v, p) \<leftarrow> int_field data;
          let b = b\<lparr>bh_version := v\<rparr>;
          (f, p) \<leftarrow> dash_field p;
          t \<leftarrow> to_tmp f;
          let b = b\<lparr>bh_id := t\<rparr>;
          (v, p) \<leftarrow> int_field p;
          let b = b\<lparr>bh_direction := v\<rparr>;
          (v, p) \<leftarrow> int_field p;
          let b = b\<lparr>bh_cmd := v\<rparr>;
          (v, p) \<leftarrow> int_field p;
          let b = b\<lparr>bh_subcmd := v\<rparr>;
          (v, p) \<leftarrow> long_field p;
          let b = b\<lparr>bh_transaction := v\<rparr>;
          (v, p) \<leftarrow> int_field p;
          let b = b\<lparr>bh_sequence := v\<rparr>;
          (f, p) \<leftarrow> dash_field p;
          sg \<leftarrow> mem_write (bh_sign b) 0 f;
          let b = b\<lparr>bh_sign := sg\<rparr>;
          (v, p) \<leftarrow> int_field p;
          let b = b\<lparr>bh_length := v\<rparr>;
          (v, p) \<leftarrow> int_field p;
          let b = b\<lparr>bh_ret := v\<rparr>;
          r \<leftarrow> find_dash p;
          (case r of None \<Rightarrow> Some b
           | Some k \<Rightarrow> do { t \<leftarrow> to_tmp (take k p); v \<leftarrow> cstr t \<bind> atoi; Some (b\<lparr>bh_retCode := v\<rparr>) }) }"

text \<open>\<open>alloc_ok n\<close>: \<open>calloc(1, n)\<close> succeeds; a negative \<open>n\<close> is a request that cannot. The length
  field is compared with the limit, not with the number of received bytes.\<close>

definition jk_protocol_bin_parse_data_text ::
    "(int \<Rightarrow> bool) \<Rightarrow> pbin \<Rightarrow> char list \<Rightarrow> int \<Rightarrow> (int \<times> pbin) option" where
  "jk_protocol_bin_parse_data_text alloc_ok b data len =
     (if len < bh_headerLen b then Some (- 3, b)
      else do { b \<leftarrow> parse_fields b data;
                (if bh_length b > limit 16 then Some (- 3, b)
                 else let b = b\<lparr>bb_length := bh_length b\<rparr> in
                 if bb_length b + 1 < 0 \<or> \<not> alloc_ok (bb_length b + 1)
                 then Some (- 4, b\<lparr>bb_data := None\<rparr>)
                 else if bh_length b < 0 \<or> bh_headerLen b < 0 then None
                 else do { d \<leftarrow> mem_read data (nat (bh_headerLen b)) (nat (bh_length b));
                           Some (0, b\<lparr>bb_data := Some (d @ [NUL])\<rparr>) }) })"

definition jk_protocol_bin_check_header_valid :: "pbin \<Rightarrow> int option" where
  "jk_protocol_bin_check_header_valid b =
     do { sign \<leftarrow> jk_protocol_bin_generate_sign b;
          sg \<leftarrow> cstr (bh_sign b);
          Some (if strcmp sign sg = 0 then 1 else 0) }"

definition jk_protocol_bin_parse_data ::
    "(int \<Rightarrow> bool) \<Rightarrow> pbin option \<Rightarrow> char list option \<Rightarrow> int \<Rightarrow> (int \<times> pbin option) option" where
  "jk_protocol_bin_parse_data alloc_ok p data len =
     (case (p, data) of
        (Some b, Some d) \<Rightarrow>
          if len < bh_headerLen b then Some (- 1, Some b)
          else do { (ret, b) \<leftarrow> jk_protocol_bin_parse_data_text alloc_ok b d len;
                    (if ret < 0 then Some (- 4, Some b)
                     else if jk_protocol_bin_check_valid b < 0 then Some (- 3, Some b)
                     else do { ret \<leftarrow> jk_protocol_bin_check_header_valid b;
                               (if ret < 0 then Some (- 5, Some b) else Some (0, Some b)) }) }
      | _ \<Rightarrow> Some (- 2, p))"

definition jk_protocol_bin_parse_data_free :: "pbin option \<Rightarrow> int \<times> pbin option" where
  "jk_protocol_bin_parse_data_free p =
     (case p of None \<Rightarrow> (- 1, None) | Some b \<Rightarrow> (0, Some (b\<lparr>bb_data := None, bb_length := 0\<rparr>)))"

section \<open>Accessors\<close>

definition get_int :: "(pbin \<Rightarrow> int) \<Rightarrow> pbin option \<Rightarrow> int" where
  "get_int f p = (case p of None \<Rightarrow> - 1 | Some b \<Rightarrow> f b)"

definition jk_protocol_bin_get_curseq :: "pbin option \<Rightarrow> int" where
  "jk_protocol_bin_get_curseq = get_int curseq"

definition jk_protocol_bin_get_version :: "pbin option \<Rightarrow> int" where
  "jk_protocol_bin_get_version = get_int bh_version"

definition jk_protocol_bin_get_cmd :: "pbin option \<Rightarrow> int" where
  "jk_protocol_bin_get_cmd = get_int bh_cmd"

definition jk_protocol_bin_get_subcmd :: "pbin option \<Rightarrow> int" where
  "jk_protocol_bin_get_subcmd = get_int bh_subcmd"

definition jk_protocol_bin_get_sequence :: "pbin option \<Rightarrow> int" where
  "jk_protocol_bin_get_sequence = get_int bh_sequence"

definition jk_protocol_bin_get_direction :: "pbin option \<Rightarrow> int" where
  "jk_protocol_bin_get_direction = get_int bh_direction"

definition jk_protocol_bin_get_ret :: "pbin option \<Rightarrow> int" where
  "jk_protocol_bin_get_ret = get_int bh_ret"

definition jk_protocol_bin_get_retcode :: "pbin option \<Rightarrow> int" where
  "jk_protocol_bin_get_retcode = get_int bh_retCode"

definition jk_protocol_bin_get_data_length :: "pbin option \<Rightarrow> int" where
  "jk_protocol_bin_get_data_length = get_int bh_length"

definition jk_protocol_bin_get_id :: "pbin option \<Rightarrow> char list option" where
  "jk_protocol_bin_get_id = map_option bh_id"

definition jk_protocol_bin_get_data :: "pbin option \<Rightarrow> char list option" where
  "jk_protocol_bin_get_data p = (case p of None \<Rightarrow> None | Some b \<Rightarrow> bb_data b)"

section \<open>The bit-packed form\<close>

text \<open>\<open>for i: if (x & (1 << f i)) p |= (1 << g i)\<close> on a byte and on an \<open>int\<close>.\<close>

definition or_byte :: "int \<Rightarrow> (nat \<Rightarrow> nat) \<Rightarrow> (nat \<Rightarrow> nat) \<Rightarrow> nat \<Rightarrow> u8 \<Rightarrow> u8" where
  "or_byte x f g n p = foldl (\<lambda>p i. if bit x (f i) then p OR push_bit (g i) 1 else p) p [0..<n]"

definition or_int :: "u8 \<Rightarrow> (nat \<Rightarrow> nat) \<Rightarrow> (nat \<Rightarrow> nat) \<Rightarrow> nat \<Rightarrow> int \<Rightarrow> int" where
  "or_int p f g n x = foldl (\<lambda>x i. if bit p (f i) then x OR push_bit (g i) 1 else x) x [0..<n]"

text \<open>\<open>memcpy\<close> from an integer in memory, little-endian.\<close>

definition int_bytes :: "nat \<Rightarrow> int \<Rightarrow> u8 list" where
  "int_bytes n x = map (\<lambda>k. of_int (drop_bit (8 * k) x)) [0..<n]"

definition chars :: "u8 list \<Rightarrow> char list" where "chars = map (\<lambda>b. char_of (unat b))"

text \<open>The first four bytes, from their old values.\<close>

definition packed_codes :: "pbin \<Rightarrow> u8 \<Rightarrow> u8 \<Rightarrow> u8 \<Rightarrow> u8 \<Rightarrow> u8 list" where
  "packed_codes b p0 p1 p2 p3 =
     [(let p = or_byte (bh_version b) id (\<lambda>i. i + 4) 4 p0 in
       if bh_direction b = 1 then p OR push_bit 3 1 else p),
      or_byte (bh_subcmd b) (\<lambda>i. i + 8) id 4 (or_byte (bh_cmd b) id (\<lambda>i. i + 4) 4 p1),
      or_byte (bh_subcmd b) id id 8 p2,
      or_byte (bh_retCode b) id id 7 (if bh_ret b = 1 then p3 OR push_bit 7 1 else p3)]"

definition packed_length :: "pbin \<Rightarrow> u8 \<Rightarrow> u8 \<Rightarrow> u8 list" where
  "packed_length b p0 p1 =
     [or_byte (bh_length b) (\<lambda>i. i + 8) id 8 p0, or_byte (bh_length b) id id 8 p1]"

definition jk_protocol_bin_memcpy_data :: "pbin \<Rightarrow> char list \<Rightarrow> (int \<times> char list \<times> int) option" where
  "jk_protocol_bin_memcpy_data b save =
     do { h \<leftarrow> mem_read save 0 4;
          save \<leftarrow> mem_write save 0 (chars (packed_codes b (of_char (h ! 0)) (of_char (h ! 1))
                                          (of_char (h ! 2)) (of_char (h ! 3))));
          i \<leftarrow> mem_read (bh_id b) 0 6;
          save \<leftarrow> mem_write save 4 i;
          save \<leftarrow> mem_write save 12 (chars (int_bytes 8 (bh_transaction b)));
          save \<leftarrow> mem_write save 20 (chars (int_bytes 2 (bh_sequence b)));
          l \<leftarrow> mem_read save 22 2;
          save \<leftarrow> mem_write save 22 (chars (packed_length b (of_char (l ! 0)) (of_char (l ! 1))));
          sg \<leftarrow> mem_read (bh_sign b) 0 16;
          save \<leftarrow> mem_write save 24 sg;
          d \<leftarrow> copy_data (bb_data b) (bh_length b);
          save \<leftarrow> mem_write save 40 d;
          let total = bh_headerLen b + bh_length b;
          Some (total, save, total) }"

text \<open>The reader ORs the bits into the values the structure already has, and converts the binary
  sequence and length with \<open>atoi\<close>, from arrays without room for a terminator.\<close>

definition jk_protocol_bin_parse_data_ex ::
    "(int \<Rightarrow> bool) \<Rightarrow> pbin \<Rightarrow> char list \<Rightarrow> (int \<times> pbin) option" where
  "jk_protocol_bin_parse_data_ex alloc_ok b data =
     do { h \<leftarrow> mem_read data 0 4;
          let p0 = (of_char (h ! 0) :: u8);
          let p1 = of_char (h ! 1);
          let p2 = of_char (h ! 2);
          let p3 = of_char (h ! 3);
          let b = b\<lparr>bh_version := or_int p0 (\<lambda>i. i + 4) id 4 (bh_version b),
                    bh_direction := (if bit p0 3 then 1 else bh_direction b),
                    bh_cmd := or_int p1 (\<lambda>i. i + 4) id 4 (bh_cmd b),
                    bh_subcmd := or_int p2 id id 8 (or_int p1 id (\<lambda>i. i + 8) 4 (bh_subcmd b)),
                    bh_ret := (if bit p3 7 then 1 else bh_ret b),
                    bh_retCode := or_int p3 id id 7 (bh_retCode b)\<rparr>;
          _ \<leftarrow> mem_read data 4 6;
          let b = b\<lparr>bh_id := zeros 16\<rparr>;
          tr \<leftarrow> mem_read data 12 8 \<bind> cstr \<bind> atol;
          sq \<leftarrow> mem_read data 20 2 \<bind> cstr \<bind> atoi;
          ln \<leftarrow> mem_read data 22 2 \<bind> cstr \<bind> atoi;
          sg \<leftarrow> mem_read data 24 16;
          sg \<leftarrow> mem_write (bh_sign b) 0 sg;
          let b = b\<lparr>bh_transaction := tr, bh_sequence := sq, bh_length := ln, bh_sign := sg\<rparr>;
          (if bh_length b > limit 16 then Some (- 3, b)
           else let b = b\<lparr>bb_length := bh_length b\<rparr> in
           if bb_length b < 0 \<or> \<not> alloc_ok (bb_length b) then Some (- 4, b\<lparr>bb_data := None\<rparr>)
           else do { d \<leftarrow> mem_read data 40 (nat (bb_length b));
                     Some (0, b\<lparr>bb_data := Some d\<rparr>) }) }"

end
