(* ===== verification/JkProtocolBin_Correct.thy ===== *)
theory JkProtocolBin_Correct
  imports JkProtocolBin
begin

text \<open>
  Correctness of the command protocol: what the validity check admits, the sequence counter, the
  round trip of a message through \<open>jk_protocol_bin_generate_data\<close> and
  \<open>jk_protocol_bin_parse_data\<close>, and the checks the parser does not make (signature, length).
\<close>

section \<open>Fields\<close>

text \<open>A field value: neither a dash nor a NUL.\<close>

definition dashless :: "string \<Rightarrow> bool" where
  "dashless s = (NUL \<notin> set s \<and> CHR ''-'' \<notin> set s)"

lemma dashless_fmt_d [simp]: "0 \<le> v \<Longrightarrow> dashless (fmt_d v)"
  by (simp add: dashless_def)

lemma dashless_fmt_02d [simp]: "0 \<le> v \<Longrightarrow> dashless (fmt_02d v)"
  by (simp add: dashless_def)

lemma dashless_sign [simp]: "dashless (sign_text s)"
  by (simp add: dashless_def md5.sign_no_NUL md5.sign_no_dash)

lemma dash_field_plain:
  assumes "dashless f"
  shows "dash_field (f @ ''-'' @ rest) = Some (f, rest)"
proof -
  have "CHR ''-'' \<noteq> NUL" by (simp add: NUL_def)
  then have "takeWhile (\<lambda>c. c \<noteq> NUL) (f @ ''-'' @ rest) = f @ ''-'' @ takeWhile (\<lambda>c. c \<noteq> NUL) rest"
    using assms by (simp add: dashless_def takeWhile_append)
  moreover have "strstr (f @ ''-'' @ takeWhile (\<lambda>c. c \<noteq> NUL) rest) ''-'' = Some (length f)"
    using assms by (intro strstr_first) (simp_all add: dashless_def)
  ultimately show ?thesis by (simp add: dash_field_def find_dash_def Let_def)
qed

lemma to_tmp_short:
  "length f < 16 \<Longrightarrow> to_tmp f = Some (f @ NUL # zeros (15 - length f))"
proof -
  assume f: "length f < 16"
  then have "drop (length f) (zeros 16) = NUL # zeros (15 - length f)"
    by (simp add: zeros_def Suc_diff_le flip: replicate_Suc)
  then show ?thesis using f by (simp add: to_tmp_def mem_write_def)
qed

lemma int_field_d:
  assumes "0 \<le> v" and "v < 2 ^ 31"
  shows "int_field (fmt_d v @ ''-'' @ rest) = Some (v, rest)"
proof -
  have "length (fmt_d v) < 16" using fmt_d_length [of v 10] assms by simp
  then show ?thesis using assms dash_field_plain [of "fmt_d v" rest]
    by (simp add: int_field_def to_tmp_short atoi_fmt_d)
qed

lemma long_field_d:
  assumes "0 \<le> v" and "v < 10 ^ 15"
  shows "long_field (fmt_d v @ ''-'' @ rest) = Some (v, rest)"
proof -
  have "length (fmt_d v) < 16" using fmt_d_length [of v 15] assms by simp
  then show ?thesis using assms dash_field_plain [of "fmt_d v" rest]
    by (simp add: long_field_def to_tmp_short atol_fmt_d)
qed

lemma fmt_02d_short: "0 \<le> v \<Longrightarrow> v < 100 \<Longrightarrow> length (fmt_02d v) \<le> 2"
  using show_nat_length [of "nat v" 2] by (simp add: fmt_02d_def Let_def nat_less_iff)

lemma int_field_02d:
  assumes "0 \<le> v" and "v < 100"
  shows "int_field (fmt_02d v @ ''-'' @ rest) = Some (v, rest)"
proof -
  have "length (fmt_02d v) < 16" using fmt_02d_short [OF assms] by simp
  then show ?thesis using assms dash_field_plain [of "fmt_02d v" rest]
    by (simp add: int_field_def to_tmp_short atoi_fmt_02d)
qed

lemmas field_simps = dash_field_plain [simplified] int_field_02d [simplified] int_field_d [simplified]
  long_field_d [simplified]

section \<open>Validity\<close>

lemma limits: "limit 4 = 8" "limit 12 = 2048" "limit 16 = 32768" "limit 7 = 64"
  by (simp_all add: limit_def)

lemma check_valid_1:
  "jk_protocol_bin_check_valid b = 1 \<longleftrightarrow>
     bh_version b \<le> 8 \<and> bh_cmd b \<le> 8 \<and> bh_subcmd b \<le> 2048 \<and> bh_direction b \<in> {0, 1}
     \<and> bh_length b \<le> 32768 \<and> bh_sequence b \<le> 32768 \<and> bh_headerLen b = 120 \<and> bh_ret b \<in> {0, 1}
     \<and> 0 \<le> bh_retCode b \<and> bh_retCode b \<le> 64"
  by (auto simp: jk_protocol_bin_check_valid_def limits valid_header_len_def)

lemma check_valid_cases: "jk_protocol_bin_check_valid b = 1 \<or> jk_protocol_bin_check_valid b < 0"
  by (auto simp: jk_protocol_bin_check_valid_def)

lemma check_valid_sequence: "bh_sequence b \<le> 32768 \<Longrightarrow> jk_protocol_bin_check_valid b \<noteq> - 6"
  by (simp add: jk_protocol_bin_check_valid_def limits)

section \<open>Signing\<close>

lemma bin_sign_input_ok:
  assumes "length v \<le> 3" and "length i < 16" and "\<bar>cmd\<bar> \<le> 2 ^ 31" and "\<bar>sub\<bar> \<le> 2 ^ 31"
    and "\<bar>tr\<bar> \<le> 2 ^ 63" and "\<bar>sq\<bar> \<le> 2 ^ 31" and "\<bar>len\<bar> \<le> 2 ^ 31"
  shows "length (bin_sign_input v i cmd sub tr sq len) < 1024"
  using assms fmt_d_short [of cmd 10] fmt_d_short [of sub 10] fmt_d_short [of tr 19]
    fmt_d_short [of sq 10] fmt_d_short [of len 10]
  by (simp add: bin_sign_input_def jkpbin_key_def)

lemma bin_sign_input_no_NUL:
  "NUL \<notin> set v \<Longrightarrow> NUL \<notin> set i \<Longrightarrow> NUL \<notin> set (bin_sign_input v i cmd sub tr sq len)"
proof -
  have "NUL \<notin> set jkpbin_key" "CHR ''-'' \<noteq> NUL" by (simp_all add: jkpbin_key_def NUL_def)
  then show "NUL \<notin> set v \<Longrightarrow> NUL \<notin> set i \<Longrightarrow> NUL \<notin> set (bin_sign_input v i cmd sub tr sq len)"
    by (simp add: bin_sign_input_def)
qed

definition header_sign :: "pbin \<Rightarrow> string \<Rightarrow> string" where
  "header_sign b i = sign_text (bin_sign_input (fmt_02d (bh_version b)) i (bh_cmd b) (bh_subcmd b)
     (bh_transaction b) (bh_sequence b) (bh_length b))"

lemma generate_sign_Some:
  assumes "cstr (bh_id b) = Some i" and "length i < 16" and "0 \<le> bh_version b" and "bh_version b < 100"
    and "\<bar>bh_cmd b\<bar> \<le> 2 ^ 31" and "\<bar>bh_subcmd b\<bar> \<le> 2 ^ 31" and "\<bar>bh_transaction b\<bar> \<le> 2 ^ 63"
    and "\<bar>bh_sequence b\<bar> \<le> 2 ^ 31" and "\<bar>bh_length b\<bar> \<le> 2 ^ 31"
  shows "jk_protocol_bin_generate_sign b = Some (header_sign b i)"
proof -
  let ?v = "fmt_02d (bh_version b)"
  let ?in = "bin_sign_input ?v i (bh_cmd b) (bh_subcmd b) (bh_transaction b) (bh_sequence b) (bh_length b)"
  have v: "length ?v \<le> 2" using assms(3,4) by (rule fmt_02d_short)
  then have "length ?in < 1024" using assms by (intro bin_sign_input_ok) simp_all
  moreover have "NUL \<notin> set ?in"
    using assms(1,3) cstr_no_NUL by (intro bin_sign_input_no_NUL) auto
  ultimately obtain a where a: "sprintf_to (zeros 1024) ?in = Some a" "cstr a = Some ?in"
    by (simp add: sprintf_to_Some)
  obtain c where c: "sprintf_to (zeros 4) ?v = Some c" "cstr c = Some ?v"
    using v assms(3) by (simp add: sprintf_to_Some)
  have "kfmd5_ngx_tostring (Some (rfc_digest (bytes_of ?in))) (Some (zeros 34))
      = Some (32, Some (sign_text ?in @ NUL # drop 33 (zeros 34)))"
    by (simp add: kfmd5_tostring sign_text_def)
  then show ?thesis using a c assms(1)
    by (simp add: jk_protocol_bin_generate_sign_def kfmd5_sign header_sign_def md5.sign_array)
qed

section \<open>The header text\<close>

text \<open>A message that the sender may send: what the check admits, without negative numbers, and an
  id that contains no dash.\<close>

definition msg_ok :: "pbin \<Rightarrow> string \<Rightarrow> bool" where
  "msg_ok b i = (cstr (bh_id b) = Some i \<and> dashless i \<and> length i < 16
     \<and> 0 \<le> bh_version b \<and> bh_version b \<le> 8 \<and> 0 \<le> bh_cmd b \<and> bh_cmd b \<le> 8
     \<and> 0 \<le> bh_subcmd b \<and> bh_subcmd b \<le> 2048 \<and> bh_direction b \<in> {0, 1}
     \<and> 0 \<le> bh_length b \<and> bh_length b \<le> 32768 \<and> bh_headerLen b = 120 \<and> bh_ret b \<in> {0, 1}
     \<and> 0 \<le> bh_retCode b \<and> bh_retCode b \<le> 64)"

definition stamped :: "pbin \<Rightarrow> bool" where
  "stamped b = (0 \<le> bh_transaction b \<and> bh_transaction b < 10 ^ 14 \<and> 0 \<le> bh_sequence b
     \<and> bh_sequence b \<le> 32768)"

lemma length_header_text:
  assumes "msg_ok b i" and "stamped b" and "length sg \<le> 34"
  shows "length (header_text b i sg) < 100"
proof -
  have "length (fmt_02d (bh_version b)) \<le> 2" "length (fmt_d (bh_direction b)) \<le> 1"
    "length (fmt_d (bh_cmd b)) \<le> 1" "length (fmt_d (bh_subcmd b)) \<le> 4"
    "length (fmt_d (bh_transaction b)) \<le> 14" "length (fmt_d (bh_sequence b)) \<le> 5"
    "length (fmt_d (bh_length b)) \<le> 5" "length (fmt_d (bh_ret b)) \<le> 1" "length (fmt_d (bh_retCode b)) \<le> 2"
    "length i \<le> 15"
    using assms(1,2)
    by (auto simp: msg_ok_def stamped_def intro!: fmt_02d_short fmt_d_length)
  then show ?thesis using assms(3) unfolding header_text_def by simp
qed

lemma header_text_no_NUL:
  assumes "msg_ok b i" and "stamped b" and "dashless sg"
  shows "NUL \<notin> set (header_text b i sg)"
proof -
  have "CHR ''-'' \<noteq> NUL" by (simp add: NUL_def)
  then show ?thesis using assms by (auto simp: header_text_def msg_ok_def stamped_def dashless_def)
qed

lemma find_dash_end:
  assumes "dashless f"
  shows "find_dash (f @ NUL # rest) = Some None"
proof -
  have "takeWhile (\<lambda>c. c \<noteq> NUL) (f @ NUL # rest) = f"
    using assms by (intro takeWhile_append_stop) (auto simp: dashless_def)
  moreover have "strstr f ''-'' = None" using assms by (intro strstr_None) (auto simp: dashless_def)
  ultimately show ?thesis by (simp add: find_dash_def)
qed

text \<open>The receiver's structure after the fields of a message; \<open>retCode\<close> keeps its old value.\<close>

definition received :: "pbin \<Rightarrow> string \<Rightarrow> char list \<Rightarrow> pbin \<Rightarrow> pbin" where
  "received b i sa r = r\<lparr>bh_version := bh_version b, bh_id := i @ NUL # zeros (15 - length i),
     bh_direction := bh_direction b, bh_cmd := bh_cmd b, bh_subcmd := bh_subcmd b,
     bh_transaction := bh_transaction b, bh_sequence := bh_sequence b, bh_sign := sa,
     bh_length := bh_length b, bh_ret := bh_ret b\<rparr>"

lemma parse_fields_text:
  assumes "msg_ok b i" and "stamped b" and "dashless sg" and "mem_write (bh_sign r) 0 sg = Some sa"
  shows "parse_fields r (header_text b i sg @ NUL # rest) = Some (received b i sa r)"
proof -
  have num: "0 \<le> bh_version b" "bh_version b < 100" "0 \<le> bh_direction b" "bh_direction b < 2147483648"
    "0 \<le> bh_cmd b" "bh_cmd b < 2147483648" "0 \<le> bh_subcmd b" "bh_subcmd b < 2147483648"
    "0 \<le> bh_transaction b" "bh_transaction b < 1000000000000000" "0 \<le> bh_sequence b"
    "bh_sequence b < 2147483648" "0 \<le> bh_length b" "bh_length b < 2147483648" "0 \<le> bh_ret b"
    "bh_ret b < 2147483648" "dashless i"
    using assms(1,2) by (auto simp: msg_ok_def stamped_def)
  have last: "find_dash (fmt_d (bh_retCode b) @ NUL # rest) = Some None"
    using assms(1) by (intro find_dash_end) (simp add: msg_ok_def)
  have tmp: "to_tmp i = Some (i @ NUL # zeros (15 - length i))"
    using assms(1) by (intro to_tmp_short) (simp add: msg_ok_def)
  show ?thesis
    using num by (simp add: header_text_def parse_fields_def field_simps last tmp assms(3,4) received_def)
qed

section \<open>Writing and reading a message\<close>

lemma save_text_Some:
  assumes "msg_ok b i" and "stamped b" and "cstr (bh_sign b) = Some sg" and "dashless sg" and "length sg \<le> 34"
    and "bb_data b = Some dat" and "nat (bh_length b) \<le> length dat" and "120 + nat (bh_length b) \<le> length save"
  shows "jk_protocol_bin_save_text b save = Some (header_text b i sg @ NUL # zeros (119 - length (header_text b i sg))
      @ take (nat (bh_length b)) dat @ drop (120 + nat (bh_length b)) save, 120 + bh_length b)"
proof -
  define h where "h = header_text b i sg"
  define n where "n = nat (bh_length b)"
  have h: "length h < 100" using length_header_text [OF assms(1,2,5)] by (simp add: h_def)
  have len: "bh_length b = int n" "bh_headerLen b = 120" "n \<le> length dat" "120 + n \<le> length save"
    using assms(1,7,8) by (auto simp: n_def msg_ok_def)
  have w1: "mem_write save 0 (zeros (120 + n)) = Some (zeros (120 + n) @ drop (120 + n) save)"
    using len(4) by (simp add: mem_write_def)
  have "drop (Suc (length h)) (zeros (120 + n)) = zeros (119 - length h) @ zeros n"
  proof -
    have "120 + n - Suc (length h) = (119 - length h) + n" using h by simp
    then show ?thesis by (simp add: zeros_def replicate_add)
  qed
  then have w2: "sprintf_to (zeros (120 + n) @ drop (120 + n) save) h
      = Some (h @ NUL # zeros (119 - length h) @ zeros n @ drop (120 + n) save)"
    using h by (simp add: sprintf_to_Some)
  have w3: "mem_write (h @ NUL # zeros (119 - length h) @ zeros n @ drop (120 + n) save) 120 (take n dat)
      = Some (h @ NUL # zeros (119 - length h) @ take n dat @ drop (120 + n) save)"
    using h len(3) mem_write_middle [of "h @ NUL # zeros (119 - length h)" 120 "zeros n" "take n dat"]
    by simp
  have "copy_data (bb_data b) (int n) = Some (take n dat)"
    using assms(6) len(3) by (simp add: copy_data_def mem_read_def)
  then show ?thesis using w1 w2 w3 assms(1,3) len(1,2)
    by (simp add: jk_protocol_bin_save_text_def msg_ok_def Let_def nat_add_distrib flip: h_def)
qed

text \<open>The parser on a buffer that holds a message's header, whatever its signature is.\<close>

lemma parse_data_text:
  assumes "msg_ok b i" and "stamped b" and "dashless sg" and "length sg \<le> 34"
    and "buf = header_text b i sg @ NUL # zeros (119 - length (header_text b i sg)) @ payload"
    and "bh_headerLen r = 120" and "120 \<le> len" and "mem_write (bh_sign r) 0 sg = Some sa" and "alloc_ok (bh_length b + 1)"
  shows "jk_protocol_bin_parse_data_text alloc_ok r buf len =
    (if nat (bh_length b) \<le> length payload
     then Some (0, received b i sa r\<lparr>bb_length := bh_length b, bb_data := Some (take (nat (bh_length b)) payload @ [NUL])\<rparr>)
     else None)"
proof -
  have h: "length (header_text b i sg) < 100" using length_header_text [OF assms(1,2,4)] .
  have "parse_fields r buf = Some (received b i sa r)"
    using parse_fields_text [OF assms(1-3,8)] assms(5) by simp
  moreover define hb where "hb = header_text b i sg @ NUL # zeros (119 - length (header_text b i sg))"
  have "length hb = 120" "buf = hb @ payload" using h by (simp_all add: hb_def assms(5))
  then have "length buf = 120 + length payload" "drop 120 buf = payload" by simp_all
  moreover have "0 \<le> bh_length b" "bh_length b \<le> 32768" using assms(1) by (auto simp: msg_ok_def)
  ultimately show ?thesis using assms(6,7,9)
    by (simp add: jk_protocol_bin_parse_data_text_def received_def limits Let_def mem_read_def)
qed

lemma received_check:
  assumes "msg_ok b i" and "stamped b" and "bh_headerLen r = 120" and "0 \<le> bh_retCode r" and "bh_retCode r \<le> 64"
  shows "jk_protocol_bin_check_valid (received b i sa r\<lparr>bb_length := l, bb_data := d\<rparr>) = 1"
  using assms by (auto simp: check_valid_1 received_def msg_ok_def stamped_def)

lemma received_sign:
  assumes "msg_ok b i" and "stamped b" and "cstr sa = Some sg"
  shows "jk_protocol_bin_check_header_valid (received b i sa r\<lparr>bb_length := l, bb_data := d\<rparr>) =
    Some (if sg = header_sign b i then 1 else 0)"
proof -
  let ?r = "received b i sa r\<lparr>bb_length := l, bb_data := d\<rparr>"
  have "jk_protocol_bin_generate_sign ?r = Some (header_sign ?r i)"
    using assms(1,2) by (intro generate_sign_Some)
      (auto simp: received_def msg_ok_def stamped_def dashless_def)
  moreover have "header_sign ?r i = header_sign b i" by (simp add: header_sign_def received_def)
  ultimately show ?thesis using assms(3)
    by (auto simp: jk_protocol_bin_check_header_valid_def received_def strcmp_eq_0)
qed

lemma parse_data_accepts:
  assumes "msg_ok b i" and "stamped b" and "dashless sg" and "length sg \<le> 34"
    and "buf = header_text b i sg @ NUL # zeros (119 - length (header_text b i sg)) @ payload"
    and "nat (bh_length b) \<le> length payload"
    and "bh_headerLen r = 120" and "120 \<le> len" and "mem_write (bh_sign r) 0 sg = Some sa" and "cstr sa = Some sg'"
    and "0 \<le> bh_retCode r" and "bh_retCode r \<le> 64" and "alloc_ok (bh_length b + 1)"
  shows "jk_protocol_bin_parse_data alloc_ok (Some r) (Some buf) len = Some (0, Some
    (received b i sa r\<lparr>bb_length := bh_length b, bb_data := Some (take (nat (bh_length b)) payload @ [NUL])\<rparr>))"
proof -
  let ?r = "received b i sa r\<lparr>bb_length := bh_length b, bb_data := Some (take (nat (bh_length b)) payload @ [NUL])\<rparr>"
  have "jk_protocol_bin_parse_data_text alloc_ok r buf len = Some (0, ?r)"
    using parse_data_text [where alloc_ok = alloc_ok, OF assms(1-5) assms(7-9,13)] assms(6) by simp
  moreover have "jk_protocol_bin_check_valid ?r = 1"
    using assms(1,2,7,11,12) by (rule received_check)
  moreover obtain k where "jk_protocol_bin_check_header_valid ?r = Some k" "0 \<le> k"
    by (rule that [OF received_sign [OF assms(1,2,10)]]) simp
  ultimately show ?thesis using assms(7,8)
    by (auto simp: jk_protocol_bin_parse_data_def)
qed

section \<open>Properties\<close>

text \<open>What \<open>jk_protocol_bin_generate_data\<close> stamps on the structure before it is signed.\<close>

definition stamp :: "int \<Rightarrow> pbin \<Rightarrow> pbin" where
  "stamp now b = b\<lparr>bh_transaction := now, bh_sequence := curseq b mod 32769, curseq := curseq b mod 32769 + 1\<rparr>"

lemma generate_data_Some:
  assumes "msg_ok b i" and "0 \<le> now" and "now < 10 ^ 14" and "0 \<le> curseq b" and "curseq b \<le> 32769"
    and "length (bh_sign b) = 34"
  shows "\<exists>b'. b' = (stamp now b)\<lparr>bh_sign := header_sign (stamp now b) i @ NUL # drop 33 (bh_sign b)\<rparr>
     \<and> msg_ok b' i \<and> stamped b' \<and> jk_protocol_bin_check_valid b' = 1
     \<and> jk_protocol_bin_generate_data now (Some b) (Some save)
        = do { (sv, n) \<leftarrow> jk_protocol_bin_save_text b' save; Some (0, Some b', Some sv, Some n) }"
proof -
  have sq: "(if 32768 < curseq b then 0 else curseq b) = curseq b mod 32769"
    using assms(4,5) by (cases "curseq b = 32769") auto
  have ok: "msg_ok (stamp now b) i" "stamped (stamp now b)"
    using assms(1-5) by (auto simp: stamp_def msg_ok_def stamped_def)
  have "jk_protocol_bin_generate_sign (stamp now b) = Some (header_sign (stamp now b) i)"
    using ok by (intro generate_sign_Some) (auto simp: msg_ok_def stamped_def)
  moreover have "snprintf_to (bh_sign b) 34 (header_sign (stamp now b) i)
      = Some (header_sign (stamp now b) i @ NUL # drop 33 (bh_sign b))"
    using assms(6) by (simp add: snprintf_to_Some header_sign_def md5.length_sign)
  moreover define b' where "b' = (stamp now b)\<lparr>bh_sign := header_sign (stamp now b) i @ NUL # drop 33 (bh_sign b)\<rparr>"
  have "msg_ok b' i" "stamped b'" using ok by (simp_all add: b'_def msg_ok_def stamped_def)
  moreover from this have "jk_protocol_bin_check_valid b' = 1"
    by (auto simp: check_valid_1 msg_ok_def stamped_def)
  ultimately show ?thesis
    using sq by (auto simp: jk_protocol_bin_generate_data_def Let_def limits stamp_def b'_def)
qed

text \<open>C8: Round trip of a command message. The structure has an id of fewer than 16 characters without a dash (the
  separator), no negative number, and is within the limits of the check, the clock is below 10^14 and the counter between 0 and 32769; its block of data is as long as its length says, the
  buffer has room for header and data, and the receiver is a fresh structure that can allocate. What
  \<open>jk_protocol_bin_generate_data\<close> then writes is accepted by \<open>jk_protocol_bin_parse_data\<close> on the
  receiver, which ends up with the version, direction, command, subcommand, id, transaction,
  sequence, result, length and data of the sender; its \<open>retCode\<close> is not received but kept.\<close>

theorem jk_bin_roundtrip:
  assumes "msg_ok b i" and "0 \<le> now" and "now < 10 ^ 14" and "0 \<le> curseq b" and "curseq b \<le> 32769"
    and "length (bh_sign b) = 34" and "bb_data b = Some dat" and "nat (bh_length b) \<le> length dat"
    and "120 + nat (bh_length b) \<le> length save"
    and "bh_headerLen r = 120" and "bh_sign r = zeros 34" and "0 \<le> bh_retCode r" and "bh_retCode r \<le> 64"
    and "alloc_ok (bh_length b + 1)"
  shows "\<exists>b' sv r'. jk_protocol_bin_generate_data now (Some b) (Some save)
        = Some (0, Some b', Some sv, Some (120 + bh_length b))
     \<and> jk_protocol_bin_parse_data alloc_ok (Some r) (Some sv) (120 + bh_length b) = Some (0, Some r')
     \<and> bh_version r' = bh_version b \<and> bh_direction r' = bh_direction b \<and> bh_cmd r' = bh_cmd b
     \<and> bh_subcmd r' = bh_subcmd b \<and> cstr (bh_id r') = Some i \<and> bh_transaction r' = now
     \<and> bh_sequence r' = bh_sequence b' \<and> bh_ret r' = bh_ret b \<and> bh_length r' = bh_length b
     \<and> bb_data r' = Some (take (nat (bh_length b)) dat @ [NUL]) \<and> bh_retCode r' = bh_retCode r"
proof -
  obtain b' where b': "b' = (stamp now b)\<lparr>bh_sign := header_sign (stamp now b) i @ NUL # drop 33 (bh_sign b)\<rparr>"
    "msg_ok b' i" "stamped b'"
    "jk_protocol_bin_generate_data now (Some b) (Some save)
        = do { (sv, n) \<leftarrow> jk_protocol_bin_save_text b' save; Some (0, Some b', Some sv, Some n) }"
    using generate_data_Some [OF assms(1-6)] by blast
  define sg where "sg = header_sign (stamp now b) i"
  define d where "d = take (nat (bh_length b)) dat"
  define sv where "sv = header_text b' i sg @ NUL # zeros (119 - length (header_text b' i sg))
      @ (d @ drop (120 + nat (bh_length b)) save)"
  have sg: "dashless sg" "length sg = 32" "cstr (bh_sign b') = Some sg"
    by (simp_all add: sg_def header_sign_def md5.length_sign b'(1) md5.sign_array)
  have same: "bb_data b' = Some dat" "bh_length b' = bh_length b" "0 \<le> bh_length b"
    using b'(1) assms(1,7) by (simp_all add: stamp_def msg_ok_def)
  have "jk_protocol_bin_save_text b' save = Some (sv, 120 + bh_length b)"
    using save_text_Some [OF b'(2,3) sg(3,1) _ same(1)] sg(2) same(2) assms(8,9) by (simp add: sv_def d_def)
  then have gen: "jk_protocol_bin_generate_data now (Some b) (Some save)
      = Some (0, Some b', Some sv, Some (120 + bh_length b))" using b'(4) by simp
  have ld: "length d = nat (bh_length b')" using same assms(8) by (simp add: d_def)
  have sa: "mem_write (bh_sign r) 0 sg = Some (sg @ NUL # [NUL])"
    using sg(2) assms(11) by (simp add: mem_write_def zeros_def eval_nat_numeral)
  have "cstr (sg @ NUL # [NUL]) = Some sg" using sg(1) by (simp add: dashless_def)
  moreover have "length sg \<le> 34" "nat (bh_length b') \<le> length (d @ drop (120 + nat (bh_length b)) save)"
    "120 \<le> 120 + bh_length b" "alloc_ok (bh_length b' + 1)"
    using sg(2) ld same assms(14) by simp_all
  ultimately have parse: "jk_protocol_bin_parse_data alloc_ok (Some r) (Some sv) (120 + bh_length b) = Some (0, Some
      (received b' i (sg @ NUL # [NUL]) r\<lparr>bb_length := bh_length b',
        bb_data := Some (take (nat (bh_length b')) (d @ drop (120 + nat (bh_length b)) save) @ [NUL])\<rparr>))"
    using assms(10,12,13) sa by (intro parse_data_accepts [OF b'(2,3) sg(1) _ sv_def]) auto
  have "NUL \<notin> set i" using assms(1) by (simp add: msg_ok_def dashless_def)
  then show ?thesis using gen parse ld same b'(1)
    by (simp add: received_def stamp_def d_def)
qed

theorem jk_bin_roundtrip_witness:
  "\<exists>b' sv r'. jk_protocol_bin_generate_data 1451900000 (Some (pbin_zero\<lparr>bh_version := 1, bh_cmd := 2,
          bh_subcmd := 256, bh_headerLen := 120, bh_length := 2, bb_data := Some ''hi'', curseq := 1\<rparr>)) (Some (zeros 122))
        = Some (0, Some b', Some sv, Some 122)
     \<and> jk_protocol_bin_parse_data (\<lambda>n. True) (Some (pbin_zero\<lparr>bh_headerLen := 120\<rparr>)) (Some sv) 122 = Some (0, Some r')
     \<and> bh_version r' = 1 \<and> bh_direction r' = 0 \<and> bh_cmd r' = 2
     \<and> bh_subcmd r' = 256 \<and> cstr (bh_id r') = Some [] \<and> bh_transaction r' = 1451900000
     \<and> bh_sequence r' = bh_sequence b' \<and> bh_ret r' = 0 \<and> bh_length r' = 2
     \<and> bb_data r' = Some (take 2 ''hi'' @ [NUL]) \<and> bh_retCode r' = 0"
  using jk_bin_roundtrip [of "pbin_zero\<lparr>bh_version := 1, bh_cmd := 2, bh_subcmd := 256, bh_headerLen := 120,
     bh_length := 2, bb_data := Some ''hi'', curseq := 1\<rparr>" "[]" 1451900000 "''hi''" "zeros 122"
     "pbin_zero\<lparr>bh_headerLen := 120\<rparr>" "\<lambda>n. True"]
  by (simp add: msg_ok_def pbin_zero_def dashless_def numeral_2_eq_2)

text \<open>C10: The signature is not enforced. On a well-formed message (header fields within the limits, no dash in the id, all
  announced data there) with any text of at most 33 characters without a dash in place of the MD5,
  \<open>jk_protocol_bin_check_header_valid\<close> returns 0 on what was received, but \<open>jk_protocol_bin_parse_data\<close> only rejects
  negative values: the message is accepted, with return value 0 and the data stored.\<close>

theorem jk_bin_forged_signature_accepted:
  assumes "msg_ok b i" and "stamped b" and "dashless sg" and "length sg \<le> 33"
    and "buf = header_text b i sg @ NUL # zeros (119 - length (header_text b i sg)) @ payload"
    and "nat (bh_length b) = length payload" and "r = pbin_zero\<lparr>bh_headerLen := 120\<rparr>" and "alloc_ok (bh_length b + 1)"
    and "sg \<noteq> header_sign b i"
  shows "\<exists>r'. jk_protocol_bin_parse_data alloc_ok (Some r) (Some buf) (int (length buf)) = Some (0, Some r')
     \<and> jk_protocol_bin_check_header_valid r' = Some 0
     \<and> cstr (bh_sign r') = Some sg \<and> bb_data r' = Some (payload @ [NUL])"
proof -
  have h: "length (header_text b i sg) < 100" using length_header_text [OF assms(1,2), of sg] assms(4) by simp
  have "drop (length sg) (zeros 34) = NUL # zeros (33 - length sg)"
    using assms(4) by (simp add: zeros_def Suc_diff_le flip: replicate_Suc)
  then have sa: "mem_write (bh_sign r) 0 sg = Some (sg @ NUL # zeros (33 - length sg))"
    using assms(4) by (simp add: mem_write_def assms(7) pbin_zero_def)
  have c: "cstr (sg @ NUL # zeros (33 - length sg)) = Some sg" using assms(3) by (simp add: dashless_def)
  have "length sg \<le> 34" "nat (bh_length b) \<le> length payload" "bh_headerLen r = 120" "120 \<le> int (length buf)"
    "0 \<le> bh_retCode r" "bh_retCode r \<le> 64"
    using assms(4,6,7) h by (simp_all add: assms(5) pbin_zero_def)
  then have "jk_protocol_bin_parse_data alloc_ok (Some r) (Some buf) (int (length buf)) = Some (0, Some
      (received b i (sg @ NUL # zeros (33 - length sg)) r\<lparr>bb_length := bh_length b, bb_data := Some (payload @ [NUL])\<rparr>))"
    using parse_data_accepts [OF assms(1-3) _ assms(5) _ _ _ sa c] assms(6,8) by simp
  moreover have "cstr (bh_sign (received b i (sg @ NUL # zeros (33 - length sg)) r)) = Some sg" using c by (simp add: received_def)
  ultimately show ?thesis using received_sign [OF assms(1,2) c] assms(9) by auto
qed

theorem jk_bin_forged_signature_accepted_witness:
  "\<exists>r'. jk_protocol_bin_parse_data (\<lambda>n. True) (Some (pbin_zero\<lparr>bh_headerLen := 120\<rparr>))
      (Some (header_text (pbin_zero\<lparr>bh_headerLen := 120\<rparr>) [] ''forged'' @ NUL
         # zeros (119 - length (header_text (pbin_zero\<lparr>bh_headerLen := 120\<rparr>) [] ''forged'')) @ []))
      (int (length (header_text (pbin_zero\<lparr>bh_headerLen := 120\<rparr>) [] ''forged'' @ NUL
         # zeros (119 - length (header_text (pbin_zero\<lparr>bh_headerLen := 120\<rparr>) [] ''forged'')) @ [])))
     = Some (0, Some r') \<and> jk_protocol_bin_check_header_valid r' = Some 0
     \<and> cstr (bh_sign r') = Some ''forged'' \<and> bb_data r' = Some ([] @ [NUL])"
proof -
  have l: "length ''forged'' \<le> 33" by code_simp
  have "length (header_sign (pbin_zero\<lparr>bh_headerLen := 120\<rparr>) []) = 32" by (simp add: header_sign_def md5.length_sign)
  then have d: "''forged'' \<noteq> header_sign (pbin_zero\<lparr>bh_headerLen := 120\<rparr>) []" by (auto dest: arg_cong [where f = length])
  show ?thesis
    by (rule jk_bin_forged_signature_accepted [OF _ _ _ l refl _ refl _ d])
       (simp_all add: msg_ok_def stamped_def dashless_def pbin_zero_def NUL_def)
qed

text \<open>The length field is checked against a limit, but not against the number of bytes received:
  a well-formed header that announces more data than the buffer holds makes
  \<open>jk_protocol_bin_parse_data\<close> read past the buffer.\<close>

theorem jk_bin_length_overread:
  assumes "msg_ok b i" and "stamped b" and "dashless sg" and "length sg \<le> 33"
    and "buf = header_text b i sg @ NUL # zeros (119 - length (header_text b i sg)) @ payload"
    and "length payload < nat (bh_length b)" and "r = pbin_zero\<lparr>bh_headerLen := 120\<rparr>" and "alloc_ok (bh_length b + 1)"
  shows "jk_protocol_bin_parse_data alloc_ok (Some r) (Some buf) (int (length buf)) = None"
proof -
  have h: "length (header_text b i sg) < 100" using length_header_text [OF assms(1,2), of sg] assms(4) by simp
  have r: "length sg \<le> 34" "bh_headerLen r = 120" "120 \<le> int (length buf)"
    using assms(4,7) h by (simp_all add: assms(5))
  obtain sa where "mem_write (bh_sign r) 0 sg = Some sa"
    using assms(4) by (simp add: mem_write_def assms(7) pbin_zero_def)
  then have "jk_protocol_bin_parse_data_text alloc_ok r buf (int (length buf)) = None"
    using parse_data_text [where alloc_ok = alloc_ok, OF assms(1-3) r(1) assms(5) r(2,3) _ assms(8)] assms(6) by simp
  then show ?thesis using r by (simp add: jk_protocol_bin_parse_data_def)
qed

theorem jk_bin_length_overread_witness:
  "jk_protocol_bin_parse_data (\<lambda>n. True) (Some (pbin_zero\<lparr>bh_headerLen := 120\<rparr>))
      (Some (header_text (pbin_zero\<lparr>bh_headerLen := 120, bh_length := 500\<rparr>) [] [] @ NUL
         # zeros (119 - length (header_text (pbin_zero\<lparr>bh_headerLen := 120, bh_length := 500\<rparr>) [] [])) @ ''x''))
      (int (length (header_text (pbin_zero\<lparr>bh_headerLen := 120, bh_length := 500\<rparr>) [] [] @ NUL
         # zeros (119 - length (header_text (pbin_zero\<lparr>bh_headerLen := 120, bh_length := 500\<rparr>) [] [])) @ ''x'')))
     = None"
  by (rule jk_bin_length_overread [OF _ _ _ _ refl _ refl])
     (simp_all add: msg_ok_def stamped_def dashless_def pbin_zero_def)

text \<open>C9: The sequence counter. Every call of \<open>jk_protocol_bin_generate_data\<close> that gets to the
  signature stamps the counter modulo 32769 and leaves the counter between 1 and 32769, whether the
  message is sent or refused, so the sequence check never fails.\<close>

theorem jk_bin_sequence:
  assumes "jk_protocol_bin_generate_data now (Some b) (Some save) = Some (ret, Some b', sv, n)"
    and "0 \<le> curseq b" and "curseq b \<le> 32769"
  shows "bh_sequence b' = curseq b mod 32769 \<and> curseq b' = curseq b mod 32769 + 1
     \<and> 1 \<le> curseq b' \<and> curseq b' \<le> 32769 \<and> bh_transaction b' = now \<and> ret \<in> {0, - 2}
     \<and> jk_protocol_bin_check_valid b' \<noteq> - 6"
proof -
  have sq: "32768 < curseq b \<Longrightarrow> curseq b mod 32769 = 0"
    "\<not> 32768 < curseq b \<Longrightarrow> curseq b mod 32769 = curseq b"
    using assms(2,3) by (cases "curseq b = 32769", auto)
  define F where "F = (\<lambda>a. if jk_protocol_bin_check_valid ((stamp now b)\<lparr>bh_sign := a\<rparr>) < 0
        then Some (- 2 :: int, Some ((stamp now b)\<lparr>bh_sign := a\<rparr>), Some save, None)
        else do { (sv, n) \<leftarrow> jk_protocol_bin_save_text ((stamp now b)\<lparr>bh_sign := a\<rparr>) save;
                  Some (0, Some ((stamp now b)\<lparr>bh_sign := a\<rparr>), Some sv, Some n) })"
  have "jk_protocol_bin_generate_data now (Some b) (Some save) =
      do { sign \<leftarrow> jk_protocol_bin_generate_sign (stamp now b);
           a \<leftarrow> snprintf_to (bh_sign b) 34 sign; F a }"
    by (cases "32768 < curseq b")
      (simp_all add: sq F_def jk_protocol_bin_generate_data_def Let_def limits stamp_def cong: if_cong)
  then obtain a where "F a = Some (ret, Some b', sv, n)"
    using assms(1) by (auto split: Option.bind_splits)
  then have b': "b' = (stamp now b)\<lparr>bh_sign := a\<rparr>" and ret: "ret \<in> {0, - 2}"
    by (auto simp: F_def split: if_splits Option.bind_splits)
  have "bh_sequence b' = curseq b mod 32769" "curseq b' = curseq b mod 32769 + 1" "bh_transaction b' = now"
    by (simp_all add: b' stamp_def)
  moreover have "0 \<le> curseq b mod 32769" "curseq b mod 32769 \<le> 32768" by simp_all
  ultimately show ?thesis using ret check_valid_sequence [of b'] by simp
qed

theorem jk_bin_sequence_witness:
  "\<exists>ret b' sv n. jk_protocol_bin_generate_data 5 (Some (pbin_zero\<lparr>bh_headerLen := 120, curseq := 32769\<rparr>)) (Some (zeros 120))
       = Some (ret, Some b', sv, n) \<and> bh_sequence b' = 0 \<and> curseq b' = 1"
proof -
  let ?b = "pbin_zero\<lparr>bh_headerLen := 120, curseq := 32769\<rparr>"
  obtain b' where g: "jk_protocol_bin_generate_data 5 (Some ?b) (Some (zeros 120))
        = do { (sv, n) \<leftarrow> jk_protocol_bin_save_text b' (zeros 120); Some (0, Some b', Some sv, Some n) }"
      "msg_ok b' []" "stamped b'" "b' = (stamp 5 ?b)\<lparr>bh_sign := header_sign (stamp 5 ?b) [] @ NUL # drop 33 (bh_sign ?b)\<rparr>"
    using generate_data_Some [of ?b "[]" 5 "zeros 120"]
    by (auto simp: msg_ok_def pbin_zero_def dashless_def)
  have "jk_protocol_bin_save_text (b'\<lparr>bb_data := Some []\<rparr>) (zeros 120) \<noteq> None"
    using save_text_Some [of "b'\<lparr>bb_data := Some []\<rparr>" "[]" "header_sign (stamp 5 ?b) []" "[]" "zeros 120"] g(2-4)
    by (simp add: msg_ok_def stamped_def stamp_def pbin_zero_def header_sign_def md5.length_sign md5.sign_array)
  then have "jk_protocol_bin_save_text b' (zeros 120) \<noteq> None"
    using g(4) by (simp add: jk_protocol_bin_save_text_def copy_data_def stamp_def pbin_zero_def header_text_def Let_def)
  then obtain sv n where "jk_protocol_bin_generate_data 5 (Some ?b) (Some (zeros 120)) = Some (0, Some b', Some sv, Some n)"
    using g(1) by auto
  with jk_bin_sequence [OF this] show ?thesis by auto
qed

text \<open>The limits of \<open>jk_protocol_bin_check_valid\<close>. In \<open>1 << n - 1\<close> the subtraction binds tighter
  than the shift, so a message passes exactly when version and command are at most 8, the subcommand
  at most 2048, length and sequence at most 32768 and the code at most 64 (the 4-, 12-, 16- and 7-bit
  fields of the format could hold about twice as much), and negative values of version, command,
  subcommand, length and sequence pass as well.\<close>

theorem jk_bin_check_limits:
  "jk_protocol_bin_check_valid b = 1 \<longleftrightarrow>
     bh_version b \<le> 8 \<and> bh_cmd b \<le> 8 \<and> bh_subcmd b \<le> 2048 \<and> bh_direction b \<in> {0, 1}
     \<and> bh_length b \<le> 32768 \<and> bh_sequence b \<le> 32768 \<and> bh_headerLen b = 120 \<and> bh_ret b \<in> {0, 1}
     \<and> 0 \<le> bh_retCode b \<and> bh_retCode b \<le> 64"
  by (rule check_valid_1)

text \<open>The bit-packed codes: a bit of a byte or of an \<open>int\<close> after the copying loops.\<close>

lemma bit_or_byte:
  "bit (or_byte x f g n p) k \<longleftrightarrow> bit p k \<or> k < 8 \<and> (\<exists>i<n. bit x (f i) \<and> g i = k)"
proof (induction n)
  case (Suc n)
  then show ?case
    by (auto simp: or_byte_def bit_or_iff bit_exp_iff possible_bit_def less_Suc_eq)
qed (simp add: or_byte_def)

lemma bit_or_int:
  "bit (or_int p f g n x) k \<longleftrightarrow> bit x k \<or> (\<exists>i<n. bit p (f i) \<and> g i = k)"
proof (induction n)
  case (Suc n)
  then show ?case
    by (auto simp: or_int_def bit_or_iff bit_exp_iff possible_bit_def less_Suc_eq)
qed (simp add: or_int_def)

lemma bit_high_bits: "bit (8 :: int) k \<longleftrightarrow> k = 3" "bit (128 :: int) k \<longleftrightarrow> k = 7"
proof -
  have "bit (8 :: int) k = bit ((2 :: int) ^ 3) k" by simp
  then show "bit (8 :: int) k \<longleftrightarrow> k = 3" unfolding bit_exp_iff by auto
  have "bit (128 :: int) k = bit ((2 :: int) ^ 7) k" by simp
  then show "bit (128 :: int) k \<longleftrightarrow> k = 7" unfolding bit_exp_iff by auto
qed

lemma bit_small:
  assumes "0 \<le> x" and "x < 2 ^ n" and "bit (x :: int) k"
  shows "k < n"
proof (rule ccontr)
  assume "\<not> k < n"
  have "take_bit n x = x" using assms(1,2) by (simp add: take_bit_int_eq_self)
  then show False using assms(3) \<open>\<not> k < n\<close> by (metis bit_take_bit_iff)
qed

text \<open>The four code bytes of the bit-packed form. Reading them back ORs the sender's version,
  command, subcommand and code into what the receiver's structure holds: a zeroed structure gets
  exactly the sender's values, while the version of an initialised one (1) makes every even version
  odd.\<close>

theorem jk_bin_packed_codes:
  assumes "0 \<le> bh_version b" "bh_version b < 16" "0 \<le> bh_cmd b" "bh_cmd b < 16"
    and "0 \<le> bh_subcmd b" "bh_subcmd b < 4096" "0 \<le> bh_retCode b" "bh_retCode b < 128"
    and "packed_codes b 0 0 0 0 = [p0, p1, p2, p3]"
  shows "or_int p0 (\<lambda>i. i + 4) id 4 v = v OR bh_version b
    \<and> or_int p1 (\<lambda>i. i + 4) id 4 v = v OR bh_cmd b
    \<and> or_int p2 id id 8 (or_int p1 id (\<lambda>i. i + 8) 4 v) = v OR bh_subcmd b
    \<and> or_int p3 id id 7 v = v OR bh_retCode b
    \<and> (bit p0 3 \<longleftrightarrow> bh_direction b = 1) \<and> (bit p3 7 \<longleftrightarrow> bh_ret b = 1)"
proof -
  have p: "p0 = (if bh_direction b = 1 then or_byte (bh_version b) id (\<lambda>i. i + 4) 4 0 OR push_bit 3 1
                 else or_byte (bh_version b) id (\<lambda>i. i + 4) 4 0)"
    "p1 = or_byte (bh_subcmd b) (\<lambda>i. i + 8) id 4 (or_byte (bh_cmd b) id (\<lambda>i. i + 4) 4 0)"
    "p2 = or_byte (bh_subcmd b) id id 8 0"
    "p3 = or_byte (bh_retCode b) id id 7 (if bh_ret b = 1 then 0 OR push_bit 7 1 else 0)"
    using assms(9) by (auto simp: packed_codes_def Let_def)
  have small: "bit (bh_version b) k \<Longrightarrow> k < 4" "bit (bh_cmd b) k \<Longrightarrow> k < 4"
    "bit (bh_subcmd b) k \<Longrightarrow> k < 12" "bit (bh_retCode b) k \<Longrightarrow> k < 7" for k
    using assms(1-8) by (auto intro: bit_small)
  have bits: "bit p0 k \<longleftrightarrow> k < 8 \<and> (4 \<le> k \<and> bit (bh_version b) (k - 4) \<or> k = 3 \<and> bh_direction b = 1)"
    "bit p1 k \<longleftrightarrow> k < 8 \<and> (4 \<le> k \<and> bit (bh_cmd b) (k - 4) \<or> k < 4 \<and> bit (bh_subcmd b) (k + 8))"
    "bit p2 k \<longleftrightarrow> k < 8 \<and> bit (bh_subcmd b) k"
    "bit p3 k \<longleftrightarrow> k < 7 \<and> bit (bh_retCode b) k \<or> k = 7 \<and> bh_ret b = 1" for k
  proof -
    show "bit p0 k \<longleftrightarrow> k < 8 \<and> (4 \<le> k \<and> bit (bh_version b) (k - 4) \<or> k = 3 \<and> bh_direction b = 1)"
      unfolding p by (auto simp: bit_or_byte bit_or_iff bit_high_bits intro: exI [of _ "k - 4"] dest: small(1))
    show "bit p1 k \<longleftrightarrow> k < 8 \<and> (4 \<le> k \<and> bit (bh_cmd b) (k - 4) \<or> k < 4 \<and> bit (bh_subcmd b) (k + 8))"
      unfolding p by (auto simp: bit_or_byte intro: exI [of _ "k - 4"] dest: small(2))
    show "bit p2 k \<longleftrightarrow> k < 8 \<and> bit (bh_subcmd b) k"
      unfolding p by (auto simp: bit_or_byte)
    show "bit p3 k \<longleftrightarrow> k < 7 \<and> bit (bh_retCode b) k \<or> k = 7 \<and> bh_ret b = 1"
      unfolding p by (auto simp: bit_or_byte bit_or_iff bit_high_bits dest: small(4))
  qed
  have "or_int p0 (\<lambda>i. i + 4) id 4 v = v OR bh_version b"
    using small by (intro bit_eqI) (auto simp: bit_or_int bits bit_or_iff)
  moreover have "or_int p1 (\<lambda>i. i + 4) id 4 v = v OR bh_cmd b"
    using small by (intro bit_eqI) (auto simp: bit_or_int bits bit_or_iff)
  moreover have "or_int p2 id id 8 (or_int p1 id (\<lambda>i. i + 8) 4 v) = v OR bh_subcmd b"
  proof (rule bit_eqI)
    fix k
    have "bit (bh_subcmd b) k \<longleftrightarrow> k < 8 \<and> bit (bh_subcmd b) k \<or> (\<exists>i<4. bit (bh_subcmd b) (i + 8) \<and> i + 8 = k)"
      using small(3) [of k] by (auto intro!: exI [of _ "k - 8"])
    then show "bit (or_int p2 id id 8 (or_int p1 id (\<lambda>i. i + 8) 4 v)) k \<longleftrightarrow> bit (v OR bh_subcmd b) k"
      by (auto simp: bit_or_int bits bit_or_iff)
  qed
  moreover have "or_int p3 id id 7 v = v OR bh_retCode b"
    using small by (intro bit_eqI) (auto simp: bit_or_int bits bit_or_iff)
  ultimately show ?thesis using bits by simp
qed

theorem jk_bin_packed_codes_witness:
  "or_int 0x28 (\<lambda>i. i + 4) id 4 1 = 1 OR (2 :: int)
    \<and> or_int 0x31 (\<lambda>i. i + 4) id 4 0 = 0 OR (3 :: int)
    \<and> packed_codes (pbin_zero\<lparr>bh_version := 2, bh_direction := 1, bh_cmd := 3, bh_subcmd := 0x102\<rparr>) 0 0 0 0
        = [0x28, 0x31, 2, 0]"
proof -
  let ?b = "pbin_zero\<lparr>bh_version := 2, bh_direction := 1, bh_cmd := 3, bh_subcmd := 0x102\<rparr>"
  have p: "packed_codes ?b 0 0 0 0 = [0x28, 0x31, 2, 0]" by code_simp
  show ?thesis
    using jk_bin_packed_codes [OF _ _ _ _ _ _ _ _ p, where v = 1]
      jk_bin_packed_codes [OF _ _ _ _ _ _ _ _ p, where v = 0] p
    by (simp add: pbin_zero_def)
qed

text \<open>The bit-packed reader converts the two binary bytes of the sequence with \<open>atoi\<close>, from an
  array of two characters: a message whose sequence has no zero byte among its low two is read past
  that array.\<close>

theorem jk_bin_packed_unreadable:
  assumes "jk_protocol_bin_memcpy_data b save = Some (n, buf, m)" and "bh_length b = 0"
    and "bit (bh_sequence b) 0" and "bit (bh_sequence b) 8"
  shows "jk_protocol_bin_parse_data_ex alloc_ok r buf = None"
proof -
  have nz: "char_of (unat (of_int (drop_bit (8 * k) (bh_sequence b)) :: u8)) \<noteq> NUL" if "k < 2" for k
  proof -
    have "bit (of_int (drop_bit (8 * k) (bh_sequence b)) :: u8) 0"
      using that assms(3,4) by (cases k) (auto simp: bit_simps)
    then have "(of_int (drop_bit (8 * k) (bh_sequence b)) :: u8) \<noteq> 0" by auto
    then have "unat (of_int (drop_bit (8 * k) (bh_sequence b)) :: u8) \<noteq> 0" by (simp add: unat_eq_0)
    then have "of_char (char_of (unat (of_int (drop_bit (8 * k) (bh_sequence b)) :: u8))) \<noteq> (0 :: nat)"
      using byte_less by simp
    moreover have "of_char NUL = (0 :: nat)" by (simp add: NUL_def)
    ultimately show ?thesis by metis
  qed
  obtain s1 s2 s3 s4 x y where s: "mem_write s1 20 (chars (int_bytes 2 (bh_sequence b))) = Some s2"
      "mem_write s2 22 (chars (packed_length b x y)) = Some s3"
      "mem_write s3 24 (take 16 (bh_sign b)) = Some s4" "mem_write s4 40 [] = Some buf"
    using assms(1,2)
    by (auto simp: jk_protocol_bin_memcpy_data_def copy_data_def mem_read_def Let_def
        split: Option.bind_splits if_splits)
  have len: "length (chars (int_bytes 2 (bh_sequence b))) = 2" "length (chars (packed_length b x y)) = 2" for x y
    by (simp_all add: chars_def int_bytes_def packed_length_def)
  have "mem_read buf 20 2 = mem_read s4 20 2" using s(4) by (rule mem_read_write_disjoint) simp
  also have "\<dots> = mem_read s3 20 2" using s(3) by (rule mem_read_write_disjoint) simp
  also have "\<dots> = mem_read s2 20 2" using s(2) by (rule mem_read_write_disjoint) simp
  also have "\<dots> = Some (chars (int_bytes 2 (bh_sequence b)))"
    using mem_read_write_same [OF s(1)] len(1) by simp
  finally have "mem_read buf 20 2 = Some (chars (int_bytes 2 (bh_sequence b)))" .
  moreover have "cstr (chars (int_bytes 2 (bh_sequence b))) = None"
    using nz [of 0] nz [of 1] by (auto simp: cstr_def chars_def int_bytes_def upt_rec)
  ultimately have "mem_read buf 20 2 \<bind> cstr \<bind> atoi = None" by simp
  then show ?thesis
    by (auto simp: jk_protocol_bin_parse_data_ex_def Let_def split: Option.bind_splits)
qed

theorem jk_bin_packed_unreadable_witness:
  "\<exists>n buf m. jk_protocol_bin_memcpy_data (pbin_zero\<lparr>bh_headerLen := 120, bh_sequence := 257\<rparr>) (zeros 40)
      = Some (n, buf, m) \<and> jk_protocol_bin_parse_data_ex (\<lambda>n. True) pbin_zero buf = None"
proof -
  have "\<not> Option.is_none (jk_protocol_bin_memcpy_data (pbin_zero\<lparr>bh_headerLen := 120, bh_sequence := 257\<rparr>) (zeros 40))"
    by code_simp
  then obtain n buf m where r: "jk_protocol_bin_memcpy_data
      (pbin_zero\<lparr>bh_headerLen := 120, bh_sequence := 257\<rparr>) (zeros 40) = Some (n, buf, m)"
    by (auto simp: Option.is_none_def)
  have "bit (257 :: int) 0" "bit (257 :: int) 8" by code_simp+
  then have "jk_protocol_bin_parse_data_ex (\<lambda>n. True) pbin_zero buf = None"
    by (intro jk_bin_packed_unreadable [OF r]) (simp_all add: pbin_zero_def)
  with r show ?thesis by blast
qed

end
