(* ===== verification/Chain.thy ===== *)
theory Chain
  imports Prelude
begin

text \<open>
  Doubly linked chains, the abstraction the intrusive lists of the repository share. A heap
  is seen through two functions, the successor \<open>nx\<close> and the predecessor \<open>pv\<close> of an address.
  \<open>chain nx pv cs\<close> says that consecutive addresses of \<open>cs\<close> point at each other, and
  \<open>ring nx pv z xs\<close> that the elements \<open>xs\<close> form a closed chain through the sentinel \<open>z\<close>:
  the list head of cm_list.h and XN_Queue.h, and the NULL of re_list.h (whose "successor" is
  the list's head pointer and whose "predecessor" is its tail pointer).
\<close>

type_synonym addr = nat

abbreviation NULL :: addr where "NULL \<equiv> 0"

fun chain :: "(addr \<Rightarrow> addr) \<Rightarrow> (addr \<Rightarrow> addr) \<Rightarrow> addr list \<Rightarrow> bool" where
  "chain nx pv (a # b # cs) = (nx a = b \<and> pv b = a \<and> chain nx pv (b # cs))"
| "chain nx pv cs = True"

definition ring :: "(addr \<Rightarrow> addr) \<Rightarrow> (addr \<Rightarrow> addr) \<Rightarrow> addr \<Rightarrow> addr list \<Rightarrow> bool" where
  "ring nx pv z xs = (distinct (z # xs) \<and> chain nx pv (z # xs @ [z]))"

text \<open>The neighbours of a position in the ring: the element that ends the part before it, and the
  one that starts the part after it.\<close>

definition before :: "addr \<Rightarrow> addr list \<Rightarrow> addr" where "before z xs = (if xs = [] then z else last xs)"
definition after :: "addr \<Rightarrow> addr list \<Rightarrow> addr" where "after z xs = (if xs = [] then z else hd xs)"

named_theorems ring_simps \<open>reading the two ends of a ring\<close>

lemma before_simps [simp]: "before z [] = z" "before z (xs @ [x]) = x" "before z [x] = x"
  "before z (x # y # xs) = before z (y # xs)"
  by (simp_all add: before_def)

lemma before_append [simp]: "before z (xs @ y # ys) = before y ys" "before z (xs @ ys @ [y]) = y"
  by (simp_all add: before_def)

lemma after_simps [simp]: "after z [] = z" "after z (x # xs) = x"
  by (simp_all add: after_def)

lemma before_in: "before z xs \<in> insert z (set xs)"
  by (simp add: before_def)

lemma after_in: "after z xs \<in> insert z (set xs)"
  by (cases xs) simp_all

lemma chain_append:
  "chain nx pv (as @ b # cs) \<longleftrightarrow> chain nx pv (as @ [b]) \<and> chain nx pv (b # cs)"
proof (induction as)
  case (Cons a as)
  then show ?case by (cases as) auto
qed simp

lemma chain_cong:
  "(\<And>a. a \<in> set (butlast cs) \<Longrightarrow> nx' a = nx a) \<Longrightarrow> (\<And>a. a \<in> set (tl cs) \<Longrightarrow> pv' a = pv a) \<Longrightarrow>
     chain nx' pv' cs = chain nx pv cs"
proof (induction cs rule: induct_list012)
  case (3 a b cs)
  then show ?case by (auto split: if_splits)
qed simp_all

lemma chain_snoc:
  "ys \<noteq> [] \<Longrightarrow> chain nx pv (ys @ [z]) \<longleftrightarrow> chain nx pv ys \<and> nx (last ys) = z \<and> pv z = last ys"
proof (induction ys rule: induct_list012)
  case (3 a b ys)
  then show ?case by auto
qed simp_all

text \<open>A closed chain is cut at any place into the part that ends before it and the part that starts
  after it.\<close>

lemma ring_split:
  "ring nx pv z (xs @ ys) \<longleftrightarrow>
     distinct (z # xs @ ys) \<and> chain nx pv (z # xs) \<and> nx (before z xs) = after z ys \<and>
     pv (after z ys) = before z xs \<and> chain nx pv (ys @ [z])"
proof -
  have "chain nx pv (z # xs @ ys @ [z]) \<longleftrightarrow>
      chain nx pv (z # xs) \<and> nx (before z xs) = after z ys \<and> pv (after z ys) = before z xs \<and>
      chain nx pv (ys @ [z])" (is "?l = ?r")
  proof (cases xs rule: rev_cases)
    case Nil
    then show ?thesis by (cases ys) auto
  next
    case (snoc us x)
    have "?l \<longleftrightarrow> chain nx pv ((z # us) @ x # ys @ [z])" by (simp add: snoc)
    also have "\<dots> \<longleftrightarrow> chain nx pv ((z # us) @ [x]) \<and> chain nx pv (x # ys @ [z])"
      by (rule chain_append)
    also have "\<dots> \<longleftrightarrow> ?r" by (cases ys) (auto simp: snoc)
    finally show ?thesis .
  qed
  then show ?thesis by (auto simp: ring_def)
qed

lemmas ring_nil = ring_split [of _ _ _ "[]" "[]", simplified]

lemma ring_distinct: "ring nx pv z xs \<Longrightarrow> distinct (z # xs)"
  by (simp add: ring_def)

text \<open>The ends of a ring, and the neighbours of one of its elements.\<close>

lemma ring_first [ring_simps]: "ring nx pv z xs \<Longrightarrow> nx z = after z xs"
  using ring_split [of nx pv z "[]" xs] by simp

lemma ring_last [ring_simps]: "ring nx pv z xs \<Longrightarrow> pv z = before z xs"
  using ring_split [of nx pv z xs "[]"] by simp

lemma ring_next [ring_simps]: "ring nx pv z (xs @ x # ys) \<Longrightarrow> nx x = after z ys"
  using ring_split [of nx pv z "xs @ [x]" ys] by simp

lemma ring_prev [ring_simps]: "ring nx pv z (xs @ x # ys) \<Longrightarrow> pv x = before z xs"
  using ring_split [of nx pv z xs "x # ys"] by simp

text \<open>Linking a fresh element between two neighbours, and joining the neighbours of an element.\<close>

lemma ring_insert:
  assumes "ring nx pv z (xs @ ys)" and "x \<notin> insert z (set (xs @ ys))"
    and "\<And>a. a \<noteq> before z xs \<Longrightarrow> a \<noteq> x \<Longrightarrow> nx' a = nx a" and "nx' (before z xs) = x" and "nx' x = after z ys"
    and "\<And>a. a \<noteq> after z ys \<Longrightarrow> a \<noteq> x \<Longrightarrow> pv' a = pv a" and "pv' (after z ys) = x" and "pv' x = before z xs"
  shows "ring nx' pv' z (xs @ x # ys)"
proof -
  note r = assms(1) [unfolded ring_split]
  have bl: "before z xs \<notin> set (butlast (z # xs))" using r
    by (cases xs rule: rev_cases) (auto simp: before_def)
  have tl: "after z ys \<notin> set (tl (ys @ [z]))" using r by (cases ys) auto
  have "chain nx' pv' (z # xs) = chain nx pv (z # xs)"
  proof (rule chain_cong)
    fix a assume a: "a \<in> set (butlast (z # xs))"
    then have "a \<in> set (z # xs)" by (rule in_set_butlastD)
    with a bl assms(2) show "nx' a = nx a" by (intro assms(3)) auto
  next
    fix a assume a: "a \<in> set (tl (z # xs))"
    have "after z ys \<notin> set xs" using r by (cases ys) auto
    with a assms(2) show "pv' a = pv a" by (intro assms(6)) auto
  qed
  moreover have "chain nx' pv' (ys @ [z]) = chain nx pv (ys @ [z])"
  proof (rule chain_cong)
    fix a assume a: "a \<in> set (butlast (ys @ [z]))"
    have "before z xs \<notin> set ys" using r by (cases xs rule: rev_cases) auto
    with a assms(2) show "nx' a = nx a" by (intro assms(3)) auto
  next
    fix a assume a: "a \<in> set (tl (ys @ [z]))"
    then have "a \<in> set (ys @ [z])" by (cases ys) auto
    with a tl assms(2) show "pv' a = pv a" by (intro assms(6)) auto
  qed
  moreover have "chain nx' pv' (x # ys @ [z]) \<longleftrightarrow> nx' x = after z ys \<and> pv' (after z ys) = x \<and> chain nx' pv' (ys @ [z])"
    by (cases ys) auto
  ultimately show ?thesis using r assms(2,4,5,7,8) by (auto simp: ring_split)
qed

lemma ring_remove:
  assumes "ring nx pv z (xs @ x # ys)"
    and "\<And>a. a \<noteq> before z xs \<Longrightarrow> a \<noteq> x \<Longrightarrow> nx' a = nx a" and "nx' (before z xs) = after z ys"
    and "\<And>a. a \<noteq> after z ys \<Longrightarrow> a \<noteq> x \<Longrightarrow> pv' a = pv a" and "pv' (after z ys) = before z xs"
  shows "ring nx' pv' z (xs @ ys)"
proof -
  note r = assms(1) [unfolded ring_split] and s = ring_split [of nx pv z "xs @ [x]" ys, simplified, THEN iffD1, OF assms(1)]
  have d: "distinct (z # xs @ x # ys)" using r by simp
  have c: "chain nx pv (z # xs)" "chain nx pv (ys @ [z])" using r s by auto
  have bl: "before z xs \<notin> set (butlast (z # xs))" using d
    by (cases xs rule: rev_cases) (auto simp: before_def)
  have tl: "after z ys \<notin> set (tl (ys @ [z]))" using d by (cases ys) auto
  have "chain nx' pv' (z # xs) = chain nx pv (z # xs)"
  proof (rule chain_cong)
    fix a assume a: "a \<in> set (butlast (z # xs))"
    then have "a \<in> set (z # xs)" by (rule in_set_butlastD)
    with a bl d show "nx' a = nx a" by (intro assms(2)) auto
  next
    fix a assume a: "a \<in> set (tl (z # xs))"
    have "after z ys \<notin> set xs" using d by (cases ys) auto
    with a d show "pv' a = pv a" by (intro assms(4)) auto
  qed
  moreover have "chain nx' pv' (ys @ [z]) = chain nx pv (ys @ [z])"
  proof (rule chain_cong)
    fix a assume a: "a \<in> set (butlast (ys @ [z]))"
    have "before z xs \<notin> set ys" using d by (cases xs rule: rev_cases) auto
    with a d show "nx' a = nx a" by (intro assms(2)) auto
  next
    fix a assume a: "a \<in> set (tl (ys @ [z]))"
    then have "a \<in> set (ys @ [z])" by (cases ys) auto
    with a tl d show "pv' a = pv a" by (intro assms(4)) auto
  qed
  ultimately show ?thesis using c d assms(3,5) by (auto simp: ring_split)
qed

lemma ring_frame:
  assumes "ring nx pv z xs" and "\<And>a. a \<in> insert z (set xs) \<Longrightarrow> nx' a = nx a"
    and "\<And>a. a \<in> insert z (set xs) \<Longrightarrow> pv' a = pv a"
  shows "ring nx' pv' z xs"
proof -
  have "chain nx' pv' (z # xs @ [z]) = chain nx pv (z # xs @ [z])"
    by (rule chain_cong) (use assms(2,3) in \<open>auto dest: in_set_butlastD\<close>)
  then show ?thesis using assms(1) by (simp add: ring_def)
qed

end
