(* ===== verification/CmList.thy ===== *)
theory CmList
  imports Chain
begin

text \<open>
  The intrusive circular list of src/common/cm_list.c: the memory is a map from addresses to
  \<open>struct list_head\<close> records, a list is known by the address of its head, and an operation that
  follows or writes through an address without such a record is \<open>None\<close>. The lemmas show that
  each operation does what it says on the sequence of elements of the ring.
\<close>

record list_head =
  lnext :: addr
  lprev :: addr

type_synonym lheap = "addr \<rightharpoonup> list_head"

definition get_next :: "addr \<Rightarrow> lheap \<Rightarrow> addr option" where
  "get_next a h = map_option lnext (h a)"

definition get_prev :: "addr \<Rightarrow> lheap \<Rightarrow> addr option" where
  "get_prev a h = map_option lprev (h a)"

definition set_next :: "addr \<Rightarrow> addr \<Rightarrow> lheap \<Rightarrow> lheap option" where
  "set_next a b h = (case h a of None \<Rightarrow> None | Some n \<Rightarrow> Some (h(a \<mapsto> n\<lparr>lnext := b\<rparr>)))"

definition set_prev :: "addr \<Rightarrow> addr \<Rightarrow> lheap \<Rightarrow> lheap option" where
  "set_prev a b h = (case h a of None \<Rightarrow> None | Some n \<Rightarrow> Some (h(a \<mapsto> n\<lparr>lprev := b\<rparr>)))"

definition cm_init_list_head :: "addr \<Rightarrow> lheap \<Rightarrow> lheap option" where
  "cm_init_list_head head h = do { h \<leftarrow> set_prev head head h; set_next head head h }"

definition cm_list_add :: "addr \<Rightarrow> addr \<Rightarrow> addr \<Rightarrow> lheap \<Rightarrow> lheap option" where
  "cm_list_add item prev next h = do {
     h \<leftarrow> set_prev next item h;
     h \<leftarrow> set_next item next h;
     h \<leftarrow> set_prev item prev h;
     set_next prev item h
   }"

definition cm_list_add_tail :: "addr \<Rightarrow> addr \<Rightarrow> lheap \<Rightarrow> lheap option" where
  "cm_list_add_tail item head h = do {
     p \<leftarrow> get_prev head h;
     cm_list_add item p head h
   }"

definition cm_list_add_front :: "addr \<Rightarrow> addr \<Rightarrow> lheap \<Rightarrow> lheap option" where
  "cm_list_add_front item head h = do {
     n \<leftarrow> get_next head h;
     cm_list_add item head n h
   }"

definition cm_list_del :: "addr \<Rightarrow> addr \<Rightarrow> lheap \<Rightarrow> lheap option" where
  "cm_list_del prev next h = do {
     h \<leftarrow> set_prev next prev h;
     set_next prev next h
   }"

definition cm_list_del_item :: "addr \<Rightarrow> lheap \<Rightarrow> lheap option" where
  "cm_list_del_item item h = do {
     p \<leftarrow> get_prev item h;
     n \<leftarrow> get_next item h;
     cm_list_del p n h
   }"

definition cm_list_empty :: "addr \<Rightarrow> lheap \<Rightarrow> int option" where
  "cm_list_empty head h = do {
     last \<leftarrow> get_next head h;
     n \<leftarrow> get_next last h;
     nn \<leftarrow> get_next n h;
     Some (if n = nn then 1 else 0)
   }"

text \<open>The iteration macros \<open>cm_list_each\<close> and \<open>cm_list_each_safe\<close>, with a body \<open>f\<close> that updates
  an accumulator, the heap included. Neither has to end on a damaged list.\<close>

partial_function (option) each_loop ::
  "(addr \<Rightarrow> 's \<Rightarrow> 's option) \<Rightarrow> ('s \<Rightarrow> lheap) \<Rightarrow> addr \<Rightarrow> addr \<Rightarrow> 's \<Rightarrow> 's option" where
  "each_loop f hp head pos s =
     (if pos = head then Some s
      else do { s \<leftarrow> f pos s; n \<leftarrow> get_next pos (hp s); each_loop f hp head n s })"

partial_function (option) each_safe_loop ::
  "(addr \<Rightarrow> 's \<Rightarrow> 's option) \<Rightarrow> ('s \<Rightarrow> lheap) \<Rightarrow> addr \<Rightarrow> addr \<Rightarrow> addr \<Rightarrow> 's \<Rightarrow> 's option" where
  "each_safe_loop f hp head pos n s =
     (if pos = head then Some s
      else do { s \<leftarrow> f pos s; m \<leftarrow> get_next n (hp s); each_safe_loop f hp head n m s })"

definition cm_list_each :: "(addr \<Rightarrow> 's \<Rightarrow> 's option) \<Rightarrow> ('s \<Rightarrow> lheap) \<Rightarrow> addr \<Rightarrow> 's \<Rightarrow> 's option" where
  "cm_list_each f hp head s = do { pos \<leftarrow> get_next head (hp s); each_loop f hp head pos s }"

definition cm_list_each_safe :: "(addr \<Rightarrow> 's \<Rightarrow> 's option) \<Rightarrow> ('s \<Rightarrow> lheap) \<Rightarrow> addr \<Rightarrow> 's \<Rightarrow> 's option" where
  "cm_list_each_safe f hp head s = do {
     pos \<leftarrow> get_next head (hp s);
     n \<leftarrow> get_next pos (hp s);
     each_safe_loop f hp head pos n s
   }"

section \<open>The ring in the heap\<close>

definition nx_of :: "lheap \<Rightarrow> addr \<Rightarrow> addr" where
  "nx_of h a = (case h a of None \<Rightarrow> NULL | Some n \<Rightarrow> lnext n)"

definition pv_of :: "lheap \<Rightarrow> addr \<Rightarrow> addr" where
  "pv_of h a = (case h a of None \<Rightarrow> NULL | Some n \<Rightarrow> lprev n)"

text \<open>\<open>lring h head xs\<close>: the list with head \<open>head\<close> consists of the elements \<open>xs\<close>, in order.\<close>

definition lring :: "lheap \<Rightarrow> addr \<Rightarrow> addr list \<Rightarrow> bool" where
  "lring h head xs = (insert head (set xs) \<subseteq> dom h \<and> ring (nx_of h) (pv_of h) head xs)"

lemma get_next_dom [simp]: "a \<in> dom h \<Longrightarrow> get_next a h = Some (nx_of h a)"
  by (auto simp: get_next_def nx_of_def)

lemma get_prev_dom [simp]: "a \<in> dom h \<Longrightarrow> get_prev a h = Some (pv_of h a)"
  by (auto simp: get_prev_def pv_of_def)

lemma set_next_dom: "a \<in> dom h \<Longrightarrow> set_next a b h = Some (h(a \<mapsto> (the (h a))\<lparr>lnext := b\<rparr>))"
  by (auto simp: set_next_def)

lemma set_prev_dom: "a \<in> dom h \<Longrightarrow> set_prev a b h = Some (h(a \<mapsto> (the (h a))\<lparr>lprev := b\<rparr>))"
  by (auto simp: set_prev_def)

text \<open>A store through a live address succeeds and changes one field of one record.\<close>

lemma set_next_E:
  assumes "a \<in> dom h"
  obtains h' where "set_next a b h = Some h'" and "dom h' = dom h"
    and "nx_of h' = (nx_of h)(a := b)" and "pv_of h' = pv_of h" and "\<And>c. c \<noteq> a \<Longrightarrow> h' c = h c"
proof
  show "set_next a b h = Some (h(a \<mapsto> (the (h a))\<lparr>lnext := b\<rparr>))" by (rule set_next_dom) fact
qed (use assms in \<open>auto simp: nx_of_def pv_of_def fun_eq_iff\<close>)

lemma set_prev_E:
  assumes "a \<in> dom h"
  obtains h' where "set_prev a b h = Some h'" and "dom h' = dom h"
    and "nx_of h' = nx_of h" and "pv_of h' = (pv_of h)(a := b)" and "\<And>c. c \<noteq> a \<Longrightarrow> h' c = h c"
proof
  show "set_prev a b h = Some (h(a \<mapsto> (the (h a))\<lparr>lprev := b\<rparr>))" by (rule set_prev_dom) fact
qed (use assms in \<open>auto simp: nx_of_def pv_of_def fun_eq_iff\<close>)

lemma cm_list_add_E:
  assumes "item \<in> dom h" "p \<in> dom h" "n \<in> dom h" "item \<noteq> p" "item \<noteq> n"
  obtains h' where "cm_list_add item p n h = Some h'" and "dom h' = dom h"
    and "nx_of h' = (nx_of h)(item := n, p := item)" and "pv_of h' = (pv_of h)(n := item, item := p)"
    and "\<And>c. c \<notin> {item, p, n} \<Longrightarrow> h' c = h c"
proof -
  obtain h1 where h1: "set_prev n item h = Some h1" "dom h1 = dom h" "nx_of h1 = nx_of h"
      "pv_of h1 = (pv_of h)(n := item)" "\<And>c. c \<noteq> n \<Longrightarrow> h1 c = h c"
    by (rule set_prev_E [OF assms(3)]) blast
  obtain h2 where h2: "set_next item n h1 = Some h2" "dom h2 = dom h1" "nx_of h2 = (nx_of h1)(item := n)"
      "pv_of h2 = pv_of h1" "\<And>c. c \<noteq> item \<Longrightarrow> h2 c = h1 c"
    by (rule set_next_E [of item h1]) (use assms h1 in auto)
  obtain h3 where h3: "set_prev item p h2 = Some h3" "dom h3 = dom h2" "nx_of h3 = nx_of h2"
      "pv_of h3 = (pv_of h2)(item := p)" "\<And>c. c \<noteq> item \<Longrightarrow> h3 c = h2 c"
    by (rule set_prev_E [of item h2]) (use assms h1 h2 in auto)
  obtain h4 where h4: "set_next p item h3 = Some h4" "dom h4 = dom h3" "nx_of h4 = (nx_of h3)(p := item)"
      "pv_of h4 = pv_of h3" "\<And>c. c \<noteq> p \<Longrightarrow> h4 c = h3 c"
    by (rule set_next_E [of p h3]) (use assms h1 h2 h3 in auto)
  show ?thesis
    by (rule that [of h4]) (simp_all add: cm_list_add_def h1 h2 h3 h4)
qed

lemma cm_list_del_E:
  assumes "p \<in> dom h" "n \<in> dom h"
  obtains h' where "cm_list_del p n h = Some h'" and "dom h' = dom h"
    and "nx_of h' = (nx_of h)(p := n)" and "pv_of h' = (pv_of h)(n := p)"
    and "\<And>c. c \<notin> {p, n} \<Longrightarrow> h' c = h c"
proof -
  obtain h1 where h1: "set_prev n p h = Some h1" "dom h1 = dom h" "nx_of h1 = nx_of h"
      "pv_of h1 = (pv_of h)(n := p)" "\<And>c. c \<noteq> n \<Longrightarrow> h1 c = h c"
    by (rule set_prev_E [OF assms(2)]) blast
  obtain h2 where h2: "set_next p n h1 = Some h2" "dom h2 = dom h1" "nx_of h2 = (nx_of h1)(p := n)"
      "pv_of h2 = pv_of h1" "\<And>c. c \<noteq> p \<Longrightarrow> h2 c = h1 c"
    by (rule set_next_E [of p h1]) (use assms h1 in auto)
  show ?thesis
    by (rule that [of h2]) (simp_all add: cm_list_del_def h1 h2)
qed

section \<open>The operations on the sequence of elements\<close>

lemma lring_dom: "lring h head xs \<Longrightarrow> a \<in> insert head (set xs) \<Longrightarrow> a \<in> dom h"
  by (auto simp: lring_def)

lemma lring_distinct: "lring h head xs \<Longrightarrow> distinct (head # xs)"
  by (simp add: lring_def ring_def)

lemma cm_init_list_head_ring:
  assumes "head \<in> dom h"
  obtains h' where "cm_init_list_head head h = Some h'" and "dom h' = dom h" and "lring h' head []"
    and "\<And>c. c \<noteq> head \<Longrightarrow> h' c = h c"
proof -
  obtain h1 where h1: "set_prev head head h = Some h1" "dom h1 = dom h" "nx_of h1 = nx_of h"
      "pv_of h1 = (pv_of h)(head := head)" "\<And>c. c \<noteq> head \<Longrightarrow> h1 c = h c"
    by (rule set_prev_E [OF assms]) blast
  obtain h2 where h2: "set_next head head h1 = Some h2" "dom h2 = dom h1" "nx_of h2 = (nx_of h1)(head := head)"
      "pv_of h2 = pv_of h1" "\<And>c. c \<noteq> head \<Longrightarrow> h2 c = h1 c"
    by (rule set_next_E [of head h1]) (use assms h1 in auto)
  show ?thesis
    by (rule that [of h2]) (use assms in \<open>simp_all add: cm_init_list_head_def h1 h2 lring_def ring_def\<close>)
qed

text \<open>Linking a live address that is not in the ring, anywhere in it.\<close>

lemma cm_list_add_ring:
  assumes "lring h head (xs @ ys)" and "x \<in> dom h" and "x \<notin> insert head (set (xs @ ys))"
  obtains h' where "cm_list_add x (before head xs) (after head ys) h = Some h'" and "dom h' = dom h"
    and "lring h' head (xs @ x # ys)" and "\<And>c. c \<notin> insert x (insert head (set (xs @ ys))) \<Longrightarrow> h' c = h c"
proof -
  have n: "before head xs \<in> insert head (set (xs @ ys))" "after head ys \<in> insert head (set (xs @ ys))"
    using before_in [of head xs] after_in [of head ys] by auto
  then have d: "before head xs \<in> dom h" "after head ys \<in> dom h" "x \<noteq> before head xs" "x \<noteq> after head ys"
    using assms(3) lring_dom [OF assms(1)] by metis+
  obtain h' where h': "cm_list_add x (before head xs) (after head ys) h = Some h'" "dom h' = dom h"
      "nx_of h' = (nx_of h)(x := after head ys, before head xs := x)"
      "pv_of h' = (pv_of h)(after head ys := x, x := before head xs)"
      "\<And>c. c \<notin> {x, before head xs, after head ys} \<Longrightarrow> h' c = h c"
    by (rule cm_list_add_E [OF assms(2) d(1-4)]) blast
  have "ring (nx_of h') (pv_of h') head (xs @ x # ys)"
    by (rule ring_insert [of "nx_of h" "pv_of h"]) (use assms d in \<open>auto simp: lring_def h'\<close>)
  then have "lring h' head (xs @ x # ys)" using assms(1,2) by (auto simp: lring_def h')
  moreover have "h' c = h c" if "c \<notin> insert x (insert head (set (xs @ ys)))" for c
    using that n by (intro h'(5)) auto
  ultimately show ?thesis using that h'(1,2) by blast
qed

lemma cm_list_add_tail_ring:
  assumes "lring h head xs" and "x \<in> dom h" and "x \<notin> insert head (set xs)"
  obtains h' where "cm_list_add_tail x head h = Some h'" and "dom h' = dom h" and "lring h' head (xs @ [x])"
    and "\<And>c. c \<notin> insert x (insert head (set xs)) \<Longrightarrow> h' c = h c"
proof -
  have "pv_of h head = before head xs" using assms(1) by (auto simp: lring_def ring_simps)
  then show ?thesis using cm_list_add_ring [of h head xs "[]" x] assms lring_dom [OF assms(1), of head] that
    by (auto simp: cm_list_add_tail_def)
qed

lemma cm_list_add_front_ring:
  assumes "lring h head xs" and "x \<in> dom h" and "x \<notin> insert head (set xs)"
  obtains h' where "cm_list_add_front x head h = Some h'" and "dom h' = dom h" and "lring h' head (x # xs)"
    and "\<And>c. c \<notin> insert x (insert head (set xs)) \<Longrightarrow> h' c = h c"
proof -
  have "nx_of h head = after head xs" using assms(1) by (auto simp: lring_def ring_simps)
  then show ?thesis using cm_list_add_ring [of h head "[]" xs x] assms lring_dom [OF assms(1), of head] that
    by (auto simp: cm_list_add_front_def)
qed

text \<open>Deleting an element joins its neighbours and leaves its own two pointers as they were.\<close>

lemma cm_list_del_item_ring:
  assumes "lring h head (xs @ x # ys)"
  obtains h' where "cm_list_del_item x h = Some h'" and "dom h' = dom h" and "lring h' head (xs @ ys)"
    and "\<And>c. c \<notin> insert head (set (xs @ ys)) \<Longrightarrow> h' c = h c"
    and "h x = Some \<lparr>lnext = after head ys, lprev = before head xs\<rparr>"
proof -
  have n: "before head xs \<in> insert head (set (xs @ ys))" "after head ys \<in> insert head (set (xs @ ys))"
    using before_in [of head xs] after_in [of head ys] by auto
  then have d: "x \<in> dom h" "before head xs \<in> dom h" "after head ys \<in> dom h"
    using lring_dom [OF assms] by auto
  have v: "nx_of h x = after head ys" "pv_of h x = before head xs"
    using assms by (auto simp: lring_def ring_simps)
  obtain h' where h': "cm_list_del (before head xs) (after head ys) h = Some h'" "dom h' = dom h"
      "nx_of h' = (nx_of h)(before head xs := after head ys)" "pv_of h' = (pv_of h)(after head ys := before head xs)"
      "\<And>c. c \<notin> {before head xs, after head ys} \<Longrightarrow> h' c = h c"
    by (rule cm_list_del_E [OF d(2,3)]) blast
  have "ring (nx_of h') (pv_of h') head (xs @ ys)"
    by (rule ring_remove [of "nx_of h" "pv_of h" _ xs x ys]) (use assms in \<open>auto simp: lring_def h'\<close>)
  then have "lring h' head (xs @ ys)" using assms by (auto simp: lring_def h'(2))
  moreover have "h' c = h c" if "c \<notin> insert head (set (xs @ ys))" for c
    using that n by (intro h'(5)) auto
  moreover have "cm_list_del_item x h = Some h'" using d v by (simp add: cm_list_del_item_def h')
  moreover have "h x = Some \<lparr>lnext = after head ys, lprev = before head xs\<rparr>"
    using d(1) v by (auto simp: nx_of_def pv_of_def)
  ultimately show ?thesis using that h'(2) by blast
qed

lemma cm_list_empty_ring:
  assumes "lring h head xs"
  shows "cm_list_empty head h = Some (if xs = [] then 1 else 0)"
proof -
  have d: "get_next a h = Some (nx_of h a)" if "a \<in> insert head (set xs)" for a
    using lring_dom [OF assms that] by simp
  have nx: "nx_of h head = after head xs" using assms by (auto simp: lring_def ring_simps)
  consider "xs = []" | y where "xs = [y]" | y z zs where "xs = y # z # zs" by (cases xs rule: list.exhaust [OF _ list.exhaust]) (auto intro: list.exhaust)
  then show ?thesis
  proof cases
    case 1
    then show ?thesis using d nx by (simp add: cm_list_empty_def)
  next
    case 2
    have "nx_of h y = head" using assms by (simp add: lring_def ring_def 2)
    then show ?thesis using d nx lring_distinct [OF assms] by (simp add: cm_list_empty_def 2)
  next
    case 3
    have r: "nx_of h y = z" "nx_of h z = after head zs" using assms by (cases zs; simp add: lring_def ring_def 3)+
    moreover have "z \<noteq> after head zs" using lring_distinct [OF assms] after_in [of head zs] by (auto simp: 3)
    ultimately show ?thesis using d nx by (simp add: cm_list_empty_def 3)
  qed
qed

text \<open>The loop that reads the next pointer before the body visits, in order, every element that
  was in the list, also when the body unlinks the current one.\<close>

lemma each_safe_loop_rule:
  assumes step: "\<And>kept x rest s. Inv kept (x # rest) s \<Longrightarrow>
                   \<exists>s' kept'. f x s = Some s' \<and> Inv kept' rest s'"
    and ring: "\<And>kept rest s. Inv kept rest s \<Longrightarrow> lring (hp s) head (kept @ rest)"
  shows "Inv kept rest s \<Longrightarrow> pos = after head rest \<Longrightarrow> n = nx_of (hp s) pos \<Longrightarrow>
           \<exists>s' kept'. each_safe_loop f hp head pos n s = Some s' \<and> Inv kept' [] s'"
proof (induction rest arbitrary: kept s pos n)
  case Nil
  then show ?case by (auto simp: each_safe_loop.simps)
next
  case (Cons x rest)
  obtain s' kept' where s': "f x s = Some s'" "Inv kept' rest s'" using step [OF Cons.prems(1)] by blast
  have r: "lring (hp s) head (kept @ x # rest)" and r': "lring (hp s') head (kept' @ rest)"
    using ring Cons.prems(1) s'(2) by blast+
  have n: "n = after head rest" using r Cons.prems(2,3) by (auto simp: lring_def ring_simps)
  have "n \<in> dom (hp s')" using n after_in [of head rest] lring_dom [OF r', of n] by auto
  then have "get_next n (hp s') = Some (nx_of (hp s') n)" by simp
  moreover have "x \<noteq> head" using lring_distinct [OF r] by auto
  moreover have "pos = x" using Cons.prems(2) by simp
  ultimately show ?case using Cons.IH [OF s'(2) n refl] s'(1) by (subst each_safe_loop.simps) simp
qed

lemma cm_list_each_safe_rule:
  assumes "\<And>kept x rest s. Inv kept (x # rest) s \<Longrightarrow> \<exists>s' kept'. f x s = Some s' \<and> Inv kept' rest s'"
    and "\<And>kept rest s. Inv kept rest s \<Longrightarrow> lring (hp s) head (kept @ rest)"
    and "Inv [] xs s"
  shows "\<exists>s' kept'. cm_list_each_safe f hp head s = Some s' \<and> Inv kept' [] s'"
proof -
  have r: "lring (hp s) head xs" using assms(2) [OF assms(3)] by simp
  have "nx_of (hp s) head = after head xs" using r by (auto simp: lring_def ring_simps)
  moreover have "head \<in> dom (hp s)" "after head xs \<in> dom (hp s)"
    using lring_dom [OF r] after_in [of head xs] by auto
  ultimately show ?thesis
    using each_safe_loop_rule [of Inv f hp head, OF assms(1,2) assms(3) refl refl]
    by (simp add: cm_list_each_safe_def)
qed

text \<open>C18: On a well formed list, \<open>cm_list_add_tail\<close>, \<open>cm_list_add_front\<close> and
  \<open>cm_list_del_item\<close> are append, prepend and removal of one element of the sequence: none
  fails and each leaves a well formed list; deleting what was added gives the old sequence back;
  \<open>cm_list_empty\<close> answers 1 exactly for a head without elements, although it compares the
  pointers two and three steps behind the head.\<close>

theorem cm_list_refines:
  assumes "lring h head (xs @ ys)" and "x \<in> dom h" and "x \<notin> insert head (set (xs @ ys))"
  shows "(\<exists>h1 h2. cm_list_add_tail x head h = Some h1 \<and> lring h1 head ((xs @ ys) @ [x]) \<and>
            cm_list_del_item x h1 = Some h2 \<and> lring h2 head (xs @ ys)) \<and>
         (\<exists>h1 h2. cm_list_add_front x head h = Some h1 \<and> lring h1 head (x # xs @ ys) \<and>
            cm_list_del_item x h1 = Some h2 \<and> lring h2 head (xs @ ys)) \<and>
         (\<forall>y zs. ys = y # zs \<longrightarrow> (\<exists>h1. cm_list_del_item y h = Some h1 \<and> lring h1 head (xs @ zs))) \<and>
         cm_list_empty head h = Some (if xs @ ys = [] then 1 else 0)"
proof (intro conjI allI impI)
  obtain h1 where t: "cm_list_add_tail x head h = Some h1" "lring h1 head ((xs @ ys) @ [x])"
    by (rule cm_list_add_tail_ring [OF assms]) blast
  obtain h2 where "cm_list_del_item x h1 = Some h2" "lring h2 head (xs @ ys)"
    by (rule cm_list_del_item_ring [OF t(2)]) simp
  with t show "\<exists>h1 h2. cm_list_add_tail x head h = Some h1 \<and> lring h1 head ((xs @ ys) @ [x]) \<and>
      cm_list_del_item x h1 = Some h2 \<and> lring h2 head (xs @ ys)" by blast
next
  obtain h1 where t: "cm_list_add_front x head h = Some h1" "lring h1 head (x # xs @ ys)"
    by (rule cm_list_add_front_ring [OF assms]) blast
  obtain h2 where "cm_list_del_item x h1 = Some h2" "lring h2 head (xs @ ys)"
    by (rule cm_list_del_item_ring [of h1 head "[]" x "xs @ ys"]) (use t in simp_all)
  with t show "\<exists>h1 h2. cm_list_add_front x head h = Some h1 \<and> lring h1 head (x # xs @ ys) \<and>
      cm_list_del_item x h1 = Some h2 \<and> lring h2 head (xs @ ys)" by blast
next
  fix y zs assume "ys = y # zs"
  with assms(1) show "\<exists>h1. cm_list_del_item y h = Some h1 \<and> lring h1 head (xs @ zs)"
    by (metis cm_list_del_item_ring)
next
  show "cm_list_empty head h = Some (if xs @ ys = [] then 1 else 0)"
    by (rule cm_list_empty_ring) fact
qed

definition demo_heap :: lheap where
  "demo_heap = map_of [(1, \<lparr>lnext = 2, lprev = 2\<rparr>), (2, \<lparr>lnext = 1, lprev = 1\<rparr>), (3, \<lparr>lnext = 0, lprev = 0\<rparr>)]"

lemma demo_heap_ring: "lring demo_heap 1 [2]"
  by (simp add: lring_def ring_def demo_heap_def nx_of_def pv_of_def)

theorem cm_list_refines_witness:
  "\<exists>h1. cm_list_add_tail 3 1 demo_heap = Some h1 \<and> lring h1 1 [2, 3]"
  using cm_list_refines [of demo_heap 1 "[2]" "[]" 3] demo_heap_ring by (auto simp: demo_heap_def)

end
