(* ===== verification/CmTask.thy ===== *)
theory CmTask
  imports CmList
begin

text \<open>
  The timed tasks of src/common/cm_task.c: a global list of \<open>struct cm_task\<close>, guarded by a
  default (non-recursive) mutex, whose due members \<open>cm_task_poll\<close> removes and runs.

  The state holds the memory of the list heads, the other members of each task object, the
  mutex and the number of clock readings made; \<open>world\<close> is what the callbacks work on. The clock
  \<open>clk\<close> (the value of each successive reading of \<open>cm_gettime_milli\<close>) and the callbacks \<open>cb\<close>
  (what running a function pointer does) are arguments. \<open>None\<close> is an operation that does not
  return normally: an invalid access, a list that never ends, or a lock the thread already holds.
\<close>

record cm_task =
  run :: addr
  args :: addr
  inter :: u64

record 'w tasks =
  heap :: lheap
  tcb :: "addr \<rightharpoonup> cm_task"
  locked :: bool
  ticks :: nat
  world :: 'w

type_synonym clock = "nat \<Rightarrow> u64"
type_synonym 'w callbacks = "addr \<Rightarrow> addr \<Rightarrow> 'w tasks \<Rightarrow> 'w tasks option"

text \<open>The static list head.\<close>

definition g_task_list :: addr where "g_task_list = 1"

definition list_mutex_lock :: "'w tasks \<Rightarrow> 'w tasks option" where
  "list_mutex_lock s = (if locked s then None else Some (s\<lparr>locked := True\<rparr>))"

definition list_mutex_unlock :: "'w tasks \<Rightarrow> 'w tasks" where
  "list_mutex_unlock s = s\<lparr>locked := False\<rparr>"

definition on_heap :: "(lheap \<Rightarrow> lheap option) \<Rightarrow> 'w tasks \<Rightarrow> 'w tasks option" where
  "on_heap f s = do { h \<leftarrow> f (heap s); Some (s\<lparr>heap := h\<rparr>) }"

definition cm_task_init :: "'w tasks \<Rightarrow> (int \<times> 'w tasks) option" where
  "cm_task_init s = do { s \<leftarrow> on_heap (cm_init_list_head g_task_list) s; Some (0, s) }"

definition deinit_body :: "addr \<Rightarrow> 'w tasks \<Rightarrow> 'w tasks option" where
  "deinit_body tmp s = on_heap (cm_list_del_item tmp) s"

definition cm_task_deinit :: "'w tasks \<Rightarrow> (int \<times> 'w tasks) option" where
  "cm_task_deinit s = do {
     s \<leftarrow> list_mutex_lock s;
     s \<leftarrow> cm_list_each_safe deinit_body heap g_task_list s;
     Some (0, list_mutex_unlock s)
   }"

definition cm_task_start ::
  "clock \<Rightarrow> addr \<Rightarrow> u64 \<Rightarrow> addr \<Rightarrow> addr \<Rightarrow> 'w tasks \<Rightarrow> (int \<times> 'w tasks) option" where
  "cm_task_start clk task inter_ms run_fn run_args s =
     (if task = NULL then Some (- 1, s)
      else if run_fn = NULL then Some (- 2, s)
      else do {
        s \<leftarrow> on_heap (cm_init_list_head task) s;
        t \<leftarrow> tcb s task;
        let now = clk (ticks s);
        let s = s\<lparr>tcb := (tcb s)(task \<mapsto> \<lparr>run = run_fn, args = run_args, inter = inter_ms + now\<rparr>),
                  ticks := Suc (ticks s)\<rparr>;
        s \<leftarrow> list_mutex_lock s;
        s \<leftarrow> on_heap (cm_list_add_front task g_task_list) s;
        Some (0, list_mutex_unlock s)
      })"

definition cm_task_cancel :: "addr \<Rightarrow> 'w tasks \<Rightarrow> (int \<times> 'w tasks) option" where
  "cm_task_cancel task s =
     (if task = NULL then Some (- 1, s)
      else do {
        s \<leftarrow> list_mutex_lock s;
        s \<leftarrow> on_heap (cm_list_del_item task) s;
        Some (0, list_mutex_unlock s)
      })"

definition poll_body :: "clock \<Rightarrow> 'w callbacks \<Rightarrow> addr \<Rightarrow> 'w tasks \<Rightarrow> 'w tasks option" where
  "poll_body clk cb tmp s =
     (if tmp = NULL then Some s
      else do {
        task \<leftarrow> tcb s tmp;
        let now = clk (ticks s);
        let s = s\<lparr>ticks := Suc (ticks s)\<rparr>;
        if inter task \<le> now \<and> run task \<noteq> NULL then do {
          s \<leftarrow> on_heap (cm_list_del_item tmp) s;
          cb (run task) (args task) s
        } else Some s
      })"

definition cm_task_poll :: "clock \<Rightarrow> 'w callbacks \<Rightarrow> 'w tasks \<Rightarrow> (int \<times> 'w tasks) option" where
  "cm_task_poll clk cb s = do {
     s \<leftarrow> list_mutex_lock s;
     s \<leftarrow> cm_list_each_safe (poll_body clk cb) heap g_task_list s;
     Some (0, list_mutex_unlock s)
   }"

section \<open>The scheduler on the sequence of pending tasks\<close>

text \<open>\<open>pending s xs\<close>: the list holds the task objects \<open>xs\<close>, each with a function to run, and
  nobody holds the mutex.\<close>

definition task_objs :: "'w tasks \<Rightarrow> addr list \<Rightarrow> bool" where
  "task_objs s xs = (\<forall>x \<in> set xs. x \<noteq> NULL \<and> (\<exists>t. tcb s x = Some t \<and> run t \<noteq> NULL))"

definition pending :: "'w tasks \<Rightarrow> addr list \<Rightarrow> bool" where
  "pending s xs = (lring (heap s) g_task_list xs \<and> task_objs s xs \<and> \<not> locked s)"

text \<open>Callbacks that return and leave the scheduler alone: the functions \<open>fs\<close>, called with any argument,
  change only what the callbacks work on, by \<open>eff\<close>. They neither start or cancel a task nor poll.\<close>

definition quiet_on :: "addr set \<Rightarrow> 'w callbacks \<Rightarrow> (addr \<Rightarrow> addr \<Rightarrow> 'w \<Rightarrow> 'w) \<Rightarrow> bool" where
  "quiet_on fs cb eff = (\<forall>f \<in> fs. \<forall>a s. cb f a s = Some (s\<lparr>world := eff f a (world s)\<rparr>))"

abbreviation quiet :: "'w callbacks \<Rightarrow> (addr \<Rightarrow> addr \<Rightarrow> 'w \<Rightarrow> 'w) \<Rightarrow> bool" where
  "quiet \<equiv> quiet_on UNIV"

text \<open>The functions of the tasks \<open>xs\<close>.\<close>

definition funs_of :: "'w tasks \<Rightarrow> addr list \<Rightarrow> addr set" where
  "funs_of s xs = (\<lambda>x. run (the (tcb s x))) ` set xs"

text \<open>What one poll does: the task at position \<open>i\<close> is compared with the clock reading \<open>i\<close>; the due
  ones run in list order and the others stay.\<close>

definition due :: "clock \<Rightarrow> (addr \<rightharpoonup> cm_task) \<Rightarrow> nat \<times> addr \<Rightarrow> bool" where
  "due clk m ix = (inter (the (m (snd ix))) \<le> clk (fst ix))"

definition run_task :: "(addr \<Rightarrow> addr \<Rightarrow> 'w \<Rightarrow> 'w) \<Rightarrow> (addr \<rightharpoonup> cm_task) \<Rightarrow> addr \<Rightarrow> 'w \<Rightarrow> 'w" where
  "run_task eff m x w = eff (run (the (m x))) (args (the (m x))) w"

definition fired :: "clock \<Rightarrow> 'w tasks \<Rightarrow> addr list \<Rightarrow> addr list" where
  "fired clk s xs = map snd (filter (due clk (tcb s)) (enumerate (ticks s) xs))"

definition survivors :: "clock \<Rightarrow> 'w tasks \<Rightarrow> addr list \<Rightarrow> addr list" where
  "survivors clk s xs = map snd (filter (\<lambda>ix. \<not> due clk (tcb s) ix) (enumerate (ticks s) xs))"

lemma pending_distinct: "pending s xs \<Longrightarrow> distinct (g_task_list # xs)"
  unfolding pending_def by (blast dest: lring_distinct)

lemma fired_Cons: "fired clk s (x # xs) =
    (if due clk (tcb s) (ticks s, x) then [x] else []) @ fired clk (s\<lparr>ticks := Suc (ticks s)\<rparr>) xs"
  by (simp add: fired_def)

lemma survivors_Cons: "survivors clk s (x # xs) =
    (if due clk (tcb s) (ticks s, x) then [] else [x]) @ survivors clk (s\<lparr>ticks := Suc (ticks s)\<rparr>) xs"
  by (simp add: survivors_def)

lemma fired_cong: "tcb s = tcb u \<Longrightarrow> ticks s = ticks u \<Longrightarrow> fired clk s xs = fired clk u xs"
  by (simp add: fired_def)

lemma survivors_cong: "tcb s = tcb u \<Longrightarrow> ticks s = ticks u \<Longrightarrow> survivors clk s xs = survivors clk u xs"
  by (simp add: survivors_def)

lemma set_survivors: "set (survivors clk s xs) \<subseteq> set xs"
  by (auto simp: survivors_def in_set_enumerate_eq)

lemma poll_step:
  assumes "lring (heap s) g_task_list (kept @ x # rest)" and "task_objs s [x]"
    and "due clk (tcb s) (ticks s, x) \<Longrightarrow> quiet_on (funs_of s [x]) cb eff"
  shows "\<exists>s'. poll_body clk cb x s = Some s' \<and> ticks s' = Suc (ticks s) \<and> tcb s' = tcb s \<and>
           locked s' = locked s \<and> dom (heap s') = dom (heap s) \<and>
           lring (heap s') g_task_list ((if due clk (tcb s) (ticks s, x) then kept else kept @ [x]) @ rest) \<and>
           world s' = (if due clk (tcb s) (ticks s, x) then run_task eff (tcb s) x (world s) else world s)"
proof -
  obtain t where t: "x \<noteq> NULL" "tcb s x = Some t" "run t \<noteq> NULL"
    using assms(2) by (auto simp: task_objs_def)
  obtain h' where h': "cm_list_del_item x (heap s) = Some h'" "dom h' = dom (heap s)"
      "lring h' g_task_list (kept @ rest)"
    by (rule cm_list_del_item_ring [OF assms(1)]) blast
  show ?thesis using t h' assms(1,3)
    by (auto simp: poll_body_def due_def on_heap_def quiet_on_def funs_of_def run_task_def)
qed

text \<open>The loop of a poll over the first tasks \<open>ys\<close>: it comes to the others with the due ones run.\<close>

lemma poll_prefix:
  assumes "lring (heap s) g_task_list (kept @ ys @ rest)" and "task_objs s ys"
    and "quiet_on (funs_of s (fired clk s ys)) cb eff"
  shows "\<exists>u. each_safe_loop (poll_body clk cb) heap g_task_list (after g_task_list (ys @ rest))
             (nx_of (heap s) (after g_task_list (ys @ rest))) s =
           each_safe_loop (poll_body clk cb) heap g_task_list (after g_task_list rest) (nx_of (heap u) (after g_task_list rest)) u \<and>
         lring (heap u) g_task_list (kept @ survivors clk s ys @ rest) \<and> tcb u = tcb s \<and> locked u = locked s \<and>
         ticks u = ticks s + length ys \<and> dom (heap u) = dom (heap s) \<and>
         world u = fold (run_task eff (tcb s)) (fired clk s ys) (world s)"
  using assms
proof (induction ys arbitrary: kept s)
  case Nil
  then show ?case by (auto simp: survivors_def fired_def)
next
  case (Cons x ys)
  let ?kept = "if due clk (tcb s) (ticks s, x) then kept else kept @ [x]"
  have q: "quiet_on (funs_of s [x]) cb eff" if "due clk (tcb s) (ticks s, x)"
    using Cons.prems(3) that by (auto simp: fired_Cons quiet_on_def funs_of_def)
  have l: "lring (heap s) g_task_list (kept @ x # (ys @ rest))" and o: "task_objs s [x]"
    using Cons.prems(1,2) by (simp_all add: task_objs_def)
  obtain u where u: "poll_body clk cb x s = Some u" "ticks u = Suc (ticks s)" "tcb u = tcb s"
      "locked u = locked s" "dom (heap u) = dom (heap s)" "lring (heap u) g_task_list (?kept @ ys @ rest)"
      "world u = (if due clk (tcb s) (ticks s, x) then run_task eff (tcb s) x (world s) else world s)"
    using poll_step [OF l o q] by blast
  have f: "fired clk (s\<lparr>ticks := Suc (ticks s)\<rparr>) ys = fired clk u ys" "survivors clk (s\<lparr>ticks := Suc (ticks s)\<rparr>) ys = survivors clk u ys"
    using u(2,3) by (auto intro: fired_cong survivors_cong)
  have "quiet_on (funs_of u (fired clk u ys)) cb eff"
    using Cons.prems(3) f(1) u(3) by (auto simp: fired_Cons quiet_on_def funs_of_def split: if_splits)
  then obtain v where v: "each_safe_loop (poll_body clk cb) heap g_task_list (after g_task_list (ys @ rest))
        (nx_of (heap u) (after g_task_list (ys @ rest))) u =
      each_safe_loop (poll_body clk cb) heap g_task_list (after g_task_list rest) (nx_of (heap v) (after g_task_list rest)) v"
      "lring (heap v) g_task_list (?kept @ survivors clk u ys @ rest)" "tcb v = tcb u" "locked v = locked u"
      "ticks v = ticks u + length ys" "dom (heap v) = dom (heap u)"
      "world v = fold (run_task eff (tcb u)) (fired clk u ys) (world u)"
    using Cons.IH [OF u(6)] Cons.prems(2) u(3) by (auto simp: task_objs_def)
  have "x \<noteq> g_task_list" using lring_distinct [OF Cons.prems(1)] by auto
  moreover have "nx_of (heap s) x = after g_task_list (ys @ rest)"
    using Cons.prems(1) by (auto simp: lring_def ring_simps)
  moreover have "after g_task_list (ys @ rest) \<in> dom (heap u)"
    using lring_dom [OF u(6), of "after g_task_list (ys @ rest)"] after_in [of g_task_list "ys @ rest"] by auto
  ultimately have "each_safe_loop (poll_body clk cb) heap g_task_list (after g_task_list ((x # ys) @ rest))
      (nx_of (heap s) (after g_task_list ((x # ys) @ rest))) s =
    each_safe_loop (poll_body clk cb) heap g_task_list (after g_task_list (ys @ rest)) (nx_of (heap u) (after g_task_list (ys @ rest))) u"
    using u(1) by (subst each_safe_loop.simps) simp
  then show ?case using v u f by (intro exI [of _ v]) (simp add: fired_Cons survivors_Cons split: if_splits)
qed

lemma poll_starts:
  assumes "pending s xs"
  shows "cm_task_poll clk cb s = do {
    s \<leftarrow> each_safe_loop (poll_body clk cb) heap g_task_list (after g_task_list xs) (nx_of (heap s) (after g_task_list xs)) (s\<lparr>locked := True\<rparr>);
    Some (0, list_mutex_unlock s) }"
proof -
  have r: "lring (heap s) g_task_list xs" using assms by (simp add: pending_def)
  then have "get_next g_task_list (heap s) = Some (after g_task_list xs)"
      "get_next (after g_task_list xs) (heap s) = Some (nx_of (heap s) (after g_task_list xs))"
    using lring_dom [OF r] after_in [of g_task_list xs] by (auto simp: lring_def ring_simps)
  then show ?thesis using assms
    by (simp add: cm_task_poll_def list_mutex_lock_def pending_def cm_list_each_safe_def)
qed

lemma poll_pending:
  assumes p: "pending s xs" and q: "quiet_on (funs_of s (fired clk s xs)) cb eff"
  obtains s' where "cm_task_poll clk cb s = Some (0, s')"
    and "pending s' (survivors clk s xs)" and "tcb s' = tcb s"
    and "world s' = fold (run_task eff (tcb s)) (fired clk s xs) (world s)"
    and "ticks s' = ticks s + length xs" and "dom (heap s') = dom (heap s)"
proof -
  define l where "l = s\<lparr>locked := True\<rparr>"
  have l: "lring (heap l) g_task_list ([] @ xs @ [])" "task_objs l xs" "fired clk l xs = fired clk s xs" "survivors clk l xs = survivors clk s xs"
    using p by (simp_all add: pending_def task_objs_def l_def fired_def survivors_def)
  moreover have "quiet_on (funs_of l (fired clk l xs)) cb eff" using q l(3) by (simp add: funs_of_def l_def)
  ultimately obtain u where u: "each_safe_loop (poll_body clk cb) heap g_task_list (after g_task_list xs) (nx_of (heap l) (after g_task_list xs)) l = Some u"
      "lring (heap u) g_task_list (survivors clk s xs)" "tcb u = tcb s" "ticks u = ticks s + length xs" "dom (heap u) = dom (heap s)"
      "world u = fold (run_task eff (tcb s)) (fired clk s xs) (world s)"
    using poll_prefix [of l "[]" xs "[]" clk cb eff] by (auto simp: each_safe_loop.simps l_def)
  then have "task_objs u (survivors clk s xs)" using p set_survivors [of clk s xs] by (auto simp: pending_def task_objs_def)
  with that [of "list_mutex_unlock u"] u p show ?thesis
    by (simp add: poll_starts [OF p] list_mutex_unlock_def pending_def task_objs_def l_def)
qed

lemma lring_other_heap:
  assumes "lring h head xs" and "dom h \<subseteq> dom h'" and "\<And>c. c \<in> insert head (set xs) \<Longrightarrow> h' c = h c"
  shows "lring h' head xs"
proof -
  have "ring (nx_of h') (pv_of h') head xs"
    by (rule ring_frame [of "nx_of h" "pv_of h"]) (use assms in \<open>auto simp: lring_def nx_of_def pv_of_def\<close>)
  moreover have "insert head (set xs) \<subseteq> dom h'" using assms(1,2) unfolding lring_def by blast
  ultimately show ?thesis by (simp add: lring_def)
qed

lemma start_pending:
  assumes p: "pending s xs" and t: "t \<notin> insert g_task_list (set xs)" "t \<in> dom (heap s)" "t \<in> dom (tcb s)"
    and nn: "t \<noteq> NULL" "f \<noteq> NULL"
  obtains s' where "cm_task_start clk t i f a s = Some (0, s')" and "pending s' (t # xs)"
    and "tcb s' = (tcb s)(t \<mapsto> \<lparr>run = f, args = a, inter = i + clk (ticks s)\<rparr>)"
    and "world s' = world s" and "ticks s' = Suc (ticks s)" and "dom (heap s') = dom (heap s)"
proof -
  have r: "lring (heap s) g_task_list xs" using p by (simp add: pending_def)
  obtain h1 where h1: "cm_init_list_head t (heap s) = Some h1" "dom h1 = dom (heap s)"
      "\<And>c. c \<noteq> t \<Longrightarrow> h1 c = heap s c" by (rule cm_init_list_head_ring [OF t(2)]) blast
  have r1: "lring h1 g_task_list xs"
  proof (rule lring_other_heap [OF r])
    fix c assume "c \<in> insert g_task_list (set xs)"
    with t(1) show "h1 c = heap s c" by (intro h1(3)) auto
  qed (simp add: h1)
  obtain h2 where h2: "cm_list_add_front t g_task_list h1 = Some h2" "dom h2 = dom h1" "lring h2 g_task_list (t # xs)"
    by (rule cm_list_add_front_ring [OF r1, of t]) (use t h1 in auto)
  define s' where "s' = s\<lparr>heap := h2, tcb := (tcb s)(t \<mapsto> \<lparr>run = f, args = a, inter = i + clk (ticks s)\<rparr>),
      locked := False, ticks := Suc (ticks s)\<rparr>"
  have "cm_task_start clk t i f a s = Some (0, s')" using p nn t(3) h1(1) h2(1)
    by (auto simp: cm_task_start_def on_heap_def list_mutex_lock_def list_mutex_unlock_def pending_def s'_def)
  moreover have "pending s' (t # xs)" using p h2(3) nn by (auto simp: pending_def task_objs_def s'_def)
  ultimately show ?thesis using that [of s'] h1(2) h2(2) by (simp add: s'_def)
qed

lemma cancel_pending:
  assumes p: "pending s (xs @ t # ys)"
  obtains s' where "cm_task_cancel t s = Some (0, s')" and "pending s' (xs @ ys)" and "tcb s' = tcb s"
    and "world s' = world s" and "ticks s' = ticks s" and "dom (heap s') = dom (heap s)"
    and "heap s t = Some \<lparr>lnext = after g_task_list ys, lprev = before g_task_list xs\<rparr>"
    and "\<And>c. c \<notin> insert g_task_list (set (xs @ ys)) \<Longrightarrow> heap s' c = heap s c"
proof -
  have r: "lring (heap s) g_task_list (xs @ t # ys)" and nn: "t \<noteq> NULL"
    using p by (simp_all add: pending_def task_objs_def)
  obtain h' where h': "cm_list_del_item t (heap s) = Some h'" "dom h' = dom (heap s)" "lring h' g_task_list (xs @ ys)"
      "\<And>c. c \<notin> insert g_task_list (set (xs @ ys)) \<Longrightarrow> h' c = heap s c"
      "heap s t = Some \<lparr>lnext = after g_task_list ys, lprev = before g_task_list xs\<rparr>"
    by (rule cm_list_del_item_ring [OF r]) blast
  show ?thesis using that [of "s\<lparr>heap := h', locked := False\<rparr>"] p nn h'
    by (auto simp: cm_task_cancel_def on_heap_def list_mutex_lock_def list_mutex_unlock_def pending_def task_objs_def)
qed

lemma deinit_pending:
  assumes p: "pending s xs"
  obtains s' where "cm_task_deinit s = Some (0, s')" and "pending s' []"
    and "tcb s' = tcb s" and "world s' = world s" and "dom (heap s') = dom (heap s)"
proof -
  define Inv where "Inv kept rest u \<longleftrightarrow> kept = ([] :: addr list) \<and> lring (heap u) g_task_list rest \<and> locked u \<and>
      tcb u = tcb s \<and> world u = world s \<and> dom (heap u) = dom (heap s)" for kept rest and u :: "'a tasks"
  have "\<exists>s' kept'. cm_list_each_safe deinit_body heap g_task_list (s\<lparr>locked := True\<rparr>) = Some s' \<and> Inv kept' [] s'"
  proof (rule cm_list_each_safe_rule [of Inv])
    show "Inv [] xs (s\<lparr>locked := True\<rparr>)" using p by (simp add: Inv_def pending_def)
  next
    fix kept rest u assume "Inv kept rest u"
    then show "lring (heap u) g_task_list (kept @ rest)" by (simp add: Inv_def)
  next
    fix kept x rest u assume i: "Inv kept (x # rest) u"
    obtain h' where "cm_list_del_item x (heap u) = Some h'" "dom h' = dom (heap u)" "lring h' g_task_list rest"
      by (rule cm_list_del_item_ring [of "heap u" g_task_list "[]" x rest]) (use i in \<open>simp_all add: Inv_def\<close>)
    with i show "\<exists>s' kept'. deinit_body x u = Some s' \<and> Inv kept' rest s'"
      by (auto simp: deinit_body_def on_heap_def Inv_def)
  qed
  with that show ?thesis using p
    by (auto simp: cm_task_deinit_def list_mutex_lock_def list_mutex_unlock_def Inv_def pending_def task_objs_def)
qed

section \<open>The states a disciplined client reaches\<close>

text \<open>\<open>sched clk cb objs s xs\<close>: state \<open>s\<close> is reached by a client that owns the task objects
  \<open>objs\<close>, starts only objects that are not pending, cancels only pending ones, and has quiet
  callbacks; \<open>xs\<close> is the sequence of tasks it expects to be pending.\<close>

inductive sched :: "clock \<Rightarrow> 'w callbacks \<Rightarrow> addr set \<Rightarrow> 'w tasks \<Rightarrow> addr list \<Rightarrow> bool"
  for clk cb objs where
  init: "cm_task_init s = Some (0, s') \<Longrightarrow> \<not> locked s \<Longrightarrow> g_task_list \<in> dom (heap s) - objs \<Longrightarrow>
           objs \<subseteq> dom (heap s) \<Longrightarrow> objs \<subseteq> dom (tcb s) \<Longrightarrow> sched clk cb objs s' []"
| start: "sched clk cb objs s xs \<Longrightarrow> t \<in> objs \<Longrightarrow> t \<notin> set xs \<Longrightarrow>
           cm_task_start clk t i f a s = Some (0, s') \<Longrightarrow> sched clk cb objs s' (t # xs)"
| cancel: "sched clk cb objs s (xs @ t # ys) \<Longrightarrow> cm_task_cancel t s = Some (0, s') \<Longrightarrow>
           sched clk cb objs s' (xs @ ys)"
| poll: "sched clk cb objs s xs \<Longrightarrow> cm_task_poll clk cb s = Some (0, s') \<Longrightarrow>
           sched clk cb objs s' (survivors clk s xs)"
| deinit: "sched clk cb objs s xs \<Longrightarrow> cm_task_deinit s = Some (0, s') \<Longrightarrow> sched clk cb objs s' []"

inductive_cases sched_nonemptyE: "sched clk cb objs s (x # xs)"

lemma start_returns_0: "cm_task_start clk t i f a s = Some (0, s') \<Longrightarrow> t \<noteq> NULL \<and> f \<noteq> NULL"
  by (auto simp: cm_task_start_def split: if_splits)

definition client_inv :: "addr set \<Rightarrow> 'w tasks \<Rightarrow> addr list \<Rightarrow> bool" where
  "client_inv objs s xs = (pending s xs \<and> set xs \<subseteq> objs \<and> g_task_list \<notin> objs \<and>
     objs \<subseteq> dom (heap s) \<and> objs \<subseteq> dom (tcb s))"

lemma client_invE:
  assumes "client_inv objs s xs"
  obtains "pending s xs" "set xs \<subseteq> objs" "g_task_list \<notin> objs" "objs \<subseteq> dom (heap s)" "objs \<subseteq> dom (tcb s)"
  using assms by (simp add: client_inv_def)

lemma sched_client_inv:
  assumes "sched clk cb objs s xs" and q: "quiet cb eff"
  shows "client_inv objs s xs"
  using assms(1)
proof (induction rule: sched.induct)
  case (init s s')
  then obtain h' where "cm_init_list_head g_task_list (heap s) = Some h'" "dom h' = dom (heap s)" "lring h' g_task_list []"
    using cm_init_list_head_ring [of g_task_list "heap s"] by blast
  moreover from this have "s' = s\<lparr>heap := h'\<rparr>" using init.hyps(1)
    by (simp add: cm_task_init_def on_heap_def)
  ultimately show ?case using init.hyps(2-)
    by (simp add: client_inv_def pending_def task_objs_def)
next
  case (start s xs t i f a s')
  from start.IH show ?case
  proof (rule client_invE)
    assume c: "pending s xs" "set xs \<subseteq> objs" "g_task_list \<notin> objs" "objs \<subseteq> dom (heap s)" "objs \<subseteq> dom (tcb s)"
    have "t \<notin> insert g_task_list (set xs)" using c(3) start.hyps(2,3) by auto
    then obtain s2 where "cm_task_start clk t i f a s = Some (0, s2)" "pending s2 (t # xs)"
        "dom (tcb s2) = insert t (dom (tcb s))" "dom (heap s2) = dom (heap s)"
      using start_pending [OF c(1), of t f clk i a] start_returns_0 [OF start.hyps(4)] c start.hyps(2)
      by (metis (no_types, lifting) dom_fun_upd option.distinct(1) subsetD)
    with start.hyps c show ?thesis by (auto simp: client_inv_def)
  qed
next
  case (cancel s xs t ys s')
  then have c: "pending s (xs @ t # ys)" by (simp add: client_inv_def)
  obtain u where "cm_task_cancel t s = Some (0, u)" "pending u (xs @ ys)" "tcb u = tcb s" "dom (heap u) = dom (heap s)"
    by (rule cancel_pending [OF c]) blast
  with cancel show ?case by (simp add: client_inv_def)
next
  case (poll s xs s')
  then have c: "pending s xs" by (simp add: client_inv_def)
  obtain u where "cm_task_poll clk cb s = Some (0, u)" "pending u (survivors clk s xs)" "tcb u = tcb s"
      "dom (heap u) = dom (heap s)"
    by (rule poll_pending [OF c, of clk cb eff]) (use q in \<open>auto simp: quiet_on_def\<close>)
  with poll set_survivors [of clk s xs] show ?case by (auto simp: client_inv_def)
next
  case (deinit s xs s')
  then have c: "pending s xs" by (simp add: client_inv_def)
  obtain u where "cm_task_deinit s = Some (0, u)" "pending u []" "tcb u = tcb s" "dom (heap u) = dom (heap s)"
    by (rule deinit_pending [OF c]) blast
  with deinit show ?case by (simp add: client_inv_def)
qed

text \<open>C19: As long as the client starts only task objects that are not pending and cancels only
  pending ones, and its callbacks return and touch only their own data (\<open>quiet\<close>: none of them starts or
  cancels a task or polls), the scheduler's invariant holds in every state it reaches: the list is a well
  formed ring of distinct task objects with a function to run, the mutex is free, and it holds
  exactly the tasks the client expects; and there the next operation cannot get stuck: starting
  any other of its objects, cancelling a pending one, polling and shutting down all return 0.
  A callback that does use the scheduler is the subject of C22.\<close>

theorem sched_invariant:
  assumes "sched clk cb objs s xs" and "quiet cb eff"
  shows "pending s xs \<and>
    (\<forall>t i f a. t \<in> objs - set xs \<and> t \<noteq> NULL \<and> f \<noteq> NULL \<longrightarrow>
       (\<exists>s'. cm_task_start clk t i f a s = Some (0, s') \<and> pending s' (t # xs))) \<and>
    (\<forall>ys t zs. xs = ys @ t # zs \<longrightarrow> (\<exists>s'. cm_task_cancel t s = Some (0, s') \<and> pending s' (ys @ zs))) \<and>
    (\<exists>s'. cm_task_poll clk cb s = Some (0, s') \<and> pending s' (survivors clk s xs)) \<and>
    (\<exists>s'. cm_task_deinit s = Some (0, s') \<and> pending s' [])"
proof -
  have c: "pending s xs" "set xs \<subseteq> objs" "g_task_list \<notin> objs" "objs \<subseteq> dom (heap s)" "objs \<subseteq> dom (tcb s)"
    using sched_client_inv [OF assms] by (simp_all add: client_inv_def)
  have "\<exists>s'. cm_task_start clk t i f a s = Some (0, s') \<and> pending s' (t # xs)"
    if "t \<in> objs - set xs \<and> t \<noteq> NULL \<and> f \<noteq> NULL" for t i f a
  proof -
    have "t \<notin> insert g_task_list (set xs)" "t \<in> dom (heap s)" "t \<in> dom (tcb s)" using c that by auto
    then show ?thesis using start_pending [OF c(1), of t f clk i a] that by blast
  qed
  moreover have "\<exists>s'. cm_task_cancel t s = Some (0, s') \<and> pending s' (ys @ zs)" if "xs = ys @ t # zs" for ys t zs
    by (rule cancel_pending [of s ys t zs]) (use c(1) that in auto)
  moreover have "\<exists>s'. cm_task_poll clk cb s = Some (0, s') \<and> pending s' (survivors clk s xs)"
    by (rule poll_pending [OF c(1), of clk cb eff]) (use assms(2) in \<open>auto simp: quiet_on_def\<close>)
  moreover have "\<exists>s'. cm_task_deinit s = Some (0, s') \<and> pending s' []"
    by (rule deinit_pending [OF c(1)]) blast
  ultimately show ?thesis using c(1) by simp
qed

text \<open>C20: If the functions of the due tasks return and touch only their own data (\<open>quiet_on\<close>: they
  neither start or cancel a task nor poll, see C22), one poll of a well formed list runs exactly the tasks
  whose time has come, each once, in list order (the task started last first), unlinks them, keeps the
  others in order, and returns 0 with the mutex free; it reads the clock once per task and leaves the task
  objects as they are.\<close>

theorem cm_task_poll_runs_due:
  assumes "pending s xs" and "quiet_on (funs_of s (fired clk s xs)) cb eff"
  shows "\<exists>s'. cm_task_poll clk cb s = Some (0, s') \<and> pending s' (survivors clk s xs) \<and>
           world s' = fold (run_task eff (tcb s)) (fired clk s xs) (world s) \<and>
           ticks s' = ticks s + length xs \<and> tcb s' = tcb s"
  by (rule poll_pending [OF assms]) blast

text \<open>What may happen between the start of a task \<open>t\<close> that is due at \<open>time\<close> and its run: other tasks are
  started and cancelled, and polls whose clock readings are all before \<open>time\<close>.\<close>

inductive waits ::
  "clock \<Rightarrow> 'w callbacks \<Rightarrow> addr set \<Rightarrow> addr \<Rightarrow> nat \<Rightarrow> 'w tasks \<Rightarrow> addr list \<Rightarrow> 'w tasks \<Rightarrow> addr list \<Rightarrow> bool"
  for clk cb objs t time s xs where
  now: "waits clk cb objs t time s xs s xs"
| start: "waits clk cb objs t time s xs u ys \<Longrightarrow> t' \<in> objs \<Longrightarrow> t' \<notin> set ys \<Longrightarrow>
    cm_task_start clk t' i f a u = Some (0, u') \<Longrightarrow> waits clk cb objs t time s xs u' (t' # ys)"
| cancel: "waits clk cb objs t time s xs u (ys @ t' # zs) \<Longrightarrow> t' \<noteq> t \<Longrightarrow>
    cm_task_cancel t' u = Some (0, u') \<Longrightarrow> waits clk cb objs t time s xs u' (ys @ zs)"
| poll: "waits clk cb objs t time s xs u ys \<Longrightarrow>
    (\<And>k. ticks u \<le> k \<Longrightarrow> k < ticks u + length ys \<Longrightarrow> unat (clk k) < time) \<Longrightarrow>
    cm_task_poll clk cb u = Some (0, u') \<Longrightarrow> waits clk cb objs t time s xs u' (survivors clk u ys)"

lemma waits_sched: "waits clk cb objs t time s xs u ys \<Longrightarrow> sched clk cb objs s xs \<Longrightarrow> sched clk cb objs u ys"
  by (induction rule: waits.induct) (auto intro: sched.start sched.cancel sched.poll)

lemma in_fired:
  "t \<in> set (fired clk u xs) \<longleftrightarrow> (\<exists>i < length xs. xs ! i = t \<and> due clk (tcb u) (ticks u + i, t))"
  "t \<in> set (survivors clk u xs) \<longleftrightarrow> (\<exists>i < length xs. xs ! i = t \<and> \<not> due clk (tcb u) (ticks u + i, t))"
  by (auto simp: fired_def survivors_def in_set_enumerate_eq image_iff Bex_def le_iff_add)

lemma fired_in:
  assumes "t \<in> set xs"
  shows "(\<And>k. ticks u \<le> k \<Longrightarrow> k < ticks u + length xs \<Longrightarrow> clk k < inter (the (tcb u t))) \<Longrightarrow>
      t \<notin> set (fired clk u xs) \<and> t \<in> set (survivors clk u xs)"
    and "(\<And>k. ticks u \<le> k \<Longrightarrow> k < ticks u + length xs \<Longrightarrow> inter (the (tcb u t)) \<le> clk k) \<Longrightarrow>
      t \<in> set (fired clk u xs) \<and> t \<notin> set (survivors clk u xs)"
proof -
  obtain i where "i < length xs" "xs ! i = t" using assms by (auto simp: in_set_conv_nth)
  then show "(\<And>k. ticks u \<le> k \<Longrightarrow> k < ticks u + length xs \<Longrightarrow> clk k < inter (the (tcb u t))) \<Longrightarrow>
        t \<notin> set (fired clk u xs) \<and> t \<in> set (survivors clk u xs)"
    and "(\<And>k. ticks u \<le> k \<Longrightarrow> k < ticks u + length xs \<Longrightarrow> inter (the (tcb u t)) \<le> clk k) \<Longrightarrow>
        t \<in> set (fired clk u xs) \<and> t \<notin> set (survivors clk u xs)"
    by (fastforce simp: in_fired due_def not_le)+
qed

lemma start_tcb: "cm_task_start clk t i f a s = Some (0, s') \<Longrightarrow>
    tcb s' = (tcb s)(t \<mapsto> \<lparr>run = f, args = a, inter = i + clk (ticks s)\<rparr>)"
  by (auto simp: cm_task_start_def on_heap_def list_mutex_lock_def list_mutex_unlock_def Let_def
      split: if_splits Option.bind_splits)

lemma waits_keeps:
  assumes "waits clk cb objs t time s xs u ys" and "sched clk cb objs s xs" and q: "quiet cb eff"
    and "t \<in> set xs" and "unat (inter (the (tcb s t))) = time"
  shows "t \<in> set ys \<and> tcb u t = tcb s t"
  using assms(1)
proof (induction rule: waits.induct)
  case now
  then show ?case using assms(4) by simp
next
  case (start u ys t' i f a u')
  then show ?case using start_tcb [OF start.hyps(4)] by auto
next
  case (cancel u ys t' zs u')
  have c: "pending u (ys @ t' # zs)"
    using sched_client_inv [OF waits_sched [OF cancel.hyps(1) assms(2)] q] by (simp add: client_inv_def)
  show ?case by (rule cancel_pending [OF c]) (use cancel in auto)
next
  case (poll u ys u')
  have c: "pending u ys" using sched_client_inv [OF waits_sched [OF poll.hyps(1) assms(2)] q] by (simp add: client_inv_def)
  obtain v where "cm_task_poll clk cb u = Some (0, v)" "tcb v = tcb u"
    by (rule poll_pending [OF c, of clk cb eff]) (use q in \<open>auto simp: quiet_on_def\<close>)
  then have "tcb u' = tcb u" using poll.hyps(3) by simp
  moreover have "t \<in> set (survivors clk u ys)"
    using fired_in(1) [of t ys u clk] poll.IH poll.hyps(2) assms(5) by (auto simp: word_less_nat_alt)
  ultimately show ?case using poll.IH by simp
qed

text \<open>C21: A task that was started runs in the first poll that comes at or after its time, whatever happens
  before. After \<open>cm_task_start\<close> has returned 0, let other tasks be started and cancelled and the list be
  polled too early in any order (\<open>waits\<close>: the task itself is not cancelled, nothing is shut down, and all
  clock readings of those polls are below the starting time plus the delay). Then the task is still pending
  with its function and argument; one more poll whose readings are all below the time does not run it and
  keeps it; and a poll whose readings have all reached the time runs it, with the other due tasks in list
  order, and drops it from the list. The sum of starting time and delay is below \<open>2 ^ 64\<close>, and the callbacks
  return and touch only their own data (\<open>quiet\<close>).\<close>

theorem cm_task_eventually_runs:
  assumes "sched clk cb objs s xs" and "quiet cb eff" and "t \<in> objs - set xs"
    and "cm_task_start clk t delay f a s = Some (0, s1)"
    and "time = unat delay + unat (clk (ticks s))" and "time < 2 ^ 64"
    and "waits clk cb objs t time s1 (t # xs) s2 ys"
  shows "pending s2 ys \<and> t \<in> set ys \<and> (\<exists>b. tcb s2 t = Some b \<and> run b = f \<and> args b = a) \<and>
    ((\<forall>k. ticks s2 \<le> k \<and> k < ticks s2 + length ys \<longrightarrow> unat (clk k) < time) \<longrightarrow>
      t \<notin> set (fired clk s2 ys) \<and> (\<exists>s3. cm_task_poll clk cb s2 = Some (0, s3) \<and> waits clk cb objs t time s1 (t # xs) s3 (survivors clk s2 ys))) \<and>
    ((\<forall>k. ticks s2 \<le> k \<and> k < ticks s2 + length ys \<longrightarrow> time \<le> unat (clk k)) \<longrightarrow>
      t \<in> set (fired clk s2 ys) \<and> t \<notin> set (survivors clk s2 ys) \<and>
      (\<exists>s3. cm_task_poll clk cb s2 = Some (0, s3) \<and> pending s3 (survivors clk s2 ys) \<and>
        world s3 = fold (run_task eff (tcb s2)) (fired clk s2 ys) (world s2)))"
proof -
  have s1: "sched clk cb objs s1 (t # xs)" using assms(1,3,4) by (auto intro: sched.start)
  have t1: "tcb s1 t = Some \<lparr>run = f, args = a, inter = delay + clk (ticks s)\<rparr>" using start_tcb [OF assms(4)] by simp
  have u: "unat (delay + clk (ticks s)) = time"
    using assms(5,6) by (subst unat_add_lem [THEN iffD1]) simp_all
  have k: "t \<in> set ys" "tcb s2 t = tcb s1 t" using waits_keeps [OF assms(7) s1 assms(2)] t1 u by auto
  have p: "pending s2 ys" using sched_client_inv [OF waits_sched [OF assms(7) s1] assms(2)] by (simp add: client_inv_def)
  obtain s3 where s3: "cm_task_poll clk cb s2 = Some (0, s3)" "pending s3 (survivors clk s2 ys)"
      "world s3 = fold (run_task eff (tcb s2)) (fired clk s2 ys) (world s2)"
    by (rule poll_pending [OF p, of clk cb eff]) (use assms(2) in \<open>auto simp: quiet_on_def\<close>)
  have "waits clk cb objs t time s1 (t # xs) s3 (survivors clk s2 ys)"
    if "\<forall>k. ticks s2 \<le> k \<and> k < ticks s2 + length ys \<longrightarrow> unat (clk k) < time"
    using waits.poll [OF assms(7) _ s3(1)] that by blast
  moreover have "t \<notin> set (fired clk s2 ys)"
    if "\<forall>k. ticks s2 \<le> k \<and> k < ticks s2 + length ys \<longrightarrow> unat (clk k) < time"
    using fired_in(1) [OF k(1), of s2 clk] that k(2) t1 u by (simp add: word_less_nat_alt)
  moreover have "t \<in> set (fired clk s2 ys)" "t \<notin> set (survivors clk s2 ys)"
    if "\<forall>k. ticks s2 \<le> k \<and> k < ticks s2 + length ys \<longrightarrow> time \<le> unat (clk k)"
    using fired_in(2) [OF k(1), of s2 clk] that k(2) t1 u by (simp_all add: word_le_nat_alt)
  ultimately show ?thesis using p k t1 s3 by simp
qed

text \<open>The start time is added in 64 bits: when delay plus clock exceed them, the task is due
  in the very next poll with a clock that did not go back.\<close>

theorem cm_task_delay_wraps:
  assumes "cm_task_start clk t delay f a s = Some (0, s1)"
    and "2 ^ 64 \<le> unat delay + unat (clk (ticks s))" and "clk (ticks s) \<le> clk (Suc (ticks s))"
  shows "due clk (tcb s1) (ticks s1, t)"
proof -
  have s1: "tcb s1 t = Some \<lparr>run = f, args = a, inter = delay + clk (ticks s)\<rparr>" "ticks s1 = Suc (ticks s)"
    using assms(1) by (auto simp: cm_task_start_def on_heap_def list_mutex_lock_def list_mutex_unlock_def Let_def
        split: if_splits Option.bind_splits)
  have "delay + clk (ticks s) < delay"
    using assms(2) by (simp add: not_le [symmetric] no_olen_add_nat)
  then have "delay + clk (ticks s) < clk (ticks s)"
    using assms(2) by (metis add.commute no_olen_add_nat not_le)
  then show ?thesis using assms(3) by (simp add: due_def s1)
qed

section \<open>Callbacks that use the scheduler, and stale handles\<close>

text \<open>With the mutex held, no entry point that takes it comes back.\<close>

lemma locked_stuck:
  "locked s \<Longrightarrow> cm_task_cancel t s = (if t = NULL then Some (- 1, s) else None)"
  "locked s \<Longrightarrow> cm_task_poll clk cb s = None"
  "locked s \<Longrightarrow> cm_task_deinit s = None"
  "locked s \<Longrightarrow> t \<noteq> NULL \<Longrightarrow> f \<noteq> NULL \<Longrightarrow> cm_task_start clk t i f a s = None"
  by (auto simp: cm_task_cancel_def cm_task_poll_def cm_task_deinit_def cm_task_start_def
      list_mutex_lock_def on_heap_def Let_def split: Option.bind_splits)

lemma poll_calls_due:
  assumes p: "pending s (ys @ x # zs)" and d: "due clk (tcb s) (ticks s + length ys, x)"
    and q: "quiet_on (funs_of s (fired clk s ys)) cb eff"
  obtains u where "locked u" and "lring (heap u) g_task_list (survivors clk s ys @ zs)" and "tcb u = tcb s"
    and "ticks u = Suc (ticks s + length ys)" and "dom (heap u) = dom (heap s)"
    and "world u = fold (run_task eff (tcb s)) (fired clk s ys) (world s)"
    and "cm_task_poll clk cb s = do {
      v \<leftarrow> cb (run (the (tcb s x))) (args (the (tcb s x))) u;
      n \<leftarrow> get_next (after g_task_list zs) (heap v);
      v \<leftarrow> each_safe_loop (poll_body clk cb) heap g_task_list (after g_task_list zs) n v;
      Some (0, list_mutex_unlock v) }"
proof -
  let ?B = "poll_body clk cb"
  define l where "l = s\<lparr>locked := True\<rparr>"
  have "lring (heap l) g_task_list ([] @ ys @ x # zs)" "task_objs l ys" "fired clk l ys = fired clk s ys" "survivors clk l ys = survivors clk s ys"
    using p by (simp_all add: pending_def task_objs_def l_def fired_def survivors_def)
  moreover have "quiet_on (funs_of l (fired clk l ys)) cb eff" using q by (simp add: funs_of_def fired_def l_def)
  ultimately obtain v where v: "each_safe_loop ?B heap g_task_list (after g_task_list (ys @ x # zs)) (nx_of (heap l) (after g_task_list (ys @ x # zs))) l =
        each_safe_loop ?B heap g_task_list x (nx_of (heap v) x) v"
      "lring (heap v) g_task_list (survivors clk s ys @ x # zs)" "tcb v = tcb s" "locked v" "ticks v = ticks s + length ys" "dom (heap v) = dom (heap s)"
      "world v = fold (run_task eff (tcb s)) (fired clk s ys) (world s)"
    using poll_prefix [of l "[]" ys "x # zs" clk cb eff] by (auto simp: l_def)
  obtain t where t: "x \<noteq> NULL" "tcb s x = Some t" "run t \<noteq> NULL"
    using p by (auto simp: pending_def task_objs_def)
  obtain h where h: "cm_list_del_item x (heap v) = Some h" "dom h = dom (heap v)" "lring h g_task_list (survivors clk s ys @ zs)"
    by (rule cm_list_del_item_ring [OF v(2)]) blast
  define u where "u = v\<lparr>ticks := Suc (ticks v), heap := h\<rparr>"
  have "?B x v = cb (run (the (tcb s x))) (args (the (tcb s x))) u"
    using t d h(1) v(3,5) by (simp add: poll_body_def due_def on_heap_def u_def)
  moreover have "x \<noteq> g_task_list" using lring_distinct [OF v(2)] by auto
  moreover have "nx_of (heap v) x = after g_task_list zs" using v(2) by (auto simp: lring_def ring_simps)
  ultimately have "cm_task_poll clk cb s = do {
      v \<leftarrow> cb (run (the (tcb s x))) (args (the (tcb s x))) u;
      n \<leftarrow> get_next (after g_task_list zs) (heap v);
      v \<leftarrow> each_safe_loop ?B heap g_task_list (after g_task_list zs) n v;
      Some (0, list_mutex_unlock v) }"
    using v(1) by (simp add: poll_starts [OF p] l_def) (simp add: each_safe_loop.simps [of _ _ _ x])
  then show ?thesis using that [of u] h v by (simp add: u_def)
qed

lemma free_object:
  assumes "lring (heap u) g_task_list xs" and "task_objs u xs" and "t \<noteq> NULL" and "g \<noteq> NULL"
    and "t \<in> dom (heap u) \<inter> dom (tcb u) - insert g_task_list (set xs)"
  shows "\<exists>v. cm_task_start clk t i g b (u\<lparr>locked := False\<rparr>) = Some (0, v)"
proof -
  have "pending (u\<lparr>locked := False\<rparr>) xs" using assms(1,2) by (simp add: pending_def task_objs_def)
  then show ?thesis by (rule start_pending [of _ _ t g clk i b]) (use assms in auto)
qed

lemma listed_object:
  assumes "lring (heap u) g_task_list xs" and "task_objs u xs" and "t \<in> set xs"
  shows "\<exists>v. cm_task_cancel t (u\<lparr>locked := False\<rparr>) = Some (0, v)"
proof -
  obtain as bs where "xs = as @ t # bs" using assms(3) by (auto dest: split_list)
  then have "pending (u\<lparr>locked := False\<rparr>) (as @ t # bs)" using assms(1,2) by (simp add: pending_def task_objs_def)
  then show ?thesis by (rule cancel_pending) auto
qed

text \<open>C22: \<open>cm_task_poll\<close> runs the callbacks with the list mutex held, and the mutex is not
  recursive. Let \<open>x\<close> be pending and due at its turn, the functions of the due tasks before it quiet, and let
  its function, after it has worked on its own data (\<open>work\<close>), call \<open>cm_task_start\<close> for a task object that is
  not in the list (its own, as in the file's own test program, or another), or \<open>cm_task_cancel\<close> for a task
  that is, and then do anything (\<open>rest\<close>). Then the poll comes to that call in a state \<open>u\<close> in which the list is
  well formed without \<open>x\<close> and the same call would return 0 if the mutex were free: only the mutex, which the
  poll holds, keeps it from returning, and the poll never returns. What the functions of the other tasks do
  does not matter.\<close>

theorem cm_task_restart_in_callback_deadlocks:
  assumes "pending s (ys @ x # zs)" and "due clk (tcb s) (ticks s + length ys, x)"
    and "quiet_on (funs_of s (fired clk s ys)) cb eff"
    and "\<And>v. cb (run (the (tcb s x))) (args (the (tcb s x))) v = do { (_, v) \<leftarrow> call (v\<lparr>world := work (world v)\<rparr>); rest v }"
    and "call = cm_task_start clk t i g b \<and> t \<noteq> NULL \<and> g \<noteq> NULL \<and>
        t \<in> dom (heap s) \<inter> dom (tcb s) - insert g_task_list (set (survivors clk s ys @ zs)) \<or>
      call = cm_task_cancel t \<and> t \<in> set (survivors clk s ys @ zs)"
  shows "cm_task_poll clk cb s = None \<and>
    (\<exists>u. locked u \<and> lring (heap u) g_task_list (survivors clk s ys @ zs) \<and>
      world u = work (fold (run_task eff (tcb s)) (fired clk s ys) (world s)) \<and>
      cm_task_poll clk cb s = do {
        (_, v) \<leftarrow> call u;
        v \<leftarrow> rest v;
        n \<leftarrow> get_next (after g_task_list zs) (heap v);
        v \<leftarrow> each_safe_loop (poll_body clk cb) heap g_task_list (after g_task_list zs) n v;
        Some (0, list_mutex_unlock v) } \<and>
      call u = None \<and> (\<exists>v. call (u\<lparr>locked := False\<rparr>) = Some (0, v)))"
proof -
  obtain w where w: "locked w" "lring (heap w) g_task_list (survivors clk s ys @ zs)" "tcb w = tcb s"
      "dom (heap w) = dom (heap s)" "world w = fold (run_task eff (tcb s)) (fired clk s ys) (world s)"
      "cm_task_poll clk cb s = do {
        v \<leftarrow> cb (run (the (tcb s x))) (args (the (tcb s x))) w;
        n \<leftarrow> get_next (after g_task_list zs) (heap v);
        v \<leftarrow> each_safe_loop (poll_body clk cb) heap g_task_list (after g_task_list zs) n v;
        Some (0, list_mutex_unlock v) }"
    by (rule poll_calls_due [OF assms(1-3)])
  define u where "u = w\<lparr>world := work (world w)\<rparr>"
  have l: "lring (heap u) g_task_list (survivors clk s ys @ zs)" using w(2) by (simp add: u_def)
  have o: "task_objs u (survivors clk s ys @ zs)"
    using assms(1) w(3) set_survivors [of clk s ys] by (auto simp: pending_def task_objs_def u_def)
  have t: "t \<noteq> NULL" using assms(5) o by (auto simp: task_objs_def)
  have stuck: "call u = None" using locked_stuck [of u] w(1) assms(5) t by (auto simp: u_def)
  have free: "\<exists>v. call (u\<lparr>locked := False\<rparr>) = Some (0, v)"
    using assms(5) free_object [OF l o t, of g clk i b] listed_object [OF l o, of t] w(3,4) by (auto simp: u_def)
  have poll: "cm_task_poll clk cb s = do {
      (_, v) \<leftarrow> call u;
      v \<leftarrow> rest v;
      n \<leftarrow> get_next (after g_task_list zs) (heap v);
      v \<leftarrow> each_safe_loop (poll_body clk cb) heap g_task_list (after g_task_list zs) n v;
      Some (0, list_mutex_unlock v) }"
    using w(6) by (simp add: assms(4) u_def case_prod_unfold)
  then have "cm_task_poll clk cb s = None" by (simp add: stuck)
  moreover have "locked u" "world u = work (fold (run_task eff (tcb s)) (fired clk s ys) (world s))"
    using w(1,5) by (simp_all add: u_def)
  ultimately show ?thesis using l stuck free poll by blast
qed

text \<open>Three live records (the list head and two task objects) and a log of the functions run.\<close>

definition demo_tasks :: "addr list tasks" where
  "demo_tasks = \<lparr>heap = map_of [(1, \<lparr>lnext = 0, lprev = 0\<rparr>), (2, \<lparr>lnext = 0, lprev = 0\<rparr>), (3, \<lparr>lnext = 0, lprev = 0\<rparr>)],
     tcb = map_of [(2, \<lparr>run = 0, args = 0, inter = 0\<rparr>), (3, \<lparr>run = 0, args = 0, inter = 0\<rparr>)],
     locked = False, ticks = 0, world = []\<rparr>"

definition log_call :: "addr list callbacks" where
  "log_call f a s = Some (s\<lparr>world := world s @ [f]\<rparr>)"

text \<open>\<open>cm_task_cancel\<close> does not know whether its task is still pending, and unlinking leaves the
  old pointers in it: cancelling a task a second time, after its former neighbour has run and left
  the list, links that neighbour back in, and the next poll runs it again.\<close>

theorem cm_task_stale_cancel_reruns:
  "do { (_, s) \<leftarrow> cm_task_init demo_tasks;
        (_, s) \<leftarrow> cm_task_start (\<lambda>_. now) 2 0 10 0 s;
        (_, s) \<leftarrow> cm_task_start (\<lambda>_. now) 3 0 20 0 s;
        (_, s) \<leftarrow> cm_task_cancel 3 s;
        (_, s) \<leftarrow> cm_task_poll (\<lambda>_. now) log_call s;
        (_, s) \<leftarrow> cm_task_cancel 3 s;
        (_, s) \<leftarrow> cm_task_poll (\<lambda>_. now) log_call s;
        Some (world s) } = Some [10, 10]"
  by (simp add: demo_tasks_def log_call_def cm_task_init_def cm_task_start_def cm_task_cancel_def cm_task_poll_def
      list_mutex_lock_def list_mutex_unlock_def on_heap_def g_task_list_def cm_init_list_head_def
      cm_list_add_front_def cm_list_add_def cm_list_del_item_def cm_list_del_def get_next_def get_prev_def
      set_next_def set_prev_def cm_list_each_safe_def each_safe_loop.simps poll_body_def)

section \<open>Instances\<close>

text \<open>One pending task (object 2) and one object that is not started (3).\<close>

definition demo_pending :: "addr list tasks" where
  "demo_pending = \<lparr>heap = demo_heap, tcb = map_of [(2, \<lparr>run = 10, args = 0, inter = 5\<rparr>), (3, \<lparr>run = 0, args = 0, inter = 0\<rparr>)],
     locked = False, ticks = 0, world = []\<rparr>"

lemma demo_pending: "pending demo_pending [2]"
  using demo_heap_ring by (simp add: pending_def demo_pending_def task_objs_def g_task_list_def)

lemma log_call_quiet: "quiet log_call (\<lambda>f a w. w @ [f])"
  by (simp add: quiet_on_def log_call_def)

theorem sched_invariant_witness:
  "\<exists>s xs. sched (\<lambda>_. 0) log_call {2, 3} s xs \<and> xs = [2] \<and>
     (\<exists>s'. cm_task_poll (\<lambda>_. 0) log_call s = Some (0, s') \<and> pending s' (survivors (\<lambda>_. 0) s [2]))"
proof -
  obtain s0 where s0: "cm_task_init demo_tasks = Some (0, s0)"
    by (simp add: cm_task_init_def on_heap_def demo_tasks_def g_task_list_def cm_init_list_head_def set_next_def set_prev_def)
  have i: "sched (\<lambda>_. 0) log_call {2, 3} s0 []"
    by (rule sched.init [OF s0]) (auto simp: demo_tasks_def g_task_list_def)
  obtain s1 where s1: "cm_task_start (\<lambda>_. 0) 2 7 10 0 s0 = Some (0, s1)"
    using sched_invariant [OF i log_call_quiet, THEN conjunct2, THEN conjunct1, rule_format, of 2 10 7 0] by auto
  have "sched (\<lambda>_. 0) log_call {2, 3} s1 [2]" by (rule sched.start [OF i _ _ s1]) simp_all
  with sched_invariant [OF this log_call_quiet, THEN conjunct2, THEN conjunct2, THEN conjunct2, THEN conjunct1]
  show ?thesis by blast
qed

theorem cm_task_poll_runs_due_witness:
  "\<exists>s'. cm_task_poll (\<lambda>_. 9) log_call demo_pending = Some (0, s') \<and> world s' = [10]"
  using cm_task_poll_runs_due [OF demo_pending, of "\<lambda>_. 9" log_call "\<lambda>f a w. w @ [f]"] log_call_quiet
  by (auto simp: fired_def due_def run_task_def demo_pending_def quiet_on_def)

theorem cm_task_eventually_runs_witness:
  "\<exists>s1 s2 s3. waits (\<lambda>k. if k < 4 then 0 else 50) log_call {2, 3} 2 40 s1 [2] s2 [2] \<and> ticks s2 = 4 \<and>
     2 \<in> set (fired (\<lambda>k. if k < 4 then 0 else 50) s2 [2]) \<and>
     cm_task_poll (\<lambda>k. if k < 4 then 0 else 50) log_call s2 = Some (0, s3) \<and> world s3 = [20, 10]"
proof -
  define clk :: clock where "clk = (\<lambda>k. if k < 4 then 0 else 50)"
  obtain s0 where s0: "cm_task_init demo_tasks = Some (0, s0)"
    by (simp add: cm_task_init_def on_heap_def demo_tasks_def g_task_list_def cm_init_list_head_def set_next_def set_prev_def)
  have t0: "ticks s0 = 0" "world s0 = []" using s0 by (auto simp: cm_task_init_def on_heap_def demo_tasks_def split: Option.bind_splits)
  have i: "sched clk log_call {2, 3} s0 []"
    by (rule sched.init [OF s0]) (auto simp: demo_tasks_def g_task_list_def)
  have c0: "pending s0 []" "{2, 3} \<subseteq> dom (heap s0)" "{2, 3} \<subseteq> dom (tcb s0)"
    using sched_client_inv [OF i log_call_quiet] by (simp_all add: client_inv_def)
  obtain s1 where s1: "cm_task_start clk 2 40 10 0 s0 = Some (0, s1)" "ticks s1 = 1" "world s1 = []"
    by (rule start_pending [OF c0(1), of 2 10 clk 40 0]) (use c0 t0 in \<open>auto simp: g_task_list_def\<close>)
  have i1: "sched clk log_call {2, 3} s1 [2]" by (rule sched.start [OF i _ _ s1(1)]) simp_all
  have c1: "pending s1 [2]" "{2, 3} \<subseteq> dom (heap s1)" "{2, 3} \<subseteq> dom (tcb s1)"
    using sched_client_inv [OF i1 log_call_quiet] by (simp_all add: client_inv_def)
  have b1: "tcb s1 2 = Some \<lparr>run = 10, args = 0, inter = 40\<rparr>" using start_tcb [OF s1(1)] t0(1) by (simp add: clk_def)
  obtain s2 where s2: "cm_task_start clk 3 0 20 0 s1 = Some (0, s2)" "ticks s2 = 2" "world s2 = []"
    by (rule start_pending [OF c1(1), of 3 20 clk 0 0]) (use c1 s1 in \<open>auto simp: g_task_list_def\<close>)
  have i2: "sched clk log_call {2, 3} s2 [3, 2]" by (rule sched.start [OF i1 _ _ s2(1)]) simp_all
  have c2: "pending s2 [3, 2]" using sched_client_inv [OF i2 log_call_quiet] by (simp add: client_inv_def)
  have b2: "tcb s2 2 = Some \<lparr>run = 10, args = 0, inter = 40\<rparr>" "tcb s2 3 = Some \<lparr>run = 20, args = 0, inter = 0\<rparr>"
    using start_tcb [OF s2(1)] s1(2) b1 by (simp_all add: clk_def)
  have f2: "fired clk s2 [3, 2] = [3]" "survivors clk s2 [3, 2] = [2]"
    using b2 s2(2) by (simp_all add: fired_def survivors_def due_def clk_def)
  obtain s3 where s3: "cm_task_poll clk log_call s2 = Some (0, s3)" "tcb s3 = tcb s2" "ticks s3 = 4" "world s3 = [20]"
    by (rule poll_pending [OF c2, of clk log_call "\<lambda>f a w. w @ [f]"])
      (use log_call_quiet f2 b2 s2 in \<open>auto simp: quiet_on_def run_task_def\<close>)
  have w2: "waits clk log_call {2, 3} 2 40 s1 [2] s2 [3, 2]" by (rule waits.start [OF waits.now _ _ s2(1)]) simp_all
  have w: "waits clk log_call {2, 3} 2 40 s1 [2] s3 [2]"
    using waits.poll [OF w2 _ s3(1)] f2(2) s2(2) by (simp add: clk_def)
  have "40 = unat (40 :: u64) + unat (clk (ticks s0))" by (simp add: t0 clk_def)
  from cm_task_eventually_runs [OF i log_call_quiet _ s1(1) this _ w] obtain s4 where
    "2 \<in> set (fired clk s3 [2])" "cm_task_poll clk log_call s3 = Some (0, s4)"
    "world s4 = fold (run_task (\<lambda>f a w. w @ [f]) (tcb s3)) (fired clk s3 [2]) (world s3)"
    using s3(3) by (auto simp: clk_def)
  then show ?thesis using w s3 b2 unfolding clk_def [symmetric]
    by (intro exI [of _ s1] exI [of _ s3] exI [of _ s4]) (auto simp: fired_def run_task_def split: if_splits)
qed

theorem cm_task_delay_wraps_witness:
  "\<exists>s1. cm_task_start (\<lambda>_. 1) 3 (- 1) 20 0 demo_pending = Some (0, s1) \<and> due (\<lambda>_. 1) (tcb s1) (ticks s1, 3)"
proof -
  obtain s1 where s1: "cm_task_start (\<lambda>_. 1) 3 (- 1) 20 0 demo_pending = Some (0, s1)"
    by (rule start_pending [OF demo_pending, of 3 20 "\<lambda>_. 1" "- 1" 0])
      (simp_all add: demo_pending_def demo_heap_def g_task_list_def)
  have "2 ^ 64 \<le> unat (- 1 :: u64) + unat ((\<lambda>_. 1 :: u64) (ticks demo_pending))"
    by (simp add: unsigned_minus_1_eq_mask mask_eq_exp_minus_1)
  then have "due (\<lambda>_. 1) (tcb s1) (ticks s1, 3)" by (rule cm_task_delay_wraps [OF s1]) simp
  with s1 show ?thesis by blast
qed

text \<open>The task of object 2 starts itself again when it runs; every other function is logged.\<close>

definition restarts_itself :: "addr list callbacks" where
  "restarts_itself f a s = (if f = 10
     then do { (_, s) \<leftarrow> cm_task_start (\<lambda>_. 9) 2 5000 10 0 (s\<lparr>world := world s @ [f]\<rparr>); Some s }
     else log_call f a s)"

theorem cm_task_restart_in_callback_deadlocks_witness:
  "cm_task_poll (\<lambda>_. 9) restarts_itself demo_pending = None \<and>
   (\<exists>u :: addr list tasks. world u = [10] \<and> cm_task_start (\<lambda>_. 9) 2 5000 10 0 u = None \<and>
     (\<exists>v. cm_task_start (\<lambda>_. 9) 2 5000 10 0 (u\<lparr>locked := False\<rparr>) = Some (0, v)))"
proof -
  have p: "pending demo_pending ([] @ 2 # [])" using demo_pending by simp
  have "due (\<lambda>_. 9) (tcb demo_pending) (ticks demo_pending + length [], 2)" by (simp add: due_def demo_pending_def)
  moreover have "quiet_on (funs_of demo_pending (fired (\<lambda>_. 9) demo_pending [])) restarts_itself (\<lambda>f a w. w)"
    by (simp add: quiet_on_def funs_of_def fired_def)
  moreover have "restarts_itself (run (the (tcb demo_pending 2))) (args (the (tcb demo_pending 2))) v =
      do { (_, v) \<leftarrow> cm_task_start (\<lambda>_. 9) 2 5000 10 0 (v\<lparr>world := (\<lambda>w. w @ [10]) (world v)\<rparr>); Some v }" for v
    by (simp add: restarts_itself_def demo_pending_def)
  moreover have "2 \<in> dom (heap demo_pending) \<inter> dom (tcb demo_pending) - insert g_task_list (set (survivors (\<lambda>_. 9) demo_pending [] @ []))"
    by (simp add: demo_pending_def demo_heap_def survivors_def g_task_list_def)
  ultimately show ?thesis
    using cm_task_restart_in_callback_deadlocks [OF p, of "\<lambda>_. 9" restarts_itself "\<lambda>f a w. w"
        "cm_task_start (\<lambda>_. 9) 2 5000 10 0" "\<lambda>w. w @ [10]" Some 2 5000 10 0]
    by (auto simp: fired_def demo_pending_def)
qed

end
