(* ===== verification/ReList.thy ===== *)
theory ReList
  imports Chain "HOL-Library.Multiset"
begin

text \<open>
  The linked list of src/common/re_list.c: elements \<open>struct le\<close> that know their neighbours,
  their list and a data pointer, and list objects with a head and a tail pointer. The memory maps
  the addresses of elements and of list objects to records; NULL is 0, and following any other
  address without a record is \<open>None\<close>. The NULL at both ends plays the sentinel of a ring, so that
  the lemmas of Chain apply.
\<close>

record le =
  le_prev :: addr
  le_next :: addr
  le_list :: addr
  le_data :: addr

record re_list =
  lh_head :: addr
  lh_tail :: addr

record re_mem =
  les :: "addr \<rightharpoonup> le"
  lists :: "addr \<rightharpoonup> re_list"

definition upd_le :: "addr \<Rightarrow> (le \<Rightarrow> le) \<Rightarrow> re_mem \<Rightarrow> re_mem option" where
  "upd_le a f m = (case les m a of None \<Rightarrow> None | Some e \<Rightarrow> Some (m\<lparr>les := (les m)(a \<mapsto> f e)\<rparr>))"

definition upd_list :: "addr \<Rightarrow> (re_list \<Rightarrow> re_list) \<Rightarrow> re_mem \<Rightarrow> re_mem option" where
  "upd_list a f m = (case lists m a of None \<Rightarrow> None | Some l \<Rightarrow> Some (m\<lparr>lists := (lists m)(a \<mapsto> f l)\<rparr>))"

definition list_init :: "addr \<Rightarrow> re_mem \<Rightarrow> re_mem option" where
  "list_init l m =
     (if l = NULL then Some m else upd_list l (\<lambda>r. r\<lparr>lh_head := NULL, lh_tail := NULL\<rparr>) m)"

partial_function (option) flush_loop :: "addr \<Rightarrow> re_mem \<Rightarrow> re_mem option" where
  "flush_loop le m =
     (if le = NULL then Some m
      else do {
        e \<leftarrow> les m le;
        m \<leftarrow> upd_le le (\<lambda>e. e\<lparr>le_list := NULL, le_prev := NULL, le_next := NULL, le_data := NULL\<rparr>) m;
        flush_loop (le_next e) m
      })"

definition list_flush :: "addr \<Rightarrow> re_mem \<Rightarrow> re_mem option" where
  "list_flush l m =
     (if l = NULL then Some m
      else do { r \<leftarrow> lists m l; m \<leftarrow> flush_loop (lh_head r) m; list_init l m })"

text \<open>\<open>list_clear\<close> has the same statements as \<open>list_flush\<close> once the latter's unused local is
  left out.\<close>

definition list_clear :: "addr \<Rightarrow> re_mem \<Rightarrow> re_mem option" where
  "list_clear l m =
     (if l = NULL then Some m
      else do { r \<leftarrow> lists m l; m \<leftarrow> flush_loop (lh_head r) m; list_init l m })"

definition list_append :: "addr \<Rightarrow> addr \<Rightarrow> addr \<Rightarrow> re_mem \<Rightarrow> re_mem option" where
  "list_append l le data m =
     (if l = NULL \<or> le = NULL then Some m
      else do {
        e \<leftarrow> les m le;
        if le_list e \<noteq> NULL then Some m
        else do {
          r \<leftarrow> lists m l;
          m \<leftarrow> upd_le le (\<lambda>e. e\<lparr>le_prev := lh_tail r, le_next := NULL, le_list := l, le_data := data\<rparr>) m;
          m \<leftarrow> (if lh_head r = NULL then upd_list l (\<lambda>r. r\<lparr>lh_head := le\<rparr>) m else Some m);
          m \<leftarrow> (if lh_tail r \<noteq> NULL then upd_le (lh_tail r) (\<lambda>e. e\<lparr>le_next := le\<rparr>) m else Some m);
          upd_list l (\<lambda>r. r\<lparr>lh_tail := le\<rparr>) m
        }
      })"

definition list_prepend :: "addr \<Rightarrow> addr \<Rightarrow> addr \<Rightarrow> re_mem \<Rightarrow> re_mem option" where
  "list_prepend l le data m =
     (if l = NULL \<or> le = NULL then Some m
      else do {
        e \<leftarrow> les m le;
        if le_list e \<noteq> NULL then Some m
        else do {
          r \<leftarrow> lists m l;
          m \<leftarrow> upd_le le (\<lambda>e. e\<lparr>le_prev := NULL, le_next := lh_head r, le_list := l, le_data := data\<rparr>) m;
          m \<leftarrow> (if lh_head r \<noteq> NULL then upd_le (lh_head r) (\<lambda>e. e\<lparr>le_prev := le\<rparr>) m else Some m);
          m \<leftarrow> (if lh_tail r = NULL then upd_list l (\<lambda>r. r\<lparr>lh_tail := le\<rparr>) m else Some m);
          upd_list l (\<lambda>r. r\<lparr>lh_head := le\<rparr>) m
        }
      })"

definition list_insert_before :: "addr \<Rightarrow> addr \<Rightarrow> addr \<Rightarrow> addr \<Rightarrow> re_mem \<Rightarrow> re_mem option" where
  "list_insert_before l le ile data m =
     (if l = NULL \<or> le = NULL \<or> ile = NULL then Some m
      else do {
        ie \<leftarrow> les m ile;
        if le_list ie \<noteq> NULL then Some m
        else do {
          e \<leftarrow> les m le;
          m \<leftarrow> (if le_prev e \<noteq> NULL then upd_le (le_prev e) (\<lambda>e. e\<lparr>le_next := ile\<rparr>) m
                else do {
                  r \<leftarrow> lists m l;
                  if lh_head r = le then upd_list l (\<lambda>r. r\<lparr>lh_head := ile\<rparr>) m else Some m
                });
          e \<leftarrow> les m le;
          m \<leftarrow> upd_le ile (\<lambda>ie. ie\<lparr>le_prev := le_prev e, le_next := le, le_list := l, le_data := data\<rparr>) m;
          upd_le le (\<lambda>e. e\<lparr>le_prev := ile\<rparr>) m
        }
      })"

definition list_insert_after :: "addr \<Rightarrow> addr \<Rightarrow> addr \<Rightarrow> addr \<Rightarrow> re_mem \<Rightarrow> re_mem option" where
  "list_insert_after l le ile data m =
     (if l = NULL \<or> le = NULL \<or> ile = NULL then Some m
      else do {
        ie \<leftarrow> les m ile;
        if le_list ie \<noteq> NULL then Some m
        else do {
          e \<leftarrow> les m le;
          m \<leftarrow> (if le_next e \<noteq> NULL then upd_le (le_next e) (\<lambda>e. e\<lparr>le_prev := ile\<rparr>) m
                else do {
                  r \<leftarrow> lists m l;
                  if lh_tail r = le then upd_list l (\<lambda>r. r\<lparr>lh_tail := ile\<rparr>) m else Some m
                });
          e \<leftarrow> les m le;
          m \<leftarrow> upd_le ile (\<lambda>ie. ie\<lparr>le_prev := le, le_next := le_next e, le_list := l, le_data := data\<rparr>) m;
          upd_le le (\<lambda>e. e\<lparr>le_next := ile\<rparr>) m
        }
      })"

definition list_unlink :: "addr \<Rightarrow> re_mem \<Rightarrow> re_mem option" where
  "list_unlink le m =
     (if le = NULL then Some m
      else do {
        e \<leftarrow> les m le;
        if le_list e = NULL then Some m
        else do {
          let l = le_list e;
          m \<leftarrow> (if le_prev e \<noteq> NULL then upd_le (le_prev e) (\<lambda>p. p\<lparr>le_next := le_next e\<rparr>) m
                else upd_list l (\<lambda>r. r\<lparr>lh_head := le_next e\<rparr>) m);
          e \<leftarrow> les m le;
          m \<leftarrow> (if le_next e \<noteq> NULL then upd_le (le_next e) (\<lambda>n. n\<lparr>le_prev := le_prev e\<rparr>) m
                else upd_list l (\<lambda>r. r\<lparr>lh_tail := le_prev e\<rparr>) m);
          upd_le le (\<lambda>e. e\<lparr>le_next := NULL, le_prev := NULL, le_list := NULL\<rparr>) m
        }
      })"

text \<open>One pass of \<open>list_sort\<close> from element \<open>le\<close> on, with the flag \<open>sort\<close>; the handler \<open>sh\<close> with
  its argument is a predicate on two elements. The \<open>goto retry\<close> starts a pass at the head again.\<close>

partial_function (option) sort_pass ::
  "(addr \<Rightarrow> addr \<Rightarrow> bool) \<Rightarrow> addr \<Rightarrow> addr \<Rightarrow> bool \<Rightarrow> re_mem \<Rightarrow> (bool \<times> re_mem) option" where
  "sort_pass sh l le srt m =
     (if le = NULL then Some (srt, m)
      else do {
        e \<leftarrow> les m le;
        if le_next e = NULL then Some (srt, m)
        else if sh le (le_next e) then sort_pass sh l (le_next e) srt m
        else do {
          let tle = le_next e;
          m \<leftarrow> list_unlink le m;
          e \<leftarrow> les m le;
          m \<leftarrow> list_insert_after l tle le (le_data e) m;
          sort_pass sh l le True m
        }
      })"

partial_function (option) sort_retry :: "(addr \<Rightarrow> addr \<Rightarrow> bool) \<Rightarrow> addr \<Rightarrow> re_mem \<Rightarrow> re_mem option" where
  "sort_retry sh l m = do {
     r \<leftarrow> lists m l;
     (srt, m) \<leftarrow> sort_pass sh l (lh_head r) False m;
     if srt then sort_retry sh l m else Some m
   }"

definition list_sort :: "addr \<Rightarrow> (addr \<Rightarrow> addr \<Rightarrow> bool) option \<Rightarrow> re_mem \<Rightarrow> re_mem option" where
  "list_sort l sh m = (case sh of None \<Rightarrow> Some m | Some sh \<Rightarrow>
     if l = NULL then Some m else sort_retry sh l m)"

text \<open>\<open>list_apply\<close>: the handler gets an element and the memory (it may change it, for instance by
  unlinking the element) and answers whether to stop; the next element is read before the call.\<close>

partial_function (option) apply_loop ::
  "(addr \<Rightarrow> re_mem \<Rightarrow> (bool \<times> re_mem) option) \<Rightarrow> bool \<Rightarrow> addr \<Rightarrow> re_mem \<Rightarrow> (addr \<times> re_mem) option" where
  "apply_loop ah fwd le m =
     (if le = NULL then Some (NULL, m)
      else do {
        e \<leftarrow> les m le;
        let next = (if fwd then le_next e else le_prev e);
        (stop, m) \<leftarrow> ah le m;
        if stop then Some (le, m) else apply_loop ah fwd next m
      })"

definition list_apply ::
  "addr \<Rightarrow> bool \<Rightarrow> (addr \<Rightarrow> re_mem \<Rightarrow> (bool \<times> re_mem) option) option \<Rightarrow> re_mem \<Rightarrow> (addr \<times> re_mem) option" where
  "list_apply l fwd ah m = (case ah of None \<Rightarrow> Some (NULL, m) | Some ah \<Rightarrow>
     if l = NULL then Some (NULL, m)
     else do {
       r \<leftarrow> lists m l;
       apply_loop ah fwd (if fwd then lh_head r else lh_tail r) m
     })"

definition list_head :: "addr \<Rightarrow> re_mem \<Rightarrow> addr option" where
  "list_head l m = (if l = NULL then Some NULL else map_option lh_head (lists m l))"

definition list_tail :: "addr \<Rightarrow> re_mem \<Rightarrow> addr option" where
  "list_tail l m = (if l = NULL then Some NULL else map_option lh_tail (lists m l))"

partial_function (option) count_loop :: "addr \<Rightarrow> u32 \<Rightarrow> re_mem \<Rightarrow> u32 option" where
  "count_loop le n m =
     (if le = NULL then Some n
      else do { e \<leftarrow> les m le; count_loop (le_next e) (n + 1) m })"

definition list_count :: "addr \<Rightarrow> re_mem \<Rightarrow> u32 option" where
  "list_count l m = (if l = NULL then Some 0 else do { r \<leftarrow> lists m l; count_loop (lh_head r) 0 m })"

definition list_ledata :: "addr \<Rightarrow> re_mem \<Rightarrow> addr option" where
  "list_ledata le m = (if le = NULL then Some NULL else map_option le_data (les m le))"

definition list_contains :: "addr \<Rightarrow> addr \<Rightarrow> re_mem \<Rightarrow> bool option" where
  "list_contains l le m = (if le = NULL then Some False else map_option (\<lambda>e. le_list e = l) (les m le))"

definition list_isempty :: "addr \<Rightarrow> re_mem \<Rightarrow> bool option" where
  "list_isempty l m = (if l = NULL then Some True else map_option (\<lambda>r. lh_head r = NULL) (lists m l))"

section \<open>The list in the memory\<close>

definition re_nx :: "re_mem \<Rightarrow> addr \<Rightarrow> addr \<Rightarrow> addr" where
  "re_nx m l a = (if a = NULL then (case lists m l of None \<Rightarrow> NULL | Some r \<Rightarrow> lh_head r)
                  else (case les m a of None \<Rightarrow> NULL | Some e \<Rightarrow> le_next e))"

definition re_pv :: "re_mem \<Rightarrow> addr \<Rightarrow> addr \<Rightarrow> addr" where
  "re_pv m l a = (if a = NULL then (case lists m l of None \<Rightarrow> NULL | Some r \<Rightarrow> lh_tail r)
                  else (case les m a of None \<Rightarrow> NULL | Some e \<Rightarrow> le_prev e))"

definition owned :: "re_mem \<Rightarrow> addr \<Rightarrow> addr \<Rightarrow> bool" where
  "owned m l x = (\<exists>e. les m x = Some e \<and> le_list e = l)"

definition rlist :: "re_mem \<Rightarrow> addr \<Rightarrow> addr list \<Rightarrow> bool" where
  "rlist m l xs = (l \<noteq> NULL \<and> l \<in> dom (lists m) \<and> (\<forall>x \<in> set xs. owned m l x) \<and>
     ring (re_nx m l) (re_pv m l) NULL xs)"

text \<open>An element that is in no list.\<close>

definition free_le :: "re_mem \<Rightarrow> addr \<Rightarrow> bool" where
  "free_le m x = (x \<noteq> NULL \<and> owned m NULL x)"

lemma rlist_distinct: "rlist m l xs \<Longrightarrow> distinct (NULL # xs)"
  unfolding rlist_def by (blast dest: ring_distinct)

lemma before_NULL [simp]: "NULL \<notin> set xs \<Longrightarrow> before NULL xs = NULL \<longleftrightarrow> xs = []"
  unfolding before_def by (metis last_in_set)

lemma after_NULL [simp]: "NULL \<notin> set xs \<Longrightarrow> after NULL xs = NULL \<longleftrightarrow> xs = []"
  by (cases xs) auto

lemma rlist_ends:
  assumes "rlist m l xs"
  shows "lists m l = Some \<lparr>lh_head = after NULL xs, lh_tail = before NULL xs\<rparr>"
proof -
  obtain r where r: "lists m l = Some r" using assms by (auto simp: rlist_def)
  have "re_nx m l NULL = after NULL xs" "re_pv m l NULL = before NULL xs"
    using assms by (auto simp: rlist_def ring_simps)
  with r show ?thesis by (simp add: re_nx_def re_pv_def)
qed

lemma rlist_elem:
  assumes "rlist m l (xs @ x # ys)"
  obtains d where "les m x = Some \<lparr>le_prev = before NULL xs, le_next = after NULL ys, le_list = l, le_data = d\<rparr>"
proof -
  obtain e where e: "les m x = Some e" "le_list e = l" using assms by (auto simp: rlist_def owned_def)
  have "x \<noteq> NULL" using rlist_distinct [OF assms] by auto
  moreover have "re_nx m l x = after NULL ys" "re_pv m l x = before NULL xs"
    using assms by (auto simp: rlist_def ring_simps)
  ultimately show ?thesis using that [of "le_data e"] e by (simp add: re_nx_def re_pv_def)
qed

text \<open>Recognising a memory in which an element was linked in, or taken out.\<close>

lemma rlist_linkI:
  assumes r: "rlist m l (xs @ ys)" and x: "x \<noteq> NULL" "x \<notin> set (xs @ ys)"
    and lists: "lists m' l = Some \<lparr>lh_head = after NULL (xs @ x # ys), lh_tail = before NULL (xs @ x # ys)\<rparr>"
    and old: "\<And>a. a \<in> set (xs @ ys) \<Longrightarrow> les m' a = Some ((the (les m a))
               \<lparr>le_next := (if a = before NULL xs then x else le_next (the (les m a))),
                le_prev := (if a = after NULL ys then x else le_prev (the (les m a)))\<rparr>)"
    and new: "les m' x = Some \<lparr>le_prev = before NULL xs, le_next = after NULL ys, le_list = l, le_data = d\<rparr>"
  shows "rlist m' l (xs @ x # ys)"
proof -
  define E where "E = insert NULL (set (xs @ ys))"
  have m: "\<exists>e. les m a = Some e \<and> le_list e = l" if "a \<in> set (xs @ ys)" for a
    using r that by (auto simp: rlist_def owned_def)
  have n: "NULL \<notin> set xs" "NULL \<notin> set ys" using rlist_distinct [OF r] by auto
  note ends = rlist_ends [OF r]
  have l0: "l \<noteq> NULL" "ring (re_nx m l) (re_pv m l) NULL (xs @ ys)" using r by (auto simp: rlist_def)
  have NX: "re_nx m' l a = (if a = before NULL xs then x else re_nx m l a)" if "a \<in> E" for a
    using that m [of a] old [of a] lists ends n unfolding E_def re_nx_def by (cases xs) auto
  have PV: "re_pv m' l a = (if a = after NULL ys then x else re_pv m l a)" if "a \<in> E" for a
    using that m [of a] old [of a] lists ends n unfolding E_def re_pv_def by (cases ys rule: rev_cases) auto
  have bE: "before NULL xs \<in> E" "after NULL ys \<in> E" "x \<notin> E"
    using before_in [of NULL xs] after_in [of NULL ys] x by (auto simp: E_def)
  define nx where "nx a = (if a \<in> E then re_nx m l a else re_nx m' l a)" for a
  define pv where "pv a = (if a \<in> E then re_pv m l a else re_pv m' l a)" for a
  have X: "re_nx m' l x = after NULL ys" "re_pv m' l x = before NULL xs"
    using x new by (simp_all add: re_nx_def re_pv_def)
  have "ring nx pv NULL (xs @ ys)"
    by (rule ring_frame [OF l0(2)]) (auto simp: nx_def pv_def E_def)
  then have "ring (re_nx m' l) (re_pv m' l) NULL (xs @ x # ys)"
    by (rule ring_insert) (use x bE in \<open>auto simp: nx_def pv_def NX PV X split: if_splits\<close>)
  moreover have "owned m' l a" if "a \<in> set (xs @ x # ys)" for a
    using that old [of a] new m [of a] by (auto simp: owned_def)
  ultimately show ?thesis using l0 lists by (auto simp: rlist_def)
qed

lemma rlist_unlinkI:
  assumes r: "rlist m l (xs @ x # ys)"
    and lists: "lists m' l = Some \<lparr>lh_head = after NULL (xs @ ys), lh_tail = before NULL (xs @ ys)\<rparr>"
    and old: "\<And>a. a \<in> set (xs @ ys) \<Longrightarrow> les m' a = Some ((the (les m a))
               \<lparr>le_next := (if a = before NULL xs then after NULL ys else le_next (the (les m a))),
                le_prev := (if a = after NULL ys then before NULL xs else le_prev (the (les m a)))\<rparr>)"
  shows "rlist m' l (xs @ ys)"
proof -
  define E where "E = insert NULL (set (xs @ ys))"
  have m: "\<exists>e. les m a = Some e \<and> le_list e = l" if "a \<in> set (xs @ ys)" for a
    using r that by (auto simp: rlist_def owned_def)
  have n: "NULL \<notin> set xs" "NULL \<notin> set ys" "x \<notin> E" using rlist_distinct [OF r] by (auto simp: E_def)
  note ends = rlist_ends [OF r]
  have l0: "l \<noteq> NULL" "ring (re_nx m l) (re_pv m l) NULL (xs @ x # ys)" using r by (auto simp: rlist_def)
  have NX: "re_nx m' l a = (if a = before NULL xs then after NULL ys else re_nx m l a)" if "a \<in> E" for a
    using that m [of a] old [of a] lists ends n unfolding E_def re_nx_def by (cases xs) auto
  have PV: "re_pv m' l a = (if a = after NULL ys then before NULL xs else re_pv m l a)" if "a \<in> E" for a
    using that m [of a] old [of a] lists ends n unfolding E_def re_pv_def by (cases ys rule: rev_cases) auto
  have bE: "before NULL xs \<in> E" "after NULL ys \<in> E"
    using before_in [of NULL xs] after_in [of NULL ys] by (auto simp: E_def)
  define nx where "nx a = (if a \<in> insert x E then re_nx m l a else re_nx m' l a)" for a
  define pv where "pv a = (if a \<in> insert x E then re_pv m l a else re_pv m' l a)" for a
  have "ring nx pv NULL (xs @ x # ys)"
    by (rule ring_frame [OF l0(2)]) (auto simp: nx_def pv_def E_def)
  then have "ring (re_nx m' l) (re_pv m' l) NULL (xs @ ys)"
    by (rule ring_remove) (use n(3) bE in \<open>auto simp: nx_def pv_def NX PV split: if_splits\<close>)
  moreover have "owned m' l a" if "a \<in> set (xs @ ys)" for a
    using that old [of a] m [of a] by (auto simp: owned_def)
  ultimately show ?thesis using l0 lists by (auto simp: rlist_def)
qed

section \<open>The operations on the sequence of elements\<close>

lemma free_leE:
  assumes "free_le m x"
  obtains p n d where "x \<noteq> NULL" and "les m x = Some \<lparr>le_prev = p, le_next = n, le_list = NULL, le_data = d\<rparr>"
  using assms by (auto simp: free_le_def owned_def) (metis (full_types) le.surjective old.unit.exhaust)

lemma free_not_in: "rlist m l xs \<Longrightarrow> free_le m x \<Longrightarrow> x \<notin> set xs"
  by (auto simp: rlist_def free_le_def owned_def)

text \<open>An element between its neighbours: the one before it exists, or the list starts with it.\<close>

lemma rlist_memE:
  assumes "rlist m l xs" and "a \<in> set xs"
  obtains p n d where "les m a = Some \<lparr>le_prev = p, le_next = n, le_list = l, le_data = d\<rparr>" and "a \<noteq> NULL"
proof -
  from assms(2) obtain us vs where "xs = us @ a # vs" by (auto simp: in_set_conv_decomp)
  with assms(1) obtain d where "les m a = Some \<lparr>le_prev = before NULL us, le_next = after NULL vs, le_list = l, le_data = d\<rparr>"
    using rlist_elem by blast
  moreover have "a \<noteq> NULL" using assms(2) rlist_distinct [OF assms(1)] by (metis distinct.simps(2))
  ultimately show ?thesis by (rule that)
qed

text \<open>Nothing outside the list object, its elements and \<open>S\<close> changes.\<close>

definition outside_same :: "addr \<Rightarrow> addr set \<Rightarrow> re_mem \<Rightarrow> re_mem \<Rightarrow> bool" where
  "outside_same l S m m' = ((\<forall>c. c \<noteq> l \<longrightarrow> lists m' c = lists m c) \<and> (\<forall>c. c \<notin> S \<longrightarrow> les m' c = les m c))"

lemma list_append_rlist:
  assumes r: "rlist m l xs" and f: "free_le m x"
  obtains m' where "list_append l x d m = Some m'" and "rlist m' l (xs @ [x])"
    and "outside_same l (insert x (set xs)) m m'"
    and "les m' x = Some \<lparr>le_prev = before NULL xs, le_next = NULL, le_list = l, le_data = d\<rparr>"
proof -
  obtain p n d0 where e: "x \<noteq> NULL" "les m x = Some \<lparr>le_prev = p, le_next = n, le_list = NULL, le_data = d0\<rparr>"
    by (rule free_leE [OF f])
  have l: "l \<noteq> NULL" using r by (simp add: rlist_def)
  note ends = rlist_ends [OF r] and nin = free_not_in [OF r f]
  have n: "NULL \<notin> set xs" "distinct xs" using rlist_distinct [OF r] by auto
  show ?thesis
  proof (cases xs rule: rev_cases)
    case Nil
    define m' where "m' = m\<lparr>les := (les m)(x \<mapsto> \<lparr>le_prev = NULL, le_next = NULL, le_list = l, le_data = d\<rparr>),
        lists := (lists m)(l \<mapsto> \<lparr>lh_head = x, lh_tail = x\<rparr>)\<rparr>"
    have "list_append l x d m = Some m'" using e l ends
      by (simp add: list_append_def upd_le_def upd_list_def m'_def Nil)
    moreover have "rlist m' l ([] @ x # [])"
      by (rule rlist_linkI [of m]) (use r e l in \<open>simp_all add: m'_def Nil\<close>)
    ultimately show ?thesis using that [of m'] by (simp add: Nil m'_def outside_same_def)
  next
    case (snoc us u)
    obtain du where u: "les m u = Some \<lparr>le_prev = before NULL us, le_next = NULL, le_list = l, le_data = du\<rparr>"
      using rlist_elem [of m l us u "[]"] r snoc by auto
    have ux: "u \<noteq> x" "u \<noteq> NULL" "u \<notin> set us" using nin n snoc by auto
    define m' where "m' = m\<lparr>les := (les m)(x \<mapsto> \<lparr>le_prev = u, le_next = NULL, le_list = l, le_data = d\<rparr>,
        u \<mapsto> \<lparr>le_prev = before NULL us, le_next = x, le_list = l, le_data = du\<rparr>),
        lists := (lists m)(l \<mapsto> \<lparr>lh_head = after NULL xs, lh_tail = x\<rparr>)\<rparr>"
    have "list_append l x d m = Some m'" using e l ends u ux n
      by (simp add: list_append_def upd_le_def upd_list_def m'_def snoc)
    moreover have "rlist m' l (xs @ x # [])"
    proof (rule rlist_linkI [of m])
      fix a assume a: "a \<in> set (xs @ [])"
      then show "les m' a = Some ((the (les m a))
               \<lparr>le_next := (if a = before NULL xs then x else le_next (the (les m a))),
                le_prev := (if a = after NULL [] then x else le_prev (the (les m a)))\<rparr>)"
        unfolding append_Nil append_Nil2 by (rule rlist_memE [OF r]) (use a u ux nin n in \<open>auto simp: m'_def snoc\<close>)
    qed (use r e l u ux nin in \<open>auto simp: m'_def snoc after_def hd_append\<close>)
    ultimately show ?thesis using that [of m'] ux by (simp add: snoc m'_def outside_same_def)
  qed
qed

lemma list_prepend_rlist:
  assumes r: "rlist m l xs" and f: "free_le m x"
  obtains m' where "list_prepend l x d m = Some m'" and "rlist m' l (x # xs)"
    and "outside_same l (insert x (set xs)) m m'"
    and "les m' x = Some \<lparr>le_prev = NULL, le_next = after NULL xs, le_list = l, le_data = d\<rparr>"
proof -
  obtain p n d0 where e: "x \<noteq> NULL" "les m x = Some \<lparr>le_prev = p, le_next = n, le_list = NULL, le_data = d0\<rparr>"
    by (rule free_leE [OF f])
  have l: "l \<noteq> NULL" using r by (simp add: rlist_def)
  note ends = rlist_ends [OF r] and nin = free_not_in [OF r f]
  have n: "NULL \<notin> set xs" "distinct xs" using rlist_distinct [OF r] by auto
  show ?thesis
  proof (cases xs)
    case Nil
    define m' where "m' = m\<lparr>les := (les m)(x \<mapsto> \<lparr>le_prev = NULL, le_next = NULL, le_list = l, le_data = d\<rparr>),
        lists := (lists m)(l \<mapsto> \<lparr>lh_head = x, lh_tail = x\<rparr>)\<rparr>"
    have "list_prepend l x d m = Some m'" using e l ends
      by (simp add: list_prepend_def upd_le_def upd_list_def m'_def Nil)
    moreover have "rlist m' l ([] @ x # [])"
      by (rule rlist_linkI [of m]) (use r e l in \<open>simp_all add: m'_def Nil\<close>)
    ultimately show ?thesis using that [of m'] by (simp add: Nil m'_def outside_same_def)
  next
    case (Cons u us)
    obtain du where u: "les m u = Some \<lparr>le_prev = NULL, le_next = after NULL us, le_list = l, le_data = du\<rparr>"
      using rlist_elem [of m l "[]" u us] r Cons by auto
    have ux: "u \<noteq> x" "u \<noteq> NULL" "u \<notin> set us" using nin n Cons by auto
    define m' where "m' = m\<lparr>les := (les m)(x \<mapsto> \<lparr>le_prev = NULL, le_next = u, le_list = l, le_data = d\<rparr>,
        u \<mapsto> \<lparr>le_prev = x, le_next = after NULL us, le_list = l, le_data = du\<rparr>),
        lists := (lists m)(l \<mapsto> \<lparr>lh_head = x, lh_tail = before NULL xs\<rparr>)\<rparr>"
    have "before NULL xs \<noteq> NULL" using n by (simp add: Cons del: before_simps)
    then have "list_prepend l x d m = Some m'" using e l ends u ux n
      by (simp add: list_prepend_def upd_le_def upd_list_def m'_def Cons)
    moreover have "rlist m' l ([] @ x # xs)"
    proof (rule rlist_linkI [of m])
      fix a assume a: "a \<in> set ([] @ xs)"
      then show "les m' a = Some ((the (les m a))
               \<lparr>le_next := (if a = before NULL [] then x else le_next (the (les m a))),
                le_prev := (if a = after NULL xs then x else le_prev (the (les m a)))\<rparr>)"
        unfolding append_Nil append_Nil2 by (rule rlist_memE [OF r]) (use a u ux nin n in \<open>auto simp: m'_def Cons\<close>)
    qed (use r e l u ux nin in \<open>auto simp: m'_def Cons\<close>)
    ultimately show ?thesis using that [of m'] ux by (simp add: Cons m'_def outside_same_def)
  qed
qed

lemma list_insert_after_rlist:
  assumes r: "rlist m l (us @ y # vs)" and f: "free_le m x"
  obtains m' where "list_insert_after l y x d m = Some m'" and "rlist m' l (us @ y # x # vs)"
    and "outside_same l (insert x (set (us @ y # vs))) m m'"
    and "les m' x = Some \<lparr>le_prev = y, le_next = after NULL vs, le_list = l, le_data = d\<rparr>"
    and "\<And>a. a \<noteq> x \<Longrightarrow> map_option le_data (les m' a) = map_option le_data (les m a)"
proof -
  obtain p n d0 where e: "x \<noteq> NULL" "les m x = Some \<lparr>le_prev = p, le_next = n, le_list = NULL, le_data = d0\<rparr>"
    by (rule free_leE [OF f])
  have l: "l \<noteq> NULL" using r by (simp add: rlist_def)
  note ends = rlist_ends [OF r] and nin = free_not_in [OF r f]
  have n: "NULL \<notin> set (us @ y # vs)" "distinct (us @ y # vs)" using rlist_distinct [OF r] by auto
  obtain dy where y: "les m y = Some \<lparr>le_prev = before NULL us, le_next = after NULL vs, le_list = l, le_data = dy\<rparr>"
    by (rule rlist_elem [OF r])
  have yx: "y \<noteq> x" "y \<noteq> NULL" "y \<notin> set us" "y \<notin> set vs" using nin n by auto
  note mem = rlist_memE [OF r]
  show ?thesis
  proof (cases vs)
    case Nil
    define m' where "m' = m\<lparr>les := (les m)(x \<mapsto> \<lparr>le_prev = y, le_next = NULL, le_list = l, le_data = d\<rparr>,
        y \<mapsto> \<lparr>le_prev = before NULL us, le_next = x, le_list = l, le_data = dy\<rparr>),
        lists := (lists m)(l \<mapsto> \<lparr>lh_head = after NULL (us @ [y]), lh_tail = x\<rparr>)\<rparr>"
    have "list_insert_after l y x d m = Some m'" using e l ends y yx
      by (simp add: list_insert_after_def upd_le_def upd_list_def m'_def Nil)
    moreover have "rlist m' l ((us @ [y]) @ x # [])"
    proof (rule rlist_linkI [of m])
      fix a assume a: "a \<in> set ((us @ [y]) @ [])"
      then have "a \<in> set (us @ y # vs)" by (simp add: Nil)
      then show "les m' a = Some ((the (les m a))
               \<lparr>le_next := (if a = before NULL (us @ [y]) then x else le_next (the (les m a))),
                le_prev := (if a = after NULL [] then x else le_prev (the (les m a)))\<rparr>)"
        by (rule mem) (use a y yx nin n in \<open>auto simp: m'_def Nil\<close>)
    qed (use r e l y yx nin in \<open>auto simp: m'_def Nil after_def hd_append\<close>)
    ultimately show ?thesis using that [of m'] yx y by (simp add: Nil m'_def outside_same_def)
  next
    case (Cons v vs')
    obtain dv where v: "les m v = Some \<lparr>le_prev = y, le_next = after NULL vs', le_list = l, le_data = dv\<rparr>"
      using rlist_elem [of m l "us @ [y]" v vs'] r Cons by auto
    have vx: "v \<noteq> x" "v \<noteq> NULL" "v \<notin> set us" "v \<noteq> y" "v \<notin> set vs'" using nin n Cons by auto
    define m' where "m' = m\<lparr>les := (les m)(v \<mapsto> \<lparr>le_prev = x, le_next = after NULL vs', le_list = l, le_data = dv\<rparr>,
        x \<mapsto> \<lparr>le_prev = y, le_next = v, le_list = l, le_data = d\<rparr>,
        y \<mapsto> \<lparr>le_prev = before NULL us, le_next = x, le_list = l, le_data = dy\<rparr>)\<rparr>"
    have "list_insert_after l y x d m = Some m'" using e l y yx v vx
      by (simp add: list_insert_after_def upd_le_def m'_def Cons)
    moreover have "rlist m' l ((us @ [y]) @ x # vs)"
    proof (rule rlist_linkI [of m])
      fix a assume a: "a \<in> set ((us @ [y]) @ vs)"
      then have "a \<in> set (us @ y # vs)" by simp
      then show "les m' a = Some ((the (les m a))
               \<lparr>le_next := (if a = before NULL (us @ [y]) then x else le_next (the (les m a))),
                le_prev := (if a = after NULL vs then x else le_prev (the (les m a)))\<rparr>)"
        by (rule mem) (use a y yx v vx nin n in \<open>auto simp: m'_def Cons\<close>)
    qed (use r e l y yx v vx nin ends in \<open>auto simp: m'_def Cons after_def hd_append\<close>)
    ultimately show ?thesis using that [of m'] yx vx y v by (simp add: Cons m'_def outside_same_def)
  qed
qed

lemma list_insert_before_rlist:
  assumes r: "rlist m l (us @ y # vs)" and f: "free_le m x"
  obtains m' where "list_insert_before l y x d m = Some m'" and "rlist m' l (us @ x # y # vs)"
    and "outside_same l (insert x (set (us @ y # vs))) m m'"
    and "les m' x = Some \<lparr>le_prev = before NULL us, le_next = y, le_list = l, le_data = d\<rparr>"
proof -
  obtain p n d0 where e: "x \<noteq> NULL" "les m x = Some \<lparr>le_prev = p, le_next = n, le_list = NULL, le_data = d0\<rparr>"
    by (rule free_leE [OF f])
  have l: "l \<noteq> NULL" using r by (simp add: rlist_def)
  note ends = rlist_ends [OF r] and nin = free_not_in [OF r f]
  have n: "NULL \<notin> set (us @ y # vs)" "distinct (us @ y # vs)" using rlist_distinct [OF r] by auto
  obtain dy where y: "les m y = Some \<lparr>le_prev = before NULL us, le_next = after NULL vs, le_list = l, le_data = dy\<rparr>"
    by (rule rlist_elem [OF r])
  have yx: "y \<noteq> x" "y \<noteq> NULL" "y \<notin> set us" "y \<notin> set vs" using nin n by auto
  note mem = rlist_memE [OF r]
  show ?thesis
  proof (cases us rule: rev_cases)
    case Nil
    define m' where "m' = m\<lparr>les := (les m)(x \<mapsto> \<lparr>le_prev = NULL, le_next = y, le_list = l, le_data = d\<rparr>,
        y \<mapsto> \<lparr>le_prev = x, le_next = after NULL vs, le_list = l, le_data = dy\<rparr>),
        lists := (lists m)(l \<mapsto> \<lparr>lh_head = x, lh_tail = before NULL (y # vs)\<rparr>)\<rparr>"
    have "list_insert_before l y x d m = Some m'" using e l ends y yx
      by (simp add: list_insert_before_def upd_le_def upd_list_def m'_def Nil)
    moreover have "rlist m' l ([] @ x # y # vs)"
    proof (rule rlist_linkI [of m])
      fix a assume a: "a \<in> set ([] @ y # vs)"
      then have "a \<in> set (us @ y # vs)" by (simp add: Nil)
      then show "les m' a = Some ((the (les m a))
               \<lparr>le_next := (if a = before NULL [] then x else le_next (the (les m a))),
                le_prev := (if a = after NULL (y # vs) then x else le_prev (the (les m a)))\<rparr>)"
        by (rule mem) (use a y yx nin n in \<open>auto simp: m'_def Nil\<close>)
    qed (use r e l y yx nin in \<open>auto simp: m'_def Nil\<close>)
    ultimately show ?thesis using that [of m'] yx by (simp add: Nil m'_def outside_same_def)
  next
    case (snoc us' u)
    obtain du where u: "les m u = Some \<lparr>le_prev = before NULL us', le_next = y, le_list = l, le_data = du\<rparr>"
      using rlist_elem [of m l us' u "y # vs"] r snoc by auto
    have ux: "u \<noteq> x" "u \<noteq> NULL" "u \<notin> set us'" "u \<noteq> y" "u \<notin> set vs" using nin n snoc by auto
    define m' where "m' = m\<lparr>les := (les m)(u \<mapsto> \<lparr>le_prev = before NULL us', le_next = x, le_list = l, le_data = du\<rparr>,
        x \<mapsto> \<lparr>le_prev = u, le_next = y, le_list = l, le_data = d\<rparr>,
        y \<mapsto> \<lparr>le_prev = x, le_next = after NULL vs, le_list = l, le_data = dy\<rparr>)\<rparr>"
    have "list_insert_before l y x d m = Some m'" using e l y yx u ux
      by (simp add: list_insert_before_def upd_le_def m'_def snoc)
    moreover have "rlist m' l (us @ x # y # vs)"
    proof (rule rlist_linkI [of m])
      fix a assume a: "a \<in> set (us @ y # vs)"
      then show "les m' a = Some ((the (les m a))
               \<lparr>le_next := (if a = before NULL us then x else le_next (the (les m a))),
                le_prev := (if a = after NULL (y # vs) then x else le_prev (the (les m a)))\<rparr>)"
        by (rule mem) (use a y yx u ux nin n in \<open>auto simp: m'_def snoc\<close>)
    qed (use r e l y yx u ux nin ends in \<open>auto simp: m'_def snoc after_def hd_append\<close>)
    ultimately show ?thesis using that [of m'] yx ux by (simp add: snoc m'_def outside_same_def)
  qed
qed

lemma list_unlink_rlist:
  assumes r: "rlist m l (us @ x # vs)"
  obtains m' where "list_unlink x m = Some m'" and "rlist m' l (us @ vs)" and "free_le m' x"
    and "outside_same l (set (us @ x # vs)) m m'" 
    and "\<And>a. map_option le_data (les m' a) = map_option le_data (les m a)"
proof -
  have l: "l \<noteq> NULL" using r by (simp add: rlist_def)
  note ends = rlist_ends [OF r]
  have n: "NULL \<notin> set us" "NULL \<notin> set vs" "x \<noteq> NULL" "x \<notin> set us" "x \<notin> set vs" "set us \<inter> set vs = {}"
    using rlist_distinct [OF r] by auto
  obtain d where x: "les m x = Some \<lparr>le_prev = before NULL us, le_next = after NULL vs, le_list = l, le_data = d\<rparr>"
    by (rule rlist_elem [OF r])
  define p where "p = before NULL us"
  define q where "q = after NULL vs"
  have pq: "p \<noteq> x" "q \<noteq> x" "p \<noteq> NULL \<Longrightarrow> p \<noteq> q"
    using before_in [of NULL us] after_in [of NULL vs] n by (auto simp: p_def q_def)
  have pd: "\<exists>pp dp. les m p = Some \<lparr>le_prev = pp, le_next = x, le_list = l, le_data = dp\<rparr>" if pn: "p \<noteq> NULL"
  proof -
    obtain us' where "us = us' @ [p]" using pn n unfolding p_def by (cases us rule: rev_cases) auto
    then have "rlist m l (us' @ p # x # vs)" using r by simp
    then show ?thesis by (rule rlist_elem) simp
  qed
  have qd: "\<exists>nq dq. les m q = Some \<lparr>le_prev = x, le_next = nq, le_list = l, le_data = dq\<rparr>" if qn: "q \<noteq> NULL"
  proof -
    obtain vs' where "vs = q # vs'" using qn n unfolding q_def by (cases vs) auto
    then have "rlist m l ((us @ [x]) @ q # vs')" using r by simp
    then show ?thesis by (rule rlist_elem) simp
  qed
  define m' where "m' = m\<lparr>
     les := (\<lambda>a. if a = x then Some \<lparr>le_prev = NULL, le_next = NULL, le_list = NULL, le_data = d\<rparr>
                 else if a = NULL then les m a
                 else if a = p then Some ((the (les m p))\<lparr>le_next := q\<rparr>)
                 else if a = q then Some ((the (les m q))\<lparr>le_prev := p\<rparr>) else les m a),
     lists := (lists m)(l \<mapsto> \<lparr>lh_head = after NULL (us @ vs), lh_tail = before NULL (us @ vs)\<rparr>)\<rparr>"
  have ht: "after NULL (us @ vs) = (if p = NULL then q else after NULL (us @ x # vs))"
      "before NULL (us @ vs) = (if q = NULL then p else before NULL (us @ x # vs))"
    using n by (simp_all add: p_def q_def) (simp_all add: after_def before_def hd_append)
  have "list_unlink x m = Some m'"
    using x n(3) l pq pd qd ends
    by (cases "p = NULL"; cases "q = NULL")
      (auto simp: list_unlink_def upd_le_def upd_list_def m'_def ht fun_eq_iff simp flip: p_def q_def
        intro!: re_mem.equality)
  moreover have "rlist m' l (us @ vs)"
  proof (rule rlist_unlinkI [OF r])
    fix a assume a: "a \<in> set (us @ vs)"
    then have "a \<in> set (us @ x # vs)" by auto
    then show "les m' a = Some ((the (les m a))
               \<lparr>le_next := (if a = before NULL us then after NULL vs else le_next (the (les m a))),
                le_prev := (if a = after NULL vs then before NULL us else le_prev (the (les m a)))\<rparr>)"
      by (rule rlist_memE [OF r]) (use a n pq pd qd in \<open>auto simp: m'_def simp flip: p_def q_def\<close>)
  qed (simp add: m'_def)
  moreover have "free_le m' x" using n(3) by (simp add: free_le_def owned_def m'_def)
  moreover have "outside_same l (set (us @ x # vs)) m m'"
    using before_in [of NULL us] after_in [of NULL vs]
    by (auto simp: outside_same_def m'_def p_def q_def)
  moreover have "map_option le_data (les m' a) = map_option le_data (les m a)" for a
    using x pd qd by (auto simp: m'_def)
  ultimately show ?thesis by (rule that)
qed

lemma flush_loop_rlist:
  assumes r: "rlist m l xs"
  shows "set ys \<subseteq> set xs \<Longrightarrow> \<exists>us. xs = us @ ys \<Longrightarrow> (\<forall>a \<in> set ys. les m2 a = les m a) \<Longrightarrow>
    \<exists>m3. flush_loop (after NULL ys) m2 = Some m3 \<and> lists m3 = lists m2 \<and>
      (\<forall>a. les m3 a = (if a \<in> set ys then Some \<lparr>le_prev = NULL, le_next = NULL, le_list = NULL, le_data = NULL\<rparr> else les m2 a))"
proof (induction ys arbitrary: m2)
  case Nil
  then show ?case by (simp add: flush_loop.simps)
next
  case (Cons y ys)
  from Cons.prems(2) obtain us where us: "xs = us @ y # ys" by blast
  obtain d where y: "les m y = Some \<lparr>le_prev = before NULL us, le_next = after NULL ys, le_list = l, le_data = d\<rparr>"
    using rlist_elem [of m l us y ys] r us by auto
  have yn: "y \<noteq> NULL" "y \<notin> set ys" using rlist_distinct [OF r] us by auto
  define m3 where "m3 = m2\<lparr>les := (les m2)(y \<mapsto> \<lparr>le_prev = NULL, le_next = NULL, le_list = NULL, le_data = NULL\<rparr>)\<rparr>"
  have "\<exists>us. xs = us @ ys" using us by (intro exI [of _ "us @ [y]"]) simp
  moreover have "\<forall>a \<in> set ys. les m3 a = les m a" using Cons.prems(3) yn(2) by (auto simp: m3_def)
  moreover have "set ys \<subseteq> set xs" using Cons.prems(1) by simp
  ultimately obtain m4 where m4: "flush_loop (after NULL ys) m3 = Some m4" "lists m4 = lists m3"
      "\<And>a. les m4 a = (if a \<in> set ys then Some \<lparr>le_prev = NULL, le_next = NULL, le_list = NULL, le_data = NULL\<rparr> else les m3 a)"
    using Cons.IH [of m3] by blast
  have "les m2 y = Some \<lparr>le_prev = before NULL us, le_next = after NULL ys, le_list = l, le_data = d\<rparr>"
    using y Cons.prems(3) by simp
  then have "flush_loop y m2 = Some m4" using yn m4(1)
    by (simp add: flush_loop.simps [of y] upd_le_def m3_def)
  with m4 show ?case by (auto simp: m3_def)
qed

lemma list_flush_rlist:
  assumes r: "rlist m l xs"
  obtains m' where "list_flush l m = Some m'" and "list_clear l m = Some m'" and "rlist m' l []"
    and "\<And>x. x \<in> set xs \<Longrightarrow> free_le m' x" and "outside_same l (set xs) m m'"
proof -
  obtain m2 where m2: "flush_loop (after NULL xs) m = Some m2" "lists m2 = lists m"
      "\<And>a. les m2 a = (if a \<in> set xs then Some \<lparr>le_prev = NULL, le_next = NULL, le_list = NULL, le_data = NULL\<rparr> else les m a)"
    using flush_loop_rlist [OF r, of xs m] by auto
  define m' where "m' = m2\<lparr>lists := (lists m)(l \<mapsto> \<lparr>lh_head = NULL, lh_tail = NULL\<rparr>)\<rparr>"
  have l: "l \<noteq> NULL" using r by (simp add: rlist_def)
  then have f: "list_flush l m = Some m'" "list_clear l m = Some m'" using rlist_ends [OF r] m2(1,2)
    by (simp_all add: list_flush_def list_clear_def list_init_def upd_list_def m'_def)
  have "rlist m' l []" using l by (simp add: rlist_def ring_def re_nx_def re_pv_def m'_def)
  moreover have "free_le m' x" if "x \<in> set xs" for x
    using that rlist_memE [OF r that] by (auto simp: free_le_def owned_def m'_def m2)
  ultimately show ?thesis using that [OF f] m2 by (simp add: outside_same_def m'_def)
qed

lemma count_loop_rlist:
  assumes r: "rlist m l (us @ ys)"
  shows "count_loop (after NULL ys) n m = Some (n + of_nat (length ys))"
  using r
proof (induction ys arbitrary: us n)
  case (Cons y ys)
  obtain d where y: "les m y = Some \<lparr>le_prev = before NULL us, le_next = after NULL ys, le_list = l, le_data = d\<rparr>"
    by (rule rlist_elem [OF Cons.prems])
  have "y \<noteq> NULL" using rlist_distinct [OF Cons.prems] by auto
  with y Cons.IH [of "us @ [y]" "n + 1"] Cons.prems show ?case
    by (simp add: count_loop.simps [of y] ac_simps)
qed (simp add: count_loop.simps)

lemma list_count_rlist:
  assumes "rlist m l xs"
  shows "list_count l m = Some (of_nat (length xs))"
proof -
  have "l \<noteq> NULL" using assms by (simp add: rlist_def)
  with rlist_ends [OF assms] count_loop_rlist [of m l "[]" xs 0] assms show ?thesis
    by (simp add: list_count_def)
qed

text \<open>The traversal with a handler that does not change the memory.\<close>

lemma apply_loop_fwd:
  assumes "rlist m l (us @ ys)"
  shows "apply_loop (\<lambda>a m. Some (P a, m)) True (after NULL ys) m =
           Some (case List.find P ys of None \<Rightarrow> NULL | Some a \<Rightarrow> a, m)"
  using assms
proof (induction ys arbitrary: us)
  case (Cons y ys)
  obtain d where y: "les m y = Some \<lparr>le_prev = before NULL us, le_next = after NULL ys, le_list = l, le_data = d\<rparr>"
    by (rule rlist_elem [OF Cons.prems])
  have "y \<noteq> NULL" using rlist_distinct [OF Cons.prems] by auto
  with y Cons.IH [of "us @ [y]"] Cons.prems show ?case
    by (simp add: apply_loop.simps [of _ _ y])
qed (simp add: apply_loop.simps)

lemma apply_loop_bwd:
  assumes "rlist m l (us @ ys)"
  shows "apply_loop (\<lambda>a m. Some (P a, m)) False (before NULL us) m =
           Some (case List.find P (rev us) of None \<Rightarrow> NULL | Some a \<Rightarrow> a, m)"
  using assms
proof (induction us arbitrary: ys rule: rev_induct)
  case (snoc y us)
  then have r: "rlist m l (us @ y # ys)" by simp
  obtain d where y: "les m y = Some \<lparr>le_prev = before NULL us, le_next = after NULL ys, le_list = l, le_data = d\<rparr>"
    by (rule rlist_elem [OF r])
  have "y \<noteq> NULL" using rlist_distinct [OF r] by auto
  with y snoc.IH [OF r] show ?case
    by (simp add: apply_loop.simps [of _ _ y])
qed (simp add: apply_loop.simps)

lemma list_init_rlist:
  assumes "rlist m l xs"
  obtains m' where "list_init l m = Some m'" and "rlist m' l []" and "outside_same l {} m m'"
proof -
  define m' where "m' = m\<lparr>lists := (lists m)(l \<mapsto> \<lparr>lh_head = NULL, lh_tail = NULL\<rparr>)\<rparr>"
  have l: "l \<noteq> NULL" using assms by (simp add: rlist_def)
  then have "list_init l m = Some m'" using rlist_ends [OF assms] by (simp add: list_init_def upd_list_def m'_def)
  moreover have "rlist m' l []" using l by (simp add: rlist_def ring_def re_nx_def re_pv_def m'_def)
  moreover have "outside_same l {} m m'" by (simp add: outside_same_def m'_def)
  ultimately show ?thesis by (rule that)
qed

section \<open>The contract of the list\<close>

text \<open>C23: On a well formed list, empty or not, and an element that is in no list, \<open>list_append\<close> and
  \<open>list_prepend\<close> insert the element at the end and at the front, \<open>list_insert_before\<close> and \<open>list_insert_after\<close>
  insert it before and after any given element of the list, each with the given data pointer; \<open>list_unlink\<close> takes
  any element out and leaves it free; \<open>list_flush\<close> frees all of them and \<open>list_init\<close> makes an empty list. None of
  them fails, and none touches another list.\<close>

theorem re_list_refines:
  assumes "rlist m l xs" and "free_le m x"
  shows "(\<exists>m'. list_append l x d m = Some m' \<and> rlist m' l (xs @ [x]) \<and> list_ledata x m' = Some d \<and>
            outside_same l (insert x (set xs)) m m') \<and>
         (\<exists>m'. list_prepend l x d m = Some m' \<and> rlist m' l (x # xs) \<and> list_ledata x m' = Some d \<and>
            outside_same l (insert x (set xs)) m m') \<and>
         (\<forall>us y vs. xs = us @ y # vs \<longrightarrow>
           (\<exists>m'. list_insert_before l y x d m = Some m' \<and> rlist m' l (us @ x # y # vs) \<and> list_ledata x m' = Some d \<and>
              outside_same l (insert x (set xs)) m m') \<and>
           (\<exists>m'. list_insert_after l y x d m = Some m' \<and> rlist m' l (us @ y # x # vs) \<and> list_ledata x m' = Some d \<and>
              outside_same l (insert x (set xs)) m m') \<and>
           (\<exists>m'. list_unlink y m = Some m' \<and> rlist m' l (us @ vs) \<and> free_le m' y \<and> outside_same l (set xs) m m')) \<and>
         (\<exists>m'. list_flush l m = Some m' \<and> rlist m' l [] \<and> (\<forall>a \<in> set xs. free_le m' a) \<and> outside_same l (set xs) m m') \<and>
         (\<exists>m'. list_init l m = Some m' \<and> rlist m' l [] \<and> outside_same l {} m m')"
proof (intro conjI allI impI)
  have x: "x \<noteq> NULL" using assms(2) by (simp add: free_le_def)
  note data = list_ledata_def x
  show "\<exists>m'. list_append l x d m = Some m' \<and> rlist m' l (xs @ [x]) \<and> list_ledata x m' = Some d \<and>
            outside_same l (insert x (set xs)) m m'"
    by (rule list_append_rlist [OF assms, of d]) (auto simp: data)
  show "\<exists>m'. list_prepend l x d m = Some m' \<and> rlist m' l (x # xs) \<and> list_ledata x m' = Some d \<and>
            outside_same l (insert x (set xs)) m m'"
    by (rule list_prepend_rlist [OF assms, of d]) (auto simp: data)
  show "\<exists>m'. list_flush l m = Some m' \<and> rlist m' l [] \<and> (\<forall>a \<in> set xs. free_le m' a) \<and> outside_same l (set xs) m m'"
    by (rule list_flush_rlist [OF assms(1)]) blast
  show "\<exists>m'. list_init l m = Some m' \<and> rlist m' l [] \<and> outside_same l {} m m'"
    by (rule list_init_rlist [OF assms(1)]) blast
  fix us y vs assume xs: "xs = us @ y # vs"
  note r = assms(1) [unfolded xs]
  show "\<exists>m'. list_insert_before l y x d m = Some m' \<and> rlist m' l (us @ x # y # vs) \<and> list_ledata x m' = Some d \<and>
            outside_same l (insert x (set xs)) m m'"
    unfolding xs by (rule list_insert_before_rlist [OF r assms(2), of d]) (auto simp: data)
  show "\<exists>m'. list_insert_after l y x d m = Some m' \<and> rlist m' l (us @ y # x # vs) \<and> list_ledata x m' = Some d \<and>
            outside_same l (insert x (set xs)) m m'"
    unfolding xs by (rule list_insert_after_rlist [OF r assms(2), of d]) (auto simp: data)
  show "\<exists>m'. list_unlink y m = Some m' \<and> rlist m' l (us @ vs) \<and> free_le m' y \<and> outside_same l (set xs) m m'"
    unfolding xs by (rule list_unlink_rlist [OF r]) blast
qed

text \<open>\<open>list_apply\<close> returns the first element its handler accepts, from the head or from the
  tail, and NULL when there is none; \<open>list_count\<close> counts the elements in 32 bits, \<open>list_head\<close>,
  \<open>list_tail\<close> and \<open>list_isempty\<close> read the two ends.\<close>

theorem re_list_traversal:
  assumes "rlist m l xs"
  shows "list_apply l True (Some (\<lambda>a m. Some (P a, m))) m =
           Some (case List.find P xs of None \<Rightarrow> NULL | Some a \<Rightarrow> a, m) \<and>
         list_apply l False (Some (\<lambda>a m. Some (P a, m))) m =
           Some (case List.find P (rev xs) of None \<Rightarrow> NULL | Some a \<Rightarrow> a, m) \<and>
         list_count l m = Some (of_nat (length xs)) \<and>
         list_head l m = Some (if xs = [] then NULL else hd xs) \<and>
         list_tail l m = Some (if xs = [] then NULL else last xs) \<and>
         list_isempty l m = Some (xs = [])"
proof -
  have l: "l \<noteq> NULL" "NULL \<notin> set xs" using assms rlist_distinct [OF assms] by (auto simp: rlist_def)
  note ends = rlist_ends [OF assms]
  show ?thesis
    using l ends list_count_rlist [OF assms] apply_loop_fwd [of m l "[]" xs P] apply_loop_bwd [of m l xs "[]" P] assms
    by (simp add: list_apply_def list_head_def list_tail_def list_isempty_def)
      (simp add: before_def after_def)
qed

text \<open>List object 9 with the elements 2 and 1; element 3 is in no list.\<close>

definition demo_list :: re_mem where
  "demo_list = \<lparr>les = map_of [(1, \<lparr>le_prev = 2, le_next = 0, le_list = 9, le_data = 100\<rparr>),
     (2, \<lparr>le_prev = 0, le_next = 1, le_list = 9, le_data = 200\<rparr>), (3, \<lparr>le_prev = 0, le_next = 0, le_list = 0, le_data = 0\<rparr>)],
     lists = map_of [(9, \<lparr>lh_head = 2, lh_tail = 1\<rparr>)]\<rparr>"

lemma demo_list_rlist: "rlist demo_list 9 [2, 1]"
  by (simp add: rlist_def owned_def ring_def re_nx_def re_pv_def demo_list_def)

theorem re_list_refines_witness:
  "(\<exists>m'. list_insert_after 9 2 3 300 demo_list = Some m' \<and> rlist m' 9 [2, 3, 1]) \<and>
   (\<exists>m'. list_append 8 3 300 (demo_list\<lparr>lists := (lists demo_list)(8 \<mapsto> \<lparr>lh_head = 0, lh_tail = 0\<rparr>)\<rparr>) = Some m' \<and> rlist m' 8 [3])"
proof -
  have f: "free_le (demo_list\<lparr>lists := h\<rparr>) 3" for h by (simp add: free_le_def owned_def demo_list_def)
  then have "free_le demo_list 3" by (simp add: free_le_def owned_def)
  then have "\<exists>m'. list_insert_after 9 2 3 300 demo_list = Some m' \<and> rlist m' 9 ([] @ 2 # 3 # [1])"
    using re_list_refines [OF demo_list_rlist, of 3 300] by blast
  moreover have "rlist (demo_list\<lparr>lists := (lists demo_list)(8 \<mapsto> \<lparr>lh_head = 0, lh_tail = 0\<rparr>)\<rparr>) 8 []"
    by (simp add: rlist_def ring_def re_nx_def re_pv_def)
  then have "\<exists>m'. list_append 8 3 300 (demo_list\<lparr>lists := (lists demo_list)(8 \<mapsto> \<lparr>lh_head = 0, lh_tail = 0\<rparr>)\<rparr>) = Some m' \<and> rlist m' 8 ([] @ [3])"
    using re_list_refines [OF _ f] by blast
  ultimately show ?thesis by simp
qed

theorem re_list_traversal_witness:
  "list_apply 9 False (Some (\<lambda>a m. Some (0 < a, m))) demo_list = Some (1, demo_list)"
  using re_list_traversal [OF demo_list_rlist, of "\<lambda>a. 0 < a"] by simp

end
