(* ===== verification/ReList_Sort.thy ===== *)
theory ReList_Sort
  imports ReList
begin

text \<open>
  \<open>list_sort\<close> of src/common/re_list.c: the pointer passes implement a bubble pass on the sequence
  of elements, the \<open>goto retry\<close> loop ends for every handler that orders any two elements one way
  or the other, and it never ends for a strict comparison of equal keys.
\<close>

section \<open>Bubble passes on sequences\<close>

fun bubble :: "('a \<Rightarrow> 'a \<Rightarrow> bool) \<Rightarrow> 'a list \<Rightarrow> 'a list" where
  "bubble sh (x # y # xs) = (if sh x y then x # bubble sh (y # xs) else y # bubble sh (x # xs))"
| "bubble sh xs = xs"

text \<open>The pairs that are out of order.\<close>

fun inversions :: "('a \<Rightarrow> 'a \<Rightarrow> bool) \<Rightarrow> 'a list \<Rightarrow> nat" where
  "inversions sh [] = 0"
| "inversions sh (x # xs) = length (filter (\<lambda>y. \<not> sh x y) xs) + inversions sh xs"

lemma mset_bubble [simp]: "mset (bubble sh xs) = mset xs"
  by (induction sh xs rule: bubble.induct) auto

lemma length_filter_mset: "mset xs = mset ys \<Longrightarrow> length (filter P xs) = length (filter P ys)"
  by (metis mset_filter size_mset)

lemma bubble_sorted: "successively sh xs \<Longrightarrow> bubble sh xs = xs"
  by (induction sh xs rule: bubble.induct) auto

lemma inversions_bubble_Cons:
  "inversions sh (z # bubble sh xs) = length (filter (\<lambda>y. \<not> sh z y) xs) + inversions sh (bubble sh xs)"
  using length_filter_mset [of "bubble sh xs" xs "\<lambda>y. \<not> sh z y"] by simp

lemma inversions_bubble:
  "totalp_on (set xs) sh \<Longrightarrow> distinct xs \<Longrightarrow>
     inversions sh (bubble sh xs) \<le> inversions sh xs \<and>
     (\<not> successively sh xs \<longrightarrow> inversions sh (bubble sh xs) < inversions sh xs)"
proof (induction sh xs rule: bubble.induct)
  case (1 sh x y xs)
  have t: "totalp_on (set (y # xs)) sh" "totalp_on (set (x # xs)) sh"
    using "1.prems"(1) by (auto intro: totalp_on_subset)
  show ?case
  proof (cases "sh x y")
    case True
    have "inversions sh (bubble sh (x # y # xs)) = length (filter (\<lambda>z. \<not> sh x z) (y # xs)) + inversions sh (bubble sh (y # xs))"
      using inversions_bubble_Cons [of sh x "y # xs"] True by simp
    moreover note "1.IH"(1) [OF True t(1)] "1.prems"(2)
    ultimately show ?thesis using True by simp
  next
    case False
    then have "sh y x" using "1.prems" by (auto simp: totalp_on_def)
    then have "inversions sh (bubble sh (x # y # xs)) = length (filter (\<lambda>z. \<not> sh y z) xs) + inversions sh (bubble sh (x # xs))"
      using inversions_bubble_Cons [of sh y "x # xs"] False by simp
    moreover note "1.IH"(2) [OF False t(2)] "1.prems"(2)
    ultimately show ?thesis using False by simp
  qed
qed simp_all

section \<open>A pass over the pointers\<close>

text \<open>Everything a pass keeps: other lists, other elements, the data pointers and the set of
  addresses.\<close>

definition kept :: "addr \<Rightarrow> addr set \<Rightarrow> re_mem \<Rightarrow> re_mem \<Rightarrow> bool" where
  "kept l S m m' = (outside_same l S m m' \<and> (\<forall>a. map_option le_data (les m' a) = map_option le_data (les m a)))"

lemma kept_refl [simp]: "kept l S m m"
  by (simp add: kept_def outside_same_def)

lemma kept_trans: "kept l S m m' \<Longrightarrow> kept l S m' m'' \<Longrightarrow> kept l S m m''"
  by (auto simp: kept_def outside_same_def)

lemma unlink_insert_kept:
  assumes r: "rlist m l (us @ x # y # xs)"
  obtains m' where "do { m \<leftarrow> list_unlink x m; e \<leftarrow> les m x; list_insert_after l y x (le_data e) m } = Some m'"
    and "rlist m' l (us @ y # x # xs)" and "kept l (set (us @ x # y # xs)) m m'"
proof -
  obtain m1 where m1: "list_unlink x m = Some m1" "rlist m1 l (us @ y # xs)" "free_le m1 x"
      "outside_same l (set (us @ x # y # xs)) m m1" "\<And>a. map_option le_data (les m1 a) = map_option le_data (les m a)"
    by (rule list_unlink_rlist [OF r]) blast
  obtain e where e: "les m1 x = Some e" using m1(3) by (auto simp: free_le_def owned_def)
  obtain m2 where m2: "list_insert_after l y x (le_data e) m1 = Some m2" "rlist m2 l (us @ y # x # xs)"
      "outside_same l (insert x (set (us @ y # xs))) m1 m2"
      "les m2 x = Some \<lparr>le_prev = y, le_next = after NULL xs, le_list = l, le_data = le_data e\<rparr>"
      "\<And>a. a \<noteq> x \<Longrightarrow> map_option le_data (les m2 a) = map_option le_data (les m1 a)"
    by (rule list_insert_after_rlist [OF m1(2,3)]) blast
  have "map_option le_data (les m2 a) = map_option le_data (les m1 a)" for a
    using m2(4,5) e by (cases "a = x") auto
  moreover have "insert x (set (us @ y # xs)) = set (us @ x # y # xs)" by auto
  ultimately have "kept l (set (us @ x # y # xs)) m m2" using m1(4,5) m2(3) by (auto simp: kept_def outside_same_def)
  with that m1(1) m2(1,2) e show ?thesis by simp
qed

lemma sort_pass_bubble:
  "rlist m l (us @ xs) \<Longrightarrow>
     \<exists>m'. sort_pass sh l (after NULL xs) srt m = Some (srt \<or> \<not> successively sh xs, m') \<and>
          rlist m' l (us @ bubble sh xs) \<and> kept l (set (us @ xs)) m m'"
proof (induction sh xs arbitrary: us srt m rule: bubble.induct [case_names two nil one])
  case (two sh x y xs)
  obtain d where x: "les m x = Some \<lparr>le_prev = before NULL us, le_next = y, le_list = l, le_data = d\<rparr>"
    using rlist_elem [OF two.prems] by (metis after_simps(2))
  have n: "x \<noteq> NULL" "y \<noteq> NULL" using rlist_distinct [OF two.prems] by auto
  show ?case
  proof (cases "sh x y")
    case True
    obtain m' where m': "sort_pass sh l y srt m = Some (srt \<or> \<not> successively sh (y # xs), m')"
        "rlist m' l ((us @ [x]) @ bubble sh (y # xs))" "kept l (set ((us @ [x]) @ y # xs)) m m'"
      using two.IH(1) [OF True, of m "us @ [x]" srt] two.prems by auto
    then show ?thesis using True x n by (simp add: sort_pass.simps [of _ _ x])
  next
    case False
    obtain m1 where m1: "do { m \<leftarrow> list_unlink x m; e \<leftarrow> les m x; list_insert_after l y x (le_data e) m } = Some m1"
        "rlist m1 l (us @ y # x # xs)" "kept l (set (us @ x # y # xs)) m m1"
      by (rule unlink_insert_kept [OF two.prems])
    have "rlist m1 l ((us @ [y]) @ x # xs)" using m1(2) by simp
    from two.IH(2) [OF False this, of True] obtain m' where m':
        "sort_pass sh l x True m1 = Some (True, m')"
        "rlist m' l (us @ y # bubble sh (x # xs))" "kept l (set (us @ y # x # xs)) m1 m'"
      by (auto simp del: bubble.simps successively.simps)
    have "set (us @ y # x # xs) = set (us @ x # y # xs)" by auto
    then have "kept l (set (us @ x # y # xs)) m m'" using m1(3) m'(3) by (metis kept_trans)
    moreover obtain m0 e0 where "list_unlink x m = Some m0" "les m0 x = Some e0"
        "list_insert_after l y x (le_data e0) m0 = Some m1" using m1(1) by (auto split: Option.bind_splits)
    with x n False m'(1) have "sort_pass sh l x srt m = Some (True, m')" by (subst sort_pass.simps) simp
    ultimately show ?thesis using m'(2) False by auto
  qed
next
  case (one sh v)
  obtain d where "les m v = Some \<lparr>le_prev = before NULL us, le_next = NULL, le_list = l, le_data = d\<rparr>"
    using rlist_elem [OF one.prems] by (metis after_simps(1))
  moreover have "v \<noteq> NULL" using rlist_distinct [OF one.prems] by auto
  ultimately show ?case using one.prems by (simp add: sort_pass.simps)
qed (simp add: sort_pass.simps)

section \<open>The retry loop\<close>

lemma rlist_start: "rlist m l xs \<Longrightarrow> \<exists>m'. sort_pass sh l (after NULL xs) False m = Some (\<not> successively sh xs, m') \<and>
    rlist m' l (bubble sh xs) \<and> kept l (set xs) m m'"
  using sort_pass_bubble [of m l "[]" xs sh False] by simp

lemma sort_retry_step:
  assumes "rlist m l xs"
  shows "\<exists>m'. sort_retry sh l m = (if successively sh xs then Some m' else sort_retry sh l m') \<and>
           rlist m' l (bubble sh xs) \<and> kept l (set xs) m m'"
proof -
  obtain m' where m': "sort_pass sh l (after NULL xs) False m = Some (\<not> successively sh xs, m')"
      "rlist m' l (bubble sh xs)" "kept l (set xs) m m'" using rlist_start [OF assms] by blast
  have "sort_retry sh l m = (if successively sh xs then Some m' else sort_retry sh l m')"
    using rlist_ends [OF assms] m'(1) by (subst sort_retry.simps) simp
  with m' show ?thesis by blast
qed

lemma sort_retry_total:
  assumes "rlist m l xs" and "totalp_on (set xs) sh"
  shows "\<exists>m' ys. sort_retry sh l m = Some m' \<and> rlist m' l ys \<and> mset ys = mset xs \<and>
           successively sh ys \<and> kept l (set xs) m m'"
  using assms
proof (induction "inversions sh xs" arbitrary: m xs rule: less_induct)
  case less
  obtain m1 where m1: "sort_retry sh l m = (if successively sh xs then Some m1 else sort_retry sh l m1)"
      "rlist m1 l (bubble sh xs)" "kept l (set xs) m m1" using sort_retry_step [OF less.prems(1)] by blast
  have st: "set (bubble sh xs) = set xs" by (metis mset_bubble set_mset_mset)
  show ?case
  proof (cases "successively sh xs")
    case True
    then show ?thesis using m1 by (auto simp: bubble_sorted)
  next
    case False
    have "distinct xs" using rlist_distinct [OF less.prems(1)] by simp
    then have "inversions sh (bubble sh xs) < inversions sh xs"
      using inversions_bubble [OF less.prems(2)] False by blast
    from less.hyps [OF this m1(2)] less.prems(2) st obtain m' ys where
      "sort_retry sh l m1 = Some m'" "rlist m' l ys" "mset ys = mset xs" "successively sh ys" "kept l (set xs) m1 m'"
      by auto
    with m1(1,3) False show ?thesis by (metis kept_trans)
  qed
qed

text \<open>What the loop returns, if it does, is in order.\<close>

lemma sort_retry_sorted:
  "sort_retry sh l m = Some m' \<Longrightarrow> rlist m l xs \<Longrightarrow> \<exists>ys. mset ys = mset xs \<and> successively sh ys"
proof (induction sh l m m' arbitrary: xs rule: sort_retry.raw_induct [rotated, consumes 1, case_names step])
  case (step sort_retry sh l m m')
  obtain m1 where m1: "sort_pass sh l (after NULL xs) False m = Some (\<not> successively sh xs, m1)"
      "rlist m1 l (bubble sh xs)" using rlist_start [OF step.prems] by blast
  then have e: "(if successively sh xs then Some m1 else sort_retry sh l m1) = Some m'"
    using step.hyps rlist_ends [OF step.prems] by (simp split: if_splits)
  show ?case
  proof (cases "successively sh xs")
    case False
    with e have "sort_retry sh l m1 = Some m'" by simp
    from step.IH [OF this m1(2)] show ?thesis by simp
  qed blast
qed

text \<open>C24: \<open>list_sort\<close> ends for every well formed list and every handler that puts any two different
  elements in one order or the other, transitive or not: each retry has fewer pairs out of order.
  It then leaves a well formed list of the same elements with their data, in which the handler
  accepts every two neighbours, and (for a transitive handler) every two elements in list order.\<close>

theorem list_sort_terminates:
  assumes "rlist m l xs" and "totalp_on (set xs) sh"
  shows "\<exists>m' ys. list_sort l (Some sh) m = Some m' \<and> rlist m' l ys \<and> mset ys = mset xs \<and>
           successively sh ys \<and> (transp sh \<longrightarrow> sorted_wrt sh ys) \<and> kept l (set xs) m m'"
proof -
  have "l \<noteq> NULL" using assms(1) by (simp add: rlist_def)
  then have "list_sort l (Some sh) m = sort_retry sh l m" by (simp add: list_sort_def)
  moreover obtain m' ys where "sort_retry sh l m = Some m'" "rlist m' l ys" "mset ys = mset xs"
      "successively sh ys" "kept l (set xs) m m'" using sort_retry_total [OF assms] by blast
  moreover have "transp sh \<longrightarrow> sorted_wrt sh ys" using \<open>successively sh ys\<close>
    by (metis successively_conv_sorted_wrt)
  ultimately show ?thesis by metis
qed

text \<open>With a strict comparison as handler, \<open>list_sort\<close> never returns as soon as two elements
  have the same key: the handler refuses both orders and the two are exchanged for ever.\<close>

theorem list_sort_strict_loops:
  fixes key :: "addr \<Rightarrow> 'k::linorder"
  assumes "rlist m l xs" and "\<not> distinct (map key xs)"
  shows "list_sort l (Some (\<lambda>a b. key a < key b)) m = None"
proof (cases "list_sort l (Some (\<lambda>a b. key a < key b)) m")
  case (Some m')
  have "l \<noteq> NULL" using assms(1) by (simp add: rlist_def)
  with Some have "sort_retry (\<lambda>a b. key a < key b) l m = Some m'" by (simp add: list_sort_def)
  from sort_retry_sorted [OF this assms(1)] obtain ys where
    ys: "mset ys = mset xs" "successively (\<lambda>a b. key a < key b) ys" by blast
  then have "sorted_wrt (<) (map key ys)"
    by (simp flip: successively_map successively_conv_sorted_wrt add: successively_conv_sorted_wrt [of "(<)", symmetric] transp_on_less)
  then have "distinct (map key ys)" by (simp add: strict_sorted_iff)
  moreover have "mset (map key ys) = mset (map key xs)" using ys(1) by simp
  ultimately show ?thesis using assms(2) mset_eq_imp_distinct_iff by blast
qed

theorem list_sort_terminates_witness:
  "\<exists>m'. list_sort 9 (Some (\<lambda>a b. a \<le> b)) demo_list = Some m' \<and> rlist m' 9 [1, 2]"
proof -
  obtain m' ys where "list_sort 9 (Some (\<lambda>a b. a \<le> b)) demo_list = Some m'" "rlist m' 9 ys" "mset ys = mset [2, 1]"
      "sorted ys"
    using list_sort_terminates [OF demo_list_rlist, of "\<lambda>a b. a \<le> b"] by (auto simp: transp_on_le totalp_on_def)
  moreover have "ys = [1, 2]"
    using properties_for_sort [OF _ \<open>sorted ys\<close>, of "[2, 1]"] \<open>mset ys = mset [2, 1]\<close> by simp
  ultimately show ?thesis by auto
qed

theorem list_sort_strict_loops_witness:
  "list_sort 9 (Some (\<lambda>a b. (\<lambda>_. 0 :: nat) a < (\<lambda>_. 0) b)) demo_list = None"
  by (rule list_sort_strict_loops [OF demo_list_rlist]) simp

end
