(* ===== verification/Fifo.thy ===== *)
theory Fifo
  imports CmList ReList
begin

text \<open>
  The queue contract the three list implementations share: a representation relation between a
  state and the sequence of elements it holds, an operation that appends a fresh element and one
  that takes the first element out. \<open>repr n s xs\<close> also promises that \<open>n\<close> more operations are
  possible before a counter of the implementation can overflow.

  From the contract follows once, for every implementation, that any history of operations
  answers like the mathematical queue.
\<close>

datatype 'a qop = Put 'a | Get

text \<open>Running a history on an implementation (collecting what each \<open>Get\<close> answers) and on the
  mathematical queue.\<close>

fun run_ops :: "('a \<Rightarrow> 's \<Rightarrow> 's option) \<Rightarrow> ('s \<Rightarrow> ('a option \<times> 's) option) \<Rightarrow> 'a qop list \<Rightarrow> 's \<Rightarrow>
    ('a option list \<times> 's) option" where
  "run_ops put get [] s = Some ([], s)"
| "run_ops put get (Put x # ops) s = do { s \<leftarrow> put x s; run_ops put get ops s }"
| "run_ops put get (Get # ops) s = do {
     (r, s) \<leftarrow> get s;
     (rs, s) \<leftarrow> run_ops put get ops s;
     Some (r # rs, s)
   }"

fun spec_ops :: "'a qop list \<Rightarrow> 'a list \<Rightarrow> 'a option list \<times> 'a list" where
  "spec_ops [] xs = ([], xs)"
| "spec_ops (Put x # ops) xs = spec_ops ops (xs @ [x])"
| "spec_ops (Get # ops) [] = (let (rs, ys) = spec_ops ops [] in (None # rs, ys))"
| "spec_ops (Get # ops) (x # xs) = (let (rs, ys) = spec_ops ops xs in (Some x # rs, ys))"

text \<open>A client that only appends elements it owns and that are not queued.\<close>

fun fair_ops :: "'a set \<Rightarrow> 'a qop list \<Rightarrow> 'a list \<Rightarrow> bool" where
  "fair_ops U [] xs = True"
| "fair_ops U (Put x # ops) xs = (x \<in> U \<and> x \<notin> set xs \<and> fair_ops U ops (xs @ [x]))"
| "fair_ops U (Get # ops) xs = fair_ops U ops (tl xs)"

locale fifo =
  fixes put :: "'a \<Rightarrow> 's \<Rightarrow> 's option" and get :: "'s \<Rightarrow> ('a option \<times> 's) option"
    and repr :: "nat \<Rightarrow> 's \<Rightarrow> 'a list \<Rightarrow> bool" and fresh :: "'s \<Rightarrow> 'a \<Rightarrow> bool"
  assumes put_law: "\<lbrakk>repr (Suc n) s xs; fresh s x; x \<notin> set xs\<rbrakk> \<Longrightarrow>
      \<exists>s'. put x s = Some s' \<and> repr n s' (xs @ [x]) \<and> (\<forall>y. fresh s y \<and> y \<noteq> x \<longrightarrow> fresh s' y)"
    and get_law: "repr (Suc n) s (x # xs) \<Longrightarrow>
      \<exists>s'. get s = Some (Some x, s') \<and> repr n s' xs \<and> fresh s' x \<and> (\<forall>y. fresh s y \<longrightarrow> fresh s' y)"
    and get_empty_law: "repr (Suc n) s [] \<Longrightarrow>
      \<exists>s'. get s = Some (None, s') \<and> repr n s' [] \<and> (\<forall>y. fresh s y \<longrightarrow> fresh s' y)"
begin

lemma history:
  "\<lbrakk>repr n s xs; \<forall>x \<in> U. x \<in> set xs \<or> fresh s x; fair_ops U ops xs; length ops \<le> n\<rbrakk> \<Longrightarrow>
     \<exists>s'. run_ops put get ops s = Some (fst (spec_ops ops xs), s') \<and>
          repr (n - length ops) s' (snd (spec_ops ops xs))"
proof (induction ops arbitrary: n s xs)
  case (Cons op ops)
  then obtain m where m: "n = Suc m" by (cases n) auto
  show ?case
  proof (cases op)
    case (Put x)
    obtain s1 where s1: "put x s = Some s1" "repr m s1 (xs @ [x])" "\<forall>y. fresh s y \<and> y \<noteq> x \<longrightarrow> fresh s1 y"
      using put_law [of m s xs x] Cons.prems by (auto simp: Put m)
    have "\<forall>y \<in> U. y \<in> set (xs @ [x]) \<or> fresh s1 y" using Cons.prems(2) s1(3) by auto
    from Cons.IH [OF s1(2) this] Cons.prems show ?thesis by (simp add: Put m s1(1))
  next
    case Get
    show ?thesis
    proof (cases xs)
      case Nil
      obtain s1 where s1: "get s = Some (None, s1)" "repr m s1 []" "\<forall>y. fresh s y \<longrightarrow> fresh s1 y"
        using get_empty_law [of m s] Cons.prems by (auto simp: m Nil)
      have "\<forall>y \<in> U. y \<in> set [] \<or> fresh s1 y" using Cons.prems(2) s1(3) by (simp add: Nil)
      from Cons.IH [OF s1(2) this] Cons.prems show ?thesis
        by (auto simp: Get m Nil s1(1) split: prod.splits)
    next
      case (Cons y ys)
      obtain s1 where s1: "get s = Some (Some y, s1)" "repr m s1 ys" "fresh s1 y" "\<forall>z. fresh s z \<longrightarrow> fresh s1 z"
        using get_law [of m s y ys] Cons.prems by (auto simp: m Cons)
      have "\<forall>z \<in> U. z \<in> set ys \<or> fresh s1 z" using Cons.prems(2) s1(3,4) by (auto simp: Cons)
      from Cons.IH [OF s1(2) this] Cons.prems show ?thesis
        by (auto simp: Get m Cons s1(1) split: prod.splits)
    qed
  qed
qed simp

end

section \<open>The kernel-style list as a queue\<close>

text \<open>The idiom of taking the first entry: \<open>cm_list_del_item(head->next)\<close> unless the list is
  empty.\<close>

definition cm_list_take :: "addr \<Rightarrow> lheap \<Rightarrow> (addr option \<times> lheap) option" where
  "cm_list_take head h = do {
     n \<leftarrow> get_next head h;
     if n = head then Some (None, h) else do { h \<leftarrow> cm_list_del_item n h; Some (Some n, h) }
   }"

lemma cm_list_put_law:
  assumes "lring h head xs" and "x \<in> dom h" and "x \<noteq> head" and "x \<notin> set xs"
  shows "\<exists>h'. cm_list_add_tail x head h = Some h' \<and> lring h' head (xs @ [x]) \<and> dom h' = dom h"
  using cm_list_add_tail_ring [OF assms(1,2)] assms(3,4) by (metis insert_iff)

lemma cm_list_take_law:
  assumes "lring h head (x # xs)"
  shows "\<exists>h'. cm_list_take head h = Some (Some x, h') \<and> lring h' head xs \<and> dom h' = dom h \<and> x \<noteq> head \<and> x \<in> dom h"
proof -
  obtain h' where "cm_list_del_item x h = Some h'" "dom h' = dom h" "lring h' head xs"
    by (rule cm_list_del_item_ring [of h head "[]" x xs]) (use assms in simp_all)
  moreover have "get_next head h = Some x" using lring_dom [OF assms, of head] assms
    by (auto simp: lring_def ring_simps)
  moreover have "x \<noteq> head" "x \<in> dom h" using lring_distinct [OF assms] lring_dom [OF assms, of x] by auto
  ultimately show ?thesis by (simp add: cm_list_take_def)
qed

lemma cm_list_take_empty:
  "lring h head [] \<Longrightarrow> cm_list_take head h = Some (None, h)"
  using lring_dom [of h head "[]" head] by (auto simp: cm_list_take_def lring_def ring_simps)

interpretation cm_list: fifo "\<lambda>x. cm_list_add_tail x head" "cm_list_take head"
  "\<lambda>_ h xs. lring h head xs" "\<lambda>h x. x \<in> dom h \<and> x \<noteq> head" for head
proof unfold_locales
  fix h xs x assume "lring h head xs" "x \<in> dom h \<and> x \<noteq> head" "x \<notin> set xs"
  then show "\<exists>s'. cm_list_add_tail x head h = Some s' \<and> lring s' head (xs @ [x]) \<and>
      (\<forall>y. (y \<in> dom h \<and> y \<noteq> head) \<and> y \<noteq> x \<longrightarrow> y \<in> dom s' \<and> y \<noteq> head)"
    using cm_list_put_law [of h head xs x] by auto
next
  fix h x xs assume "lring h head (x # xs)"
  then show "\<exists>s'. cm_list_take head h = Some (Some x, s') \<and> lring s' head xs \<and>
      (x \<in> dom s' \<and> x \<noteq> head) \<and> (\<forall>y. y \<in> dom h \<and> y \<noteq> head \<longrightarrow> y \<in> dom s' \<and> y \<noteq> head)"
    using cm_list_take_law [of h head x xs] by auto
next
  fix h assume "lring h head []"
  then show "\<exists>s'. cm_list_take head h = Some (None, s') \<and> lring s' head [] \<and>
      (\<forall>y. y \<in> dom h \<and> y \<noteq> head \<longrightarrow> y \<in> dom s' \<and> y \<noteq> head)"
    using cm_list_take_empty [of h head] by auto
qed

section \<open>The re list as a queue\<close>

definition re_list_take :: "addr \<Rightarrow> re_mem \<Rightarrow> (addr option \<times> re_mem) option" where
  "re_list_take l m = do {
     a \<leftarrow> list_head l m;
     if a = NULL then Some (None, m) else do { m \<leftarrow> list_unlink a m; Some (Some a, m) }
   }"

lemma free_le_outside: "outside_same l S m m' \<Longrightarrow> y \<notin> S \<Longrightarrow> free_le m y \<Longrightarrow> free_le m' y"
  by (simp add: outside_same_def free_le_def owned_def)

interpretation re_list: fifo "\<lambda>x. list_append l x (data x)" "re_list_take l"
  "\<lambda>_ m xs. rlist m l xs" free_le for l data
proof unfold_locales
  fix m xs x assume a: "rlist m l xs" "free_le m x" "x \<notin> set xs"
  obtain m' where "list_append l x (data x) m = Some m'" "rlist m' l (xs @ [x])" "outside_same l (insert x (set xs)) m m'"
    by (rule list_append_rlist [OF a(1,2)]) blast
  moreover have "\<forall>y. free_le m y \<and> y \<noteq> x \<longrightarrow> free_le m' y"
    using free_le_outside [OF calculation(3)] free_not_in [OF a(1)] by (metis insert_iff)
  ultimately show "\<exists>s'. list_append l x (data x) m = Some s' \<and> rlist s' l (xs @ [x]) \<and>
      (\<forall>y. free_le m y \<and> y \<noteq> x \<longrightarrow> free_le s' y)" by blast
next
  fix m x xs assume a: "rlist m l (x # xs)"
  obtain m' where m': "list_unlink x m = Some m'" "rlist m' l xs" "free_le m' x" "outside_same l (set (x # xs)) m m'"
    by (rule list_unlink_rlist [of m l "[]" x xs]) (use a in simp_all)
  have "x \<noteq> NULL" "l \<noteq> NULL" using rlist_distinct [OF a] a by (auto simp: rlist_def)
  then have "re_list_take l m = Some (Some x, m')" using rlist_ends [OF a] m'(1)
    by (simp add: re_list_take_def list_head_def)
  moreover have "\<forall>y. free_le m y \<longrightarrow> free_le m' y"
    using free_le_outside [OF m'(4)] free_not_in [OF a] by blast
  ultimately show "\<exists>s'. re_list_take l m = Some (Some x, s') \<and> rlist s' l xs \<and> free_le s' x \<and>
      (\<forall>y. free_le m y \<longrightarrow> free_le s' y)" using m' by blast
next
  fix m assume a: "rlist m l []"
  then have "l \<noteq> NULL" by (simp add: rlist_def)
  with rlist_ends [OF a] have "re_list_take l m = Some (None, m)"
    by (simp add: re_list_take_def list_head_def)
  with a show "\<exists>s'. re_list_take l m = Some (None, s') \<and> rlist s' l [] \<and> (\<forall>y. free_le m y \<longrightarrow> free_le s' y)"
    by blast
qed

end
