(* ===== verification/XnQueue.thy ===== *)
theory XnQueue
  imports Fifo
begin

text \<open>
  The element queue of src/common/XN_Queue.h. A queue is known by the address of its head element
  (the first member of \<open>XN_QueHead\<close>); \<open>qmem\<close> holds the two pointers of every element and of the
  heads, \<open>heads\<close> the other members of each head. The counters are C \<open>int\<close>s: a step that would
  leave their range is \<open>None\<close>. Taking a mutex that the thread already holds, or that was
  destroyed, does not return (\<open>None\<close>); destroying a held mutex is undefined.
\<close>

datatype mutex = Free | Held | Gone

record XN_QueHead =
  num :: int
  cur :: int
  mut :: mutex

record xn =
  qmem :: lheap
  heads :: "addr \<rightharpoonup> XN_QueHead"

definition upd_head :: "addr \<Rightarrow> (XN_QueHead \<Rightarrow> XN_QueHead) \<Rightarrow> xn \<Rightarrow> xn option" where
  "upd_head q f s = (case heads s q of None \<Rightarrow> None | Some h \<Rightarrow> Some (s\<lparr>heads := (heads s)(q \<mapsto> f h)\<rparr>))"

definition on_mem :: "(lheap \<Rightarrow> lheap option) \<Rightarrow> xn \<Rightarrow> xn option" where
  "on_mem f s = do { m \<leftarrow> f (qmem s); Some (s\<lparr>qmem := m\<rparr>) }"

definition XN_QueueLock :: "addr \<Rightarrow> xn \<Rightarrow> xn option" where
  "XN_QueueLock q s = do {
     h \<leftarrow> heads s q;
     if mut h = Free then upd_head q (\<lambda>h. h\<lparr>mut := Held\<rparr>) s else None
   }"

definition XN_QueueUnlock :: "addr \<Rightarrow> xn \<Rightarrow> xn option" where
  "XN_QueueUnlock q s = upd_head q (\<lambda>h. h\<lparr>mut := Free\<rparr>) s"

definition XN_QueueInit :: "addr \<Rightarrow> xn \<Rightarrow> xn option" where
  "XN_QueueInit q s = do {
     s \<leftarrow> upd_head q (\<lambda>h. h\<lparr>mut := Free, num := 0, cur := - 1\<rparr>) s;
     s \<leftarrow> on_mem (set_next q q) s;
     on_mem (set_prev q q) s
   }"

definition pthread_mutex_destroy :: "addr \<Rightarrow> xn \<Rightarrow> xn option" where
  "pthread_mutex_destroy q s = do {
     h \<leftarrow> heads s q;
     if mut h = Free then upd_head q (\<lambda>h. h\<lparr>mut := Gone\<rparr>) s else None
   }"

definition XN_QueueDestroy :: "addr \<Rightarrow> xn \<Rightarrow> xn option" where
  "XN_QueueDestroy q s = do {
     s \<leftarrow> XN_QueueLock q s;
     s \<leftarrow> pthread_mutex_destroy q s;
     s \<leftarrow> upd_head q (\<lambda>h. h\<lparr>num := 0\<rparr>) s;
     s \<leftarrow> on_mem (set_next q q) s;
     on_mem (set_prev q q) s
   }"

definition XN_QueueGet :: "addr \<Rightarrow> xn \<Rightarrow> (addr \<times> xn) option" where
  "XN_QueueGet q s = do {
     s \<leftarrow> XN_QueueLock q s;
     handle \<leftarrow> get_next q (qmem s);
     (handle, s) \<leftarrow>
       (if handle = q then do {
          s \<leftarrow> upd_head q (\<lambda>h. h\<lparr>num := 0, cur := - 1\<rparr>) s;
          Some (NULL, s)
        } else do {
          h \<leftarrow> heads s q;
          n \<leftarrow> c_int (num h - 1);
          c \<leftarrow> c_int (cur h - 1);
          s \<leftarrow> upd_head q (\<lambda>h. h\<lparr>num := n, cur := c\<rparr>) s;
          next \<leftarrow> get_next handle (qmem s);
          s \<leftarrow> on_mem (set_next q next) s;
          next \<leftarrow> get_next handle (qmem s);
          s \<leftarrow> on_mem (set_prev next q) s;
          Some (handle, s)
        });
     s \<leftarrow> XN_QueueUnlock q s;
     Some (handle, s)
   }"

text \<open>The search loop of \<open>XN_QueueGetIndex\<close>; its result says whether it stopped at the index (then
  \<open>cur\<close> is counted up). It ends at the latest when \<open>start++\<close> overflows.\<close>

function get_index_loop :: "lheap \<Rightarrow> int \<Rightarrow> addr \<Rightarrow> int \<Rightarrow> (addr \<times> bool) option" where
  "get_index_loop m indx handle start =
     (if handle = NULL then Some (handle, False)
      else case get_next handle m of
        None \<Rightarrow> None
      | Some n \<Rightarrow>
          if n = NULL then Some (handle, False)
          else if start = indx then Some (handle, True)
          else if start + 1 < 2 ^ 31 then get_index_loop m indx n (start + 1) else None)"
  by pat_completeness auto
termination by (relation "measure (\<lambda>(m, indx, handle, start). nat (2 ^ 31 - start))") auto

declare get_index_loop.simps [simp del]

definition XN_QueueGetIndex :: "addr \<Rightarrow> int \<Rightarrow> xn \<Rightarrow> (addr \<times> xn) option" where
  "XN_QueueGetIndex q indx s = do {
     s \<leftarrow> XN_QueueLock q s;
     h \<leftarrow> heads s q;
     indx \<leftarrow> (if indx = - 1 then c_int (cur h + 1) else Some indx);
     handle \<leftarrow> get_next q (qmem s);
     (handle, s) \<leftarrow>
       (if handle = q then do { s \<leftarrow> upd_head q (\<lambda>h. h\<lparr>num := 0\<rparr>) s; Some (NULL, s) }
        else if num h \<le> indx then Some (NULL, s)
        else do {
          (handle, found) \<leftarrow> get_index_loop (qmem s) indx handle 0;
          s \<leftarrow> (if found then do { c \<leftarrow> c_int (cur h + 1); upd_head q (\<lambda>h. h\<lparr>cur := c\<rparr>) s } else Some s);
          Some (handle, s)
        });
     s \<leftarrow> XN_QueueUnlock q s;
     Some (handle, s)
   }"

text \<open>The statements that link \<open>handle\<close> in before the head and count it.\<close>

definition put_links :: "addr \<Rightarrow> addr \<Rightarrow> xn \<Rightarrow> xn option" where
  "put_links q handle s = do {
     p \<leftarrow> get_prev q (qmem s);
     s \<leftarrow> on_mem (set_next p handle) s;
     p \<leftarrow> get_prev q (qmem s);
     s \<leftarrow> on_mem (set_prev handle p) s;
     s \<leftarrow> on_mem (set_prev q handle) s;
     s \<leftarrow> on_mem (set_next handle q) s;
     h \<leftarrow> heads s q;
     n \<leftarrow> c_int (num h + 1);
     upd_head q (\<lambda>h. h\<lparr>num := n\<rparr>) s
   }"

definition XN_QueuePut :: "addr \<Rightarrow> addr \<Rightarrow> xn \<Rightarrow> xn option" where
  "XN_QueuePut q handle s = do {
     s \<leftarrow> XN_QueueLock q s;
     s \<leftarrow> put_links q handle s;
     XN_QueueUnlock q s
   }"

text \<open>The condition of \<open>XN_QueuePutTail\<close> is an assignment of \<open>&head->elem\<close>, true unless that is
  NULL; the other branch would then follow a NULL pointer.\<close>

definition XN_QueuePutTail :: "addr \<Rightarrow> addr \<Rightarrow> xn \<Rightarrow> xn option" where
  "XN_QueuePutTail q handle s = do {
     s \<leftarrow> XN_QueueLock q s;
     inhandle \<leftarrow> get_next q (qmem s);
     let inhandle = q;
     s \<leftarrow> (if inhandle \<noteq> NULL then put_links q handle s else None);
     XN_QueueUnlock q s
   }"

definition XN_QueueIsEmpty :: "addr \<Rightarrow> xn \<Rightarrow> (int \<times> xn) option" where
  "XN_QueueIsEmpty q s = do {
     s \<leftarrow> XN_QueueLock q s;
     h \<leftarrow> heads s q;
     let empty = (if num h = 0 then 1 else 0);
     s \<leftarrow> XN_QueueUnlock q s;
     Some (empty, s)
   }"

definition XN_QueueGetNum :: "addr \<Rightarrow> xn \<Rightarrow> (int \<times> xn) option" where
  "XN_QueueGetNum q s = do {
     s \<leftarrow> XN_QueueLock q s;
     h \<leftarrow> heads s q;
     s \<leftarrow> XN_QueueUnlock q s;
     Some (num h, s)
   }"

definition XN_QueueMove :: "addr \<Rightarrow> addr \<Rightarrow> xn \<Rightarrow> xn option" where
  "XN_QueueMove dst src s = do {
     s \<leftarrow> XN_QueueLock src s;
     s \<leftarrow> XN_QueueLock dst s;
     elem1 \<leftarrow> get_next src (qmem s);
     s \<leftarrow> (if elem1 \<noteq> src then do {
             elem2 \<leftarrow> get_prev src (qmem s);
             p \<leftarrow> get_prev dst (qmem s);
             s \<leftarrow> on_mem (set_next p elem1) s;
             p \<leftarrow> get_prev dst (qmem s);
             s \<leftarrow> on_mem (set_prev elem1 p) s;
             s \<leftarrow> on_mem (set_prev dst elem2) s;
             s \<leftarrow> on_mem (set_next elem2 dst) s;
             s \<leftarrow> on_mem (set_prev src src) s;
             s \<leftarrow> on_mem (set_next src src) s;
             hd \<leftarrow> heads s dst;
             hs \<leftarrow> heads s src;
             n \<leftarrow> c_int (num hd + num hs);
             s \<leftarrow> upd_head dst (\<lambda>h. h\<lparr>num := n\<rparr>) s;
             upd_head src (\<lambda>h. h\<lparr>num := 0\<rparr>) s
           } else Some s);
     s \<leftarrow> XN_QueueUnlock src s;
     XN_QueueUnlock dst s
   }"

text \<open>\<open>XN_QueueGetWait\<close> expects the caller to hold the mutex; what the other threads do during the
  wait is an argument.\<close>

definition XN_QueueGetWait :: "(xn \<Rightarrow> xn) \<Rightarrow> addr \<Rightarrow> xn \<Rightarrow> (int \<times> xn) option" where
  "XN_QueueGetWait others q s = do {
     h \<leftarrow> heads s q;
     if mut h = Held then do {
       s \<leftarrow> XN_QueueUnlock q s;
       s \<leftarrow> XN_QueueLock q (others s);
       s \<leftarrow> XN_QueueUnlock q s;
       Some (0, s)
     } else None
   }"

section \<open>The queue as a sequence\<close>

text \<open>\<open>xqueue s q xs c\<close>: the queue with head \<open>q\<close> holds the elements \<open>xs\<close> in order, counts them
  right, has the read cursor \<open>c\<close> and a free mutex.\<close>

definition xqueue :: "xn \<Rightarrow> addr \<Rightarrow> addr list \<Rightarrow> int \<Rightarrow> bool" where
  "xqueue s q xs c = (q \<noteq> NULL \<and> NULL \<notin> set xs \<and> lring (qmem s) q xs \<and> int (length xs) < 2 ^ 31 \<and>
     - (2 ^ 31) \<le> c \<and> c < 2 ^ 31 \<and>
     heads s q = Some \<lparr>num = int (length xs), cur = c, mut = Free\<rparr>)"

lemmas xn_steps = XN_QueueLock_def XN_QueueUnlock_def upd_head_def on_mem_def

lemma xqueue_dom: "xqueue s q xs c \<Longrightarrow> a \<in> insert q (set xs) \<Longrightarrow> a \<in> dom (qmem s)"
  unfolding xqueue_def by (blast dest: lring_dom)

lemma put_links_queue:
  assumes r: "lring (qmem s) q xs" and x: "x \<in> dom (qmem s)" "x \<noteq> q" "x \<notin> set xs"
    and h: "heads s q = Some h" "c_int (num h + 1) = Some n"
  obtains m' where "put_links q x s = Some (s\<lparr>qmem := m', heads := (heads s)(q \<mapsto> h\<lparr>num := n\<rparr>)\<rparr>)"
    and "dom m' = dom (qmem s)" and "lring m' q (xs @ [x])" and "\<And>a. a \<notin> insert x (insert q (set xs)) \<Longrightarrow> m' a = qmem s a"
proof -
  define p where "p = before q xs"
  have p: "pv_of (qmem s) q = p" "p \<in> insert q (set xs)" "p \<in> dom (qmem s)" "q \<in> dom (qmem s)" "x \<noteq> p"
    using r before_in [of q xs] lring_dom [OF r] x by (auto simp: lring_def ring_simps p_def)
  obtain m1 where m1: "set_next p x (qmem s) = Some m1" "dom m1 = dom (qmem s)" "nx_of m1 = (nx_of (qmem s))(p := x)"
      "pv_of m1 = pv_of (qmem s)" "\<And>c. c \<noteq> p \<Longrightarrow> m1 c = qmem s c" by (rule set_next_E [OF p(3)]) blast
  obtain m2 where m2: "set_prev x p m1 = Some m2" "dom m2 = dom m1" "nx_of m2 = nx_of m1"
      "pv_of m2 = (pv_of m1)(x := p)" "\<And>c. c \<noteq> x \<Longrightarrow> m2 c = m1 c" by (rule set_prev_E [of x m1]) (use m1 x in auto)
  obtain m3 where m3: "set_prev q x m2 = Some m3" "dom m3 = dom m2" "nx_of m3 = nx_of m2"
      "pv_of m3 = (pv_of m2)(q := x)" "\<And>c. c \<noteq> q \<Longrightarrow> m3 c = m2 c" by (rule set_prev_E [of q m2]) (use m1 m2 p in auto)
  obtain m4 where m4: "set_next x q m3 = Some m4" "dom m4 = dom m3" "nx_of m4 = (nx_of m3)(x := q)"
      "pv_of m4 = pv_of m3" "\<And>c. c \<noteq> x \<Longrightarrow> m4 c = m3 c" by (rule set_next_E [of x m3]) (use m1 m2 m3 x in auto)
  have ring: "ring (nx_of m4) (pv_of m4) q (xs @ [x])"
  proof (rule ring_insert)
    show "ring (nx_of (qmem s)) (pv_of (qmem s)) q (xs @ [])" using r by (simp add: lring_def)
  qed (use x p(5) in \<open>auto simp: m1 m2 m3 m4 simp flip: p_def\<close>)
  have dom: "dom m4 = dom (qmem s)" by (simp add: m1(2) m2(2) m3(2) m4(2))
  have "insert q (set (xs @ [x])) \<subseteq> dom m4" using r x(1) unfolding dom by (auto simp: lring_def)
  with ring have "lring m4 q (xs @ [x])" by (simp add: lring_def)
  moreover have "get_prev q (qmem s) = Some p" "get_prev q m1 = Some p" using p m1(2,4) by simp_all
  then have "put_links q x s = Some (s\<lparr>qmem := m4, heads := (heads s)(q \<mapsto> h\<lparr>num := n\<rparr>)\<rparr>)"
    using h by (simp add: put_links_def on_mem_def upd_head_def m1(1) m2(1) m3(1) m4(1))
  moreover have "m4 a = qmem s a" if "a \<notin> insert x (insert q (set xs))" for a
    using that p(2) by (metis insert_iff m1(5) m2(5) m3(5) m4(5))
  ultimately show ?thesis using that dom by blast
qed

lemma XN_QueuePut_queue:
  assumes q: "xqueue s q xs c" and x: "x \<in> dom (qmem s)" "x \<noteq> NULL" "x \<noteq> q" "x \<notin> set xs"
    and len: "int (length xs) + 1 < 2 ^ 31"
  obtains s' where "XN_QueuePut q x s = Some s'" and "XN_QueuePutTail q x s = Some s'" and "xqueue s' q (xs @ [x]) c"
    and "dom (qmem s') = dom (qmem s)" and "\<And>a. a \<notin> insert x (insert q (set xs)) \<Longrightarrow> qmem s' a = qmem s a"
    and "\<And>p. p \<noteq> q \<Longrightarrow> heads s' p = heads s p"
proof -
  define s1 where "s1 = s\<lparr>heads := (heads s)(q \<mapsto> \<lparr>num = int (length xs), cur = c, mut = Held\<rparr>)\<rparr>"
  have l: "XN_QueueLock q s = Some s1" using q by (simp add: xqueue_def XN_QueueLock_def upd_head_def s1_def)
  obtain m' where m': "put_links q x s1 = Some (s1\<lparr>qmem := m', heads := (heads s1)(q \<mapsto> \<lparr>num = int (length xs) + 1, cur = c, mut = Held\<rparr>)\<rparr>)"
      "dom m' = dom (qmem s1)" "lring m' q (xs @ [x])" "\<And>a. a \<notin> insert x (insert q (set xs)) \<Longrightarrow> m' a = qmem s1 a"
    by (rule put_links_queue [of s1 q xs x "\<lparr>num = int (length xs), cur = c, mut = Held\<rparr>" "int (length xs) + 1"])
      (use q x len in \<open>auto simp: xqueue_def s1_def c_int_def\<close>)
  define s' where "s' = s\<lparr>qmem := m', heads := (heads s)(q \<mapsto> \<lparr>num = int (length xs) + 1, cur = c, mut = Free\<rparr>)\<rparr>"
  have "XN_QueuePut q x s = Some s'" using m'(1) l
    by (simp add: XN_QueuePut_def XN_QueueUnlock_def upd_head_def s'_def s1_def)
  moreover have "get_next q (qmem s1) = Some (nx_of (qmem s1) q)"
    using xqueue_dom [OF q, of q] by (simp add: s1_def)
  then have "XN_QueuePutTail q x s = Some s'" using m'(1) l q
    by (simp add: XN_QueuePutTail_def XN_QueueUnlock_def upd_head_def s'_def s1_def xqueue_def)
  moreover have "xqueue s' q (xs @ [x]) c" using q m' x len by (simp add: xqueue_def s'_def)
  ultimately show ?thesis using that m' by (simp add: s'_def s1_def)
qed

lemma XN_QueueGet_queue:
  assumes q: "xqueue s q (x # xs) c" and c: "- (2 ^ 31) < c"
  obtains s' where "XN_QueueGet q s = Some (x, s')" and "xqueue s' q xs (c - 1)"
    and "dom (qmem s') = dom (qmem s)" and "\<And>a. a \<notin> insert q (set xs) \<Longrightarrow> qmem s' a = qmem s a"
    and "\<And>p. p \<noteq> q \<Longrightarrow> heads s' p = heads s p"
proof -
  define s1 where "s1 = s\<lparr>heads := (heads s)(q \<mapsto> \<lparr>num = 1 + int (length xs), cur = c, mut = Held\<rparr>)\<rparr>"
  have l: "XN_QueueLock q s = Some s1" using q by (simp add: xqueue_def XN_QueueLock_def upd_head_def s1_def)
  define n where "n = after q xs"
  have r: "lring (qmem s) q (x # xs)" using q by (simp add: xqueue_def)
  have v: "nx_of (qmem s) q = x" "nx_of (qmem s) x = n" using r ring_next [of _ _ q "[]" x xs]
    by (auto simp: lring_def ring_simps n_def)
  have d: "q \<in> dom (qmem s)" "x \<in> dom (qmem s)" "n \<in> dom (qmem s)" "x \<noteq> q"
    using lring_dom [OF r] lring_distinct [OF r] after_in [of q xs] by (auto simp: n_def)
  obtain m1 where m1: "set_next q n (qmem s) = Some m1" "dom m1 = dom (qmem s)" "nx_of m1 = (nx_of (qmem s))(q := n)"
      "pv_of m1 = pv_of (qmem s)" "\<And>c. c \<noteq> q \<Longrightarrow> m1 c = qmem s c" by (rule set_next_E [OF d(1)]) blast
  obtain m2 where m2: "set_prev n q m1 = Some m2" "dom m2 = dom m1" "nx_of m2 = nx_of m1"
      "pv_of m2 = (pv_of m1)(n := q)" "\<And>c. c \<noteq> n \<Longrightarrow> m2 c = m1 c" by (rule set_prev_E [of n m1]) (use m1 d in auto)
  have "ring (nx_of m2) (pv_of m2) q ([] @ xs)"
  proof (rule ring_remove)
    show "ring (nx_of (qmem s)) (pv_of (qmem s)) q ([] @ x # xs)" using r by (simp add: lring_def)
  qed (auto simp: m1 m2 simp flip: n_def)
  moreover have "insert q (set xs) \<subseteq> dom m2" using r by (auto simp: lring_def m1(2) m2(2))
  ultimately have "lring m2 q xs" by (simp add: lring_def)
  moreover define s' where "s' = s\<lparr>qmem := m2, heads := (heads s)(q \<mapsto> \<lparr>num = int (length xs), cur = c - 1, mut = Free\<rparr>)\<rparr>"
  ultimately have x': "xqueue s' q xs (c - 1)" using q c by (simp add: xqueue_def)
  have "get_next q (qmem s1) = Some x" "get_next x (qmem s1) = Some n" "get_next x m1 = Some n"
    using d v m1(2,3) by (simp_all add: s1_def)
  then have "XN_QueueGet q s = Some (x, s')" using d(4) q c l
    by (simp add: XN_QueueGet_def XN_QueueUnlock_def upd_head_def on_mem_def xqueue_def s1_def s'_def
        c_int_def m1(1) m2(1))
  moreover have "qmem s' a = qmem s a" if "a \<notin> insert q (set xs)" for a
  proof -
    have "a \<noteq> n" "a \<noteq> q" using that after_in [of q xs] by (auto simp: n_def)
    then show ?thesis by (simp add: s'_def m2(5) m1(5))
  qed
  ultimately show ?thesis using that x' by (simp add: s'_def m1(2) m2(2))
qed

lemma XN_QueueGet_empty:
  assumes q: "xqueue s q [] c"
  obtains s' where "XN_QueueGet q s = Some (NULL, s')" and "xqueue s' q [] (- 1)" and "qmem s' = qmem s"
    and "\<And>p. p \<noteq> q \<Longrightarrow> heads s' p = heads s p"
proof -
  have "get_next q (qmem s) = Some q" using q lring_dom [of "qmem s" q "[]" q]
    by (auto simp: xqueue_def lring_def ring_simps)
  then show ?thesis
    using that [of "s\<lparr>heads := (heads s)(q \<mapsto> \<lparr>num = 0, cur = - 1, mut = Free\<rparr>)\<rparr>"] q
    by (simp add: XN_QueueGet_def xqueue_def XN_QueueLock_def XN_QueueUnlock_def upd_head_def)
qed

text \<open>The search loop finds an index inside the queue, and never ends well before its start.\<close>

lemma get_index_loop_found:
  assumes "lring m q xs" and "NULL \<notin> insert q (set xs)"
  shows "xs = us @ vs \<Longrightarrow> length us \<le> i \<Longrightarrow> i < length xs \<Longrightarrow> length xs < 2 ^ 31 \<Longrightarrow>
    get_index_loop m (int i) (after q vs) (int (length us)) = Some (xs ! i, True)"
proof (induction vs arbitrary: us)
  case (Cons v vs)
  have v: "v \<in> dom m" "v \<noteq> NULL" using lring_dom [OF assms(1), of v] assms(2) Cons.prems(1) by auto
  have "nx_of m v = after q vs" using assms(1) Cons.prems(1) by (auto simp: lring_def ring_simps)
  then have n: "get_next v m = Some (after q vs)" "after q vs \<noteq> NULL"
    using v(1) after_in [of q vs] assms(2) Cons.prems(1) by (simp, metis Un_iff insert_iff list.set(2) set_append)
  show ?case
  proof (cases "i = length us")
    case True
    then show ?thesis using v n Cons.prems by (simp add: get_index_loop.simps [of _ _ v])
  next
    case False
    then have "get_index_loop m (int i) (after q vs) (int (length (us @ [v]))) = Some (xs ! i, True)"
      using Cons.prems by (intro Cons.IH) auto
    moreover have "length (us @ [v]) < 2 ^ 31" using Cons.prems by simp
    ultimately show ?thesis using v n False by (subst get_index_loop.simps) (simp add: add.commute)
  qed
qed simp

lemma get_index_loop_lost:
  assumes "\<And>a. a \<in> D \<Longrightarrow> a \<noteq> NULL \<and> a \<in> dom m \<and> nx_of m a \<in> D"
  shows "a \<in> D \<Longrightarrow> indx < start \<Longrightarrow> get_index_loop m indx a start = None"
proof (induction "nat (2 ^ 31 - start)" arbitrary: a start rule: less_induct)
  case less
  have a: "a \<noteq> NULL" "get_next a m = Some (nx_of m a)" "nx_of m a \<noteq> NULL" "nx_of m a \<in> D"
    using assms [OF less.prems(1)] assms [of "nx_of m a"] by auto
  have "get_index_loop m indx (nx_of m a) (start + 1) = None" if "start + 1 < 2 ^ 31"
    by (rule less.hyps) (use a(4) less.prems(2) that in auto)
  then show ?case using a less.prems(2) by (subst get_index_loop.simps) simp
qed

text \<open>The set a walk over the ring stays in.\<close>

lemma ring_closed:
  assumes "xqueue s q xs c" and "a \<in> insert q (set xs)"
  shows "a \<noteq> NULL \<and> a \<in> dom (qmem s) \<and> nx_of (qmem s) a \<in> insert q (set xs)"
proof -
  have r: "lring (qmem s) q xs" using assms(1) by (simp add: xqueue_def)
  have "nx_of (qmem s) a \<in> insert q (set xs)"
  proof (cases "a = q")
    case True
    then show ?thesis using r after_in [of q xs] by (auto simp: lring_def ring_simps)
  next
    case False
    with assms(2) obtain us vs where "xs = us @ a # vs" by (auto simp: in_set_conv_decomp)
    then show ?thesis using r after_in [of q vs] by (auto simp: lring_def ring_simps)
  qed
  moreover have "a \<noteq> NULL" using assms by (metis insert_iff xqueue_def)
  ultimately show ?thesis using xqueue_dom [OF assms] by blast
qed

text \<open>The pointer part of \<open>XN_QueueMove\<close> for a source that is not empty.\<close>

lemma splice_ring:
  assumes d: "ring nx pv dst xs" and r: "ring nx pv src ys" and ys: "ys \<noteq> []"
    and dist: "distinct (dst # src # xs @ ys)"
    and nx': "nx' = nx(before dst xs := hd ys, last ys := dst, src := src)"
    and pv': "pv' = pv(hd ys := before dst xs, dst := last ys, src := src)"
  shows "ring nx' pv' dst (xs @ ys) \<and> ring nx' pv' src []"
proof -
  have hl: "hd ys \<in> set ys" "last ys \<in> set ys" using ys by simp_all
  have b: "before dst xs \<in> insert dst (set xs)" by (rule before_in)
  have cd: "chain nx pv (dst # xs)" using d ring_split [of nx pv dst xs "[]"] by simp
  have cs: "chain nx pv ys" using r ring_split [of nx pv src "[]" ys] chain_snoc [OF ys, of nx pv src] by simp
  have "chain nx' pv' (dst # xs) = chain nx pv (dst # xs)"
  proof (rule chain_cong)
    fix a assume a: "a \<in> set (butlast (dst # xs))"
    then have "a \<in> insert dst (set xs)" by (metis in_set_butlastD list.set(2))
    moreover have "before dst xs \<notin> set (butlast (dst # xs))"
      using dist by (cases xs rule: rev_cases) (auto simp: before_def)
    ultimately show "nx' a = nx a" using a dist hl by (auto simp: nx')
  qed (use dist hl in \<open>auto simp: pv'\<close>)
  moreover have "chain nx' pv' ys = chain nx pv ys"
  proof (rule chain_cong)
    fix a assume a: "a \<in> set (butlast ys)"
    then have "a \<in> set ys" by (rule in_set_butlastD)
    moreover have "last ys \<notin> set (butlast ys)" using dist ys
      by (metis append_butlast_last_id disjoint_iff distinct.simps(2) distinct_append in_set_conv_decomp list.set_intros(1) not_distinct_conv_prefix)
    ultimately show "nx' a = nx a" using a dist b by (auto simp: nx')
  next
    fix a assume a: "a \<in> set (tl ys)"
    then have "a \<in> set ys" "a \<noteq> hd ys" using dist ys by (cases ys; auto)+
    then show "pv' a = pv a" using dist by (auto simp: pv')
  qed
  moreover have "before dst xs \<noteq> last ys" "before dst xs \<noteq> src" "hd ys \<noteq> dst" "hd ys \<noteq> src" "last ys \<noteq> src"
    using b hl dist by auto
  moreover have "after dst ys = hd ys" using ys by (cases ys) auto
  ultimately show ?thesis
    using cd cs dist chain_snoc [OF ys, of nx' pv' dst] by (auto simp: ring_split ring_nil nx' pv')
qed

lemma XN_QueueMove_mem:
  assumes d: "lring m dst xs" and r: "lring m src ys" and ys: "ys \<noteq> []"
    and dist: "distinct (dst # src # xs @ ys)"
  obtains m1 m2 m3 m4 m5 m6 p where "get_prev src m = Some (last ys)" and "get_prev dst m = Some p"
    and "set_next p (hd ys) m = Some m1" and "get_prev dst m1 = Some p" and "set_prev (hd ys) p m1 = Some m2"
    and "set_prev dst (last ys) m2 = Some m3" and "set_next (last ys) dst m3 = Some m4"
    and "set_prev src src m4 = Some m5" and "set_next src src m5 = Some m6"
    and "dom m6 = dom m" and "lring m6 dst (xs @ ys)" and "lring m6 src []"
proof -
  define p where "p = before dst xs"
  have "before src ys = last ys" using ys by (simp add: before_def)
  then have v: "pv_of m src = last ys" "pv_of m dst = p" using d r by (auto simp: lring_def ring_simps p_def)
  have dm: "dst \<in> dom m" "src \<in> dom m" "p \<in> dom m" "hd ys \<in> dom m" "last ys \<in> dom m"
    using lring_dom [OF d] lring_dom [OF r] before_in [of dst xs] ys by (auto simp: p_def)
  obtain m1 where m1: "set_next p (hd ys) m = Some m1" "dom m1 = dom m" "nx_of m1 = (nx_of m)(p := hd ys)"
      "pv_of m1 = pv_of m" by (rule set_next_E [OF dm(3)]) blast
  obtain m2 where m2: "set_prev (hd ys) p m1 = Some m2" "dom m2 = dom m1" "nx_of m2 = nx_of m1"
      "pv_of m2 = (pv_of m1)(hd ys := p)" by (rule set_prev_E [of "hd ys" m1]) (use m1 dm in auto)
  obtain m3 where m3: "set_prev dst (last ys) m2 = Some m3" "dom m3 = dom m2" "nx_of m3 = nx_of m2"
      "pv_of m3 = (pv_of m2)(dst := last ys)" by (rule set_prev_E [of dst m2]) (use m1 m2 dm in auto)
  obtain m4 where m4: "set_next (last ys) dst m3 = Some m4" "dom m4 = dom m3" "nx_of m4 = (nx_of m3)(last ys := dst)"
      "pv_of m4 = pv_of m3" by (rule set_next_E [of "last ys" m3]) (use m1 m2 m3 dm in auto)
  obtain m5 where m5: "set_prev src src m4 = Some m5" "dom m5 = dom m4" "nx_of m5 = nx_of m4"
      "pv_of m5 = (pv_of m4)(src := src)" by (rule set_prev_E [of src m4]) (use m1 m2 m3 m4 dm in auto)
  obtain m6 where m6: "set_next src src m5 = Some m6" "dom m6 = dom m5" "nx_of m6 = (nx_of m5)(src := src)"
      "pv_of m6 = pv_of m5" by (rule set_next_E [of src m5]) (use m1 m2 m3 m4 m5 dm in auto)
  have dom: "dom m6 = dom m" by (simp add: m1(2) m2(2) m3(2) m4(2) m5(2) m6(2))
  have "ring (nx_of m6) (pv_of m6) dst (xs @ ys) \<and> ring (nx_of m6) (pv_of m6) src []"
    by (rule splice_ring [of "nx_of m" "pv_of m" _ _ _ ys])
      (use d r ys dist in \<open>simp_all add: lring_def m1 m2 m3 m4 m5 m6 flip: p_def\<close>)
  moreover have "insert dst (set (xs @ ys)) \<subseteq> dom m6" "src \<in> dom m6"
    using d r unfolding dom by (auto simp: lring_def)
  ultimately have "lring m6 dst (xs @ ys)" "lring m6 src []" by (simp_all add: lring_def)
  with that dom v dm m1 m2(1) m3(1) m4(1) m5(1) m6(1) show ?thesis by simp
qed

section \<open>The queue contract\<close>

text \<open>\<open>XN_QueueGet\<close> with its NULL result as \<open>None\<close>.\<close>

definition xn_take :: "addr \<Rightarrow> xn \<Rightarrow> (addr option \<times> xn) option" where
  "xn_take q s = do { (h, s) \<leftarrow> XN_QueueGet q s; Some (if h = NULL then None else Some h, s) }"

text \<open>\<open>n\<close> more operations cannot take a counter out of the range of \<open>int\<close>.\<close>

definition xn_repr :: "addr \<Rightarrow> nat \<Rightarrow> xn \<Rightarrow> addr list \<Rightarrow> bool" where
  "xn_repr q n s xs = (\<exists>c. xqueue s q xs c \<and> int (length xs) + int n < 2 ^ 31 \<and> int n - 2 ^ 31 \<le> c)"

definition xn_fresh :: "addr \<Rightarrow> xn \<Rightarrow> addr \<Rightarrow> bool" where
  "xn_fresh q s x = (x \<in> dom (qmem s) \<and> x \<noteq> NULL \<and> x \<noteq> q)"

interpretation xn: fifo "XN_QueuePut q" "xn_take q" "xn_repr q" "xn_fresh q" for q
proof unfold_locales
  fix n s xs x assume "xn_repr q (Suc n) s xs" and x: "xn_fresh q s x" "x \<notin> set xs"
  then obtain c where c: "xqueue s q xs c" "int (length xs) + int (Suc n) < 2 ^ 31" "int (Suc n) - 2 ^ 31 \<le> c"
    by (auto simp: xn_repr_def)
  obtain s' where s': "XN_QueuePut q x s = Some s'" "xqueue s' q (xs @ [x]) c" "dom (qmem s') = dom (qmem s)"
    by (rule XN_QueuePut_queue [OF c(1)]) (use x c(2) in \<open>auto simp: xn_fresh_def\<close>)
  have "xn_repr q n s' (xs @ [x])" unfolding xn_repr_def
    by (rule exI [of _ c]) (use s' c in auto)
  with s' show "\<exists>s'. XN_QueuePut q x s = Some s' \<and> xn_repr q n s' (xs @ [x]) \<and>
      (\<forall>y. xn_fresh q s y \<and> y \<noteq> x \<longrightarrow> xn_fresh q s' y)" by (auto simp: xn_fresh_def)
next
  fix n s x xs assume "xn_repr q (Suc n) s (x # xs)"
  then obtain c where c: "xqueue s q (x # xs) c" "int (length (x # xs)) + int (Suc n) < 2 ^ 31" "int (Suc n) - 2 ^ 31 \<le> c"
    by (auto simp: xn_repr_def)
  have "- (2 ^ 31) < c" using c(3) by simp
  then obtain s' where s': "XN_QueueGet q s = Some (x, s')" "xqueue s' q xs (c - 1)" "dom (qmem s') = dom (qmem s)"
    by (rule XN_QueueGet_queue [OF c(1)]) blast
  have "xn_repr q n s' xs" unfolding xn_repr_def
    by (rule exI [of _ "c - 1"]) (use s' c in auto)
  moreover have "x \<noteq> NULL" "x \<in> dom (qmem s)" "x \<noteq> q"
    using c(1) xqueue_dom [OF c(1), of x] lring_distinct [of "qmem s" q "x # xs"] by (auto simp: xqueue_def)
  ultimately show "\<exists>s'. xn_take q s = Some (Some x, s') \<and> xn_repr q n s' xs \<and> xn_fresh q s' x \<and>
      (\<forall>y. xn_fresh q s y \<longrightarrow> xn_fresh q s' y)" using s' by (simp add: xn_take_def xn_fresh_def)
next
  fix n s assume "xn_repr q (Suc n) s []"
  then obtain c where c: "xqueue s q [] c" "int (Suc n) < 2 ^ 31" by (auto simp: xn_repr_def)
  obtain s' where s': "XN_QueueGet q s = Some (NULL, s')" "xqueue s' q [] (- 1)" "qmem s' = qmem s"
    by (rule XN_QueueGet_empty [OF c(1)]) blast
  have "xn_repr q n s' []" unfolding xn_repr_def
    by (rule exI [of _ "- 1"]) (use s' c in auto)
  with s' show "\<exists>s'. xn_take q s = Some (None, s') \<and> xn_repr q n s' [] \<and> (\<forall>y. xn_fresh q s y \<longrightarrow> xn_fresh q s' y)"
    by (simp add: xn_take_def xn_fresh_def)
qed

lemma XN_QueueInit_queue:
  assumes "q \<noteq> NULL" and "q \<in> dom (qmem s)" and "q \<in> dom (heads s)"
  obtains s' where "XN_QueueInit q s = Some s'" and "xqueue s' q [] (- 1)" and "dom (qmem s') = dom (qmem s)"
proof -
  obtain a b u where h: "heads s q = Some \<lparr>num = a, cur = b, mut = u\<rparr>" using assms(3)
    by (metis (full_types) XN_QueHead.surjective domD old.unit.exhaust)
  obtain m1 where m1: "set_next q q (qmem s) = Some m1" "dom m1 = dom (qmem s)" "nx_of m1 = (nx_of (qmem s))(q := q)"
    by (rule set_next_E [OF assms(2)]) blast
  obtain m2 where m2: "set_prev q q m1 = Some m2" "dom m2 = dom m1" "nx_of m2 = nx_of m1" "pv_of m2 = (pv_of m1)(q := q)"
    by (rule set_prev_E [of q m1]) (use m1 assms in auto)
  show ?thesis
    by (rule that [of "s\<lparr>qmem := m2, heads := (heads s)(q \<mapsto> \<lparr>num = 0, cur = - 1, mut = Free\<rparr>)\<rparr>"])
      (use assms m1 m2 h in \<open>simp_all add: XN_QueueInit_def upd_head_def on_mem_def xqueue_def lring_def ring_def\<close>)
qed

text \<open>C25: Refinement to a mathematical queue: from an initialised queue, any history of
  \<open>XN_QueuePut\<close> and \<open>XN_QueueGet\<close> calls (of fewer than \<open>2 ^ 31\<close> calls, on elements that are not
  queued when they are put) returns the elements in the order they were put, NULL when the queue is
  empty, never fails, and leaves \<open>XN_QueueGetNum\<close> and \<open>XN_QueueIsEmpty\<close> right.\<close>

theorem XN_queue_history:
  assumes "q \<noteq> NULL" and "q \<in> dom (qmem s) \<inter> dom (heads s)"
    and "U \<subseteq> dom (qmem s) - {NULL, q}" and "fair_ops U ops []" and "int (length ops) < 2 ^ 31"
  shows "\<exists>s0 s'. XN_QueueInit q s = Some s0 \<and>
           run_ops (XN_QueuePut q) (xn_take q) ops s0 = Some (fst (spec_ops ops []), s') \<and>
           XN_QueueGetNum q s' = Some (int (length (snd (spec_ops ops []))), s') \<and>
           XN_QueueIsEmpty q s' = Some (if snd (spec_ops ops []) = [] then 1 else 0, s')"
proof -
  obtain s0 where s0: "XN_QueueInit q s = Some s0" "xqueue s0 q [] (- 1)" "dom (qmem s0) = dom (qmem s)"
    by (rule XN_QueueInit_queue [of q s]) (use assms(1,2) in auto)
  have "xn_repr q (length ops) s0 []" unfolding xn_repr_def
    by (rule exI [of _ "- 1"]) (use s0(2) assms(5) in auto)
  moreover have "\<forall>x \<in> U. x \<in> set [] \<or> xn_fresh q s0 x" using assms(3) s0(3) by (auto simp: xn_fresh_def)
  ultimately obtain s' where s': "run_ops (XN_QueuePut q) (xn_take q) ops s0 = Some (fst (spec_ops ops []), s')"
      "xn_repr q 0 s' (snd (spec_ops ops []))"
    using xn.history [of q "length ops" s0 "[]" U ops] assms(4) by auto
  then obtain c where "xqueue s' q (snd (spec_ops ops [])) c" by (auto simp: xn_repr_def)
  then have h: "heads s' q = Some \<lparr>num = int (length (snd (spec_ops ops []))), cur = c, mut = Free\<rparr>"
    by (simp add: xqueue_def)
  have "s'\<lparr>heads := (heads s')(q \<mapsto> \<lparr>num = int (length (snd (spec_ops ops []))), cur = c, mut = Free\<rparr>)\<rparr> = s'"
    by (simp add: h fun_upd_idem)
  with h have "XN_QueueGetNum q s' = Some (int (length (snd (spec_ops ops []))), s')"
    "XN_QueueIsEmpty q s' = Some (if snd (spec_ops ops []) = [] then 1 else 0, s')"
    by (simp_all add: XN_QueueGetNum_def XN_QueueIsEmpty_def XN_QueueLock_def XN_QueueUnlock_def upd_head_def)
  with s0 s' show ?thesis by blast
qed

text \<open>C26: \<open>XN_QueueMove\<close> appends the whole source to the destination in order, leaves the source
  empty, and keeps both counters right and both mutexes free; moving a queue onto itself never
  returns, because its second lock waits for its first.\<close>

theorem XN_QueueMove_appends:
  assumes "xqueue s dst xs c" and "xqueue s src ys d" and "distinct (dst # src # xs @ ys)"
    and "int (length xs) + int (length ys) < 2 ^ 31"
  shows "(\<exists>s'. XN_QueueMove dst src s = Some s' \<and> xqueue s' dst (xs @ ys) c \<and> xqueue s' src [] d) \<and>
         XN_QueueMove dst dst s = None"
proof
  have h: "heads s dst = Some \<lparr>num = int (length xs), cur = c, mut = Free\<rparr>"
      "heads s src = Some \<lparr>num = int (length ys), cur = d, mut = Free\<rparr>" "dst \<noteq> src" "src \<noteq> dst"
    using assms by (auto simp: xqueue_def)
  have r: "lring (qmem s) dst xs" "lring (qmem s) src ys" using assms by (simp_all add: xqueue_def)
  have e1: "get_next src (qmem s) = Some (after src ys)"
    using r(2) lring_dom [OF r(2), of src] by (auto simp: lring_def ring_simps)
  define H where "H = (heads s)(src \<mapsto> \<lparr>num = 0, cur = d, mut = Free\<rparr>,
      dst \<mapsto> \<lparr>num = int (length xs) + int (length ys), cur = c, mut = Free\<rparr>)"
  show "\<exists>s'. XN_QueueMove dst src s = Some s' \<and> xqueue s' dst (xs @ ys) c \<and> xqueue s' src [] d"
  proof (cases "ys = []")
    case True
    have "XN_QueueMove dst src s = Some (s\<lparr>heads := H\<rparr>)" using h e1 True
      by (auto simp: XN_QueueMove_def XN_QueueLock_def XN_QueueUnlock_def upd_head_def H_def fun_eq_iff intro!: xn.equality)
    moreover have "xqueue (s\<lparr>heads := H\<rparr>) dst (xs @ ys) c" "xqueue (s\<lparr>heads := H\<rparr>) src [] d"
      using assms(1,2) True h by (simp_all add: xqueue_def H_def)
    ultimately show ?thesis by blast
  next
    case False
    then have e1': "get_next src (qmem s) = Some (hd ys)" "hd ys \<noteq> src" using e1 assms(3) by (cases ys; auto)+
    obtain m1 m2 m3 m4 m5 m6 p where
      m: "get_prev src (qmem s) = Some (last ys)" "get_prev dst (qmem s) = Some p"
        "set_next p (hd ys) (qmem s) = Some m1" "get_prev dst m1 = Some p" "set_prev (hd ys) p m1 = Some m2"
        "set_prev dst (last ys) m2 = Some m3" "set_next (last ys) dst m3 = Some m4"
        "set_prev src src m4 = Some m5" "set_next src src m5 = Some m6"
        "dom m6 = dom (qmem s)" "lring m6 dst (xs @ ys)" "lring m6 src []"
      by (rule XN_QueueMove_mem [OF r False assms(3)])
    have "XN_QueueMove dst src s = Some (s\<lparr>qmem := m6, heads := H\<rparr>)" using h e1' m(1-9) assms(4)
      by (simp add: XN_QueueMove_def XN_QueueLock_def XN_QueueUnlock_def upd_head_def on_mem_def H_def c_int_def
          fun_upd_twist [of src dst])
    moreover have "xqueue (s\<lparr>qmem := m6, heads := H\<rparr>) dst (xs @ ys) c" "xqueue (s\<lparr>qmem := m6, heads := H\<rparr>) src [] d"
      using assms m(11,12) h by (auto simp: xqueue_def H_def)
    ultimately show ?thesis by blast
  qed
  show "XN_QueueMove dst dst s = None" using h(1)
    by (simp add: XN_QueueMove_def XN_QueueLock_def upd_head_def)
qed

text \<open>\<open>XN_QueueGetIndex\<close> reads without removing: an index inside the queue gives that element
  and an index past it gives NULL; \<open>-1\<close> means the position behind the cursor, so repeated calls
  from the initial cursor walk through the queue. Every successful read moves the cursor on, also
  one with an explicit index.\<close>

theorem XN_QueueGetIndex_reads:
  assumes "xqueue s q xs c" and "c + 1 < 2 ^ 31" and "i = (if indx = - 1 then c + 1 else indx)" and "0 \<le> i"
  shows "\<exists>s'. XN_QueueGetIndex q indx s = Some (if nat i < length xs then xs ! nat i else NULL, s') \<and>
           xqueue s' q xs (if nat i < length xs then c + 1 else c)"
proof -
  have h: "heads s q = Some \<lparr>num = int (length xs), cur = c, mut = Free\<rparr>" "- (2 ^ 31) \<le> c" "q \<noteq> NULL"
      "NULL \<notin> set xs" "length xs < 2 ^ 31"
    using assms by (auto simp: xqueue_def)
  have r: "lring (qmem s) q xs" using assms by (simp add: xqueue_def)
  have e1: "get_next q (qmem s) = Some (after q xs)"
    using r lring_dom [OF r, of q] by (auto simp: lring_def ring_simps)
  define s1 where "s1 = s\<lparr>heads := (heads s)(q \<mapsto> \<lparr>num = int (length xs), cur = c, mut = Held\<rparr>)\<rparr>"
  have l: "XN_QueueLock q s = Some s1" using h by (simp add: XN_QueueLock_def upd_head_def s1_def)
  have ix: "c_int (c + 1) = Some (c + 1)" "indx = - 1 \<Longrightarrow> i = c + 1" "indx \<noteq> - 1 \<Longrightarrow> i = indx"
    using assms(2,3) h(2) by (simp_all add: c_int_def)
  define s' where "s' = s\<lparr>heads := (heads s)(q \<mapsto> \<lparr>num = int (length xs), cur = (if nat i < length xs then c + 1 else c), mut = Free\<rparr>)\<rparr>"
  have x': "xqueue s' q xs (if nat i < length xs then c + 1 else c)" using assms(1,2) by (auto simp: xqueue_def s'_def)
  consider "xs = []" | "xs \<noteq> []" "int (length xs) \<le> i" | "xs \<noteq> []" "i < int (length xs)" by linarith
  then have "XN_QueueGetIndex q indx s = Some (if nat i < length xs then xs ! nat i else NULL, s')"
  proof cases
    case 1
    then show ?thesis using h(1) e1 l ix
      by (cases "indx = - 1") (simp_all add: XN_QueueGetIndex_def XN_QueueUnlock_def upd_head_def s1_def s'_def)
  next
    case 2
    have "after q xs \<noteq> q" "\<not> nat i < length xs" using 2 lring_distinct [OF r] by (cases xs; auto)+
    with 2 show ?thesis using h(1) e1 l ix assms(4)
      by (cases "indx = - 1") (simp_all add: XN_QueueGetIndex_def XN_QueueUnlock_def upd_head_def s1_def s'_def)
  next
    case 3
    have "after q xs \<noteq> q" using 3(1) lring_distinct [OF r] by (cases xs) auto
    moreover have "nat i < length xs" "int (nat i) = i" using 3(2) assms(4) by auto
    moreover have "get_index_loop (qmem s) (int (nat i)) (after q xs) 0 = Some (xs ! nat i, True)"
      using get_index_loop_found [OF r, of "[]" xs "nat i"] h calculation(2) by simp
    ultimately show ?thesis using 3 h(1) e1 l ix assms(2,4)
      by (cases "indx = - 1") (simp_all add: XN_QueueGetIndex_def XN_QueueUnlock_def upd_head_def s1_def s'_def)
  qed
  with x' show ?thesis by blast
qed

text \<open>\<open>XN_QueueGet\<close> counts the read cursor down without looking at it: after one removal from a
  queue nobody has read yet, the cursor is -2, and the next \<open>XN_QueueGetIndex\<close> with \<open>-1\<close> searches
  for position -1 around the ring, with the mutex held, until its counter overflows: it never
  returns. The same holds for every negative index.\<close>

theorem XN_QueueGetIndex_lost_cursor:
  assumes "xqueue s q (x # xs) (- 1)" and "xs \<noteq> []"
  shows "\<exists>s'. XN_QueueGet q s = Some (x, s') \<and> xqueue s' q xs (- 2) \<and>
           (\<forall>indx < 0. XN_QueueGetIndex q indx s' = None)"
proof -
  obtain s' where s': "XN_QueueGet q s = Some (x, s')" "xqueue s' q xs (- 2)"
    by (rule XN_QueueGet_queue [OF assms(1)]) simp_all
  have r: "lring (qmem s') q xs" using s'(2) by (simp add: xqueue_def)
  have e1: "get_next q (qmem s') = Some (after q xs)"
    using r lring_dom [OF r, of q] by (auto simp: lring_def ring_simps)
  have ne: "after q xs \<noteq> q" using assms(2) lring_distinct [OF r] by (cases xs) auto
  have "get_index_loop (qmem s') i (after q xs) 0 = None" if "i < 0" for i
    by (rule get_index_loop_lost [of "insert q (set xs)", OF ring_closed [OF s'(2)]])
      (use after_in [of q xs] that in auto)
  then have "XN_QueueGetIndex q indx s' = None" if "indx < 0" for indx
    using that s'(2) e1 ne
    by (auto simp: XN_QueueGetIndex_def XN_QueueLock_def upd_head_def xqueue_def c_int_def)
  with s' show ?thesis by blast
qed

section \<open>Two threads in \<open>XN_QueueMove\<close>\<close>

text \<open>The locking of \<open>XN_QueueMove\<close>, for two threads (\<open>False\<close> and \<open>True\<close>) that each move
  \<open>src t\<close> into \<open>dst t\<close>: who owns each mutex, and how many of its four mutex calls each thread has
  made. A call on a mutex that somebody owns waits.\<close>

type_synonym locks = "(addr \<rightharpoonup> bool) \<times> (bool \<Rightarrow> nat)"

inductive move_step :: "(bool \<Rightarrow> addr) \<Rightarrow> (bool \<Rightarrow> addr) \<Rightarrow> locks \<Rightarrow> locks \<Rightarrow> bool" for dst src where
  lock_src: "pc t = 0 \<Longrightarrow> own (src t) = None \<Longrightarrow> move_step dst src (own, pc) (own(src t \<mapsto> t), pc(t := 1))"
| lock_dst: "pc t = 1 \<Longrightarrow> own (dst t) = None \<Longrightarrow> move_step dst src (own, pc) (own(dst t \<mapsto> t), pc(t := 2))"
| unlock_src: "pc t = 2 \<Longrightarrow> move_step dst src (own, pc) (own(src t := None), pc(t := 3))"
| unlock_dst: "pc t = 3 \<Longrightarrow> move_step dst src (own, pc) (own(dst t := None), pc(t := 4))"

inductive_cases move_stepE: "move_step dst src s s'"

inductive move_reach :: "(bool \<Rightarrow> addr) \<Rightarrow> (bool \<Rightarrow> addr) \<Rightarrow> locks \<Rightarrow> bool" for dst src where
  start: "move_reach dst src (Map.empty, \<lambda>_. 0)"
| step: "move_reach dst src s \<Longrightarrow> move_step dst src s s' \<Longrightarrow> move_reach dst src s'"

definition move_done :: "locks \<Rightarrow> bool" where "move_done s = (\<forall>t. snd s t = 4)"

definition move_stuck :: "(bool \<Rightarrow> addr) \<Rightarrow> (bool \<Rightarrow> addr) \<Rightarrow> locks \<Rightarrow> bool" where
  "move_stuck dst src s = (\<not> move_done s \<and> (\<forall>s'. \<not> move_step dst src s s'))"

text \<open>A mutex is owned by the thread that is between taking and releasing it.\<close>

definition holds :: "(bool \<Rightarrow> addr) \<Rightarrow> (bool \<Rightarrow> addr) \<Rightarrow> (bool \<Rightarrow> nat) \<Rightarrow> bool \<Rightarrow> addr \<Rightarrow> bool" where
  "holds dst src pc t a = (a = src t \<and> (pc t = 1 \<or> pc t = 2) \<or> a = dst t \<and> (pc t = 2 \<or> pc t = 3))"

lemma move_reach_inv:
  assumes "move_reach dst src s" and "\<And>t. src t \<noteq> dst t"
  shows "(\<forall>t a. fst s a = Some t \<longleftrightarrow> holds dst src (snd s) t a) \<and> (\<forall>t. snd s t \<le> 4)"
  using assms(1)
proof (induction rule: move_reach.induct)
  case (step s s')
  from step.hyps(2) step.IH assms(2) show ?case
  proof (cases rule: move_step.cases)
    case (lock_src pc t own)
    then have n: "\<not> holds dst src pc u (src t)" for u using step.IH by (metis fst_conv snd_conv option.distinct(1))
    then show ?thesis using lock_src step.IH assms(2) n [of "\<not> t"]
      by (auto simp: holds_def split: if_splits)
  next
    case (lock_dst pc t own)
    then have n: "\<not> holds dst src pc u (dst t)" for u using step.IH by (metis fst_conv snd_conv option.distinct(1))
    then show ?thesis using lock_dst step.IH assms(2) n [of "\<not> t"]
      by (auto simp: holds_def split: if_splits)
  next
    case (unlock_src pc t own)
    then have n: "holds dst src pc t (src t)" by (simp add: holds_def)
    then have "\<not> holds dst src pc (\<not> t) (src t)" using step.IH unlock_src by (metis fst_conv snd_conv option.inject)
    then show ?thesis using unlock_src step.IH assms(2)
      by (auto simp: holds_def split: if_splits)
  next
    case (unlock_dst pc t own)
    then have n: "holds dst src pc t (dst t)" by (simp add: holds_def)
    then have "\<not> holds dst src pc (\<not> t) (dst t)" using step.IH unlock_dst by (metis fst_conv snd_conv option.inject)
    then show ?thesis using unlock_dst step.IH assms(2)
      by (auto simp: holds_def split: if_splits)
  qed
qed (simp add: holds_def)

text \<open>In a stuck state both threads wait for the mutex the other has taken first.\<close>

lemma move_stuck_cross:
  assumes r: "move_reach dst src (own, pc)" and ne: "\<And>t. src t \<noteq> dst t" and st: "move_stuck dst src (own, pc)"
  shows "\<exists>t. src (\<not> t) = dst t \<and> src t = dst (\<not> t)"
proof -
  have own: "own a = Some t \<longleftrightarrow> holds dst src pc t a" and le: "pc t \<le> 4" for a t
    using move_reach_inv [OF r] ne by auto
  have no: "\<not> move_step dst src (own, pc) s'" for s' using st unfolding move_stuck_def by blast
  have pc: "pc t = 0 \<or> pc t = 1 \<or> pc t = 4" for t
    using le [of t] no unlock_src [of pc t dst src own] unlock_dst [of pc t dst src own] by (cases "pc t = 2 \<or> pc t = 3"; force)
  have wait: "pc (\<not> t) = 1 \<and> (pc t = 1 \<longrightarrow> src (\<not> t) = dst t)" if t: "pc t = 0 \<or> pc t = 1" for t
  proof -
    have "own (if pc t = 0 then src t else dst t) \<noteq> None"
      using t no lock_src [of pc t own src dst] lock_dst [of pc t own dst src] by auto
    then obtain u where u: "holds dst src pc u (if pc t = 0 then src t else dst t)" using own by auto
    have "u = t \<Longrightarrow> False" using u t ne [of t] by (auto simp: holds_def split: if_splits)
    then have "u = (\<not> t)" by blast
    with u pc [of "\<not> t"] t show ?thesis by (auto simp: holds_def split: if_splits)
  qed
  obtain t where "pc t \<noteq> 4" using st by (auto simp: move_stuck_def move_done_def)
  then have "pc t = 0 \<or> pc t = 1" using pc by blast
  then have n: "pc (\<not> t) = 1" using wait by blast
  then have "pc t = 1" "src t = dst (\<not> t)" using wait [of "\<not> t"] by simp_all
  with wait [of t] show ?thesis by blast
qed

text \<open>C27: \<open>XN_QueueMove\<close> locks the source before the destination. Two threads that move between
  two queues can deadlock exactly when they move in opposite directions; in every other case each
  reachable state has a next step until both are done.\<close>

theorem XN_QueueMove_deadlock:
  assumes "\<And>t. src t \<noteq> dst t"
  shows "(\<exists>s. move_reach dst src s \<and> move_stuck dst src s) \<longleftrightarrow> src False = dst True \<and> src True = dst False"
proof
  assume "\<exists>s. move_reach dst src s \<and> move_stuck dst src s"
  then obtain own pc where s: "move_reach dst src (own, pc)" "move_stuck dst src (own, pc)" by fastforce
  obtain t where "src (\<not> t) = dst t \<and> src t = dst (\<not> t)"
    using move_stuck_cross [OF s(1) assms s(2)] by blast
  then show "src False = dst True \<and> src True = dst False" by (cases t) auto
next
  assume c: "src False = dst True \<and> src True = dst False"
  define s where "s = ([src False \<mapsto> False, src True \<mapsto> True], (\<lambda>_. 0 :: nat)(False := 1, True := 1))"
  have "move_reach dst src ([src False \<mapsto> False], (\<lambda>_. 0)(False := 1))"
    by (rule move_reach.step [OF move_reach.start lock_src]) simp_all
  then have "move_reach dst src s" unfolding s_def
    by (rule move_reach.step [OF _ lock_src]) (use c assms [of False] in auto)
  moreover have "move_stuck dst src s"
    unfolding move_stuck_def
  proof
    show "\<not> move_done s" by (auto simp: move_done_def s_def)
    show "\<forall>s'. \<not> move_step dst src s s'"
    proof (intro allI notI)
      fix s' assume "move_step dst src s s'"
      then show False
      proof (cases rule: move_step.cases)
        case (lock_dst pc t own)
        then show False using c by (cases t) (auto simp: s_def split: if_splits)
      qed (auto simp: s_def split: if_splits)
    qed
  qed
  ultimately show "\<exists>s. move_reach dst src s \<and> move_stuck dst src s" by blast
qed

section \<open>Instances\<close>

text \<open>Queue 1 with the elements 2 and 3, the empty queue 4, and the element 5 in no queue.\<close>

definition demo_xn :: xn where
  "demo_xn = \<lparr>qmem = map_of [(1, \<lparr>lnext = 2, lprev = 3\<rparr>), (2, \<lparr>lnext = 3, lprev = 1\<rparr>), (3, \<lparr>lnext = 1, lprev = 2\<rparr>),
       (4, \<lparr>lnext = 4, lprev = 4\<rparr>), (5, \<lparr>lnext = 0, lprev = 0\<rparr>)],
     heads = map_of [(1, \<lparr>num = 2, cur = - 1, mut = Free\<rparr>), (4, \<lparr>num = 0, cur = - 1, mut = Free\<rparr>)]\<rparr>"

lemma demo_xn: "xqueue demo_xn 1 [2, 3] (- 1)" "xqueue demo_xn 4 [] (- 1)"
  by (auto simp: xqueue_def demo_xn_def lring_def ring_def nx_of_def pv_of_def)

theorem XN_queue_history_witness:
  "\<exists>s0 s'. XN_QueueInit 1 demo_xn = Some s0 \<and>
     run_ops (XN_QueuePut 1) (xn_take 1) [Put 3, Put 5, Get, Put 3, Get, Get, Get] s0 =
       Some ([Some 3, Some 5, Some 3, None], s')"
proof -
  let ?ops = "[Put 3, Put 5, Get, Put 3, Get, Get, Get]"
  have "int (length ?ops) < 2 ^ 31" by simp
  then show ?thesis
    using XN_queue_history [of 1 demo_xn "{3, 5}" ?ops] by (simp add: demo_xn_def) blast
qed

theorem XN_QueueMove_appends_witness:
  "\<exists>s'. XN_QueueMove 4 1 demo_xn = Some s' \<and> xqueue s' 4 [2, 3] (- 1)"
  using XN_QueueMove_appends [OF demo_xn(2,1)] by auto

theorem XN_QueueGetIndex_reads_witness:
  "\<exists>s'. XN_QueueGetIndex 1 (- 1) demo_xn = Some (2, s') \<and> xqueue s' 1 [2, 3] 0"
  using XN_QueueGetIndex_reads [OF demo_xn(1) _ refl, of "- 1"] by simp

theorem XN_QueueGetIndex_lost_cursor_witness:
  "\<exists>s'. XN_QueueGet 1 demo_xn = Some (2, s') \<and> XN_QueueGetIndex 1 (- 1) s' = None"
  using XN_QueueGetIndex_lost_cursor [OF demo_xn(1)] by auto

theorem XN_QueueMove_deadlock_witness:
  "\<exists>s. move_reach (\<lambda>t. if t then 1 else 4) (\<lambda>t. if t then 4 else 1) s \<and>
       move_stuck (\<lambda>t. if t then 1 else 4) (\<lambda>t. if t then 4 else 1) s"
  using XN_QueueMove_deadlock [of "\<lambda>t. if t then 4 else 1" "\<lambda>t. if t then 1 else 4"] by simp

end
