(* ===== verification/WallTime.thy ===== *)
theory WallTime
  imports CNumber
begin

text \<open>
  The time windows of src/common/cm_utils.c (\<open>cm_walltime_set\<close>, \<open>cm_walltime_in\<close>): dates and times
  of day are printed with fixed-width conversions into local arrays of 64 characters and compared
  with \<open>strcmp\<close>. The broken-down local time is an argument. The lemmas relate the comparison of
  the printed forms to the comparison of the numbers.
\<close>

record CMWallTime =
  iYear :: int
  iMon :: int
  iDay :: int
  iHour :: int
  iMinute :: int
  iSecond :: int

record CMWallTimeCondition =
  iType :: int
  iTimeType :: int
  iWeekDay :: int
  szStartTime :: CMWallTime
  szEndTime :: CMWallTime

record tm =
  tm_sec :: int
  tm_min :: int
  tm_hour :: int
  tm_mday :: int
  tm_mon :: int
  tm_year :: int
  tm_wday :: int

definition CM_WALLTIME_TIMETYPE_EVERYDAY :: int where "CM_WALLTIME_TIMETYPE_EVERYDAY = 1"
definition CM_WALLTIME_TIMETYPE_YEARDAY :: int where "CM_WALLTIME_TIMETYPE_YEARDAY = 2"
definition CM_WALLTIME_TIMETYPE_MONTHDAY :: int where "CM_WALLTIME_TIMETYPE_MONTHDAY = 3"
definition CM_WALLTIME_TIMETYPE_WEEK :: int where "CM_WALLTIME_TIMETYPE_WEEK = 4"
definition CM_WALLTIME_TIMETYPE_ONCE :: int where "CM_WALLTIME_TIMETYPE_ONCE = 5"

lemmas timetypes = CM_WALLTIME_TIMETYPE_EVERYDAY_def CM_WALLTIME_TIMETYPE_YEARDAY_def
  CM_WALLTIME_TIMETYPE_MONTHDAY_def CM_WALLTIME_TIMETYPE_WEEK_def CM_WALLTIME_TIMETYPE_ONCE_def

definition cm_walltime_set :: "CMWallTime \<Rightarrow> int \<Rightarrow> int \<Rightarrow> int \<Rightarrow> int \<Rightarrow> int \<Rightarrow> int \<Rightarrow> int \<times> CMWallTime" where
  "cm_walltime_set t year month day hour minute second =
     (0, t\<lparr>iYear := year, iMon := month, iDay := day, iHour := hour, iMinute := minute, iSecond := second\<rparr>)"

text \<open>\<open>sprintf\<close> into a zeroed array of 64 characters, and the string it then holds.\<close>

definition sprintf64 :: "string \<Rightarrow> string option" where
  "sprintf64 s = sprintf_to (zeros 64) s \<bind> cstr"

text \<open>The formats \<open>%04d%02d%02d\<close> and \<open>%02d%02d%02d\<close>.\<close>

definition fmt_date :: "int \<Rightarrow> int \<Rightarrow> int \<Rightarrow> string" where
  "fmt_date y m d = fmt_0d 4 y @ fmt_0d 2 m @ fmt_0d 2 d"

definition fmt_clock :: "int \<Rightarrow> int \<Rightarrow> int \<Rightarrow> string" where
  "fmt_clock h m s = fmt_0d 2 h @ fmt_0d 2 m @ fmt_0d 2 s"

definition date_of :: "CMWallTime \<Rightarrow> string" where
  "date_of t = fmt_date (iYear t) (iMon t) (iDay t)"

definition clock_of :: "CMWallTime \<Rightarrow> string" where
  "clock_of t = fmt_clock (iHour t) (iMinute t) (iSecond t)"

text \<open>The test of the time of day that four of the cases end with.\<close>

definition clock_in :: "CMWallTimeCondition \<Rightarrow> string \<Rightarrow> int option" where
  "clock_in cond now = do {
     starttime \<leftarrow> sprintf64 (clock_of (szStartTime cond));
     endtime \<leftarrow> sprintf64 (clock_of (szEndTime cond));
     Some (if strcmp starttime now \<le> 0 \<and> strcmp now endtime \<le> 0 then 1 else 0)
   }"

definition cm_walltime_in :: "tm \<Rightarrow> CMWallTimeCondition \<Rightarrow> int option" where
  "cm_walltime_in tm cond = do {
     year \<leftarrow> c_int (tm_year tm + 1900);
     mon \<leftarrow> c_int (tm_mon tm + 1);
     nowd \<leftarrow> sprintf64 (fmt_date year mon (tm_mday tm));
     nowtime \<leftarrow> sprintf64 (fmt_date year mon (tm_mday tm) @ fmt_clock (tm_hour tm) (tm_min tm) (tm_sec tm));
     nowt \<leftarrow> sprintf64 (fmt_clock (tm_hour tm) (tm_min tm) (tm_sec tm));
     if iTimeType cond = CM_WALLTIME_TIMETYPE_EVERYDAY then do {
       startd \<leftarrow> sprintf64 (date_of (szStartTime cond));
       endd \<leftarrow> sprintf64 (date_of (szEndTime cond));
       if strcmp startd nowd \<le> 0 \<and> strcmp nowd endd \<le> 0 then clock_in cond nowt else Some 0
     }
     else if iTimeType cond = CM_WALLTIME_TIMETYPE_MONTHDAY then
       (if iYear (szStartTime cond) \<le> tm_year tm \<and> tm_year tm \<le> iYear (szEndTime cond) \<and>
           iMon (szStartTime cond) \<le> tm_mon tm \<and> tm_mon tm \<le> iMon (szEndTime cond) \<and>
           iDay (szStartTime cond) = tm_mday tm
        then clock_in cond nowt else Some 0)
     else if iTimeType cond = CM_WALLTIME_TIMETYPE_WEEK then
       (if tm_wday tm \<noteq> iWeekDay cond then Some (- 1)
        else do {
          startd \<leftarrow> sprintf64 (date_of (szStartTime cond));
          endd \<leftarrow> sprintf64 (date_of (szEndTime cond));
          if strcmp startd nowd \<le> 0 \<and> strcmp nowd endd \<le> 0 then clock_in cond nowt else Some 0
        })
     else if iTimeType cond = CM_WALLTIME_TIMETYPE_YEARDAY then
       (if iYear (szStartTime cond) \<le> tm_year tm \<and> tm_year tm \<le> iYear (szEndTime cond) \<and>
           tm_mon tm = iMon (szStartTime cond) \<and> tm_mday tm = iDay (szStartTime cond)
        then clock_in cond nowtime else Some 0)
     else if iTimeType cond = CM_WALLTIME_TIMETYPE_ONCE then do {
       starttime \<leftarrow> sprintf64 (date_of (szStartTime cond) @ clock_of (szStartTime cond));
       endtime \<leftarrow> sprintf64 (date_of (szEndTime cond) @ clock_of (szEndTime cond));
       Some (if strcmp starttime nowtime = 0 \<and> strcmp nowtime endtime = 0 then 1 else 0)
     }
     else Some (- 1)
   }"

section \<open>Times as numbers\<close>

text \<open>A date or time whose members have at most the digits of the formats.\<close>

definition date_ok :: "int \<Rightarrow> int \<Rightarrow> int \<Rightarrow> bool" where
  "date_ok y m d = (0 \<le> y \<and> y < 10000 \<and> 0 \<le> m \<and> m < 100 \<and> 0 \<le> d \<and> d < 100)"

definition clock_ok :: "int \<Rightarrow> int \<Rightarrow> int \<Rightarrow> bool" where
  "clock_ok h m s = (0 \<le> h \<and> h < 100 \<and> 0 \<le> m \<and> m < 100 \<and> 0 \<le> s \<and> s < 100)"

definition time_ok :: "CMWallTime \<Rightarrow> bool" where
  "time_ok t = (date_ok (iYear t) (iMon t) (iDay t) \<and> clock_ok (iHour t) (iMinute t) (iSecond t))"

definition tm_ok :: "tm \<Rightarrow> bool" where
  "tm_ok t = (date_ok (tm_year t + 1900) (tm_mon t + 1) (tm_mday t) \<and> clock_ok (tm_hour t) (tm_min t) (tm_sec t))"

definition date_key :: "int \<Rightarrow> int \<Rightarrow> int \<Rightarrow> int" where "date_key y m d = y * 10000 + m * 100 + d"
definition clock_key :: "int \<Rightarrow> int \<Rightarrow> int \<Rightarrow> int" where "clock_key h m s = h * 10000 + m * 100 + s"

definition day_of :: "CMWallTime \<Rightarrow> int" where "day_of t = date_key (iYear t) (iMon t) (iDay t)"
definition sec_of :: "CMWallTime \<Rightarrow> int" where "sec_of t = clock_key (iHour t) (iMinute t) (iSecond t)"
definition today :: "tm \<Rightarrow> int" where "today t = date_key (tm_year t + 1900) (tm_mon t + 1) (tm_mday t)"
definition tm_now :: "tm \<Rightarrow> int" where "tm_now t = clock_key (tm_hour t) (tm_min t) (tm_sec t)"

text \<open>The keys order like the members in order of weight.\<close>

lemma date_key_le:
  "date_ok y m d \<Longrightarrow> date_ok y' m' d' \<Longrightarrow>
     date_key y m d \<le> date_key y' m' d' \<longleftrightarrow> y < y' \<or> y = y' \<and> (m < m' \<or> m = m' \<and> d \<le> d')"
  unfolding date_ok_def date_key_def by auto

lemma clock_key_le:
  "clock_ok y m d \<Longrightarrow> clock_ok y' m' d' \<Longrightarrow>
     clock_key y m d \<le> clock_key y' m' d' \<longleftrightarrow> y < y' \<or> y = y' \<and> (m < m' \<or> m = m' \<and> d \<le> d')"
  unfolding clock_ok_def clock_key_def by auto

text \<open>Fixed-width digit strings and their values.\<close>

definition digits :: "nat \<Rightarrow> int \<Rightarrow> string \<Rightarrow> bool" where
  "digits n v s = (length s = n \<and> (\<forall>c \<in> set s. is_digit c) \<and> 0 \<le> v \<and> num_of_digits s = nat v)"

lemma digits_append:
  assumes "digits n v s" and "digits m w t"
  shows "digits (n + m) (v * 10 ^ m + w) (s @ t)"
  using assms by (auto simp: digits_def num_of_digits_append nat_add_distrib nat_mult_distrib nat_power_eq)

lemma digits_fmt: "0 \<le> v \<Longrightarrow> v < 10 ^ w \<Longrightarrow> 0 < w \<Longrightarrow> digits w v (fmt_0d w v)"
  by (auto simp: digits_def length_fmt_0d dest: fmt_0d_digits)

lemma digits_date: "date_ok y m d \<Longrightarrow> digits 8 (date_key y m d) (fmt_date y m d)"
  using digits_append [OF digits_fmt [of y 4] digits_append [OF digits_fmt [of m 2] digits_fmt [of d 2]]]
  by (simp add: date_ok_def fmt_date_def date_key_def algebra_simps)

lemma digits_clock: "clock_ok h m s \<Longrightarrow> digits 6 (clock_key h m s) (fmt_clock h m s)"
  using digits_append [OF digits_fmt [of h 2] digits_append [OF digits_fmt [of m 2] digits_fmt [of s 2]]]
  by (simp add: clock_ok_def fmt_clock_def clock_key_def algebra_simps)

lemma strcmp_keys:
  assumes "digits n v s" and "digits n w t"
  shows "strcmp s t \<le> 0 \<longleftrightarrow> v \<le> w" and "strcmp s t < 0 \<longleftrightarrow> v < w" and "strcmp s t = 0 \<longleftrightarrow> v = w"
proof -
  have c: "strcmp s t = (if num_of_digits s < num_of_digits t then - 1 else if num_of_digits s = num_of_digits t then 0 else 1)"
    by (rule strcmp_digits) (use assms in \<open>auto simp: digits_def\<close>)
  have "num_of_digits s < num_of_digits t \<longleftrightarrow> v < w" "num_of_digits s = num_of_digits t \<longleftrightarrow> v = w"
    using assms by (auto simp: digits_def)
  then show "strcmp s t \<le> 0 \<longleftrightarrow> v \<le> w" "strcmp s t < 0 \<longleftrightarrow> v < w" "strcmp s t = 0 \<longleftrightarrow> v = w"
    unfolding c by auto
qed

lemma sprintf64_digits: "digits n v s \<Longrightarrow> n < 64 \<Longrightarrow> sprintf64 s = Some s"
proof -
  assume d: "digits n v s" "n < 64"
  then have "NUL \<notin> set s" by (auto simp: digits_def is_digit_def NUL_def)
  with d show ?thesis by (simp add: sprintf64_def sprintf_to_Some digits_def)
qed

text \<open>A string against a longer one that starts with a string of its length.\<close>

lemma strcmp_longer:
  "length s = length u \<Longrightarrow> r \<noteq> [] \<Longrightarrow>
     (strcmp s (u @ r) \<le> 0 \<longleftrightarrow> strcmp s u \<le> 0) \<and> (strcmp (u @ r) s \<le> 0 \<longleftrightarrow> strcmp u s < 0)"
proof (induction s u rule: list_induct2)
  case Nil
  then show ?case by (cases r) auto
qed auto

lemma strings_of_time:
  assumes "time_ok t"
  shows "digits 8 (day_of t) (date_of t)" and "digits 6 (sec_of t) (clock_of t)"
  using assms digits_date digits_clock by (simp_all add: time_ok_def day_of_def sec_of_def date_of_def clock_of_def)

lemma clock_in_keys:
  assumes "time_ok (szStartTime cond)" and "time_ok (szEndTime cond)" and "digits 6 v now"
  shows "clock_in cond now = Some (if sec_of (szStartTime cond) \<le> v \<and> v \<le> sec_of (szEndTime cond) then 1 else 0)"
  using strings_of_time [OF assms(1)] strings_of_time [OF assms(2)] assms(3)
  by (simp add: clock_in_def sprintf64_digits strcmp_keys)

lemma tm_strings:
  assumes "tm_ok t"
  shows "digits 8 (today t) (fmt_date (tm_year t + 1900) (tm_mon t + 1) (tm_mday t))"
    and "digits 6 (tm_now t) (fmt_clock (tm_hour t) (tm_min t) (tm_sec t))"
    and "c_int (tm_year t + 1900) = Some (tm_year t + 1900)" and "c_int (tm_mon t + 1) = Some (tm_mon t + 1)"
  using assms digits_date digits_clock by (simp_all add: tm_ok_def today_def tm_now_def c_int_def date_ok_def)

text \<open>C28: For times whose members fit the formats, a daily window (and, on its weekday, a weekly
  one) contains the present exactly when today lies between the start and the end date and the
  time of day between the start and the end time, both compared member by member; a weekly window
  answers -1 on other weekdays, and a "once" window contains only an instant that is its start and
  its end.\<close>

theorem walltime_windows:
  assumes "tm_ok t" and "time_ok (szStartTime cond)" and "time_ok (szEndTime cond)"
  defines "inside \<equiv> day_of (szStartTime cond) \<le> today t \<and> today t \<le> day_of (szEndTime cond) \<and>
                     sec_of (szStartTime cond) \<le> tm_now t \<and> tm_now t \<le> sec_of (szEndTime cond)"
  shows "(iTimeType cond = CM_WALLTIME_TIMETYPE_EVERYDAY \<longrightarrow>
            cm_walltime_in t cond = Some (if inside then 1 else 0)) \<and>
         (iTimeType cond = CM_WALLTIME_TIMETYPE_WEEK \<longrightarrow>
            cm_walltime_in t cond = Some (if tm_wday t \<noteq> iWeekDay cond then - 1 else if inside then 1 else 0)) \<and>
         (iTimeType cond = CM_WALLTIME_TIMETYPE_ONCE \<longrightarrow>
            cm_walltime_in t cond = Some (if day_of (szStartTime cond) = today t \<and> sec_of (szStartTime cond) = tm_now t \<and>
              day_of (szEndTime cond) = today t \<and> sec_of (szEndTime cond) = tm_now t then 1 else 0))"
proof -
  note t = tm_strings [OF assms(1)] and s = strings_of_time [OF assms(2)] and e = strings_of_time [OF assms(3)]
  note tt = digits_append [OF t(1,2)] and ss = digits_append [OF s] and ee = digits_append [OF e]
  note out = sprintf64_digits [OF t(1)] sprintf64_digits [OF t(2)] sprintf64_digits [OF tt]
    sprintf64_digits [OF s(1)] sprintf64_digits [OF e(1)] sprintf64_digits [OF ss] sprintf64_digits [OF ee]
  define nd where "nd = fmt_date (tm_year t + 1900) (tm_mon t + 1) (tm_mday t)"
  define nc where "nc = fmt_clock (tm_hour t) (tm_min t) (tm_sec t)"
  have start: "cm_walltime_in t cond = (if iTimeType cond = 1 then
          (if strcmp (date_of (szStartTime cond)) nd \<le> 0 \<and> strcmp nd (date_of (szEndTime cond)) \<le> 0 then clock_in cond nc else Some 0)
        else if iTimeType cond = 4 then (if tm_wday t \<noteq> iWeekDay cond then Some (- 1) else
          if strcmp (date_of (szStartTime cond)) nd \<le> 0 \<and> strcmp nd (date_of (szEndTime cond)) \<le> 0 then clock_in cond nc else Some 0)
        else Some (if date_of (szStartTime cond) @ clock_of (szStartTime cond) = nd @ nc \<and>
          nd @ nc = date_of (szEndTime cond) @ clock_of (szEndTime cond) then 1 else 0))"
    if ty: "iTimeType cond \<in> {1, 4, 5}"
  proof -
    have fmt: "sprintf64 nd = Some nd" "sprintf64 (nd @ nc) = Some (nd @ nc)" "sprintf64 nc = Some nc"
      using out by (simp_all add: nd_def nc_def)
    consider "iTimeType cond = 1" | "iTimeType cond = 4" | "iTimeType cond = 5" using ty by auto
    then show ?thesis unfolding cm_walltime_in_def t(3,4)
      by cases (simp_all add: out fmt timetypes flip: nd_def nc_def)
  qed
  have now: "date_of u @ clock_of u = nd @ nc \<longleftrightarrow> day_of u = today t \<and> sec_of u = tm_now t"
    if u: "digits 8 (day_of u) (date_of u)" "digits 6 (sec_of u) (clock_of u)" for u
    using strcmp_keys(3) [OF u(1) t(1)] strcmp_keys(3) [OF u(2) t(2)] u t(1,2) by (auto simp: nd_def nc_def digits_def)
  have keys: "strcmp (date_of (szStartTime cond)) nd \<le> 0 \<longleftrightarrow> day_of (szStartTime cond) \<le> today t"
    "strcmp nd (date_of (szEndTime cond)) \<le> 0 \<longleftrightarrow> today t \<le> day_of (szEndTime cond)"
    using strcmp_keys(1) [OF s(1) t(1)] strcmp_keys(1) [OF t(1) e(1)] by (simp_all add: nd_def)
  have "clock_in cond nc = Some (if sec_of (szStartTime cond) \<le> tm_now t \<and> tm_now t \<le> sec_of (szEndTime cond) then 1 else 0)"
    unfolding nc_def by (rule clock_in_keys [OF assms(2,3) t(2)])
  then show ?thesis using now [OF s] now [OF e] start keys
    by (auto simp: timetypes inside_def)
qed

text \<open>The yearly and the monthly windows compare \<open>tm_year\<close> (years since 1900) and \<open>tm_mon\<close>
  (from 0) with the members the other windows compare with the calendar year and month, so a rule
  that starts in a four-digit year never applies. And the yearly window compares its start and end
  time of day with the string of the whole date: what has to lie between them is the present year
  and month, whatever the time is.\<close>

theorem walltime_yearly_broken:
  assumes "tm_ok t" and "time_ok (szStartTime cond)" and "time_ok (szEndTime cond)"
  defines "yymm \<equiv> (tm_year t + 1900) * 100 + (tm_mon t + 1)"
  shows "(iTimeType cond = CM_WALLTIME_TIMETYPE_YEARDAY \<longrightarrow>
            cm_walltime_in t cond = Some (if iYear (szStartTime cond) \<le> tm_year t \<and> tm_year t \<le> iYear (szEndTime cond) \<and>
              tm_mon t = iMon (szStartTime cond) \<and> tm_mday t = iDay (szStartTime cond) \<and>
              sec_of (szStartTime cond) \<le> yymm \<and> yymm < sec_of (szEndTime cond) then 1 else 0)) \<and>
         (iTimeType cond \<in> {CM_WALLTIME_TIMETYPE_YEARDAY, CM_WALLTIME_TIMETYPE_MONTHDAY} \<longrightarrow>
            1000 \<le> iYear (szStartTime cond) \<longrightarrow> tm_year t < 1000 \<longrightarrow> cm_walltime_in t cond = Some 0)"
proof -
  note t = tm_strings [OF assms(1)] and s = strings_of_time [OF assms(2)] and e = strings_of_time [OF assms(3)]
  note tt = digits_append [OF t(1,2)]
  note out = sprintf64_digits [OF t(1)] sprintf64_digits [OF t(2)] sprintf64_digits [OF tt]
    sprintf64_digits [OF s(2)] sprintf64_digits [OF e(2)]
  define ym where "ym = fmt_0d 4 (tm_year t + 1900) @ fmt_0d 2 (tm_mon t + 1)"
  define rest where "rest = fmt_0d 2 (tm_mday t) @ fmt_clock (tm_hour t) (tm_min t) (tm_sec t)"
  have ym: "digits 6 yymm ym" unfolding ym_def yymm_def
    using digits_append [OF digits_fmt [of "tm_year t + 1900" 4] digits_fmt [of "tm_mon t + 1" 2]] assms(1)
    by (simp add: tm_ok_def date_ok_def)
  have n: "fmt_date (tm_year t + 1900) (tm_mon t + 1) (tm_mday t) @ fmt_clock (tm_hour t) (tm_min t) (tm_sec t) = ym @ rest"
    by (simp add: fmt_date_def ym_def rest_def)
  have "rest \<noteq> []" using t(2) by (auto simp: rest_def digits_def)
  then have c: "strcmp (clock_of (szStartTime cond)) (ym @ rest) \<le> 0 \<longleftrightarrow> sec_of (szStartTime cond) \<le> yymm"
    "strcmp (ym @ rest) (clock_of (szEndTime cond)) \<le> 0 \<longleftrightarrow> yymm < sec_of (szEndTime cond)"
    using strcmp_longer [of "clock_of (szStartTime cond)" ym rest] strcmp_longer [of "clock_of (szEndTime cond)" ym rest]
      s(2) e(2) ym strcmp_keys(1) [OF s(2) ym] strcmp_keys(2) [OF ym e(2)] by (auto simp: digits_def)
  then have ci: "clock_in cond (ym @ rest) = Some (if sec_of (szStartTime cond) \<le> yymm \<and> yymm < sec_of (szEndTime cond) then 1 else 0)"
    by (simp add: clock_in_def out)
  show ?thesis
    using ci [folded n] by (intro conjI impI) (auto simp: cm_walltime_in_def t(3,4) out timetypes)
qed

text \<open>A rule from 2018-03-05 08:00:00 to 2020-03-05 18:00:00, and 2019-03-05 12:30:00 as a broken-down time.\<close>

definition demo_cond :: "int \<Rightarrow> CMWallTimeCondition" where
  "demo_cond k = \<lparr>iType = 1, iTimeType = k, iWeekDay = 2,
     szStartTime = \<lparr>iYear = 2018, iMon = 3, iDay = 5, iHour = 8, iMinute = 0, iSecond = 0\<rparr>,
     szEndTime = \<lparr>iYear = 2020, iMon = 3, iDay = 5, iHour = 18, iMinute = 0, iSecond = 0\<rparr>\<rparr>"

definition demo_tm :: tm where
  "demo_tm = \<lparr>tm_sec = 0, tm_min = 30, tm_hour = 12, tm_mday = 5, tm_mon = 2, tm_year = 119, tm_wday = 2\<rparr>"

lemma demo_ok: "tm_ok demo_tm" "time_ok (szStartTime (demo_cond k))" "time_ok (szEndTime (demo_cond k))"
  by (simp_all add: tm_ok_def time_ok_def date_ok_def clock_ok_def demo_tm_def demo_cond_def)

theorem walltime_windows_witness:
  "cm_walltime_in demo_tm (demo_cond 1) = Some 1"
  using walltime_windows [OF demo_ok, of 1]
  by (simp add: timetypes day_of_def sec_of_def today_def tm_now_def date_key_def clock_key_def demo_tm_def demo_cond_def)

theorem walltime_yearly_broken_witness:
  "cm_walltime_in demo_tm (demo_cond 2) = Some 0"
  using walltime_yearly_broken [OF demo_ok, of 2]
  by (simp add: timetypes demo_tm_def demo_cond_def)

end
