(* ===== verification/TextUtils.thy ===== *)
theory TextUtils
  imports CNumber
begin

text \<open>
  The string helpers of src/common/cm_utils.c that work in place or copy between arrays. An array
  parameter is a list of characters, an in-place operation returns the updated array, and reading
  or writing outside of it is \<open>None\<close>; a parameter that is only read as a string is a string.
\<close>

section \<open>In-place trimming\<close>

text \<open>\<open>cm_remove_space\<close>: the backward scan for the last character to keep (\<open>k\<close> is one past it), the
  count of leading spaces, and the loop that moves the rest to the front.\<close>

fun trim_back :: "char list \<Rightarrow> nat \<Rightarrow> nat option" where
  "trim_back a 0 = None"
| "trim_back a (Suc k) = do {
     c \<leftarrow> idx a k;
     if c = CHR '' '' \<or> c = CHR 0x0A then trim_back a k else Some (Suc k)
   }"

fun lead_spaces :: "char list \<Rightarrow> nat option" where
  "lead_spaces [] = None"
| "lead_spaces (c # cs) = (if c = CHR '' '' then map_option Suc (lead_spaces cs) else Some 0)"

function shift_loop :: "char list \<Rightarrow> nat \<Rightarrow> nat \<Rightarrow> nat \<Rightarrow> char list option" where
  "shift_loop a i indx len =
     (if len - 1 \<le> indx then upd a i NUL
      else do {
        c \<leftarrow> idx a indx;
        a \<leftarrow> upd a i c;
        shift_loop a (i + 1) (indx + 1) len
      })"
  by pat_completeness auto
termination by (relation "measure (\<lambda>(a, i, indx, len). len - 1 - indx)") auto

declare shift_loop.simps [simp del]

definition cm_remove_space :: "char list \<Rightarrow> (int \<times> char list) option" where
  "cm_remove_space str = do {
     s \<leftarrow> cstr str;
     let len = length s;
     k \<leftarrow> trim_back str len;
     str \<leftarrow> upd str k NUL;
     indx \<leftarrow> lead_spaces str;
     str \<leftarrow> (if indx > 0 then shift_loop str 0 indx len else Some str);
     Some (0, str)
   }"

definition cm_remove_last_break :: "char list option \<Rightarrow> (int \<times> char list option) option" where
  "cm_remove_last_break args = (case args of None \<Rightarrow> Some (- 1, None) | Some a \<Rightarrow> do {
     s \<leftarrow> cstr a;
     (if s = [] then None
      else if last s = CHR 0x0A then do { a \<leftarrow> upd a (length s - 1) NUL; Some (0, Some a) }
      else Some (0, Some a))
   })"

section \<open>Copying between arrays\<close>

fun clear_char_loop :: "char \<Rightarrow> string \<Rightarrow> char list \<Rightarrow> nat \<Rightarrow> char list option" where
  "clear_char_loop c [] save k = upd save k NUL"
| "clear_char_loop c (x # xs) save k =
     (if x \<noteq> c then do { save \<leftarrow> upd save k x; clear_char_loop c xs save (k + 1) }
      else clear_char_loop c xs save k)"

definition cm_clear_string_char :: "char list \<Rightarrow> char list \<Rightarrow> char \<Rightarrow> (int \<times> char list) option" where
  "cm_clear_string_char origin save c = do {
     s \<leftarrow> cstr origin;
     save \<leftarrow> clear_char_loop c s save 0;
     Some (0, save)
   }"

text \<open>\<open>cm_clear_parenthesis\<close>: the loop tests character \<open>i\<close> of the string and copies character \<open>j\<close>.\<close>

fun paren_loop :: "char list \<Rightarrow> nat \<Rightarrow> nat \<Rightarrow> nat \<Rightarrow> char list \<Rightarrow> char list option" where
  "paren_loop str 0 i j save = Some save"
| "paren_loop str (Suc n) i j save = do {
     c \<leftarrow> idx str i;
     if c = CHR '')'' then Some save
     else do {
       d \<leftarrow> idx str j;
       save \<leftarrow> upd save i d;
       paren_loop str n (i + 1) (j + 1) save
     }
   }"

definition cm_clear_parenthesis :: "char list option \<Rightarrow> char list option \<Rightarrow> (int \<times> char list option) option" where
  "cm_clear_parenthesis save str = (case (save, str) of
     (Some save, Some str) \<Rightarrow> do {
       s \<leftarrow> cstr str;
       let len = length s;
       first \<leftarrow> idx str 0;
       bad \<leftarrow> (if first \<noteq> CHR ''('' then (if len = 0 then None else Some (last s \<noteq> CHR '')'')) else Some False);
       if bad then Some (- 2, Some save)
       else do {
         let j = (if first \<noteq> CHR ''('' then 0 else 1);
         save \<leftarrow> paren_loop str len 0 j save;
         Some (0, Some save)
       }
     }
   | _ \<Rightarrow> Some (- 1, save))"

definition cm_clear_parenthesis_self :: "char list option \<Rightarrow> (int \<times> char list option) option" where
  "cm_clear_parenthesis_self str = (case str of None \<Rightarrow> Some (- 1, None) | Some a \<Rightarrow> do {
     (_, save) \<leftarrow> cm_clear_parenthesis (Some (zeros 1024)) (Some a);
     s \<leftarrow> (case save of None \<Rightarrow> None | Some save \<Rightarrow> cstr save);
     a \<leftarrow> sprintf_to a s;
     Some (int (length s), Some a)
   })"

text \<open>\<open>cm_parse_data_string\<close>: the fields between separators, each cut to one cell of \<open>arrsize\<close>
  characters. \<open>pos\<close> is what is left of the string, \<open>None\<close> once the pointer is NULL.\<close>

definition index_from :: "string \<Rightarrow> char \<Rightarrow> string option" where
  "index_from s c = (if c \<in> set s then Some (dropWhile (\<lambda>x. x \<noteq> c) s) else None)"

fun cell_loop :: "nat \<Rightarrow> nat \<Rightarrow> nat \<Rightarrow> char \<Rightarrow> char list \<Rightarrow> nat \<Rightarrow> string \<Rightarrow> (char list \<times> string option) option" where
  "cell_loop 0 j arrsize sign save off pos = Some (save, Some pos)"
| "cell_loop (Suc n) j arrsize sign save off pos =
     (if j + 1 = arrsize \<or> pos = [] \<or> hd pos = sign then do {
        save \<leftarrow> upd save (off + j) NUL;
        Some (save, map_option tl (index_from pos sign))
      } else do {
        save \<leftarrow> upd save (off + j) (hd pos);
        cell_loop n (j + 1) arrsize sign save off (tl pos)
      })"

fun cells_loop :: "nat \<Rightarrow> nat \<Rightarrow> nat \<Rightarrow> nat \<Rightarrow> char \<Rightarrow> char list \<Rightarrow> string option \<Rightarrow> (nat \<times> char list) option" where
  "cells_loop 0 i counts arrsize sign save pos = Some (i, save)"
| "cells_loop (Suc n) i counts arrsize sign save pos =
     (if counts \<le> i then Some (i, save)
      else if arrsize = 0 then cells_loop n (i + 1) counts arrsize sign save pos
      else case pos of None \<Rightarrow> None
      | Some p \<Rightarrow> do {
          (save, pos) \<leftarrow> cell_loop arrsize 0 arrsize sign save (i * arrsize) p;
          cells_loop n (i + 1) counts arrsize sign save pos
        })"

definition cm_parse_data_string ::
  "string option \<Rightarrow> char list option \<Rightarrow> int \<Rightarrow> int \<Rightarrow> char \<Rightarrow> (int \<times> char list option) option" where
  "cm_parse_data_string str save arrsize maxlen sign = (case (str, save) of
     (Some str, Some save) \<Rightarrow>
       (if arrsize < 0 \<or> maxlen < 0 then Some (- 1, Some save)
        else if sign = NUL then None
        else if sign \<notin> set str then Some (- 2, Some save)
        else do {
          let counts = length (filter (\<lambda>c. c = sign) str) + 1;
          size \<leftarrow> c_int (arrsize * maxlen);
          save \<leftarrow> mem_write save 0 (zeros (nat size));
          (i, save) \<leftarrow> cells_loop (nat maxlen) 0 counts (nat arrsize) sign save (Some str);
          Some (int i, Some save)
        })
   | _ \<Rightarrow> Some (- 1, save))"

section \<open>MAC addresses and file names\<close>

definition isxdigit :: "char \<Rightarrow> bool" where
  "isxdigit c = (CHR ''0'' \<le> c \<and> c \<le> CHR ''9'' \<or> CHR ''a'' \<le> c \<and> c \<le> CHR ''f'' \<or> CHR ''A'' \<le> c \<and> c \<le> CHR ''F'')"

definition cm_check_mac_valid :: "string \<Rightarrow> int" where
  "cm_check_mac_valid mac_addr =
     (if length mac_addr \<noteq> 12 then - 1 else if \<not> list_all isxdigit mac_addr then - 1 else 1)"

fun mac_loop :: "string \<Rightarrow> nat \<Rightarrow> nat \<Rightarrow> char \<Rightarrow> char list \<Rightarrow> nat \<Rightarrow> char list option" where
  "mac_loop [] i len c save j = Some save"
| "mac_loop (x # xs) i len c save j = do {
     save \<leftarrow> upd save j x;
     if i mod 2 = 0 \<and> i < len then do { save \<leftarrow> upd save (j + 1) c; mac_loop xs (i + 1) len c save (j + 2) }
     else mac_loop xs (i + 1) len c save (j + 1)
   }"

definition cm_generate_mac_with_char :: "string option \<Rightarrow> char list option \<Rightarrow> char \<Rightarrow> (int \<times> char list option) option" where
  "cm_generate_mac_with_char mac save c = (case (mac, save) of
     (Some mac, Some save) \<Rightarrow> do {
       save \<leftarrow> mac_loop mac 1 (length mac) c save 0;
       Some (0, Some save)
     }
   | _ \<Rightarrow> Some (- 1, save))"

text \<open>What follows the last \<open>c\<close> of a string, with what stands before it (\<open>rindex\<close>).\<close>

definition rindex :: "string \<Rightarrow> char \<Rightarrow> nat option" where
  "rindex s c = (if c \<in> set s then Some (length s - 1 - length (takeWhile (\<lambda>x. x \<noteq> c) (rev s))) else None)"

definition cm_seperate_filename ::
  "string option \<Rightarrow> char list option \<Rightarrow> char list option \<Rightarrow> (int \<times> char list option \<times> char list option) option" where
  "cm_seperate_filename orig path name = (case orig of None \<Rightarrow> Some (- 1, path, name) | Some orig \<Rightarrow>
     (case rindex orig (CHR ''/'') of
        None \<Rightarrow> do {
          name \<leftarrow> (case name of None \<Rightarrow> Some None | Some a \<Rightarrow> map_option Some (sprintf_to a orig));
          Some (0, path, name)
        }
      | Some len \<Rightarrow> do {
          path \<leftarrow> (case path of None \<Rightarrow> Some None
                    | Some a \<Rightarrow> do { a \<leftarrow> strncpy_to a orig len; a \<leftarrow> upd a len NUL; Some (Some a) });
          name \<leftarrow> (case name of None \<Rightarrow> Some None
                    | Some a \<Rightarrow> map_option Some (sprintf_to a (drop (len + 1) orig)));
          Some (0, path, name)
        }))"

definition cm_take_out_last_string :: "string \<Rightarrow> char \<Rightarrow> char list \<Rightarrow> (int \<times> char list) option" where
  "cm_take_out_last_string str split save = (case rindex str split of
     None \<Rightarrow> Some (0, save)
   | Some p \<Rightarrow> do { save \<leftarrow> strncpy_to save (drop (p + 1) str) (length str - p - 1); Some (0, save) })"

section \<open>Trimming\<close>

definition blank :: "char \<Rightarrow> bool" where "blank c = (c = CHR '' '' \<or> c = CHR 0x0A)"

lemma trim_back_keep:
  assumes "w \<noteq> []" and "\<not> blank (last w)" and "\<forall>c \<in> set t. blank c"
  shows "trim_back (p @ w @ t @ r) (length p + length w + length t) = Some (length p + length w)"
  using assms(3)
proof (induction t arbitrary: r rule: rev_induct)
  case Nil
  obtain v c where w: "w = v @ [c]" using assms(1) by (cases w rule: rev_cases) auto
  have "idx (p @ w @ r) (length p + length v) = Some c" by (simp add: idx_def w nth_append)
  then show ?case using assms(2) by (simp add: w blank_def)
next
  case (snoc c t)
  have "idx (p @ w @ t @ c # r) (length p + length w + length t) = Some c" by (simp add: idx_def nth_append)
  with snoc.IH [of "c # r"] snoc.prems show ?case by (simp add: blank_def)
qed

lemma lead_spaces_count:
  "c \<noteq> CHR '' '' \<Longrightarrow> lead_spaces (replicate k (CHR '' '') @ c # cs) = Some k"
  by (induction k) simp_all

text \<open>The loop moves the characters from \<open>indx\<close> up to the last but one of the old string to
  position \<open>i\<close> and terminates them.\<close>

lemma shift_loop_moves:
  assumes "length p = i" and "length q = indx - i" and "i \<le> indx" and "length p + length q + length m + 1 = len"
  shows "shift_loop (p @ q @ m @ c # r) i indx len = Some (p @ m @ NUL # drop (length m + 1) (q @ m @ c # r))"
  using assms
proof (induction m arbitrary: p q i indx)
  case Nil
  then show ?case by (auto simp: shift_loop.simps upd_def list_update_append split: nat.splits) (cases q; simp)
next
  case (Cons x m)
  have ix: "idx (p @ q @ (x # m) @ c # r) indx = Some x" using Cons.prems by (simp add: idx_def nth_append)
  obtain y q' where y: "q @ [x] = y # q'" by (cases "q @ [x]") auto
  have "upd (p @ q @ (x # m) @ c # r) i x = Some ((p @ [x]) @ q' @ m @ c # r)"
  proof -
    have e: "p @ q @ (x # m) @ c # r = p @ y # q' @ m @ c # r" using y by (metis append.assoc append_Cons append_Nil)
    show ?thesis unfolding e using Cons.prems(1) by (auto simp: upd_def)
  qed
  moreover have "length q' = length q" using y by (metis length_append_singleton length_Cons nat.inject)
  then have "shift_loop ((p @ [x]) @ q' @ m @ c # r) (i + 1) (indx + 1) len =
      Some ((p @ [x]) @ m @ NUL # drop (length m + 1) (q' @ m @ c # r))"
    using Cons.prems by (intro Cons.IH) auto
  moreover have "drop (length m + 1) (q' @ m @ c # r) = drop (length (x # m) + 1) (q @ (x # m) @ c # r)"
  proof -
    have "q @ (x # m) @ c # r = y # q' @ m @ c # r" using y by (metis append.assoc append_Cons append_Nil)
    then show ?thesis by (simp only: length_Cons add_Suc drop_Suc_Cons)
  qed
  moreover have "\<not> len - 1 \<le> indx" using Cons.prems by simp
  ultimately show ?case using ix by (subst shift_loop.simps) simp
qed

text \<open>\<open>cm_remove_space\<close> trims spaces on the left and spaces and line breaks on the right; but
  when there are leading spaces and nothing to trim at the end, the loop that moves the string
  stops one character early and the last character is lost.\<close>

theorem cm_remove_space_result:
  assumes "w \<noteq> []" and "hd w \<noteq> CHR '' ''" and "\<not> blank (last w)" and "\<forall>c \<in> set t. blank c" and "NUL \<notin> set w"
  shows "\<exists>str'. cm_remove_space (replicate k (CHR '' '') @ w @ t @ NUL # r) = Some (0, str') \<and>
           cstr str' = Some (if 0 < k \<and> t = [] then butlast w else w)"
proof -
  define sp where "sp = replicate k (CHR '' '')"
  have "\<not> blank NUL" "NUL \<noteq> CHR '' ''" by (simp_all add: blank_def NUL_def)
  then have nul: "NUL \<notin> set (sp @ w @ t)" using assms(4,5) unfolding sp_def by fastforce
  have c: "cstr (sp @ w @ t @ NUL # r) = Some (sp @ w @ t)" using cstr_append_NUL [OF nul, of r] by simp
  have tb: "trim_back (sp @ w @ t @ NUL # r) (length (sp @ w @ t)) = Some (length sp + length w)"
    using trim_back_keep [OF assms(1,3,4), of sp "NUL # r"] by (simp add: add.assoc)
  define X where "X = NUL # tl (t @ NUL # r)"
  obtain z u where zu: "t @ NUL # r = z # u" by (cases t) auto
  have up: "upd (sp @ w @ t @ NUL # r) (length sp + length w) NUL = Some (sp @ w @ X)"
    using list_update_length [of "sp @ w" z u NUL] by (simp add: upd_def X_def zu)
  obtain h w' where w: "w = h # w'" "h \<noteq> CHR '' ''" using assms(1,2) by (cases w) auto
  have ls: "lead_spaces (sp @ w @ X) = Some k" using w by (simp add: sp_def lead_spaces_count)
  have start: "cm_remove_space (sp @ w @ t @ NUL # r) =
      map_option (\<lambda>a. (0, a)) (if 0 < k then shift_loop (sp @ w @ X) 0 k (length (sp @ w @ t)) else Some (sp @ w @ X))"
    unfolding cm_remove_space_def c using tb up ls by (simp add: map_option_case split: option.split)
  show ?thesis
  proof (cases "0 < k")
    case False
    then show ?thesis using start assms(5) by (simp add: X_def sp_def)
  next
    case True
    define n where "n = length w + length t - 1"
    have n: "n < length (w @ X)" "length w + length t = n + 1" using assms(1) zu
      by (cases w; cases t; auto simp: n_def X_def)+
    define m where "m = take n (w @ X)"
    have split: "w @ X = m @ (w @ X) ! n # drop (Suc n) (w @ X)" "length m = n"
      using id_take_nth_drop [OF n(1)] n(1) by (simp_all add: m_def)
    have "shift_loop ([] @ sp @ m @ (w @ X) ! n # drop (Suc n) (w @ X)) 0 k (length (sp @ w @ t)) =
        Some ([] @ m @ NUL # drop (length m + 1) (sp @ m @ (w @ X) ! n # drop (Suc n) (w @ X)))"
      by (rule shift_loop_moves) (use n(2) split(2) in \<open>simp_all add: sp_def\<close>)
    then obtain v where v: "shift_loop (sp @ w @ X) 0 k (length (sp @ w @ t)) = Some (m @ NUL # v)"
      using split(1) by simp
    have "cstr (m @ NUL # v) = Some (if t = [] then butlast w else w)"
    proof (cases "t = []")
      case True
      then have "m = butlast w" using assms(1) by (simp add: m_def n_def butlast_conv_take)
      moreover have "NUL \<notin> set (butlast w)" using assms(5) by (blast dest: in_set_butlastD)
      ultimately show ?thesis using True by simp
    next
      case False
      then obtain k' where k': "n = length w + k'" by (cases t) (auto simp: n_def)
      then have "m @ NUL # v = w @ NUL # tl (take k' X @ NUL # v)"
        by (cases k') (simp_all add: m_def X_def)
      with assms(5) False show ?thesis by simp
    qed
    with start v True show ?thesis by (simp add: sp_def)
  qed
qed

section \<open>Parentheses\<close>

lemma paren_loop_until:
  "\<forall>k < m. str ! (i + k) \<noteq> CHR '')'' \<Longrightarrow> i + m < length str \<Longrightarrow> str ! (i + m) = CHR '')'' \<Longrightarrow> m < n \<Longrightarrow>
    j + m \<le> length str \<Longrightarrow> length p = i \<Longrightarrow> length q = m \<Longrightarrow>
    paren_loop str n i j (p @ q @ r) = Some (p @ take m (drop j str) @ r)"
proof (induction m arbitrary: n i j p q)
  case 0
  then obtain n' where "n = Suc n'" by (cases n) auto
  with 0 show ?case by (simp add: idx_def)
next
  case (Suc m)
  from Suc.prems(4) obtain n' where n: "n = Suc n'" "m < n'" by (cases n) auto
  from Suc.prems(7) obtain x q' where q: "q = x # q'" "length q' = m" by (cases q) auto
  have c: "str ! i \<noteq> CHR '')''" using Suc.prems(1) by fastforce
  have u: "upd (p @ q @ r) i (str ! j) = Some ((p @ [str ! j]) @ q' @ r)"
    using Suc.prems(6) by (auto simp: upd_def q)
  have "paren_loop str n' (i + 1) (j + 1) ((p @ [str ! j]) @ q' @ r) =
      Some ((p @ [str ! j]) @ take m (drop (j + 1) str) @ r)"
    by (rule Suc.IH) (use Suc.prems n q in auto)
  moreover have "take (Suc m) (drop j str) = str ! j # take m (drop (j + 1) str)"
    using Suc.prems(5) by (simp add: Cons_nth_drop_Suc [symmetric])
  ultimately show ?case using n c u Suc.prems(2,5) by (simp add: idx_def)
qed

text \<open>\<open>cm_clear_parenthesis\<close> copies one character ahead of the one it tests, so for a string in
  parentheses it stops only after it has copied the closing parenthesis, and it writes no
  terminator: the result is the text followed by the parenthesis it was to remove.\<close>

theorem cm_clear_parenthesis_keeps_closing:
  assumes "CHR '')'' \<notin> set w" and "NUL \<notin> set w" and "length q = length w + 1"
  shows "cm_clear_parenthesis (Some (q @ r)) (Some (''('' @ w @ '')'' @ NUL # z)) =
           Some (0, Some (w @ '')'' @ r))"
proof -
  define str where "str = ''('' @ w @ '')'' @ NUL # z"
  have "cstr ((''('' @ w @ '')'') @ NUL # z) = Some (''('' @ w @ '')'')"
    by (rule cstr_append_NUL) (use assms(2) in \<open>simp add: NUL_def\<close>)
  then have c: "cstr str = Some (''('' @ w @ '')'')" by (simp add: str_def)
  have "paren_loop str (length w + 2) 0 1 ([] @ q @ r) = Some ([] @ take (length w + 1) (drop 1 str) @ r)"
  proof (rule paren_loop_until)
    show "\<forall>k < length w + 1. str ! (0 + k) \<noteq> CHR '')''"
    proof (intro allI impI)
      fix k assume "k < length w + 1"
      then show "str ! (0 + k) \<noteq> CHR '')''" using assms(1)
        by (cases k) (auto simp: str_def nth_append, metis nth_mem)
    qed
  qed (use assms(3) in \<open>simp_all add: str_def nth_append\<close>)
  then have "paren_loop str (length w + 2) 0 1 (q @ r) = Some (w @ '')'' @ r)" by (simp add: str_def)
  moreover have "idx str 0 = Some (CHR ''('')" by (simp add: str_def idx_def)
  ultimately show ?thesis unfolding str_def [symmetric]
    using c by (simp add: cm_clear_parenthesis_def Let_def)
qed

section \<open>Fields\<close>

text \<open>The fields of a string between separators.\<close>

function fields :: "char \<Rightarrow> string \<Rightarrow> string list" where
  "fields c s = (if c \<in> set s then takeWhile (\<lambda>x. x \<noteq> c) s # fields c (tl (dropWhile (\<lambda>x. x \<noteq> c) s)) else [s])"
  by pat_completeness auto
termination
proof (relation "measure (\<lambda>(c, s). length s)")
  fix c :: char and s :: string assume "c \<in> set s"
  then obtain x t where "dropWhile (\<lambda>x. x \<noteq> c) s = x # t"
    by (cases "dropWhile (\<lambda>x. x \<noteq> c) s") auto
  then have "length t < length s" by (rule dropWhile_length_less)
  then show "((c, tl (dropWhile (\<lambda>x. x \<noteq> c) s)), (c, s)) \<in> measure (\<lambda>(c, s). length s)"
    by (simp add: \<open>dropWhile (\<lambda>x. x \<noteq> c) s = x # t\<close>)
qed simp

declare fields.simps [simp del]

lemma length_fields: "length (fields c s) = length (filter (\<lambda>x. x = c) s) + 1"
proof (induction c s rule: fields.induct)
  case (1 c s)
  show ?case
  proof (cases "c \<in> set s")
    case True
    obtain us t where s: "s = us @ c # t" "c \<notin> set us" using split_list_first [OF True] by blast
    have us: "\<forall>x \<in> set us. x \<noteq> c" "filter (\<lambda>x. x = c) us = []" using s(2) by (auto simp: filter_empty_conv)
    have d: "tl (dropWhile (\<lambda>x. x \<noteq> c) s) = t" unfolding s(1) using us(1) by (simp add: dropWhile_append_stop)
    have "length (filter (\<lambda>x. x = c) s) = length (filter (\<lambda>x. x = c) t) + 1" using us(2) by (simp add: s(1))
    then show ?thesis using 1 True by (subst fields.simps) (simp add: d)
  next
    case False
    then show ?thesis by (subst fields.simps) (auto simp: filter_empty_conv)
  qed
qed

text \<open>One cell: a field cut to fit, and zeros.\<close>

definition cell :: "nat \<Rightarrow> string \<Rightarrow> char list" where
  "cell n f = take (n - 1) f @ zeros (n - length (take (n - 1) f))"

lemma cell_props:
  assumes "0 < n" and "NUL \<notin> set f"
  shows "length (cell n f) = n" and "cstr (cell n f) = Some (take (n - 1) f)"
proof -
  define u where "u = take (n - 1) f"
  have u: "length u < n" "NUL \<notin> set u" using assms by (auto simp: u_def min_def dest: in_set_takeD)
  then show "length (cell n f) = n" unfolding cell_def u_def [symmetric] by simp
  have "zeros (n - length u) = NUL # zeros (n - length u - 1)"
    using u(1) by (simp add: zeros_def Suc_diff_Suc flip: replicate_Suc)
  then show "cstr (cell n f) = Some (take (n - 1) f)" unfolding cell_def u_def [symmetric] using u(2) by simp
qed

lemma upd_middle: "length p = i \<Longrightarrow> upd (p @ y # q) i x = Some (p @ x # q)"
  by (auto simp: upd_def)

lemma zeros_Suc: "zeros (Suc n) = NUL # zeros n"
  by (simp add: zeros_def)

lemma cell_loop_field:
  "n = arr - j \<Longrightarrow> j < arr \<Longrightarrow> length pre = off + j \<Longrightarrow>
     cell_loop n j arr sign (pre @ zeros n @ post) off pos =
       Some (pre @ cell n (takeWhile (\<lambda>x. x \<noteq> sign) pos) @ post, map_option tl (index_from pos sign))"
proof (induction n arbitrary: j pre pos)
  case (Suc m)
  show ?case
  proof (cases "j + 1 = arr \<or> pos = [] \<or> hd pos = sign")
    case True
    have "cell (Suc m) (takeWhile (\<lambda>x. x \<noteq> sign) pos) = zeros (Suc m)"
    proof (cases "j + 1 = arr")
      case False
      then have "takeWhile (\<lambda>x. x \<noteq> sign) pos = []" using True by (cases pos) auto
      then show ?thesis by (simp add: cell_def)
    qed (use Suc.prems in \<open>simp add: cell_def\<close>)
    moreover have "upd (pre @ zeros (Suc m) @ post) (off + j) NUL = Some (pre @ zeros (Suc m) @ post)"
      using Suc.prems(3) by (simp add: zeros_Suc upd_middle)
    ultimately show ?thesis using True by simp
  next
    case False
    then obtain x xs where x: "pos = x # xs" "x \<noteq> sign" by (cases pos) auto
    obtain k where m: "m = Suc k" using False Suc.prems by (cases m) auto
    have "upd (pre @ zeros (Suc m) @ post) (off + j) x = Some ((pre @ [x]) @ zeros m @ post)"
      using Suc.prems(3) by (simp add: zeros_Suc upd_middle)
    moreover have "cell_loop m (j + 1) arr sign ((pre @ [x]) @ zeros m @ post) off xs =
        Some ((pre @ [x]) @ cell m (takeWhile (\<lambda>x. x \<noteq> sign) xs) @ post, map_option tl (index_from xs sign))"
      by (rule Suc.IH) (use Suc.prems False in auto)
    moreover have "index_from pos sign = index_from xs sign" using x by (simp add: index_from_def)
    moreover have "cell (Suc m) (takeWhile (\<lambda>x. x \<noteq> sign) pos) = x # cell m (takeWhile (\<lambda>x. x \<noteq> sign) xs)"
      using x(2) by (simp add: cell_def x(1) m)
    ultimately show ?thesis using False x by simp
  qed
qed simp

lemma cells_loop_fields:
  "0 < arr \<Longrightarrow> length pre = i * arr \<Longrightarrow>
     cells_loop n i (i + length (fields sign p)) arr sign (pre @ zeros (n * arr) @ post) (Some p) =
       Some (i + min n (length (fields sign p)),
             pre @ concat (map (cell arr) (take n (fields sign p))) @
             zeros ((n - length (fields sign p)) * arr) @ post)"
proof (induction n arbitrary: i p pre)
  case (Suc n)
  define f where "f = takeWhile (\<lambda>x. x \<noteq> sign) p"
  have z: "zeros (arr + n * arr) = zeros arr @ zeros (n * arr)" by (simp add: zeros_def replicate_add)
  have "cell_loop arr 0 arr sign (pre @ zeros arr @ zeros (n * arr) @ post) (i * arr) p =
      Some (pre @ cell arr f @ zeros (n * arr) @ post, map_option tl (index_from p sign))"
    unfolding f_def by (rule cell_loop_field) (use Suc.prems in auto)
  then have step: "cells_loop (Suc n) i (i + length (fields sign p)) arr sign (pre @ zeros (Suc n * arr) @ post) (Some p) =
      cells_loop n (i + 1) (i + length (fields sign p)) arr sign ((pre @ cell arr f) @ zeros (n * arr) @ post) (map_option tl (index_from p sign))"
    using Suc.prems(1) length_fields [of sign p] by (simp add: z)
  have len: "length (pre @ cell arr f) = (i + 1) * arr" using Suc.prems by (simp add: cell_def)
  show ?case
  proof (cases "sign \<in> set p")
    case True
    define q where "q = tl (dropWhile (\<lambda>x. x \<noteq> sign) p)"
    have fp: "fields sign p = f # fields sign q" using True by (subst fields.simps) (simp add: f_def q_def)
    have "cells_loop n (i + 1) ((i + 1) + length (fields sign q)) arr sign ((pre @ cell arr f) @ zeros (n * arr) @ post) (Some q) =
        Some ((i + 1) + min n (length (fields sign q)), (pre @ cell arr f) @ concat (map (cell arr) (take n (fields sign q))) @
           zeros ((n - length (fields sign q)) * arr) @ post)"
      by (rule Suc.IH [OF Suc.prems(1) len])
    then show ?thesis unfolding step using True by (simp add: index_from_def fp flip: q_def)
  next
    case False
    have "fields sign p = [p]" using False by (subst fields.simps) simp
    moreover have "f = p" using False by (auto simp: f_def takeWhile_eq_all_conv)
    moreover note fp = calculation
    have "cells_loop n (i + 1) (i + 1) arr sign S None = Some (i + 1, S)" for S by (cases n) simp_all
    then show ?thesis unfolding step using False by (simp add: index_from_def fp(1)) (simp add: fp(2))
  qed
qed simp

text \<open>\<open>cm_parse_data_string\<close> cuts the string at the separator, as long as there are cells,
  and stores each field as a terminated string in its cell, cut to the cell's size; it returns how
  many it stored and touches nothing behind the \<open>arrsize * maxlen\<close> characters of the table.\<close>

theorem cm_parse_data_string_fields:
  assumes "0 < arr" and "int arr * int maxlen < 2 ^ 31" and "length tab = arr * maxlen"
    and "sign \<in> set s" and "sign \<noteq> NUL" and "NUL \<notin> set s"
  defines "fs \<equiv> fields sign s"
  shows "\<exists>tab'. cm_parse_data_string (Some s) (Some (tab @ post)) (int arr) (int maxlen) sign =
             Some (int (min maxlen (length fs)), Some (tab' @ post)) \<and> length tab' = arr * maxlen \<and>
           (\<forall>k < min maxlen (length fs). cstr (take arr (drop (k * arr) tab')) = Some (take (arr - 1) (fs ! k)))"
proof -
  define tab' where "tab' = concat (map (cell arr) (take maxlen fs)) @ zeros ((maxlen - length fs) * arr)"
  have nn: "nat (int arr * int maxlen) = arr * maxlen" "nat (int maxlen) = maxlen" by (simp_all add: nat_mult_distrib)
  have "c_int (int arr * int maxlen) = Some (int arr * int maxlen)"
    by (rule c_int_Some [OF _ assms(2)]) simp
  moreover have "mem_write (tab @ post) 0 (zeros (arr * maxlen)) = Some (zeros (maxlen * arr) @ post)"
    using assms(3) by (simp add: mem_write_def mult.commute)
  moreover have "cells_loop maxlen 0 (0 + length fs) arr sign ([] @ zeros (maxlen * arr) @ post) (Some s) =
      Some (0 + min maxlen (length fs), [] @ concat (map (cell arr) (take maxlen fs)) @ zeros ((maxlen - length fs) * arr) @ post)"
    unfolding fs_def by (rule cells_loop_fields) (use assms(1) in simp_all)
  ultimately have run: "cm_parse_data_string (Some s) (Some (tab @ post)) (int arr) (int maxlen) sign =
      Some (int (min maxlen (length fs)), Some (tab' @ post))"
    using assms(4,5) length_fields [of sign s] by (simp add: cm_parse_data_string_def nn tab'_def fs_def)
  have fld: "NUL \<notin> set f" if "f \<in> set fs" for f
    using that assms(6) unfolding fs_def
  proof (induction sign s rule: fields.induct)
    case (1 c s)
    show ?case
    proof (cases "c \<in> set s")
      case True
      have "set (tl (dropWhile (\<lambda>x. x \<noteq> c) s)) \<subseteq> set s"
        by (metis list.set_sel(2) set_dropWhileD subsetI tl_Nil)
      with 1 True show ?thesis by (subst (asm) (2) fields.simps) (auto dest: set_takeWhileD)
    next
      case False
      with 1 show ?thesis by (subst (asm) (2) fields.simps) simp
    qed
  qed
  have cl: "length (cell arr f) = arr" for f using assms(1) by (simp add: cell_def)
  have lc: "length (concat (map (cell arr) gs)) = length gs * arr" for gs by (induction gs) (simp_all add: cl)
  have "min maxlen (length fs) * arr + (maxlen - length fs) * arr = (min maxlen (length fs) + (maxlen - length fs)) * arr"
    by (simp only: add_mult_distrib)
  moreover have "min maxlen (length fs) + (maxlen - length fs) = maxlen" by (simp add: min_def)
  ultimately have "length tab' = arr * maxlen" by (simp add: tab'_def lc min.commute mult.commute)
  moreover have "cstr (take arr (drop (k * arr) tab')) = Some (take (arr - 1) (fs ! k))"
    if k: "k < min maxlen (length fs)" for k
  proof -
    define gs where "gs = take maxlen fs"
    have g: "k < length gs" "gs ! k = fs ! k" using k by (simp_all add: gs_def)
    have "gs = take k gs @ gs ! k # drop (Suc k) gs" by (rule id_take_nth_drop [OF g(1)])
    then have "concat (map (cell arr) gs) = concat (map (cell arr) (take k gs)) @ cell arr (fs ! k) @ concat (map (cell arr) (drop (Suc k) gs))"
      using g(2) by (metis concat.simps(2) concat_append list.simps(9) map_append)
    moreover have "length (concat (map (cell arr) (take k gs))) = k * arr" using g(1) by (simp add: lc)
    ultimately have "take arr (drop (k * arr) tab') = cell arr (fs ! k)"
      by (simp add: tab'_def cl flip: gs_def)
    moreover have "NUL \<notin> set (fs ! k)" using fld k by (meson min_less_iff_conj nth_mem)
    ultimately show ?thesis using cell_props(2) [OF assms(1)] by simp
  qed
  ultimately show ?thesis using run by blast
qed

section \<open>File names\<close>

lemma rindex_last:
  assumes "c \<notin> set b"
  shows "rindex (a @ c # b) c = Some (length a)"
proof -
  have "takeWhile (\<lambda>x. x \<noteq> c) (rev (a @ c # b)) = rev b"
    using takeWhile_append_stop [of "rev b" "\<lambda>x. x \<noteq> c" c "rev a"] assms by auto
  then show ?thesis by (simp add: rindex_def)
qed

text \<open>\<open>cm_seperate_filename\<close> cuts a file name at its last slash: the part before it goes to the
  path array, the part behind it to the name array, both terminated, so that the two joined by the
  slash are the name again; a name without a slash goes to the name array alone.\<close>

theorem cm_seperate_filename_splits:
  assumes "CHR ''/'' \<notin> set base" and "NUL \<notin> set dir \<union> set base"
    and "length dir < length pa" and "length base < length na"
  shows "(\<exists>pa' na'. cm_seperate_filename (Some (dir @ CHR ''/'' # base)) (Some pa) (Some na) = Some (0, Some pa', Some na') \<and>
            cstr pa' = Some dir \<and> cstr na' = Some base) \<and>
         (\<exists>na'. cm_seperate_filename (Some base) (Some pa) (Some na) = Some (0, Some pa, Some na') \<and> cstr na' = Some base)"
proof -
  have n: "sprintf_to na base = Some (base @ NUL # drop (Suc (length base)) na)"
    using assms(4) by (simp add: sprintf_to_Some)
  have cn: "cstr (base @ NUL # z) = Some base" "cstr (dir @ NUL # z) = Some dir" for z
    using assms(2) by simp_all
  obtain x pr where pr: "drop (length dir) pa = x # pr" using assms(3) by (cases "drop (length dir) pa") auto
  have "strncpy_to pa (dir @ CHR ''/'' # base) (length dir) = Some (dir @ x # pr)"
    using assms(3) by (simp add: strncpy_to_Some flip: pr)
  moreover have "upd (dir @ x # pr) (length dir) NUL = Some (dir @ NUL # pr)" by (rule upd_middle) simp
  ultimately show ?thesis using rindex_last [OF assms(1), of dir] assms(1) n cn
    by (simp add: cm_seperate_filename_def rindex_def)
qed

section \<open>Instances\<close>

theorem cm_remove_space_result_witness:
  "\<exists>str'. cm_remove_space (replicate 2 (CHR '' '') @ ''ab'' @ [] @ NUL # []) = Some (0, str') \<and> cstr str' = Some ''a''"
  using cm_remove_space_result [of "''ab''" "[]" 2 "[]"] by (simp add: blank_def NUL_def)

theorem cm_clear_parenthesis_keeps_closing_witness:
  "cm_clear_parenthesis (Some (zeros 4 @ zeros 2)) (Some (''('' @ ''abc'' @ '')'' @ NUL # [])) =
     Some (0, Some (''abc'' @ '')'' @ zeros 2))"
  by (rule cm_clear_parenthesis_keeps_closing) (simp_all add: NUL_def)

theorem cm_parse_data_string_fields_witness:
  "\<exists>tab'. cm_parse_data_string (Some ''12,3456,7'') (Some (zeros 8 @ [])) (int 4) (int 2) (CHR '','') =
     Some (2, Some tab') \<and> cstr (take 4 (drop 4 tab')) = Some ''345''"
proof -
  have f: "fields (CHR '','') ''12,3456,7'' = [''12'', ''3456'', ''7'']" by (simp add: fields.simps)
  have "NUL \<notin> set ''12,3456,7''" "CHR '','' \<noteq> NUL" by (simp_all add: NUL_def)
  then show ?thesis using cm_parse_data_string_fields [of 4 2 "zeros 8" "CHR '',''" "''12,3456,7''" "[]"]
    by (fastforce simp: f)
qed

theorem cm_seperate_filename_splits_witness:
  "\<exists>pa' na'. cm_seperate_filename (Some (''/tmp'' @ CHR ''/'' # ''a.txt'')) (Some (zeros 8)) (Some (zeros 8)) = Some (0, Some pa', Some na') \<and>
     cstr pa' = Some ''/tmp'' \<and> cstr na' = Some ''a.txt''"
  using cm_seperate_filename_splits [of "''a.txt''" "''/tmp''" "zeros 8" "zeros 8"] by (simp add: NUL_def)

end
