(* ===== verification/CodeUtils.thy ===== *)
theory CodeUtils
  imports Md5_Spec
begin

text \<open>
  The conversions of src/common/cm_utils.c: hexadecimal text to bytes, byte order, packed return
  codes, signal levels, random strings, the clock readings, and the search for the parameter sets
  of a video stream.
\<close>

section \<open>Hexadecimal text\<close>

text \<open>\<open>_cm_isxdigit\<close> on the \<open>int\<close> value of a (signed) character.\<close>

definition cm_isxdigit :: "char \<Rightarrow> bool" where
  "cm_isxdigit c = (let v = of_char c :: nat in
     48 \<le> v \<and> v \<le> 57 \<or> 97 \<le> v \<and> v \<le> 102 \<or> 65 \<le> v \<and> v \<le> 70)"

definition hex_val :: "char \<Rightarrow> nat" where
  "hex_val c = (let v = of_char c in if v \<le> 57 then v - 48 else if v \<le> 70 then v - 55 else v - 87)"

text \<open>\<open>sscanf(p, "%2x", &x)\<close> for two hexadecimal digits at \<open>p\<close>.\<close>

definition scan_2x :: "char \<Rightarrow> char \<Rightarrow> nat" where
  "scan_2x a b = 16 * hex_val a + hex_val b"

fun hex2bin_loop :: "string \<Rightarrow> u8 list \<Rightarrow> nat \<Rightarrow> u8 list option" where
  "hex2bin_loop (a # b # s) bin i = do { bin \<leftarrow> upd bin i (of_nat (scan_2x a b)); hex2bin_loop s bin (i + 1) }"
| "hex2bin_loop s bin i = Some bin"

definition cm_hex2bin :: "u8 list \<Rightarrow> string \<Rightarrow> (u32 \<times> u8 list) option" where
  "cm_hex2bin bin hex =
     (let len = length hex in
      if odd len then Some (- 1, bin)
      else if \<not> list_all cm_isxdigit hex then Some (- 2, bin)
      else do { bin \<leftarrow> hex2bin_loop hex bin 0; Some (of_nat (len div 2), bin) })"

text \<open>\<open>hexToByte\<close>: nothing in the loop changes \<open>ilen\<close>. \<open>str\<close> is the whole array and \<open>s\<close> the
  position in it; \<open>strlen(s)\<close> needs a terminator behind it.\<close>

function hexToByte_loop :: "char list \<Rightarrow> nat \<Rightarrow> int \<Rightarrow> u8 list \<Rightarrow> nat \<Rightarrow> u8 list option" where
  "hexToByte_loop str s ilen save count =
     (if \<not> ilen > 0 then Some save
      else if length str \<le> s then None
      else do {
        let c = str ! s;
        save \<leftarrow> (if CHR ''0'' \<le> c \<and> c \<le> CHR ''9'' then upd save count (of_nat (of_char c - 48))
                 else if CHR ''A'' \<le> c \<and> c \<le> CHR ''F'' then upd save count (of_nat (of_char c - 55))
                 else Some save);
        t \<leftarrow> cstr (drop s str);
        (if length t > 1 then do {
           let d = str ! (s + 1);
           v \<leftarrow> idx save count;
           save \<leftarrow> upd save count (v * 16);
           (save, count) \<leftarrow>
             (if CHR ''0'' \<le> d \<and> d \<le> CHR ''9'' then do {
                save \<leftarrow> upd save count (v * 16 + of_nat (of_char d - 48)); Some (save, count + 1) }
              else if CHR ''A'' \<le> d \<and> d \<le> CHR ''F'' then do {
                save \<leftarrow> upd save count (v * 16 + of_nat (of_char d - 55)); Some (save, count + 1) }
              else Some (save, count));
           hexToByte_loop str (s + 2) ilen save count
         } else hexToByte_loop str (s + 2) ilen save count)
      })"
  by pat_completeness auto
termination by (relation "measure (\<lambda>(str, s, ilen, save, count). length str - s)") auto

declare hexToByte_loop.simps [simp del]

definition hexToByte :: "char list \<Rightarrow> int \<Rightarrow> u8 list \<Rightarrow> (int \<times> u8 list) option" where
  "hexToByte str ilen save = do { save \<leftarrow> hexToByte_loop str 0 ilen save 0; Some (0, save) }"

section \<open>Comparing, random strings\<close>

definition tolower :: "char \<Rightarrow> char" where
  "tolower c = (if CHR ''A'' \<le> c \<and> c \<le> CHR ''Z'' then char_of (of_char c + 32 :: nat) else c)"

text \<open>\<open>strncasecmp\<close>, up to \<open>n\<close> characters.\<close>

fun strncasecmp :: "string \<Rightarrow> string \<Rightarrow> nat \<Rightarrow> int" where
  "strncasecmp s t 0 = 0"
| "strncasecmp [] [] (Suc n) = 0"
| "strncasecmp [] (y # ys) (Suc n) = - 1"
| "strncasecmp (x # xs) [] (Suc n) = 1"
| "strncasecmp (x # xs) (y # ys) (Suc n) =
     (if tolower x = tolower y then strncasecmp xs ys n else if tolower x < tolower y then - 1 else 1)"

definition cm_string_compare :: "string option \<Rightarrow> string option \<Rightarrow> int" where
  "cm_string_compare src dst = (case (src, dst) of
     (Some s, Some d) \<Rightarrow> strncasecmp s d (max (length s) (length d))
   | _ \<Rightarrow> - 1)"

text \<open>The random numbers are an argument: \<open>rand\<close> of each call, after \<open>srand\<close>.\<close>

fun random_loop :: "(nat \<Rightarrow> nat) \<Rightarrow> nat \<Rightarrow> nat \<Rightarrow> string \<Rightarrow> char list \<Rightarrow> char list option" where
  "random_loop rand 0 i chars result = Some result"
| "random_loop rand (Suc n) i chars result =
     (if chars = [] then None
      else do { result \<leftarrow> upd result i (chars ! (rand i mod length chars)); random_loop rand n (i + 1) chars result })"

definition cm_random_with_chars :: "(nat \<Rightarrow> nat) \<Rightarrow> char list \<Rightarrow> int \<Rightarrow> string \<Rightarrow> (int \<times> char list) option" where
  "cm_random_with_chars rand result num chars = do {
     result \<leftarrow> random_loop rand (nat num) 0 chars result;
     Some (0, result)
   }"

definition num_char :: string where
  "num_char = ''0123456789ABCDEFGHIJKLMNOPQRSTUVWXYZabcdefghijklmnopqrstuvwxyz''"

definition cm_random_with_num_char :: "(nat \<Rightarrow> nat) \<Rightarrow> char list \<Rightarrow> int \<Rightarrow> (int \<times> char list) option" where
  "cm_random_with_num_char rand result num = cm_random_with_chars rand result num num_char"

definition cm_random_with_num_char_sym :: "(nat \<Rightarrow> nat) \<Rightarrow> char list \<Rightarrow> int \<Rightarrow> (int \<times> char list) option" where
  "cm_random_with_num_char_sym rand result num = cm_random_with_chars rand result num (num_char @ '',=+'')"

section \<open>Numbers\<close>

definition cm_litte_to_big :: "u16 \<Rightarrow> u16" where
  "cm_litte_to_big v = (let ret = 0 OR push_bit 8 (v AND 0xff) in ret OR (drop_bit 8 v AND 0xff))"

definition cm_big_to_little :: "u16 \<Rightarrow> u16" where
  "cm_big_to_little v = (let ret = 0 OR push_bit 8 (v AND 0xff) in ret OR (drop_bit 8 v AND 0xff))"

definition cm_wifi_signal_level :: "int \<Rightarrow> int" where
  "cm_wifi_signal_level signal =
     (if signal < - 90 then 1
      else if signal > - 35 then 5
      else if signal < - 35 \<and> signal > - 50 then 4
      else if signal < - 50 \<and> signal > - 75 then 3
      else if signal < - 75 \<and> signal > - 90 then 2
      else 0)"

text \<open>The packed return codes, on 32-bit words: \<open>sint\<close> is the C value.\<close>

definition cm_retserrno :: "u32 \<Rightarrow> u32 \<Rightarrow> u32" where
  "cm_retserrno orig v =
     (if sint orig < 0 then NOT (((NOT orig + 1) OR push_bit 8 v) - 1) else orig OR push_bit 8 v)"

definition cm_retgerrno :: "u32 \<Rightarrow> u32" where
  "cm_retgerrno orig =
     (if sint orig < 0 then drop_bit 8 ((NOT orig + 1) AND 0x00ffff00) else drop_bit 8 (orig AND 0x00ffff00))"

definition cm_retgret :: "u32 \<Rightarrow> u32" where
  "cm_retgret orig =
     (if sint orig < 0 then NOT (((NOT orig + 1) AND 0x000000ff) - 1) else orig AND 0x000000ff)"

text \<open>The clock: \<open>tv\<close> is what \<open>gettimeofday\<close> gives (seconds and microseconds), \<open>None\<close> when it
  fails.\<close>

definition cm_gettime_only_micro :: "(u64 \<times> u64) option \<Rightarrow> u32" where
  "cm_gettime_only_micro tv = (case tv of None \<Rightarrow> 0 | Some (sec, usec) \<Rightarrow> ucast usec)"

definition cm_gettime_micro :: "(u64 \<times> u64) option \<Rightarrow> u64" where
  "cm_gettime_micro tv = (case tv of None \<Rightarrow> 0 | Some (sec, usec) \<Rightarrow> sec * 1000000 + usec)"

definition cm_gettime_milli :: "(u64 \<times> u64) option \<Rightarrow> u64" where
  "cm_gettime_milli tv = (case tv of None \<Rightarrow> 0 | Some (sec, usec) \<Rightarrow> sec * 1000 + usec div 1000)"

section \<open>Parameter sets of a stream\<close>

text \<open>Does the start code 00 00 00 01 stand at \<open>p\<close>? The comparison stops at the first byte that
  differs, so later bytes need not exist.\<close>

fun start_code :: "u8 list \<Rightarrow> u8 list \<Rightarrow> nat \<Rightarrow> bool option" where
  "start_code [] d p = Some True"
| "start_code (c # cs) d p = do { x \<leftarrow> idx d p; if x = c then start_code cs d (p + 1) else Some False }"

definition starts :: "u8 list \<Rightarrow> nat \<Rightarrow> bool option" where
  "starts d p = start_code [0, 0, 0, 1] d p"

function parse_pps_loop :: "u8 list \<Rightarrow> int \<Rightarrow> nat \<Rightarrow> int \<Rightarrow> int option" where
  "parse_pps_loop pps lenpps pn donelen =
     (if lenpps \<le> donelen + 3 then Some 0
      else do {
        b \<leftarrow> starts pps (pn + 1);
        if b then Some (int (pn + 1)) else parse_pps_loop pps lenpps (pn + 2) (donelen + 1)
      })"
  by pat_completeness auto
termination by (relation "measure (\<lambda>(pps, lenpps, pn, donelen). nat (lenpps - donelen))") auto

text \<open>The \<open>memmove\<close> of a found set moves it onto itself.\<close>

definition cm_codec_parse_pps :: "u8 list \<Rightarrow> int \<Rightarrow> int option" where
  "cm_codec_parse_pps pps lenpps = parse_pps_loop pps lenpps 0 0"

text \<open>The inner loop of \<open>cm_codec_parse\<close> looks for the second start code from \<open>pn\<close> on: found (with
  its position), or ended.\<close>

function find_second :: "u8 list \<Rightarrow> int \<Rightarrow> nat \<Rightarrow> int \<Rightarrow> (nat option \<times> int) option" where
  "find_second d len pn donelen =
     (if len \<le> donelen + 3 then Some (None, donelen)
      else do {
        b \<leftarrow> starts d pn;
        if b then Some (Some pn, donelen) else find_second d len (pn + 1) (donelen + 1)
      })"
  by pat_completeness auto
termination by (relation "measure (\<lambda>(d, len, pn, donelen). nat (len - donelen))") auto

declare parse_pps_loop.simps [simp del] find_second.simps [simp del]

text \<open>When the inner loop ends without a second code, the outer test ends the outer loop too: it
  runs once. The result is the position of the first set and that of the second, if found.\<close>

definition codec_scan :: "u8 list \<Rightarrow> int \<Rightarrow> (nat \<times> nat option) option" where
  "codec_scan d len =
     (if len \<le> 3 then Some (0, None)
      else do {
        b \<leftarrow> starts d 0;
        let ps = 0;
        (pns, donelen) \<leftarrow> find_second d len 4 0;
        Some (ps, pns)
      })"

definition cm_codec_parse ::
  "u8 list option \<Rightarrow> int \<Rightarrow> u8 list option \<Rightarrow> int option \<Rightarrow> u8 list option \<Rightarrow> int option \<Rightarrow>
     (int \<times> u8 list option \<times> int option \<times> u8 list option \<times> int option) option" where
  "cm_codec_parse data len pps lenpps sps lensps = (case (data, pps, lenpps, sps, lensps) of
     (Some d, Some pps, Some lenpps, Some sps, Some lensps) \<Rightarrow>
       (if len \<le> 0 then Some (- 1, Some pps, Some lenpps, Some sps, Some lensps)
        else do {
          (ps, pns) \<leftarrow> codec_scan d len;
          (sps, lensps, pps, lenpps) \<leftarrow> (case pns of
             None \<Rightarrow> Some (sps, lensps, pps, lenpps)
           | Some pns \<Rightarrow> do {
               let lenout = pns - ps;
               xs \<leftarrow> mem_read d ps lenout;
               sps \<leftarrow> mem_write sps 0 xs;
               let rest = len - int lenout;
               (if rest < 0 then None
                else do {
                  ys \<leftarrow> mem_read d pns (nat rest);
                  pps \<leftarrow> mem_write pps 0 ys;
                  Some (sps, int lenout, pps, rest)
                })
             });
          lenpps \<leftarrow> cm_codec_parse_pps pps lenpps;
          Some (0, Some pps, Some lenpps, Some sps, Some lensps)
        })
   | _ \<Rightarrow> Some (- 1, pps, lenpps, sps, lensps))"

section \<open>Reading back what was printed\<close>

lemma hex_digit_read: "d < 16 \<Longrightarrow> cm_isxdigit (hex_digit d) \<and> hex_val (hex_digit d) = d"
  by (simp add: cm_isxdigit_def hex_val_def hex_digit_char Let_def)

lemma byte_digits: "unat (b :: u8) div 16 < 16" "unat b mod 16 < 16"
  using byte_less [of b] by (simp_all add: less_mult_imp_div_less)

lemma scan_fmt_02x:
  "scan_2x (hex_digit (unat (b :: u8) div 16)) (hex_digit (unat b mod 16)) = unat b"
  using hex_digit_read byte_digits [of b] by (simp add: scan_2x_def)

lemma hex_text_digits: "list_all cm_isxdigit (concat (map fmt_02x bs))"
  by (induction bs) (simp_all add: fmt_02x_def hex_digit_read byte_digits)

lemma length_hex_text [simp]: "length (concat (map fmt_02x bs)) = 2 * length bs"
  by (induction bs) simp_all

lemma hex2bin_loop_text:
  "length p = i \<Longrightarrow> length q = length bs \<Longrightarrow>
     hex2bin_loop (concat (map fmt_02x bs)) (p @ q @ r) i = Some (p @ bs @ r)"
proof (induction bs arbitrary: p q i)
  case (Cons b bs)
  then obtain x q' where q: "q = x # q'" by (cases q) auto
  have "upd (p @ q @ r) i b = Some ((p @ [b]) @ q' @ r)" using Cons.prems(1) by (auto simp: upd_def q)
  with Cons.IH [of "p @ [b]" "i + 1" q'] Cons.prems q show ?case
    by (simp add: fmt_02x_def scan_fmt_02x)
qed simp

lemma cm_hex2bin_text:
  assumes "length bs \<le> length bin"
  shows "cm_hex2bin bin (concat (map fmt_02x bs)) = Some (of_nat (length bs), bs @ drop (length bs) bin)"
proof -
  have "hex2bin_loop (concat (map fmt_02x bs)) ([] @ take (length bs) bin @ drop (length bs) bin) 0 =
      Some ([] @ bs @ drop (length bs) bin)"
    by (rule hex2bin_loop_text) (use assms in auto)
  then show ?thesis by (simp add: cm_hex2bin_def hex_text_digits)
qed

text \<open>\<open>cm_hex2bin\<close> reads back what the two-digit conversions print: any bytes from their
  hexadecimal text, and so the MD5 digest of a message from the text \<open>kfmd5_ngx_tostring\<close> makes of
  it; a text of odd length or with another character is refused and nothing is written.\<close>

theorem cm_hex2bin_roundtrip:
  assumes "length bs \<le> length bin" and "16 \<le> length bin2" and "length (buffer ctx0) = 64" and "length out = 16"
    and "33 \<le> length save"
  shows "cm_hex2bin bin (concat (map fmt_02x bs)) = Some (of_nat (length bs), bs @ drop (length bs) bin) \<and>
         (\<exists>dig save'. kfmd5_ngx ctx0 (Some data) (Some out) = Some (0, Some dig) \<and>
            kfmd5_ngx_tostring (Some dig) (Some save) = Some (32, Some save') \<and>
            (\<exists>t. cstr save' = Some t \<and> cm_hex2bin bin2 t = Some (16, dig @ drop 16 bin2))) \<and>
         (odd (length hex) \<longrightarrow> cm_hex2bin bin hex = Some (- 1, bin)) \<and>
         (even (length hex) \<and> \<not> list_all cm_isxdigit hex \<longrightarrow> cm_hex2bin bin hex = Some (- 2, bin))"
proof (intro conjI)
  show "cm_hex2bin bin (concat (map fmt_02x bs)) = Some (of_nat (length bs), bs @ drop (length bs) bin)"
    by (rule cm_hex2bin_text) fact
  define dig where "dig = rfc_digest data"
  have len: "length dig = 16" by (simp add: dig_def length_rfc_digest)
  have "kfmd5_ngx ctx0 (Some data) (Some out) = Some (0, Some dig)"
    using kfmd5_ngx_digest [OF assms(3), of out data] assms(4) by (simp add: dig_def)
  moreover have "kfmd5_ngx_tostring (Some dig) (Some save) = Some (32, Some (md5_hex dig @ NUL # drop 33 save))"
    using kfmd5_tostring [OF len, of save] assms(5) length_md5_hex [OF len] by simp
  moreover have "cstr (md5_hex dig @ NUL # drop 33 save) = Some (md5_hex dig)"
    by (rule cstr_append_NUL) (rule md5_hex_no_NUL)
  moreover have "cm_hex2bin bin2 (md5_hex dig) = Some (16, dig @ drop 16 bin2)"
    using cm_hex2bin_text [of dig bin2] len assms(2) by (simp add: md5_hex_def)
  ultimately show "\<exists>dig save'. kfmd5_ngx ctx0 (Some data) (Some out) = Some (0, Some dig) \<and>
            kfmd5_ngx_tostring (Some dig) (Some save) = Some (32, Some save') \<and>
            (\<exists>t. cstr save' = Some t \<and> cm_hex2bin bin2 t = Some (16, dig @ drop 16 bin2))" by blast
qed (simp_all add: cm_hex2bin_def)

section \<open>Loops that never end well\<close>

text \<open>\<open>hexToByte\<close> never counts its length down: for every positive length and every string it
  runs past the end of its input, so it has no defined result.\<close>

theorem hexToByte_never_returns:
  assumes "0 < ilen"
  shows "hexToByte str ilen save = None"
proof -
  have "hexToByte_loop str s ilen sv c = None" for s sv c
  proof (induction "length str - s" arbitrary: s sv c rule: less_induct)
    case less
    show ?case
    proof (cases "s < length str")
      case True
      have ih: "hexToByte_loop str (Suc (Suc s)) ilen sv c = None" for sv c
        by (rule less) (use True in simp)
      show ?thesis
        by (subst hexToByte_loop.simps) (use assms True ih in \<open>simp add: Let_def case_prod_unfold cong: if_cong\<close>)
    qed (use assms in \<open>simp add: hexToByte_loop.simps\<close>)
  qed
  then show ?thesis by (simp add: hexToByte_def)
qed

section \<open>Return codes\<close>

lemma code_pack:
  assumes "a < 256" and "v < 65536"
  shows "(of_nat a :: u32) OR push_bit 8 (of_nat v) = of_nat (a + 256 * v)"
proof -
  have "take_bit 8 a = a" using assms(1) by (simp add: take_bit_eq_mod)
  then have "bit a n \<Longrightarrow> n < 8" for n by (metis bit_take_bit_iff)
  then have "(of_nat a :: u32) OR push_bit 8 (of_nat v) = of_nat a + push_bit 8 (of_nat v)"
    by (intro disjunctive_add [symmetric]) (auto simp: bit_simps not_le [symmetric])
  then show ?thesis by (simp add: push_bit_eq_mult algebra_simps)
qed

lemma code_unpack:
  assumes "x < 2 ^ 24"
  shows "(of_nat x :: u32) AND 0x000000ff = of_nat (x mod 256)"
    and "drop_bit 8 ((of_nat x :: u32) AND 0x00ffff00) = of_nat (x div 256)"
proof -
  have u: "unat (of_nat x :: u32) = x" using assms by (simp add: unat_of_nat)
  have "unat ((of_nat x :: u32) AND 0xff) = x AND (2 ^ 8 - 1)" by (simp add: unsigned_and_eq u)
  also have "\<dots> = x mod 256" using nat_and_mask [of x 8] by simp
  finally show "(of_nat x :: u32) AND 0x000000ff = of_nat (x mod 256)"
    by (simp add: word_unat_eq_iff unat_of_nat)
  have "x div 256 < 65536" using assms by (simp add: less_mult_imp_div_less)
  have "drop_bit 8 ((of_nat x :: u32) AND 0x00ffff00) = drop_bit 8 (of_nat x) AND 0xffff" by (simp add: drop_bit_and)
  moreover have "unat (drop_bit 8 (of_nat x :: u32) AND 0xffff) = (x div 256) AND (2 ^ 16 - 1)"
    by (simp add: unsigned_and_eq unat_drop_bit_eq drop_bit_eq_div u unat_div)
  moreover have "(x div 256) AND (2 ^ 16 - 1) = x div 256"
    using nat_and_mask [of "x div 256" 16] \<open>x div 256 < 65536\<close> by simp
  ultimately show "drop_bit 8 ((of_nat x :: u32) AND 0x00ffff00) = of_nat (x div 256)"
    using \<open>x div 256 < 65536\<close> by (simp add: word_unat_eq_iff unat_of_nat)
qed

text \<open>The packed return codes: for a result of magnitude below 256 and a user code below
  65536, \<open>cm_retserrno\<close> packs both into one \<open>int\<close> with the sign of the result, and
  \<open>cm_retgret\<close> and \<open>cm_retgerrno\<close> take them out again, for negative results too.\<close>

theorem cm_ret_codes_roundtrip:
  assumes "\<bar>ret\<bar> < 256" and "0 \<le> code" and "code < 65536"
  shows "sint (cm_retgret (cm_retserrno (of_int ret) (of_int code))) = ret \<and>
         sint (cm_retgerrno (cm_retserrno (of_int ret) (of_int code))) = code"
proof -
  define a where "a = nat \<bar>ret\<bar>"
  define v where "v = nat code"
  have av: "a < 256" "v < 65536" "code = int v" using assms by (auto simp: a_def v_def)
  have x: "a + 256 * v < 2 ^ 24" "(a + 256 * v) mod 256 = a" "(a + 256 * v) div 256 = v" using av by auto
  have k: "sint (word_of_int k :: u32) = k" if "- (2 ^ 31) \<le> k" "k < 2 ^ 31" for k
    using signed_take_bit_int_eq_self [of 31 k] that by (simp add: signed_of_int)
  have s: "sint (of_nat n :: u32) = int n" "sint (- of_nat n :: u32) = - int n" if "n < 2 ^ 24" for n
    using k [of "int n"] k [of "- int n"] that by simp_all
  have neg: "NOT (- w) + 1 = w" "NOT (w - 1) = - w" for w :: u32
    by (simp_all add: minus_eq_not_minus_1 [symmetric] not_eq_complement)
  define A where "A = (of_nat a :: u32)"
  define V where "V = (of_nat v :: u32)"
  define X where "X = (of_nat (a + 256 * v) :: u32)"
  have sx: "sint X = int (a + 256 * v)" "sint (- X) = - int (a + 256 * v)" "sint A = int a" "sint (- A) = - int a" "sint V = int v"
    using s [of a] s [OF x(1)] s [of v] av(1,2) unfolding A_def V_def X_def by simp_all
  have pk: "A OR push_bit 8 V = X" "X AND 0x000000ff = A" "drop_bit 8 (X AND 0x00ffff00) = V"
    using code_pack [OF av(1,2)] code_unpack [OF x(1)] unfolding x(2,3) A_def V_def X_def by simp_all
  have cv: "of_int code = V" by (simp add: av(3) V_def)
  show ?thesis
  proof (cases "ret < 0")
    case False
    then have r: "ret = int a" "of_int ret = A" by (simp_all add: a_def A_def)
    have c: "cm_retserrno A V = X" using sx(3) by (simp add: cm_retserrno_def pk)
    have "\<not> sint X < 0" using sx(1) by simp
    then have "cm_retgret X = A" "cm_retgerrno X = V"
      unfolding cm_retgret_def cm_retgerrno_def pk by simp_all
    then show ?thesis unfolding r(2) cv c by (simp add: sx r(1) av(3))
  next
    case True
    then have r: "ret = - int a" "of_int ret = - A" "0 < a" by (simp_all add: a_def A_def)
    have c: "cm_retserrno (- A) V = - X" using sx(4) r(3) by (simp add: cm_retserrno_def neg pk)
    have "sint (- X) < 0" using sx(2) r(3) by simp
    then have "cm_retgret (- X) = - A" "cm_retgerrno (- X) = V"
      unfolding cm_retgret_def cm_retgerrno_def neg(1) pk neg(2) by simp_all
    then show ?thesis unfolding r(2) cv c by (simp add: sx r(1) av(3))
  qed
qed

section \<open>Parameter sets\<close>

lemma start_code_bound: "start_code cs d p = Some True \<Longrightarrow> take (length cs) (drop p d) = cs"
proof (induction cs d p rule: start_code.induct)
  case (2 c cs d p)
  then show ?case by (auto simp: idx_def Cons_nth_drop_Suc [symmetric] split: if_splits Option.bind_splits)
qed simp

text \<open>\<open>cm_codec_parse\<close> searches for the second start code up to four bytes past the data it was
  given: in a buffer of exactly \<open>len\<close> bytes (at least four) without a second start code behind the
  first four bytes, it reads beyond the end.\<close>

theorem cm_codec_parse_overread:
  assumes "int (length d) = len" and "4 \<le> len" and "\<And>p. 4 \<le> p \<Longrightarrow> take 4 (drop p d) \<noteq> [0, 0, 0, 1]"
  shows "cm_codec_parse (Some d) len (Some pps) (Some lp) (Some sps) (Some ls) = None"
proof -
  have no: "starts d p \<noteq> Some True" if "4 \<le> p" for p
    using start_code_bound [of "[0, 0, 0, 1]" d p] assms(3) [OF that] by (auto simp: starts_def numeral_eq_Suc)
  have loop: "find_second d len pn dl = None" if "4 \<le> pn" "int pn = dl + 4" "dl + 3 < len" for pn dl
    using that
  proof (induction "nat (len - dl)" arbitrary: pn dl rule: less_induct)
    case less
    show ?case
    proof (cases "starts d pn")
      case None
      then show ?thesis using less.prems by (subst find_second.simps) simp
    next
      case (Some b)
      then have b: "b = False" using no [OF less.prems(1)] by auto
      then have "pn < length d" using Some less.prems by (auto simp: starts_def idx_def split: if_splits)
      then have "find_second d len (pn + 1) (dl + 1) = None"
        using less.prems assms(1) by (intro less.hyps) auto
      then show ?thesis using less.prems Some b by (subst find_second.simps) simp
    qed
  qed
  have "find_second d len 4 0 = None" by (rule loop) (use assms(2) in auto)
  then have "codec_scan d len = None" using assms(2) by (simp add: codec_scan_def Let_def)
  then show ?thesis using assms(2) by (simp add: cm_codec_parse_def)
qed

section \<open>Instances\<close>

theorem cm_hex2bin_roundtrip_witness:
  "cm_hex2bin [0, 0] (concat (map fmt_02x [0x2f, 0xff])) = Some (2, [0x2f, 0xff])"
  using cm_hex2bin_roundtrip [of "[0x2f, 0xff]" "[0, 0]" "replicate 16 0" zero_ctx "replicate 16 0" "zeros 33" "[]" "[]"]
  by (simp add: zero_ctx_def zeros_def)

theorem hexToByte_never_returns_witness: "hexToByte (''2F'' @ [NUL]) 1 [0, 0, 0] = None"
  by (rule hexToByte_never_returns) simp

theorem cm_ret_codes_roundtrip_witness:
  "sint (cm_retgret (cm_retserrno (of_int (- 7)) (of_int 228))) = - 7 \<and>
   sint (cm_retgerrno (cm_retserrno (of_int (- 7)) (of_int 228))) = 228"
  by (rule cm_ret_codes_roundtrip) simp_all

theorem cm_codec_parse_overread_witness:
  "cm_codec_parse (Some [0, 0, 0, 1, 103, 66]) 6 (Some (replicate 6 0)) (Some 0) (Some (replicate 6 0)) (Some 0) = None"
proof (rule cm_codec_parse_overread)
  fix p :: nat assume "4 \<le> p"
  then have "length (take 4 (drop p [0, 0, 0, 1, 103, 66 :: u8])) \<noteq> length [0, 0, 0, 1 :: u8]" by simp
  then show "take 4 (drop p [0, 0, 0, 1, 103, 66 :: u8]) \<noteq> [0, 0, 0, 1]" by (rule contrapos_nn) (rule arg_cong)
qed simp_all

end
