(* ===== verification/V4.thy ===== *)
theory V4
  imports Prelude
begin

text \<open>
  The binary protocol of src/jkprotocol/v4/v4.c: a header of two bytes (version, crypt mode,
  acknowledge flag, length) and a body. The header fields are \<open>int\<close> values at their width, bytes
  are words, and the body is the block \<open>szData\<close> points to (\<open>None\<close> is NULL). \<open>p[0] |= x\<close> on a
  \<open>char\<close> promotes with the sign and keeps the low byte. \<open>calloc\<close> is an argument that says which
  sizes it can serve. The seven function pointers are set together and cleared together: one flag.
\<close>

record JKProV4Header =
  iVersion :: u32
  iCrypt :: u32
  iACK :: u32
  iLength :: u32

type_synonym JKProV4Body = "u8 list option"

record JKProV4 =
  szHeader :: JKProV4Header
  szBody :: JKProV4Body
  methods :: bool

definition JK_PRO_V4_HEADER_LENGTH :: int where "JK_PRO_V4_HEADER_LENGTH = 2"

definition header_zero :: JKProV4Header where
  "header_zero = \<lparr>iVersion = 0, iCrypt = 0, iACK = 0, iLength = 0\<rparr>"

definition v4_zero :: JKProV4 where
  "v4_zero = \<lparr>szHeader = header_zero, szBody = None, methods = False\<rparr>"

text \<open>\<open>calloc(1, n)\<close> for an \<open>int\<close> \<open>n\<close>: the conversion to \<open>size_t\<close> extends the sign.\<close>

definition to_size :: "u32 \<Rightarrow> nat" where "to_size n = unat (word_of_int (sint n) :: u64)"

definition v4_calloc :: "(nat \<Rightarrow> bool) \<Rightarrow> nat \<Rightarrow> u8 list option" where
  "v4_calloc ok n = (if ok n then Some (replicate n 0) else None)"

text \<open>\<open>memcpy(dst + off, src, n)\<close>.\<close>

definition memcpy :: "u8 list \<Rightarrow> nat \<Rightarrow> u8 list option \<Rightarrow> nat \<Rightarrow> u8 list option" where
  "memcpy dst off src n = do { s \<leftarrow> src; b \<leftarrow> mem_read s 0 n; mem_write dst off b }"

definition jk_pro_v4_deinit :: "JKProV4 option \<Rightarrow> int \<times> JKProV4 option" where
  "jk_pro_v4_deinit v4 = (case v4 of None \<Rightarrow> (- 1, None) | Some v \<Rightarrow> (0, Some v4_zero))"

definition jk_pro_v4_clear :: "JKProV4 option \<Rightarrow> int \<times> JKProV4 option" where
  "jk_pro_v4_clear v4 = (case v4 of None \<Rightarrow> (- 1, None)
     | Some v \<Rightarrow> (0, Some (v\<lparr>szBody := None, szHeader := szHeader v\<lparr>iLength := 0, iACK := 0\<rparr>\<rparr>)))"

definition jk_pro_v4_set_header :: "JKProV4 option \<Rightarrow> u32 \<Rightarrow> u32 \<Rightarrow> int \<times> JKProV4 option" where
  "jk_pro_v4_set_header v4 ack len = (case v4 of None \<Rightarrow> (- 1, None)
     | Some v \<Rightarrow> (0, Some (v\<lparr>szHeader := szHeader v\<lparr>iACK := ack, iLength := len\<rparr>\<rparr>)))"

definition jk_pro_v4_free_body :: "JKProV4 option \<Rightarrow> int \<times> JKProV4 option" where
  "jk_pro_v4_free_body v4 = (case v4 of None \<Rightarrow> (- 1, None) | Some v \<Rightarrow> (0, Some (v\<lparr>szBody := None\<rparr>)))"

text \<open>The loops over bits: \<open>put_bits\<close> copies the low \<open>n\<close> bits of a field into a byte from bit \<open>k\<close> on,
  \<open>get_bits\<close> reads them back.\<close>

definition or_char :: "u8 \<Rightarrow> u32 \<Rightarrow> u8" where "or_char p x = ucast ((scast p :: u32) OR x)"

definition put_bits :: "u32 \<Rightarrow> nat \<Rightarrow> nat \<Rightarrow> u8 \<Rightarrow> u8" where
  "put_bits v n k p =
     fold (\<lambda>i p. if v AND push_bit i 1 \<noteq> 0 then or_char p (push_bit (i + k) 1) else p) [0..<n] p"

definition get_bits :: "u8 \<Rightarrow> nat \<Rightarrow> nat \<Rightarrow> u32 \<Rightarrow> u32" where
  "get_bits p n k v =
     fold (\<lambda>i v. if (scast p :: u32) AND push_bit (i + k) 1 \<noteq> 0 then v OR push_bit i 1 else v) [0..<n] v"

text \<open>The acknowledge flag is written at bit \<open>i\<close>, which is 2 after the loop over the crypt bits.\<close>

definition header_bytes :: "JKProV4Header \<Rightarrow> u8 \<times> u8" where
  "header_bytes h =
     (let p0 = put_bits (iVersion h) 4 4 0;
          p0 = put_bits (iCrypt h) 2 2 p0;
          p0 = (if iACK h \<noteq> 0 then or_char p0 (push_bit 2 1) else p0);
          p1 = put_bits (iLength h) 32 0 0
      in (p0, p1))"

definition jk_pro_v4_to_bytes :: "(nat \<Rightarrow> bool) \<Rightarrow> JKProV4 option \<Rightarrow> (int \<times> u8 list option) option" where
  "jk_pro_v4_to_bytes ok v4 =
     (case v4 of None \<Rightarrow> Some (- 1, None)
      | Some v \<Rightarrow>
          let h = szHeader v in
          do {
            n \<leftarrow> c_int (sint (iLength h) + JK_PRO_V4_HEADER_LENGTH);
            case v4_calloc ok (nat (n mod 2 ^ 64)) of None \<Rightarrow> Some (- 2, None)
            | Some ret \<Rightarrow> do {
                ret \<leftarrow> upd ret 0 (fst (header_bytes h));
                ret \<leftarrow> upd ret 1 (snd (header_bytes h));
                ret \<leftarrow> memcpy ret 2 (szBody v) (to_size (iLength h));
                Some (0, Some ret) } })"

definition parse_header :: "u8 \<Rightarrow> u8 \<Rightarrow> JKProV4Header" where
  "parse_header b0 b1 =
     header_zero\<lparr>iACK := (if (scast b0 :: u32) AND push_bit 1 1 \<noteq> 0 then 1 else 0),
       iCrypt := get_bits b0 2 2 0, iVersion := get_bits b0 4 4 0, iLength := get_bits b1 32 0 0\<rparr>"

text \<open>\<open>1<<31-1\<close> is \<open>1 << 30\<close>; \<open>sizeof(v4->szHeader.iLength)\<close> is 4.\<close>

definition jk_pro_v4_parse :: "(nat \<Rightarrow> bool) \<Rightarrow> JKProV4 option \<Rightarrow> u8 list option \<Rightarrow> (int \<times> JKProV4 option) option" where
  "jk_pro_v4_parse ok v4 bytes =
     (case v4 of None \<Rightarrow> Some (- 1, None)
      | Some v \<Rightarrow>
        (case bytes of None \<Rightarrow> Some (- 2, Some v)
         | Some p \<Rightarrow> do {
             b0 \<leftarrow> idx p 0;
             b1 \<leftarrow> idx p 1;
             let h = parse_header b0 b1;
             let v = v\<lparr>szHeader := h, szBody := None\<rparr>;
             if sint (iLength h) \<ge> 2 ^ 30 then Some (- 3, Some v)
             else (case v4_calloc ok 4 of None \<Rightarrow> Some (- 4, Some v)
               | Some d \<Rightarrow> do {
                   d \<leftarrow> memcpy d 0 (Some (drop 2 p)) (to_size (iLength h));
                   Some (0, Some (v\<lparr>szBody := Some d\<rparr>)) }) }))"

definition jk_pro_v4_set_body :: "(nat \<Rightarrow> bool) \<Rightarrow> JKProV4 option \<Rightarrow> u8 list option \<Rightarrow> (int \<times> JKProV4 option) option" where
  "jk_pro_v4_set_body ok v4 data =
     (case v4 of None \<Rightarrow> Some (- 1, None)
      | Some v \<Rightarrow>
        let n = to_size (iLength (szHeader v)) in
        (case v4_calloc ok n of None \<Rightarrow> Some (- 2, Some (v\<lparr>szBody := None\<rparr>))
         | Some d \<Rightarrow> do { d \<leftarrow> memcpy d 0 data n; Some (0, Some (v\<lparr>szBody := Some d\<rparr>)) }))"

definition jk_pro_v4_init :: "u32 \<Rightarrow> u32 \<Rightarrow> int \<times> JKProV4" where
  "jk_pro_v4_init version crypt =
     (0, v4_zero\<lparr>szHeader := header_zero\<lparr>iVersion := version, iCrypt := crypt\<rparr>, methods := True\<rparr>)"

section \<open>The bit loops\<close>

lemma bit_or_char: "j < 8 \<Longrightarrow> bit (or_char p x) j \<longleftrightarrow> bit p j \<or> bit x j"
  by (auto simp: or_char_def bit_simps)

lemma bit_put_bits:
  "j < 8 \<Longrightarrow> bit (put_bits v n k p) j \<longleftrightarrow> bit p j \<or> (k \<le> j \<and> j - k < n \<and> bit v (j - k))"
proof (induction n)
  case (Suc n)
  have "bit (put_bits v (Suc n) k p) j \<longleftrightarrow>
      bit (put_bits v n k p) j \<or> (bit v n \<and> j = n + k)"
    using Suc.prems by (auto simp: put_bits_def and_exp_eq_0_iff_not_bit bit_or_char bit_simps)
  then show ?case using Suc by (auto simp: less_Suc_eq)
qed (simp add: put_bits_def)

lemma bit_get_bits:
  "n \<le> 32 \<Longrightarrow> bit (get_bits p n k v) j \<longleftrightarrow> bit v j \<or> (j < n \<and> bit (scast p :: u32) (j + k))"
proof (induction n)
  case (Suc n)
  have "bit (get_bits p (Suc n) k v) j \<longleftrightarrow>
      bit (get_bits p n k v) j \<or> (bit (scast p :: u32) (n + k) \<and> j = n)"
    using Suc.prems by (auto simp: get_bits_def and_exp_eq_0_iff_not_bit bit_simps)
  then show ?case using Suc by (auto simp: less_Suc_eq)
qed (simp add: get_bits_def)

section \<open>The header on the wire\<close>

lemma sint_parsed_length: "get_bits b 32 0 0 = scast b"
  by (rule bit_word_eqI) (simp add: bit_get_bits)

lemma length_byte: "put_bits len 32 0 0 = ucast len"
  by (rule bit_word_eqI) (auto simp: bit_put_bits bit_simps)

lemma small_word_bit:
  assumes "x < (2 :: u32) ^ n" and "n < 32" and "bit x j"
  shows "j < n"
proof (rule ccontr)
  assume "\<not> j < n"
  then have "(2 :: nat) ^ n \<le> 2 ^ j" by simp
  moreover have "unat ((2 :: u32) ^ n) = 2 ^ n"
    using power_strict_increasing [OF assms(2), of "2 :: nat"] unat_of_nat [where ?'a = 32, of "2 ^ n"] by simp
  then have "unat x < 2 ^ n" using assms(1) by (simp add: word_less_nat_alt)
  ultimately have "unat x div 2 ^ j = 0" by (meson div_less less_le_trans)
  moreover have "bit (unat x) j" using assms(3) by (simp add: bit_unsigned_iff)
  then have "odd (unat x div 2 ^ j)" by (simp only: bit_iff_odd not_False_eq_True)
  ultimately show False by simp
qed


lemma bit_ack: "bit (4 :: int) j \<longleftrightarrow> j = 2"
  using bit_exp_iff [where ?'a = int, of 2 j] by auto

lemma put_fields:
  assumes "iVersion h < 16" and "iCrypt h < 4" and "j < 8"
  shows "bit (fst (header_bytes h)) j \<longleftrightarrow>
     (4 \<le> j \<and> bit (iVersion h) (j - 4)) \<or> (2 \<le> j \<and> bit (iCrypt h) (j - 2)) \<or> (iACK h \<noteq> 0 \<and> j = 2)"
  using assms(3) small_word_bit [of "iVersion h" 4] small_word_bit [of "iCrypt h" 2] assms(1,2)
  by (auto simp: header_bytes_def Let_def bit_put_bits bit_or_char bit_ack)

lemma header_roundtrip:
  assumes "iVersion h < 16" and "iCrypt h < 4"
  shows "parse_header (fst (header_bytes h)) (snd (header_bytes h)) =
    \<lparr>iVersion = iVersion h, iCrypt = (if iACK h \<noteq> 0 then iCrypt h OR 1 else iCrypt h), iACK = 0,
     iLength = scast (ucast (iLength h) :: u8)\<rparr>"
proof -
  define b where "b = fst (header_bytes h)"
  note bits = put_fields [OF assms, folded b_def]
  have up: "bit (scast b :: u32) j \<longleftrightarrow> bit b j" if "j < 8" for j
    using that by (simp add: bit_simps min_absorb2)
  have c: "\<not> bit (iCrypt h) n" if "2 \<le> n" for n
    using small_word_bit [of "iCrypt h" 2 n] assms(2) that by auto
  have "get_bits b 4 4 0 = iVersion h"
    by (rule bit_word_eqI) (use small_word_bit [of "iVersion h" 4] assms in \<open>auto simp: bit_get_bits up bits c\<close>)
  moreover have "bit (get_bits b 2 2 0) n \<longleftrightarrow> bit (if iACK h \<noteq> 0 then iCrypt h OR 1 else iCrypt h) n" for n
    by (cases "n < 2") (auto simp: bit_get_bits up bits bit_or_iff bit_1_iff c)
  then have "get_bits b 2 2 0 = (if iACK h \<noteq> 0 then iCrypt h OR 1 else iCrypt h)"
    by (intro bit_word_eqI)
  moreover have "(scast b :: u32) AND 2 = 0"
    using and_exp_eq_0_iff_not_bit [of "scast b :: u32" 1] by (simp add: up bits)
  moreover have "snd (header_bytes h) = ucast (iLength h)"
    by (simp add: header_bytes_def Let_def length_byte)
  ultimately show ?thesis
    by (simp add: parse_header_def b_def [symmetric] sint_parsed_length and_exp_eq_0_iff_not_bit
        header_zero_def flip: One_nat_def)
qed

lemma sint_u8: "sint (b :: u8) = (if unat b < 128 then int (unat b) else int (unat b) - 256)"
proof -
  define u where "u = unat b"
  have u: "uint b = int u" "u < 256" using byte_less [of b] by (simp_all add: u_def)
  have "sint b = (int u + 128) mod 256 - 128"
    by (simp add: sint_uint signed_take_bit_eq_take_bit_shift take_bit_eq_mod u(1))
  moreover have "(int u + 128) mod 256 = (if u < 128 then int u + 128 else int u - 128)"
  proof (cases "u < 128")
    case False
    then have "(int u + 128) mod 256 = (int u - 128) mod 256"
      using mod_add_self2 [of "int u - 128" 256] by (simp add: algebra_simps)
    then show ?thesis using False u(2) by simp
  qed simp
  ultimately show ?thesis unfolding u_def [symmetric] by (auto split: if_splits)
qed

lemma sint_byte: "sint (scast (b :: u8) :: u32) = (if unat b < 128 then int (unat b) else int (unat b) - 256)"
proof -
  have "sint (scast b :: u32) = sint b" by (rule sint_up_scast) (simp add: is_up)
  then show ?thesis by (simp only: sint_u8)
qed

lemma to_size_mod: "to_size n = nat (sint n mod 2 ^ 64)"
  by (simp only: to_size_def unat_eq_nat_uint uint_word_of_int) simp

lemma to_size_nonneg: "0 \<le> sint n \<Longrightarrow> to_size n = nat (sint n)"
  using sint_lt [of n] by (simp add: to_size_mod)

lemma to_size_byte: "to_size (scast (b :: u8)) = (if unat b < 128 then unat b else 2 ^ 64 - 256 + unat b)"
proof -
  define u where "u = unat b"
  have "u < 256" using byte_less [of b] by (simp add: u_def)
  moreover have "(int u - 256) mod 2 ^ 64 = int u - 256 + 2 ^ 64" if "128 \<le> u"
    using mod_add_self2 [of "int u - 256" "2 ^ 64"] \<open>u < 256\<close> by simp
  ultimately show ?thesis unfolding to_size_mod sint_byte u_def [symmetric]
    by (simp add: nat_add_distrib)
qed

lemma unat_nonneg:
  assumes "sint (len :: u32) = int n"
  shows "unat len = n"
proof -
  have "int n < 2 ^ 31" using sint_lt [of len] assms by simp
  moreover have "uint len = int n mod 2 ^ 32" using assms by (simp add: uint_sint take_bit_eq_mod)
  ultimately show ?thesis by (simp add: unat_eq_nat_uint)
qed

lemma small_byte_scast:
  assumes "unat (b :: u8) = k" and "k \<le> 4"
  shows "scast b = (of_nat k :: u32)"
proof -
  have "b = of_nat k" by (simp flip: assms(1))
  moreover have "k \<in> {0,1,2,3,4}" using assms(2) by auto
  ultimately show ?thesis by auto
qed

section \<open>Sending and receiving\<close>

lemma header_len: "snd (header_bytes h) = ucast (iLength h)"
  by (simp add: header_bytes_def Let_def length_byte)

text \<open>What the receiver makes of a header byte pair and the bytes behind it.\<close>

lemma parse_bytes:
  assumes "\<And>n. ok n" and "length d < 2 ^ 31"
  shows "jk_pro_v4_parse ok (Some w) (Some (b0 # b1 # d)) =
    (let m = unat b1; v = w\<lparr>szHeader := parse_header b0 b1\<rparr> in
     if m \<le> 4 \<and> m \<le> length d
     then Some (0, Some (v\<lparr>szBody := Some (take m d @ replicate (4 - m) 0)\<rparr>)) else None)"
proof -
  have l: "iLength (parse_header b0 b1) = scast b1"
    by (simp add: parse_header_def sint_parsed_length)
  have "\<not> 2 ^ 30 \<le> sint (scast b1 :: u32)"
  proof -
    have "\<not> 2 ^ 30 \<le> (if u < 128 then int u else int u - 256)" if "u < 256" for u :: nat
      using that by auto
    then show ?thesis unfolding sint_byte using byte_less [of b1] by blast
  qed
  then show ?thesis using assms byte_less [of b1]
    by (auto simp: jk_pro_v4_parse_def Let_def idx_def l v4_calloc_def memcpy_def to_size_byte
        mem_read_def mem_write_def header_zero_def)
qed

text \<open>C29: What a message of the two-byte protocol turns into: a sender sets version, crypt mode,
  acknowledge flag and a body of \<open>len\<close> bytes and makes the bytes, a receiver parses them. Only the
  low byte \<open>m\<close> of the length travels. For \<open>m\<close> of at most 4 the receiver gets the version, the crypt
  mode with the acknowledge flag mixed into its low bit, no acknowledge flag, and the first \<open>m\<close>
  bytes; for every larger \<open>m\<close> it copies the body over the end of a four-byte block.\<close>

theorem jk_pro_v4_transmission:
  assumes "version < 16" and "crypt < 4" and "0 \<le> sint len" and "sint len + 2 < 2 ^ 31"
    and "nat (sint len) \<le> length data" and "\<And>n. ok n"
  shows "\<exists>v1 v2 bytes.
    jk_pro_v4_set_header (Some (snd (jk_pro_v4_init version crypt))) ack len = (0, Some v1) \<and>
    jk_pro_v4_set_body ok (Some v1) (Some data) = Some (0, Some v2) \<and>
    jk_pro_v4_to_bytes ok (Some v2) = Some (0, Some bytes) \<and>
    jk_pro_v4_parse ok (Some w) (Some bytes) =
      (let m = nat (sint len) mod 256 in
       if m \<le> 4 then Some (0, Some (w\<lparr>
         szHeader := \<lparr>iVersion = version, iCrypt = (if ack \<noteq> 0 then crypt OR 1 else crypt), iACK = 0,
                      iLength = of_nat m\<rparr>,
         szBody := Some (take m data @ replicate (4 - m) 0)\<rparr>)) else None)"
proof -
  define n where "n = nat (sint len)"
  have n: "sint len = int n" "to_size len = n" "n < 2147483646" "n \<le> length data"
    using assms by (simp_all add: n_def to_size_nonneg)
  define h where "h = \<lparr>iVersion = version, iCrypt = crypt, iACK = ack, iLength = len\<rparr>"
  have iLength_h: "iLength h = len" by (simp add: h_def)
  define v1 where "v1 = v4_zero\<lparr>szHeader := h, methods := True\<rparr>"
  define d where "d = take n data"
  define bytes where "bytes = fst (header_bytes h) # snd (header_bytes h) # d"
  have d: "length d = n" using n by (simp add: d_def)
  have 1: "jk_pro_v4_set_header (Some (snd (jk_pro_v4_init version crypt))) ack len = (0, Some v1)"
    by (simp add: jk_pro_v4_set_header_def jk_pro_v4_init_def v1_def h_def header_zero_def v4_zero_def)
  have 2: "jk_pro_v4_set_body ok (Some v1) (Some data) = Some (0, Some (v1\<lparr>szBody := Some d\<rparr>))"
    using assms(6) n by (simp add: jk_pro_v4_set_body_def v1_def h_def Let_def v4_calloc_def memcpy_def
        mem_read_def mem_write_def d_def)
  have 3: "jk_pro_v4_to_bytes ok (Some (v1\<lparr>szBody := Some d\<rparr>)) = Some (0, Some bytes)"
    using assms(6) n d by (simp add: jk_pro_v4_to_bytes_def v1_def Let_def c_int_def JK_PRO_V4_HEADER_LENGTH_def
        iLength_h v4_calloc_def memcpy_def upd_def mem_read_def mem_write_def bytes_def numeral_2_eq_2 nat_add_distrib)
  have m: "unat (snd (header_bytes h)) = n mod 256"
    using unat_nonneg [OF n(1)] by (simp add: header_len iLength_h unsigned_ucast_eq take_bit_eq_mod)
  have "jk_pro_v4_parse ok (Some w) (Some bytes) = (let m = n mod 256 in
       if m \<le> 4 then Some (0, Some (w\<lparr>szHeader := parse_header (fst (header_bytes h)) (snd (header_bytes h)),
         szBody := Some (take m data @ replicate (4 - m) 0)\<rparr>)) else None)"
    unfolding bytes_def using n(3,4) d
    by (subst parse_bytes [OF assms(6)]) (auto simp: Let_def m d_def min_absorb1 mod_less_eq_dividend)
  moreover have "scast (ucast len :: u8) = (of_nat (n mod 256) :: u32)" if "n mod 256 \<le> 4"
    using small_byte_scast [OF m that] by (simp add: header_len iLength_h)
  moreover have "iVersion h < 16" "iCrypt h < 4" using assms(1,2) by (simp_all add: h_def)
  ultimately have 4: "jk_pro_v4_parse ok (Some w) (Some bytes) = (let m = n mod 256 in
       if m \<le> 4 then Some (0, Some (w\<lparr>szHeader := \<lparr>iVersion = version, iCrypt = (if ack \<noteq> 0 then crypt OR 1 else crypt),
           iACK = 0, iLength = of_nat m\<rparr>, szBody := Some (take m data @ replicate (4 - m) 0)\<rparr>)) else None)"
    by (simp add: header_roundtrip Let_def) (simp add: h_def)
  show ?thesis unfolding n_def [symmetric]
    by (intro exI conjI) (rule 1, rule 2, rule 3, rule 4)
qed



theorem jk_pro_v4_transmission_witness:
  "\<exists>v1 v2 bytes.
    jk_pro_v4_set_header (Some (snd (jk_pro_v4_init 1 2))) 1 3 = (0, Some v1) \<and>
    jk_pro_v4_set_body (\<lambda>_. True) (Some v1) (Some [65, 66, 67]) = Some (0, Some v2) \<and>
    jk_pro_v4_to_bytes (\<lambda>_. True) (Some v2) = Some (0, Some bytes) \<and>
    jk_pro_v4_parse (\<lambda>_. True) (Some v4_zero) (Some bytes) = Some (0, Some (v4_zero\<lparr>
      szHeader := \<lparr>iVersion = 1, iCrypt = 3, iACK = 0, iLength = 3\<rparr>, szBody := Some [65, 66, 67, 0]\<rparr>))"
  using jk_pro_v4_transmission [of 1 2 3 "[65, 66, 67]" "\<lambda>_. True" 1 v4_zero] by (simp add: Let_def)


end
