(* ===== verification/JkBytes.thy ===== *)
theory JkBytes
  imports CNumber
begin

text \<open>
  Hexadecimal text and backslash escapes, src/common/jkbytes.c. The source is the block the pointer
  points into, the destination is a block of bytes, and the loop counter of \<open>HexStrToByte\<close> is a
  \<open>short\<close>, which wraps around.
\<close>

definition toupper :: "char \<Rightarrow> char" where
  "toupper c = (let v = of_char c :: nat in if 97 \<le> v \<and> v \<le> 122 then char_of (v - 32) else c)"

definition hex_nibble :: "char \<Rightarrow> u8" where
  "hex_nibble c = (let b = of_char (toupper c) in if b > 0x39 then b - 0x37 else b - 0x30)"

lemma sint_short_step:
  "0 \<le> sint (i :: u16) \<Longrightarrow> sint (i + 2) = (if sint i < 32766 then sint i + 2 else sint i - 65534)"
proof -
  assume i: "0 \<le> sint i"
  define v where "v = sint i"
  have "v < 2 ^ 15" using sint_lt [of i] by (simp add: v_def)
  moreover have "sint (i + 2) = (v + 2 + 2 ^ 15) mod 2 ^ 16 - 2 ^ 15"
    by (simp add: sint_word_ariths signed_take_bit_eq_take_bit_shift take_bit_eq_mod v_def)
  moreover have "(v + 2 + 2 ^ 15) mod 2 ^ 16 = (if v < 32766 then v + 2 + 2 ^ 15 else v + 2 - 2 ^ 15)"
  proof (cases "v < 32766")
    case False
    then have "(v + 2 + 2 ^ 15) mod 2 ^ 16 = (v + 2 - 2 ^ 15) mod 2 ^ 16"
      using mod_add_self2 [of "v + 2 - 2 ^ 15" "2 ^ 16"] by (simp add: algebra_simps)
    then show ?thesis using False \<open>v < 2 ^ 15\<close> by simp
  qed (use i v_def in simp)
  ultimately show ?thesis by (auto simp: v_def [symmetric])
qed

lemma sint_short_less: "sint (i :: u16) < 32768"
  using sint_lt [of i] by simp

function hex_loop :: "char list \<Rightarrow> u8 list \<Rightarrow> int \<Rightarrow> u16 \<Rightarrow> u8 list option" where
  "hex_loop source dest sourceLen i =
     (if sint i < sourceLen then
        (if sint i < 0 then None
         else do {
           c \<leftarrow> idx source (nat (sint i));
           d \<leftarrow> idx source (nat (sint i) + 1);
           dest \<leftarrow> upd dest (nat (sint i) div 2) (push_bit 4 (hex_nibble c) OR hex_nibble d);
           hex_loop source dest sourceLen (i + 2)
         })
      else Some dest)"
  by pat_completeness auto
termination
  by (relation "measure (\<lambda>(source, dest, n, i). if sint i < 0 then 0 else Suc (nat (n - sint i)))")
    (auto simp: sint_short_step intro: less_le_trans [OF sint_short_less])

declare hex_loop.simps [simp del]

definition HexStrToByte :: "char list \<Rightarrow> u8 list \<Rightarrow> int \<Rightarrow> u8 list option" where
  "HexStrToByte source dest sourceLen = hex_loop source dest sourceLen 0"

text \<open>\<open>strncmp(&src[j], "\\x", 2)\<close> reads the second character only after a backslash.\<close>

definition at_escape :: "char list \<Rightarrow> nat \<Rightarrow> bool option" where
  "at_escape src j = do {
     c \<leftarrow> idx src j;
     if c = CHR 0x5C then do { d \<leftarrow> idx src (j + 1); Some (d = CHR ''x'') } else Some False }"

function reerect_loop :: "char list \<Rightarrow> u8 list \<Rightarrow> nat \<Rightarrow> nat \<Rightarrow> u8 list option" where
  "reerect_loop src destBuf i j =
     (case idx src j of None \<Rightarrow> None
      | Some c \<Rightarrow>
          if c = NUL then upd destBuf i 0
          else (case at_escape src j of None \<Rightarrow> None
            | Some False \<Rightarrow>
                (case upd destBuf i (of_char c) of None \<Rightarrow> None
                 | Some destBuf \<Rightarrow> reerect_loop src destBuf (i + 1) (j + 1))
            | Some True \<Rightarrow>
                (case HexStrToByte (drop (j + 2) src) (drop i destBuf) 2 of None \<Rightarrow> None
                 | Some d \<Rightarrow> reerect_loop src (take i destBuf @ d) (i + 1) (j + 4))))"
  by pat_completeness auto
termination
  by (relation "measure (\<lambda>(src, destBuf, i, j). length src - j)") (auto simp: idx_def split: if_splits)

declare reerect_loop.simps [simp del]

definition string_reerect :: "char list \<Rightarrow> u8 list \<Rightarrow> u8 list option" where
  "string_reerect src destBuf = reerect_loop src destBuf 0 0"

section \<open>Hexadecimal text\<close>

lemma hex_digit_nibble: "d < 16 \<Longrightarrow> hex_nibble (hex_digit d) = of_nat d"
proof -
  assume "d < 16"
  then have "d = 0 \<or> d = 1 \<or> d = 2 \<or> d = 3 \<or> d = 4 \<or> d = 5 \<or> d = 6 \<or> d = 7 \<or> d = 8 \<or> d = 9 \<or>
      d = 10 \<or> d = 11 \<or> d = 12 \<or> d = 13 \<or> d = 14 \<or> d = 15" by arith
  then show ?thesis by (elim disjE; simp only:) code_simp+
qed

lemma byte_of_nibbles: "push_bit 4 (of_nat (unat (b :: u8) div 16)) OR of_nat (unat b mod 16) = b"
proof -
  have "unat b div 16 < 256" using byte_less [of b] by simp
  then have "of_nat (unat b div 16) = (drop_bit 4 b :: u8)" "of_nat (unat b mod 16) = (take_bit 4 b :: u8)"
    by (simp_all add: word_unat_eq_iff unat_drop_bit_eq drop_bit_eq_div unsigned_take_bit_eq take_bit_eq_mod
        unat_of_nat byte_less less_mult_imp_div_less unat_div unat_mod)
  then show ?thesis by (simp only:) (rule bit_word_eqI, auto simp: bit_simps)
qed

lemma nibbles_fmt:
  "push_bit 4 (hex_nibble (hex_digit (unat (b :: u8) div 16))) OR hex_nibble (hex_digit (unat b mod 16)) = b"
  using byte_less [of b] byte_of_nibbles [of b] by (simp add: hex_digit_nibble less_mult_imp_div_less)

lemma length_hex [simp]: "length (concat (map fmt_02x bs)) = 2 * length bs"
  by (induction bs) (simp_all add: fmt_02x_def)

lemma hex_loop_text:
  assumes "sint i = 2 * int (length pre)" and "length pre + length bs \<le> 16383" and "length bs \<le> length z"
  shows "hex_loop (concat (map fmt_02x pre) @ concat (map fmt_02x bs) @ r) (pre @ z)
      (2 * int (length pre + length bs)) i = Some (pre @ bs @ drop (length bs) z)"
  using assms
proof (induction bs arbitrary: pre z i)
  case Nil
  then show ?case by (subst hex_loop.simps) simp
next
  case (Cons b bs)
  obtain y z' where z: "z = y # z'" using Cons.prems(3) by (cases z) auto
  have i: "nat (sint i) = 2 * length pre" using Cons.prems(1) by simp
  have c: "\<not> sint i < 0" "sint i < 2 * int (length pre + length (b # bs))" using Cons.prems(1) by simp_all
  define h l where "h = hex_digit (unat b div 16)" and "l = hex_digit (unat b mod 16)"
  have f: "fmt_02x b = [h, l]" by (simp add: fmt_02x_def h_def l_def)
  have hl: "push_bit 4 (hex_nibble h) OR hex_nibble l = b" by (simp add: h_def l_def nibbles_fmt)
  have step: "sint (i + 2) = 2 * int (length (pre @ [b]))"
    using Cons.prems(1,2) by (simp add: sint_short_step)
  have "hex_loop (concat (map fmt_02x pre) @ concat (map fmt_02x (b # bs)) @ r) (pre @ z)
      (2 * int (length pre + length (b # bs))) i =
    hex_loop (concat (map fmt_02x (pre @ [b])) @ concat (map fmt_02x bs) @ r) ((pre @ [b]) @ z')
      (2 * int (length (pre @ [b]) + length bs)) (i + 2)"
    using c by (subst hex_loop.simps) (simp add: i z idx_def upd_def nth_append f hl)
  also have "\<dots> = Some ((pre @ [b]) @ bs @ drop (length bs) z')"
    by (rule Cons.IH [OF step]) (use Cons.prems z in auto)
  finally show ?case by (simp add: z)
qed

lemma hex_loop_short_overflow:
  "0 \<le> sint i \<Longrightarrow> 32768 \<le> n \<Longrightarrow> hex_loop source dest n i = None"
proof (induction source dest n i rule: hex_loop.induct)
  case (1 source dest n i)
  have neg: "hex_loop source dest n j = None" if "sint j < 0" for dest j
    using that 1(3) by (subst hex_loop.simps) simp
  have lt: "sint i < n" using sint_short_less [of i] 1(3) by simp
  show ?case
  proof (cases "0 \<le> sint (i + 2)")
    case True
    then show ?thesis using 1 lt by (subst hex_loop.simps) (auto split: Option.bind_split)
  next
    case False
    then show ?thesis using 1(2) lt neg by (subst hex_loop.simps) (auto split: Option.bind_split)
  qed
qed

text \<open>\<open>HexStrToByte\<close> reads any bytes back from their two-digit hexadecimal text as long as the
  text has at most 32766 characters. The loop counter is a \<open>short\<close>: for a length above 32767 it
  wraps to a negative index and the loop reads and writes in front of its buffers, whatever they
  hold.\<close>

theorem HexStrToByte_short:
  assumes "length bs \<le> 16383" and "length bs \<le> length dest" and "32768 \<le> n"
  shows "HexStrToByte (concat (map fmt_02x bs) @ r) dest (2 * int (length bs)) = Some (bs @ drop (length bs) dest) \<and>
    HexStrToByte source dest' n = None"
  using hex_loop_text [of 0 "[]" bs dest r] hex_loop_short_overflow [of 0 n source dest'] assms
  by (simp add: HexStrToByte_def)

section \<open>Escapes\<close>

text \<open>The text that stands for the bytes: those that \<open>P\<close> selects as \<open>\xHH\<close>, the others as themselves.\<close>

definition escape :: "(u8 \<Rightarrow> bool) \<Rightarrow> u8 list \<Rightarrow> string" where
  "escape P bs = concat (map (\<lambda>b. if P b then CHR 0x5C # CHR ''x'' # fmt_02x b else [char_of (unat b)]) bs)"

lemma of_char_of_byte: "of_char (char_of (unat b)) = (b :: u8)"
proof -
  have "of_char (char_of (unat b)) = (of_nat (of_char (char_of (unat b) :: char)) :: u8)" by (rule of_nat_of_char [symmetric])
  then show ?thesis using byte_less [of b] by simp
qed

lemma of_char_NUL: "of_char NUL = (0 :: u8)"
  by (simp add: NUL_def)

lemma of_char_backslash: "of_char (CHR 0x5C) = (92 :: u8)"
  by simp

lemma escape_Cons:
  "escape P (b # bs) = (if P b then CHR 0x5C # CHR ''x'' # fmt_02x b else [char_of (unat b)]) @ escape P bs"
  by (simp add: escape_def)

lemma reerect_char:
  assumes "c \<noteq> NUL" and "c \<noteq> CHR 0x5C" and "length q = i"
  shows "reerect_loop (p @ c # r) (q @ y # z) i (length p) =
    reerect_loop ((p @ [c]) @ r) ((q @ [of_char c]) @ z) (i + 1) (length (p @ [c]))"
  using assms by (subst reerect_loop.simps) (simp add: idx_def upd_def at_escape_def nth_append list_update_append)

lemma reerect_escape:
  assumes "length q = i"
  shows "reerect_loop (p @ (CHR 0x5C # CHR ''x'' # fmt_02x b) @ r) (q @ y # z) i (length p) =
    reerect_loop ((p @ CHR 0x5C # CHR ''x'' # fmt_02x b) @ r) ((q @ [b]) @ z) (i + 1)
      (length (p @ CHR 0x5C # CHR ''x'' # fmt_02x b))"
proof -
  have l4: "length p + 4 = Suc (Suc (Suc (Suc (length p))))" by simp
  have "HexStrToByte (fmt_02x b @ r) (y # z) 2 = Some (b # z)"
    using hex_loop_text [of 0 "[]" "[b]" "y # z" r] by (simp add: HexStrToByte_def)
  then show ?thesis using assms
    by (subst reerect_loop.simps) (simp add: idx_def at_escape_def nth_append NUL_def fmt_02x_def l4)
qed

lemma reerect_escaped:
  assumes "\<forall>b \<in> set bs. \<not> P b \<longrightarrow> b \<noteq> 0 \<and> b \<noteq> 92" and "length bs \<le> length z"
  shows "reerect_loop (p @ escape P bs @ r) (q @ z) (length q) (length p) =
    reerect_loop ((p @ escape P bs) @ r) ((q @ bs) @ drop (length bs) z) (length (q @ bs)) (length (p @ escape P bs))"
  using assms
proof (induction bs arbitrary: p q z)
  case Nil
  then show ?case by (simp add: escape_def)
next
  case (Cons b bs)
  obtain y z' where z: "z = y # z'" using Cons.prems(2) by (cases z) auto
  have IH: "reerect_loop (p' @ escape P bs @ r) ((q @ [b]) @ z') (length (q @ [b])) (length p') =
    reerect_loop ((p' @ escape P bs) @ r) (((q @ [b]) @ bs) @ drop (length bs) z')
      (length ((q @ [b]) @ bs)) (length (p' @ escape P bs))" for p'
    by (rule Cons.IH) (use Cons.prems z in auto)
  show ?case
  proof (cases "P b")
    case True
    then show ?thesis using reerect_escape [of q "length q" p b "escape P bs @ r" y z']
        IH [of "p @ CHR 0x5C # CHR ''x'' # fmt_02x b"]
      by (simp add: escape_Cons z)
  next
    case False
    then have "b \<noteq> 0" "b \<noteq> 92" using Cons.prems(1) by auto
    then have "char_of (unat b) \<noteq> NUL" "char_of (unat b) \<noteq> CHR 0x5C"
      using of_char_of_byte [of b] by (metis of_char_NUL, metis of_char_backslash)
    then show ?thesis using False reerect_char [of "char_of (unat b)" q "length q" p "escape P bs @ r" y z']
        IH [of "p @ [char_of (unat b)]"]
      by (simp add: escape_Cons z of_char_of_byte)
  qed
qed


text \<open>\<open>string_reerect\<close> undoes the escaping of any byte string: every byte may be written as \<open>\xHH\<close>,
  and those other than NUL and the backslash also as themselves. But it does not look for the end
  inside an escape: on a text that stops after \<open>\x\<close> it reads past the terminator.\<close>

theorem string_reerect_unescapes:
  assumes "\<forall>b \<in> set bs. \<not> P b \<longrightarrow> b \<noteq> 0 \<and> b \<noteq> 92" and "length bs < length destBuf"
  shows "string_reerect (escape P bs @ NUL # r) destBuf = Some (bs @ 0 # drop (Suc (length bs)) destBuf) \<and>
    string_reerect (escape P bs @ [CHR 0x5C, CHR ''x'', NUL]) destBuf = None"
proof -
  obtain y z where d: "drop (length bs) destBuf = y # z"
    using assms(2) by (metis Cons_nth_drop_Suc)
  then have z: "z = drop (Suc (length bs)) destBuf" by (metis drop_Suc list.sel(3) tl_drop)
  have run: "string_reerect (escape P bs @ t) destBuf = reerect_loop (escape P bs @ t) (bs @ y # z) (length bs) (length (escape P bs))" for t
    using reerect_escaped [of bs P destBuf "[]" t "[]"] assms d by (simp add: string_reerect_def)
  have "reerect_loop (escape P bs @ NUL # r) (bs @ y # z) (length bs) (length (escape P bs)) = Some (bs @ 0 # z)"
    by (subst reerect_loop.simps) (simp add: idx_def upd_def nth_append)
  moreover have "HexStrToByte [NUL] (y # z) 2 = None"
    by (simp add: HexStrToByte_def) (subst hex_loop.simps, simp add: idx_def)
  then have "reerect_loop (escape P bs @ [CHR 0x5C, CHR ''x'', NUL]) (bs @ y # z) (length bs) (length (escape P bs)) = None"
    by (subst reerect_loop.simps) (simp add: idx_def at_escape_def nth_append NUL_def)
  ultimately show ?thesis by (simp add: run z)
qed

theorem HexStrToByte_short_witness:
  "HexStrToByte (concat (map fmt_02x [0xe8, 0x80]) @ ''!'') [1, 2, 3] (2 * int (length [0xe8 :: u8, 0x80])) =
     Some ([0xe8, 0x80] @ drop (length [0xe8 :: u8, 0x80]) [1, 2, 3]) \<and>
   HexStrToByte ''00'' [1, 2, 3] 40000 = None"
  by (rule HexStrToByte_short) simp_all

theorem string_reerect_unescapes_witness:
  "string_reerect (escape (\<lambda>b. 128 \<le> b) [97, 98, 0xe8, 0x80, 0x83] @ NUL # []) (replicate 8 7) =
     Some ([97, 98, 0xe8, 0x80, 0x83] @ 0 # drop (Suc (length [97, 98, 0xe8, 0x80, 0x83 :: u8])) (replicate 8 7)) \<and>
   string_reerect (escape (\<lambda>b. 128 \<le> b) [97, 98, 0xe8, 0x80, 0x83] @ [CHR 0x5C, CHR ''x'', NUL]) (replicate 8 7) = None"
  by (rule string_reerect_unescapes) simp_all

end
