(* ===== verification/FlashCfg.thy ===== *)
theory FlashCfg
  imports TextUtils
begin

text \<open>
  The factory parameters in flash, src/common/cm_flash_cfg.c: 36 named parameters at fixed offsets
  of a block device, set by \<open>name=value\<close> and read by name. The device is a block of characters; the
  commands given to \<open>system\<close> and the text printed are collected in the state. Transfers stop at the
  end of the device; input and output errors of the device are not modelled. Parameters are numbered
  as in the enumeration \<open>cfg_param_type\<close>: position in the two tables.
\<close>

record tool =
  dev :: "char list"
  printed :: string
  commands :: "string list"

definition START_INDEX :: nat where "START_INDEX = 0x40000"
definition MAX_SPACE :: nat where "MAX_SPACE = 0x42000"
definition CFG_DATA_LEN :: nat where "CFG_DATA_LEN = 64"
definition CFG_DATA_LEN_MAX :: nat where "CFG_DATA_LEN_MAX = CFG_DATA_LEN * 3"

definition CFGFLAG :: string where "CFGFLAG = ''flag''"
definition FW_VERSION :: string where "FW_VERSION = ''fw_version''"
definition QQSN :: string where "QQSN = ''qqsn''"
definition QQLICENCE :: string where "QQLICENCE = ''license''"
definition QQPID :: string where "QQPID = ''qqpid''"

definition g_parameter_data_len :: "nat list" where
  "g_parameter_data_len =
    [CFG_DATA_LEN, CFG_DATA_LEN, CFG_DATA_LEN, CFG_DATA_LEN, CFG_DATA_LEN, CFG_DATA_LEN,
     CFG_DATA_LEN, CFG_DATA_LEN, CFG_DATA_LEN, CFG_DATA_LEN, CFG_DATA_LEN, CFG_DATA_LEN,
     CFG_DATA_LEN, CFG_DATA_LEN, CFG_DATA_LEN, CFG_DATA_LEN, CFG_DATA_LEN, CFG_DATA_LEN,
     CFG_DATA_LEN, CFG_DATA_LEN, CFG_DATA_LEN, CFG_DATA_LEN_MAX, CFG_DATA_LEN, CFG_DATA_LEN,
     CFG_DATA_LEN, CFG_DATA_LEN, CFG_DATA_LEN, CFG_DATA_LEN, CFG_DATA_LEN, CFG_DATA_LEN,
     CFG_DATA_LEN, CFG_DATA_LEN, CFG_DATA_LEN, CFG_DATA_LEN, CFG_DATA_LEN, CFG_DATA_LEN,
     0]"

definition g_cfg_parameter_name :: "string list" where
  "g_cfg_parameter_name =
    [''mac'', ''ssid'', ''encryption'', ''password'',
     ''ip'', ''dhcp_start'', ''dhcp_end'', ''wpa_cipher'',
     ''airplay_name'', ''dlna_name'', ''fw_version'', ''host_name'',
     ''model_name'', ''model_number'', ''model_description'', ''manufacturer'',
     ''url_manufacturer'', ''dms_name'', ''dms_enable'', ''flag'',
     ''qqsn'', ''license'', ''license_res'', ''license_res2'',
     ''qqpid'', ''version_flag'', ''update_flag'', ''mqtt_domainname'',
     ''mqtt_prefix'', ''mqtt_devicetype'', ''mqtt_deviceid'', ''mqtt_product_id'',
     ''mqtt_deviceName'', ''mqtt_username'', ''mqtt_pw'', ''mqtt_token_id'']"

section \<open>The loops of the operations\<close>

text \<open>The search through the names, up to the NULL that ends the table.\<close>

fun find_param :: "(string \<Rightarrow> bool) \<Rightarrow> string list \<Rightarrow> nat \<Rightarrow> nat option" where
  "find_param P [] i = None"
| "find_param P (n # ns) i = (if P n then Some i else find_param P ns (i + 1))"

fun offset_loop :: "nat list \<Rightarrow> nat \<Rightarrow> nat \<Rightarrow> nat" where
  "offset_loop (l # ls) (Suc i) off = offset_loop ls i (off + l)"
| "offset_loop _ _ off = off"

definition cfg_offset :: "nat \<Rightarrow> nat" where
  "cfg_offset i = offset_loop g_parameter_data_len i START_INDEX"

definition print :: "string \<Rightarrow> tool \<Rightarrow> tool" where "print s t = t\<lparr>printed := printed t @ s\<rparr>"
definition system :: "string \<Rightarrow> tool \<Rightarrow> tool" where "system s t = t\<lparr>commands := commands t @ [s]\<rparr>"

definition warn_offset :: "nat \<Rightarrow> tool \<Rightarrow> tool" where
  "warn_offset off t =
     (if off \<ge> MAX_SPACE then print (''[WARNING] offset_index >= MAX_SPACE'' @ [CHR 0x0A]) t else t)"

text \<open>\<open>fread(a, n, 1, fp)\<close> and \<open>fwrite(a, n, 1, fp)\<close> after \<open>fseek(fp, off, SEEK_SET)\<close>; the second
  reads \<open>n\<close> bytes of \<open>a\<close>.\<close>

definition fread_at :: "char list \<Rightarrow> nat \<Rightarrow> nat \<Rightarrow> char list \<Rightarrow> char list option" where
  "fread_at a n off d = mem_write a 0 (take n (drop off d))"

definition fwrite_at :: "char list \<Rightarrow> nat \<Rightarrow> nat \<Rightarrow> char list \<Rightarrow> char list option" where
  "fwrite_at a n off d = do {
     x \<leftarrow> mem_read a 0 n;
     let y = take (length d - off) x;
     Some (take off d @ y @ drop (off + length y) d)
   }"

definition read_param :: "char list \<Rightarrow> nat \<Rightarrow> string option" where
  "read_param d i = do {
     arg_str \<leftarrow> fread_at (zeros (CFG_DATA_LEN_MAX + 1)) (g_parameter_data_len ! i) (cfg_offset i) d;
     cstr arg_str
   }"

definition check_mac :: "string \<Rightarrow> int" where
  "check_mac mac_addr =
     (if length mac_addr \<noteq> 12 then 1 else if \<not> list_all isxdigit mac_addr then 1 else 0)"

section \<open>Reading\<close>

definition cfg_get :: "string \<Rightarrow> tool \<Rightarrow> (int \<times> tool) option" where
  "cfg_get argv t =
     (case find_param (\<lambda>n. strcmp argv n = 0) g_cfg_parameter_name 0 of
        None \<Rightarrow> Some (0, t)
      | Some i \<Rightarrow> do {
          let t = warn_offset (cfg_offset i) t;
          arg_str \<leftarrow> read_param (dev t) i;
          Some (0, if length arg_str > 0 then print (argv @ ''='' @ arg_str @ [CHR 0x0A]) t else t)
        })"

definition cm_flash_cfg_get :: "string \<Rightarrow> char list \<Rightarrow> tool \<Rightarrow> (int \<times> char list \<times> tool) option" where
  "cm_flash_cfg_get argv result t =
     (case find_param (\<lambda>n. strcmp argv n = 0) g_cfg_parameter_name 0 of
        None \<Rightarrow> Some (0, result, t)
      | Some i \<Rightarrow> do {
          let t = warn_offset (cfg_offset i) t;
          arg_str \<leftarrow> read_param (dev t) i;
          result \<leftarrow> (if length arg_str > 0 then sprintf_to result arg_str else Some result);
          Some (0, result, t)
        })"

section \<open>Writing\<close>

text \<open>The six pairs of digits with colons between them, in a zeroed array of 32.\<close>

fun temp_mac_loop :: "nat \<Rightarrow> char list \<Rightarrow> nat \<Rightarrow> nat \<Rightarrow> char list \<Rightarrow> char list option" where
  "temp_mac_loop 0 value j k temp_mac = Some temp_mac"
| "temp_mac_loop (Suc n) value j k temp_mac = do {
     c \<leftarrow> idx value k;
     temp_mac \<leftarrow> upd temp_mac j c;
     d \<leftarrow> idx value (k + 1);
     temp_mac \<leftarrow> upd temp_mac (j + 1) d;
     temp_mac \<leftarrow> (if j < 15 then upd temp_mac (j + 2) (CHR '':'') else Some temp_mac);
     temp_mac_loop n value (j + 3) (k + 2) temp_mac
   }"

text \<open>\<open>sprintf(str_sp, "echo '%s' >file", s)\<close> and \<open>system(str_sp)\<close>.\<close>

definition echo_to :: "string \<Rightarrow> string \<Rightarrow> tool \<Rightarrow> tool option" where
  "echo_to s file t = do {
     str_sp \<leftarrow> sprintf_to (zeros (CFG_DATA_LEN_MAX + 1)) (''echo '' @ [CHR 0x27] @ s @ [CHR 0x27] @ '' >'' @ file);
     cmd \<leftarrow> cstr str_sp;
     Some (system cmd t)
   }"

text \<open>The part of \<open>cfg_set\<close> behind the table search, for the parameter found; \<open>argv\<close> is the block.\<close>

definition set_mac_file :: "nat \<Rightarrow> char list \<Rightarrow> tool \<Rightarrow> (bool \<times> tool) option" where
  "set_mac_file i value t =
     (if i \<noteq> 0 then Some (True, t)
      else do {
        v \<leftarrow> cstr value;
        if check_mac v \<noteq> 0 then Some (False, t)
        else do {
          temp_mac \<leftarrow> temp_mac_loop 6 value 0 0 (zeros 32);
          m \<leftarrow> cstr temp_mac;
          t \<leftarrow> echo_to m ''/usr/data/mac.txt'' t;
          Some (True, system ''sync'' t)
        }
      })"

definition export_file :: "char list \<Rightarrow> tool \<Rightarrow> tool option" where
  "export_file argv t = do {
     a \<leftarrow> cstr argv;
     let mkdir = system ''mkdir -p /usr/data/'';
     if strneq a QQSN (length QQSN) then do {
       s \<leftarrow> cstr (drop (length QQSN + 1) argv); echo_to s ''/usr/data/guid.txt'' (mkdir t) }
     else if strneq a QQLICENCE (length QQLICENCE) then do {
       s \<leftarrow> cstr (drop (length QQLICENCE + 1) argv); echo_to s ''/usr/data/licence.txt'' (mkdir t) }
     else if strneq a QQPID (length QQPID) then do {
       s \<leftarrow> cstr (drop (length QQPID + 1) argv); echo_to s ''/usr/data/qqpid.txt'' (mkdir t) }
     else Some t
   }"

definition set_slot :: "nat \<Rightarrow> char list \<Rightarrow> char list \<Rightarrow> tool \<Rightarrow> (int \<times> tool) option" where
  "set_slot i value argv t = do {
     let t = warn_offset (cfg_offset i) t;
     d \<leftarrow> fwrite_at value (g_parameter_data_len ! i) (cfg_offset i) (dev t);
     t \<leftarrow> export_file argv (t\<lparr>dev := d\<rparr>);
     a \<leftarrow> cstr argv;
     if strneq a CFGFLAG (length CFGFLAG) \<or> strneq a FW_VERSION (length FW_VERSION) then Some (0, t)
     else Some (1, system ''sync'' t)
   }"

definition cfg_set :: "char list \<Rightarrow> tool \<Rightarrow> (int \<times> tool) option" where
  "cfg_set argv t = do {
     a \<leftarrow> cstr argv;
     case find_param (\<lambda>n. strneq n a (length n)) g_cfg_parameter_name 0 of
       None \<Rightarrow> Some (0, t)
     | Some i \<Rightarrow> do {
         s \<leftarrow> src_prefix (drop (length (g_cfg_parameter_name ! i) + 1) argv) CFG_DATA_LEN_MAX;
         value \<leftarrow> strncpy_to (zeros (CFG_DATA_LEN_MAX + 1)) s CFG_DATA_LEN_MAX;
         (go, t) \<leftarrow> set_mac_file i value t;
         if \<not> go then Some (- 1, t) else set_slot i value argv t
       }
   }"

definition check_cfg_flag :: "tool \<Rightarrow> (int \<times> tool) option" where
  "check_cfg_flag = cfg_get CFGFLAG"

definition set_cfg_flag :: "tool \<Rightarrow> (int \<times> tool) option" where
  "set_cfg_flag = cfg_set (''flag=1'' @ [NUL])"

definition clear_cfg_flag :: "tool \<Rightarrow> (int \<times> tool) option" where
  "clear_cfg_flag = cfg_set (''flag=0'' @ [NUL])"

fun erase_loop :: "nat list \<Rightarrow> tool \<Rightarrow> tool option" where
  "erase_loop [] t = Some t"
| "erase_loop (i # is) t = do {
     let t = warn_offset (cfg_offset i) t;
     d \<leftarrow> fwrite_at (zeros CFG_DATA_LEN) (g_parameter_data_len ! i) (cfg_offset i) (dev t);
     erase_loop is (t\<lparr>dev := d\<rparr>)
   }"

definition cfg_erase :: "tool \<Rightarrow> tool option" where
  "cfg_erase = erase_loop [0..<length g_cfg_parameter_name]"

fun list_loop :: "string list \<Rightarrow> tool \<Rightarrow> tool option" where
  "list_loop [] t = Some t"
| "list_loop (n # ns) t = do { (r, t) \<leftarrow> cfg_get n t; list_loop ns t }"

definition cfg_list :: "tool \<Rightarrow> tool option" where
  "cfg_list = list_loop g_cfg_parameter_name"

text \<open>\<open>fopen\<close> of the device may fail (\<open>opens = False\<close>).\<close>

definition cm_flash_getmac :: "bool \<Rightarrow> char list \<Rightarrow> tool \<Rightarrow> (int \<times> char list \<times> tool) option" where
  "cm_flash_getmac opens result t =
     (if opens then do { (r, result, t) \<leftarrow> cm_flash_cfg_get ''mac'' result t; Some (0, result, t) }
      else Some (- 1, result, t))"

definition cm_flash_setmac :: "bool \<Rightarrow> string \<Rightarrow> tool \<Rightarrow> (int \<times> tool) option" where
  "cm_flash_setmac opens mac t =
     (if opens then do {
        macargs \<leftarrow> sprintf_to (zeros 64) (''mac='' @ mac);
        (ret, t) \<leftarrow> cfg_set macargs t;
        Some (if ret > 0 then 0 else - 2, t)
      }
      else Some (- 1, t))"

section \<open>Slots\<close>

lemma offset_loop_sum: "offset_loop ls i off = off + sum_list (take i ls)"
  by (induction ls i off rule: offset_loop.induct) simp_all

lemma length_tables [simp]: "length g_cfg_parameter_name = 36" "length g_parameter_data_len = 37"
  by (simp_all add: g_cfg_parameter_name_def g_parameter_data_len_def)

lemma cfg_offset_Suc: "i < 37 \<Longrightarrow> cfg_offset (Suc i) = cfg_offset i + g_parameter_data_len ! i"
  by (simp add: cfg_offset_def offset_loop_sum take_Suc_conv_app_nth)

lemma cfg_offset_mono: "i \<le> j \<Longrightarrow> j \<le> 37 \<Longrightarrow> cfg_offset i \<le> cfg_offset j"
  by (simp add: cfg_offset_def offset_loop_sum) (metis le_iff_add sum_list_append take_add)

lemma cfg_offset_disjoint: "i < j \<Longrightarrow> j < 37 \<Longrightarrow> cfg_offset i + g_parameter_data_len ! i \<le> cfg_offset j"
  using cfg_offset_mono [of "Suc i" j] cfg_offset_Suc [of i] by simp

lemma cfg_offset_end: "cfg_offset 37 = START_INDEX + 2432"
  by (simp add: cfg_offset_def offset_loop_sum g_parameter_data_len_def CFG_DATA_LEN_def CFG_DATA_LEN_MAX_def)

lemma cfg_offset_bound: "i < 36 \<Longrightarrow> cfg_offset i + g_parameter_data_len ! i \<le> START_INDEX + 2432"
  using cfg_offset_mono [of "Suc i" 37] cfg_offset_Suc [of i] cfg_offset_end by simp

lemma no_warning [simp]: "i < 36 \<Longrightarrow> warn_offset (cfg_offset i) t = t"
  using cfg_offset_bound [of i] by (simp add: warn_offset_def START_INDEX_def MAX_SPACE_def)

lemma param_len: "i < 36 \<Longrightarrow> g_parameter_data_len ! i = (if i = 21 then 192 else 64)"
proof -
  have "list_all (\<lambda>i. g_parameter_data_len ! i = (if i = 21 then 192 else 64)) [0..<36]"
    by code_simp
  then show "i < 36 \<Longrightarrow> ?thesis" by (auto simp: list_all_iff)
qed

definition slot :: "char list \<Rightarrow> nat \<Rightarrow> char list" where
  "slot d i = take (g_parameter_data_len ! i) (drop (cfg_offset i) d)"

lemma read_param_slot:
  assumes "i < 36"
  shows "read_param d i = Some (takeWhile (\<lambda>c. c \<noteq> NUL) (slot d i))"
proof -
  have "length (slot d i) < CFG_DATA_LEN_MAX + 1"
    using param_len [OF assms] by (simp add: slot_def min_def CFG_DATA_LEN_MAX_def CFG_DATA_LEN_def)
  then obtain k where "zeros (CFG_DATA_LEN_MAX + 1 - length (slot d i)) = NUL # zeros k"
    by (cases "CFG_DATA_LEN_MAX + 1 - length (slot d i)") (auto simp: zeros_def)
  moreover have "fread_at (zeros (CFG_DATA_LEN_MAX + 1)) (g_parameter_data_len ! i) (cfg_offset i) d =
      Some (slot d i @ zeros (CFG_DATA_LEN_MAX + 1 - length (slot d i)))"
    using \<open>length (slot d i) < _\<close>
    by (simp add: fread_at_def mem_write_def zeros_def del: replicate_Suc flip: slot_def)
  moreover have "takeWhile (\<lambda>c. c \<noteq> NUL) (xs @ NUL # ys) = takeWhile (\<lambda>c. c \<noteq> NUL) xs" for xs ys
    by (induction xs) auto
  ultimately show ?thesis by (simp add: read_param_def cstr_def)
qed

lemma fwrite_slot:
  assumes "i < 36" and "MAX_SPACE \<le> length d" and "192 < length value"
  obtains d' where "fwrite_at value (g_parameter_data_len ! i) (cfg_offset i) d = Some d'" "length d' = length d"
    "slot d' i = take (g_parameter_data_len ! i) value" "\<And>j. j < 36 \<Longrightarrow> j \<noteq> i \<Longrightarrow> slot d' j = slot d j"
proof -
  define n off where "n = g_parameter_data_len ! i" and "off = cfg_offset i"
  have n: "off + n \<le> length d" "n \<le> length value"
    using cfg_offset_bound [OF assms(1)] param_len [OF assms(1)] assms(2,3)
    by (auto simp: n_def off_def START_INDEX_def MAX_SPACE_def)
  define d' where "d' = take off d @ take n value @ drop (off + n) d"
  have w: "mem_write d off (take n value) = Some d'"
    using n by (simp add: mem_write_def d'_def min_absorb1)
  have rd: "slot x j = the (mem_read x (cfg_offset j) (g_parameter_data_len ! j))" if "j < 36" "length x = length d" for x j
    using cfg_offset_bound [OF that(1)] that(2) assms(2)
    by (simp add: slot_def mem_read_def START_INDEX_def MAX_SPACE_def)
  show thesis
  proof
    have "n \<le> length d - off" using n(1) by simp
    then show "fwrite_at value (g_parameter_data_len ! i) (cfg_offset i) d = Some d'"
      using n(2) by (simp add: fwrite_at_def mem_read_def n_def [symmetric] off_def [symmetric] d'_def Let_def
          min_absorb1)
    show len: "length d' = length d" using mem_write_length [OF w] .
    show "slot d' i = take (g_parameter_data_len ! i) value"
      using mem_read_write_same [OF w] n(2) by (simp add: rd [OF assms(1) len] n_def off_def min_absorb1)
    fix j assume j: "j < 36" "j \<noteq> i"
    have "cfg_offset j + g_parameter_data_len ! j \<le> off \<or> off + length (take n value) \<le> cfg_offset j"
      using cfg_offset_disjoint [of i j] cfg_offset_disjoint [of j i] j assms(1) n(2)
      by (cases "i < j") (auto simp: n_def off_def min_absorb1)
    then show "slot d' j = slot d j"
      using mem_read_write_disjoint [OF w] by (simp add: rd [OF j(1) len] rd [OF j(1) refl])
  qed
qed

section \<open>Names\<close>

lemma find_param_first:
  assumes "i < length ns" and "P (ns ! i)" and "\<And>j. j < i \<Longrightarrow> \<not> P (ns ! j)"
  shows "find_param P ns k = Some (k + i)"
  using assms
proof (induction ns arbitrary: i k)
  case (Cons n ns)
  show ?case
  proof (cases i)
    case (Suc i')
    have "\<not> P (ns ! j)" if "j < i'" for j using Cons.prems(3) [of "Suc j"] Suc that by simp
    then have "find_param P ns (k + 1) = Some (k + 1 + i')"
      using Cons.prems Suc by (intro Cons.IH) auto
    then show ?thesis using Cons.prems(3) [of 0] Suc by simp
  qed (use Cons.prems in simp)
qed simp

lemma names_distinct: "distinct g_cfg_parameter_name"
  by code_simp

lemma find_name: "i < 36 \<Longrightarrow> find_param ((=) (g_cfg_parameter_name ! i)) g_cfg_parameter_name 0 = Some i"
  using names_distinct find_param_first [of i g_cfg_parameter_name "(=) (g_cfg_parameter_name ! i)" 0]
  by (auto simp: distinct_conv_nth)

text \<open>Two names of which none is a prefix of the other cannot be confused, whatever follows.\<close>

definition apart :: "string \<Rightarrow> string \<Rightarrow> bool" where
  "apart a b = (\<not> prefix a b \<and> \<not> prefix b a)"

lemma strneq_prefix: "strneq n a (length n) \<longleftrightarrow> prefix n a" "strneq a n (length n) \<longleftrightarrow> prefix n a"
  by (auto simp: strneq_def take_is_prefix list_eq_take_length [symmetric])

lemma apart_append: "apart a b \<Longrightarrow> \<not> prefix b (a @ x)"
  by (auto simp: apart_def prefix_append) 

lemma names_apart:
  assumes "i < 36" and "i \<noteq> 22" and "i \<noteq> 23"
  shows "j < i \<Longrightarrow> apart (g_cfg_parameter_name ! i) (g_cfg_parameter_name ! j)"
    and "i \<noteq> 20 \<Longrightarrow> apart (g_cfg_parameter_name ! i) QQSN"
    and "i \<noteq> 21 \<Longrightarrow> apart (g_cfg_parameter_name ! i) QQLICENCE"
    and "i \<noteq> 24 \<Longrightarrow> apart (g_cfg_parameter_name ! i) QQPID"
    and "i \<noteq> 19 \<Longrightarrow> apart (g_cfg_parameter_name ! i) CFGFLAG"
    and "i \<noteq> 10 \<Longrightarrow> apart (g_cfg_parameter_name ! i) FW_VERSION"
proof -
  have "list_all (\<lambda>i. i = 22 \<or> i = 23 \<or>
      (list_all (\<lambda>j. apart (g_cfg_parameter_name ! i) (g_cfg_parameter_name ! j)) [0..<i] \<and>
       (i = 20 \<or> apart (g_cfg_parameter_name ! i) QQSN) \<and> (i = 21 \<or> apart (g_cfg_parameter_name ! i) QQLICENCE) \<and>
       (i = 24 \<or> apart (g_cfg_parameter_name ! i) QQPID) \<and> (i = 19 \<or> apart (g_cfg_parameter_name ! i) CFGFLAG) \<and>
       (i = 10 \<or> apart (g_cfg_parameter_name ! i) FW_VERSION))) [0..<36]"
    by code_simp
  then show "j < i \<Longrightarrow> apart (g_cfg_parameter_name ! i) (g_cfg_parameter_name ! j)"
    "i \<noteq> 20 \<Longrightarrow> apart (g_cfg_parameter_name ! i) QQSN" "i \<noteq> 21 \<Longrightarrow> apart (g_cfg_parameter_name ! i) QQLICENCE"
    "i \<noteq> 24 \<Longrightarrow> apart (g_cfg_parameter_name ! i) QQPID" "i \<noteq> 19 \<Longrightarrow> apart (g_cfg_parameter_name ! i) CFGFLAG"
    "i \<noteq> 10 \<Longrightarrow> apart (g_cfg_parameter_name ! i) FW_VERSION"
    using assms by (auto simp: list_all_iff)
qed

section \<open>Setting\<close>

lemma names_no_NUL: "i < 36 \<Longrightarrow> NUL \<notin> set (g_cfg_parameter_name ! i)"
proof -
  have "list_all (\<lambda>s. NUL \<notin> set s) g_cfg_parameter_name" by code_simp
  then show "i < 36 \<Longrightarrow> ?thesis" by (simp add: list_all_length)
qed

lemma echo_to_Some:
  assumes "NUL \<notin> set s" and "NUL \<notin> set file" and "length s + length file \<le> 183"
  shows "echo_to s file t = Some (system (''echo '' @ [CHR 0x27] @ s @ [CHR 0x27] @ '' >'' @ file) t)"
proof -
  define m where "m = ''echo '' @ [CHR 0x27] @ s @ [CHR 0x27] @ '' >'' @ file"
  have "length m < length (zeros (CFG_DATA_LEN_MAX + 1))" "NUL \<notin> set m"
    using assms by (auto simp: m_def NUL_def CFG_DATA_LEN_MAX_def CFG_DATA_LEN_def)
  then show ?thesis unfolding echo_to_def m_def [symmetric] by (simp add: sprintf_to_Some)
qed

lemma echo_to_None: "184 \<le> length s + length file \<Longrightarrow> echo_to s file t = None"
  by (simp add: echo_to_def sprintf_to_None CFG_DATA_LEN_MAX_def CFG_DATA_LEN_def)

text \<open>The argument \<open>name=value\<close> in its block; any character may stand for the equals sign.\<close>

definition arg :: "string \<Rightarrow> char \<Rightarrow> string \<Rightarrow> char list \<Rightarrow> char list" where
  "arg name c v z = name @ c # v @ NUL # z"

lemma cstr_arg:
  assumes "NUL \<notin> set name" and "c \<noteq> NUL" and "NUL \<notin> set v"
  shows "cstr (arg name c v z) = Some (name @ c # v)"
    and "drop (length name + 1) (arg name c v z) = v @ NUL # z"
  using assms cstr_append_NUL [of "name @ c # v" z] by (simp_all add: arg_def)

lemma find_prefix:
  assumes "i < 36" and "i \<noteq> 22" and "i \<noteq> 23"
  shows "find_param (\<lambda>n. strneq n (g_cfg_parameter_name ! i @ x) (length n)) g_cfg_parameter_name 0 = Some i"
  using find_param_first [of i g_cfg_parameter_name "\<lambda>n. strneq n (g_cfg_parameter_name ! i @ x) (length n)" 0]
    names_apart(1) [OF assms] assms(1) apart_append
  by (auto simp: strneq_prefix)

lemma value_of:
  assumes "NUL \<notin> set v" and "length v \<le> 192"
  obtains val where "src_prefix (v @ NUL # z) CFG_DATA_LEN_MAX = Some v"
    "strncpy_to (zeros (CFG_DATA_LEN_MAX + 1)) v CFG_DATA_LEN_MAX = Some val" "length val = 193"
    "val = v @ zeros (193 - length v)"
proof
  have "takeWhile (\<lambda>c. c \<noteq> NUL) (v @ NUL # z) = v" using assms(1) by (intro takeWhile_append_stop) auto
  then show "src_prefix (v @ NUL # z) CFG_DATA_LEN_MAX = Some v"
    using assms(2) by (simp add: src_prefix_def CFG_DATA_LEN_MAX_def CFG_DATA_LEN_def)
  have "take 192 (v @ replicate 192 NUL) @ drop 192 (zeros 193) = v @ replicate (192 - length v) NUL @ [NUL]"
    using assms(2) by (simp add: zeros_def)
  moreover have "193 - length v = Suc (192 - length v)" using assms(2) by simp
  ultimately show "strncpy_to (zeros (CFG_DATA_LEN_MAX + 1)) v CFG_DATA_LEN_MAX = Some (v @ zeros (193 - length v))"
    using assms(2) by (simp add: strncpy_to_Some CFG_DATA_LEN_MAX_def CFG_DATA_LEN_def zeros_def
        replicate_append_same)
qed (use assms in simp_all)

lemma slot_value:
  assumes "NUL \<notin> set v" and "length v \<le> n"
  shows "takeWhile (\<lambda>c. c \<noteq> NUL) (take n (v @ zeros k)) = v"
proof -
  have "takeWhile (\<lambda>c. c \<noteq> NUL) (v @ replicate m NUL) = v" for m
  proof -
    have "\<forall>c \<in> set v. c \<noteq> NUL" using assms(1) by auto
    then show ?thesis by (cases m) (simp_all add: takeWhile_append_stop takeWhile_eq_all_conv)
  qed
  then show ?thesis using assms(2) by (simp add: zeros_def take_replicate)
qed

lemma export_file_Some:
  assumes "i < 36" and "i \<noteq> 22" and "i \<noteq> 23" and "NUL \<notin> set v" and "c \<noteq> NUL" and "length v \<le> 162"
  obtains t' where "export_file (arg (g_cfg_parameter_name ! i) c v z) t = Some t'" "dev t' = dev t"
proof -
  define name where "name = g_cfg_parameter_name ! i"
  note apart = names_apart(2-4) [OF assms(1-3), folded name_def]
  have known: "name = QQSN \<or> name = QQLICENCE \<or> name = QQPID \<or>
      (\<not> prefix QQSN (name @ c # v) \<and> \<not> prefix QQLICENCE (name @ c # v) \<and> \<not> prefix QQPID (name @ c # v))"
  proof (cases "i = 20 \<or> i = 21 \<or> i = 24")
    case True
    moreover have "g_cfg_parameter_name ! 20 = QQSN" "g_cfg_parameter_name ! 21 = QQLICENCE"
      "g_cfg_parameter_name ! 24 = QQPID" by code_simp+
    ultimately show ?thesis by (auto simp: name_def)
  next
    case False
    then show ?thesis using apart apart_append by blast
  qed
  have block: "cstr (arg name c v z) = Some (name @ c # v)" "drop (length name + 1) (arg name c v z) = v @ NUL # z"
    using cstr_arg names_no_NUL [OF assms(1)] assms(4,5) by (auto simp: name_def)
  have echo: "\<exists>t'. echo_to v f u = Some t' \<and> dev t' = dev u"
    if "f \<in> {''/usr/data/guid.txt'', ''/usr/data/licence.txt'', ''/usr/data/qqpid.txt''}" for f u
    using that assms(4,6) by (auto simp: echo_to_Some NUL_def system_def)
  have other: "\<not> prefix QQSN (QQLICENCE @ x)" "\<not> prefix QQSN (QQPID @ x)" "\<not> prefix QQLICENCE (QQPID @ x)" for x
    by (simp_all add: QQSN_def QQLICENCE_def QQPID_def)
  have "\<exists>t'. export_file (arg name c v z) t = Some t' \<and> dev t' = dev t"
    using known block echo [of _ "system ''mkdir -p /usr/data/'' t"] assms(4) other
    by (auto simp: export_file_def Let_def strneq_prefix) (auto simp: system_def)
  then show thesis using that by (auto simp: name_def)
qed


lemma cfg_set_param:
  assumes "i < 36" and "i \<noteq> 0" and "i \<noteq> 22" and "i \<noteq> 23" and "MAX_SPACE \<le> length (dev t)"
    and "NUL \<notin> set v" and "c \<noteq> NUL" and "length v \<le> 162" and "length v \<le> g_parameter_data_len ! i"
  obtains t' where "cfg_set (arg (g_cfg_parameter_name ! i) c v z) t = Some (if i = 10 \<or> i = 19 then 0 else 1, t')"
    "length (dev t') = length (dev t)" "read_param (dev t') i = Some v"
    "\<forall>j < 36. j \<noteq> i \<longrightarrow> read_param (dev t') j = read_param (dev t) j"
proof -
  define name where "name = g_cfg_parameter_name ! i"
  have block: "cstr (arg name c v z) = Some (name @ c # v)" "drop (length name + 1) (arg name c v z) = v @ NUL # z"
    using cstr_arg names_no_NUL [OF assms(1)] assms(6,7) by (auto simp: name_def)
  have len: "length v \<le> 192" using assms(8) by simp
  obtain val where val: "src_prefix (v @ NUL # z) CFG_DATA_LEN_MAX = Some v"
    "strncpy_to (zeros (CFG_DATA_LEN_MAX + 1)) v CFG_DATA_LEN_MAX = Some val" "length val = 193"
    "val = v @ zeros (193 - length v)"
    by (rule value_of [OF assms(6) len])
  obtain d where d: "fwrite_at val (g_parameter_data_len ! i) (cfg_offset i) (dev t) = Some d" "length d = length (dev t)"
    "slot d i = take (g_parameter_data_len ! i) val" "\<And>j. j < 36 \<Longrightarrow> j \<noteq> i \<Longrightarrow> slot d j = slot (dev t) j"
    by (rule fwrite_slot [OF assms(1,5), of val]) (use val(3) in auto)
  obtain t1 where t1: "export_file (arg name c v z) (t\<lparr>dev := d\<rparr>) = Some t1" "dev t1 = d"
    by (rule export_file_Some [OF assms(1,3,4,6,7,8), of z "t\<lparr>dev := d\<rparr>"]) (auto simp: name_def)
  have nm: "g_cfg_parameter_name ! 10 = FW_VERSION" "g_cfg_parameter_name ! 19 = CFGFLAG" by code_simp+
  have flag: "(prefix CFGFLAG (name @ c # v) \<or> prefix FW_VERSION (name @ c # v)) = (i = 10 \<or> i = 19)"
    using names_apart(5,6) [OF assms(1,3,4)] apart_append nm by (auto simp: name_def)
  have fnd: "find_param (\<lambda>n. prefix n (name @ c # v)) g_cfg_parameter_name 0 = Some i"
    using find_prefix [OF assms(1,3,4), of "c # v"] by (simp add: name_def strneq_prefix)
  define t' where "t' = (if i = 10 \<or> i = 19 then t1 else system ''sync'' t1)"
  show thesis
  proof
    show "cfg_set (arg (g_cfg_parameter_name ! i) c v z) t = Some (if i = 10 \<or> i = 19 then 0 else 1, t')"
      using assms(1,2) by (simp add: cfg_set_def name_def [symmetric] block fnd val(1,2) set_mac_file_def set_slot_def d(1) t1(1)
          strneq_prefix flag t'_def Let_def del: One_nat_def)
    have dev': "dev t' = d" using t1(2) by (simp add: t'_def system_def)
    then show "length (dev t') = length (dev t)" by (simp add: d(2))
    show "read_param (dev t') i = Some v"
      using slot_value [OF assms(6,9)] by (simp add: dev' read_param_slot [OF assms(1)] d(3) val(4))
    show "\<forall>j < 36. j \<noteq> i \<longrightarrow> read_param (dev t') j = read_param (dev t) j"
      by (simp add: dev' read_param_slot d(4))
  qed
qed

text \<open>C31: A parameter reads back as it was set. For every parameter but the MAC address and the two
  unreachable ones, and every value that fits its slot (and, for the licence, the command buffer),
  \<open>cfg_set\<close> of \<open>name=value\<close> succeeds, \<open>cm_flash_cfg_get\<close> then delivers exactly the value (and leaves the
  caller's buffer alone when it is empty), and no other parameter changes.\<close>

theorem cfg_set_get:
  assumes "i < 36" and "i \<noteq> 0" and "i \<noteq> 22" and "i \<noteq> 23" and "MAX_SPACE \<le> length (dev t)"
    and "NUL \<notin> set v" and "c \<noteq> NUL" and "length v \<le> 162" and "length v \<le> g_parameter_data_len ! i"
    and "length v < length result"
  shows "\<exists>t'. cfg_set (g_cfg_parameter_name ! i @ c # v @ NUL # z) t = Some (if i = 10 \<or> i = 19 then 0 else 1, t') \<and>
    cm_flash_cfg_get (g_cfg_parameter_name ! i) result t' =
      Some (0, if v = [] then result else v @ NUL # drop (Suc (length v)) result, t') \<and>
    length (dev t') = length (dev t) \<and>
    (\<forall>j < 36. j \<noteq> i \<longrightarrow> read_param (dev t') j = read_param (dev t) j)"
proof -
  obtain t' where t': "cfg_set (arg (g_cfg_parameter_name ! i) c v z) t = Some (if i = 10 \<or> i = 19 then 0 else 1, t')"
    "length (dev t') = length (dev t)" "read_param (dev t') i = Some v"
    "\<forall>j < 36. j \<noteq> i \<longrightarrow> read_param (dev t') j = read_param (dev t) j"
    by (rule cfg_set_param [OF assms(1-9), where z = z])
  moreover have "cm_flash_cfg_get (g_cfg_parameter_name ! i) result t' =
      Some (0, if v = [] then result else v @ NUL # drop (Suc (length v)) result, t')"
    using assms(1,10) by (simp add: cm_flash_cfg_get_def find_name Let_def t'(3) sprintf_to_Some)
  ultimately show ?thesis by (auto simp: arg_def)
qed



section \<open>What cannot be set, and what overruns\<close>

lemma find_param_SomeD:
  "find_param P ns k = Some i \<Longrightarrow> k \<le> i \<and> i - k < length ns \<and> P (ns ! (i - k)) \<and> (\<forall>j < i - k. \<not> P (ns ! j))"
proof (induction ns arbitrary: k)
  case (Cons n ns)
  show ?case
  proof (cases "P n")
    case False
    then have "find_param P ns (k + 1) = Some i" using Cons.prems by simp
    from Cons.IH [OF this] False show ?thesis
      by (auto simp: Suc_le_eq nth_Cons' less_Suc_eq_0_disj Suc_diff_Suc elim: less_natE)
  qed (use Cons.prems in simp)
qed simp


lemma dev_system [simp]: "dev (system c t) = dev t"
  by (simp add: system_def)

lemma echo_to_dev: "echo_to s f t = Some t' \<Longrightarrow> dev t' = dev t"
  by (auto simp: echo_to_def bind_eq_Some_conv)

lemma export_file_dev: "export_file argv t = Some t' \<Longrightarrow> dev t' = dev t"
  by (auto simp: export_file_def Let_def bind_eq_Some_conv dest!: echo_to_dev split: if_splits)

lemma set_mac_file_dev: "set_mac_file i value t = Some (go, t') \<Longrightarrow> dev t' = dev t"
  by (auto simp: set_mac_file_def bind_eq_Some_conv dest!: echo_to_dev split: if_splits)

text \<open>Every successful \<open>cfg_set\<close> leaves the device alone or writes one slot, never that of \<open>license_res\<close>
  or \<open>license_res2\<close>.\<close>

lemma cfg_set_writes:
  assumes "cfg_set argv t = Some (r, t')"
  shows "dev t' = dev t \<or> (\<exists>i val. i < 36 \<and> i \<noteq> 22 \<and> i \<noteq> 23 \<and> length val = 193 \<and>
    fwrite_at val (g_parameter_data_len ! i) (cfg_offset i) (dev t) = Some (dev t'))"
proof -
  obtain a where a: "cstr argv = Some a" using assms by (auto simp: cfg_set_def bind_eq_Some_conv)
  show ?thesis
  proof (cases "find_param (\<lambda>n. prefix n a) g_cfg_parameter_name 0")
    case None
    then show ?thesis using assms a by (simp add: cfg_set_def strneq_prefix)
  next
    case (Some i)
    have nm: "prefix (g_cfg_parameter_name ! 21) (g_cfg_parameter_name ! 22)"
      "prefix (g_cfg_parameter_name ! 21) (g_cfg_parameter_name ! 23)" by code_simp+
    have "i < 36" "prefix (g_cfg_parameter_name ! i) a" "\<And>j. j < i \<Longrightarrow> \<not> prefix (g_cfg_parameter_name ! j) a"
      using find_param_SomeD [OF Some] by auto
    then have i: "i < 36" "i \<noteq> 22" "i \<noteq> 23"
      using nm by (auto dest: prefix_order.trans)
    have "\<exists>sv val go t1. strncpy_to (zeros (CFG_DATA_LEN_MAX + 1)) sv CFG_DATA_LEN_MAX = Some val \<and>
        set_mac_file i val t = Some (go, t1) \<and> (if \<not> go then Some (- 1, t1) else set_slot i val argv t1) = Some (r, t')"
      using assms a Some
      by (auto simp: cfg_set_def strneq_prefix bind_eq_Some_conv simp del: One_nat_def add_Suc_right split del: if_split)
    then obtain sv val go t1 where val: "strncpy_to (zeros (CFG_DATA_LEN_MAX + 1)) sv CFG_DATA_LEN_MAX = Some val"
      and mac: "set_mac_file i val t = Some (go, t1)"
      and rest: "(if \<not> go then Some (- 1, t1) else set_slot i val argv t1) = Some (r, t')" by auto
    have "length val = 193" using val by (auto simp: strncpy_to_def CFG_DATA_LEN_MAX_def CFG_DATA_LEN_def dest: mem_write_length)
    moreover have "dev t' = dev t \<or> fwrite_at val (g_parameter_data_len ! i) (cfg_offset i) (dev t) = Some (dev t')"
      using rest set_mac_file_dev [OF mac] i(1) by (auto simp: set_slot_def Let_def bind_eq_Some_conv dest!: export_file_dev split: if_splits)
    ultimately show ?thesis using i by auto
  qed
qed

text \<open>Two parameters exist in the table only: no argument of \<open>cfg_set\<close> whatsoever changes
  \<open>license_res\<close> or \<open>license_res2\<close>, because the table is searched for a name that is a prefix of the
  argument and \<open>license\<close> stands before them. An attempt to set them overwrites the licence instead.\<close>

theorem cfg_license_res_unreachable:
  assumes "MAX_SPACE \<le> length (dev t)" and "NUL \<notin> set v" and "length v \<le> 158"
    and "cfg_set argv t = Some (r, t')"
  shows "read_param (dev t') 22 = read_param (dev t) 22 \<and> read_param (dev t') 23 = read_param (dev t) 23 \<and>
    (\<exists>t''. cfg_set (''license_res='' @ v @ NUL # z) t = Some (1, t'') \<and> read_param (dev t'') 21 = Some (''res='' @ v))"
proof -
  have "slot (dev t') j = slot (dev t) j" if "j = 22 \<or> j = 23" for j
  proof (cases "dev t' = dev t")
    case False
    then obtain i val where i: "i < 36" "i \<noteq> 22" "i \<noteq> 23" and "length val = 193"
      and w: "fwrite_at val (g_parameter_data_len ! i) (cfg_offset i) (dev t) = Some (dev t')"
      using cfg_set_writes [OF assms(4)] by blast
    then have val: "192 < length val" by simp
    show ?thesis by (rule fwrite_slot [OF i(1) assms(1) val]) (use w i that in auto)
  qed simp
  then have "read_param (dev t') 22 = read_param (dev t) 22 \<and> read_param (dev t') 23 = read_param (dev t) 23"
    by (simp add: read_param_slot)
  moreover obtain t'' where
    "cfg_set (arg (g_cfg_parameter_name ! 21) (CHR ''_'') (''res='' @ v) z) t = Some (if (21::nat) = 10 \<or> (21::nat) = 19 then 0 else 1, t'')"
    "read_param (dev t'') 21 = Some (''res='' @ v)"
    by (rule cfg_set_param [where i = 21 and t = t and v = "''res='' @ v" and c = "CHR ''_''" and z = z])
      (use assms param_len [of 21] in \<open>auto simp: NUL_def\<close>)
  moreover have "g_cfg_parameter_name ! 21 = ''license''" by code_simp
  ultimately show ?thesis by (auto simp: arg_def)
qed


lemma erase_overrun:
  assumes "i \<in> set is" and "CFG_DATA_LEN < g_parameter_data_len ! i"
  shows "erase_loop is t = None"
  using assms(1)
proof (induction "is" arbitrary: t)
  case (Cons k ks)
  have "fwrite_at (zeros CFG_DATA_LEN) (g_parameter_data_len ! i) off d = None" for off d
    using assms(2) by (simp add: fwrite_at_def mem_read_def)
  then show ?case using Cons by (cases "k = i") (auto simp: Let_def split: Option.bind_split)
qed simp

text \<open>Three calls leave their buffers. \<open>cfg_erase\<close> always does: it writes the licence slot, three
  times as long, from the 64 zeros. A licence of more than 162 characters, though the slot has room
  for 192, overruns the command buffer. A parameter name without a value makes \<open>cfg_set\<close> read
  behind the terminator of its argument.\<close>

theorem cfg_overruns:
  assumes "NUL \<notin> set v" and "c \<noteq> NUL" and "163 \<le> length v" and "MAX_SPACE \<le> length (dev t)"
    and "i < 36" and "i \<noteq> 22" and "i \<noteq> 23"
  shows "cfg_erase t = None \<and> cfg_set (''license'' @ c # v @ NUL # z) t = None \<and>
    cfg_set (g_cfg_parameter_name ! i @ [NUL]) t = None"
proof (intro conjI)
  show "cfg_erase t = None"
    unfolding cfg_erase_def by (rule erase_overrun [of 21]) (simp_all add: param_len CFG_DATA_LEN_def)
  have nm: "g_cfg_parameter_name ! 21 = ''license''" "QQLICENCE = ''license''" "QQSN = ''qqsn''" by code_simp+
  show "cfg_set (''license'' @ c # v @ NUL # z) t = None"
  proof -
    have block: "cstr (''license'' @ c # v @ NUL # z) = Some (''license'' @ c # v)"
      using assms(1,2) cstr_append_NUL [of "''license'' @ c # v" z] by (simp add: NUL_def)
    have "export_file (''license'' @ c # v @ NUL # z) t' = None" for t'
      using assms(1,3) block by (simp add: export_file_def Let_def strneq_def nm echo_to_None)
    then have "set_slot 21 val (''license'' @ c # v @ NUL # z) t' = None" for val t'
      by (auto simp: set_slot_def Let_def split: Option.bind_split)
    moreover have "find_param (\<lambda>n. prefix n (''license'' @ c # v)) g_cfg_parameter_name 0 = Some 21"
      using find_prefix [of 21 "c # v"] by (simp add: nm strneq_prefix)
    ultimately show ?thesis using block
      by (auto simp: cfg_set_def strneq_prefix set_mac_file_def split: Option.bind_split)
  qed
  show "cfg_set (g_cfg_parameter_name ! i @ [NUL]) t = None"
  proof -
    have "cstr (g_cfg_parameter_name ! i @ [NUL]) = Some (g_cfg_parameter_name ! i)"
      using names_no_NUL [OF assms(5)] cstr_append_NUL [of "g_cfg_parameter_name ! i" "[]"] by simp
    then show ?thesis using find_prefix [OF assms(5-7), of "[]"]
      by (simp add: cfg_set_def src_prefix_def CFG_DATA_LEN_MAX_def CFG_DATA_LEN_def)
  qed
qed

section \<open>The MAC address\<close>

text \<open>The pairs of a string with colons between them.\<close>

fun colon_form :: "string \<Rightarrow> string" where
  "colon_form (a # b # c # s) = a # b # CHR '':'' # colon_form (c # s)"
| "colon_form s = s"

lemma temp_mac_form:
  assumes "length mac = 12" and "NUL \<notin> set mac"
  obtains m where "temp_mac_loop 6 (mac @ r) 0 0 (zeros 32) = Some m" "cstr m = Some (colon_form mac)"
    "length (colon_form mac) = 17" "NUL \<notin> set (colon_form mac)"
proof -
  obtain a b c d e f g h i j k l where m: "mac = [a, b, c, d, e, f, g, h, i, j, k, l]"
    using assms(1) by (auto simp: numeral_eq_Suc length_Suc_conv)
  have "temp_mac_loop 6 (mac @ r) 0 0 (zeros 32) = Some (colon_form mac @ zeros 15)"
    by (simp add: m numeral_eq_Suc zeros_def idx_def upd_def)
  moreover have "cstr (colon_form mac @ zeros 15) = Some (colon_form mac)"
    using assms(2) cstr_append_NUL [of "colon_form mac" "zeros 14"] by (auto simp: m zeros_def numeral_eq_Suc NUL_def)
  ultimately show thesis using that assms(2) by (auto simp: m NUL_def)
qed

lemma first_name: "g_cfg_parameter_name ! 0 = ''mac''"
  by code_simp

text \<open>The call of \<open>cfg_set\<close> that \<open>cm_flash_setmac\<close> makes, for a text that fits its buffer.\<close>

lemma cm_flash_setmac_steps:
  assumes "NUL \<notin> set mac" and "length mac < 60"
  obtains val argv where "cstr val = Some mac" "val = mac @ zeros (193 - length mac)" "cstr argv = Some (''mac='' @ mac)"
    "cm_flash_setmac True mac t = do {
      (go, t) \<leftarrow> set_mac_file 0 val t;
      (ret, t) \<leftarrow> (if \<not> go then Some (- 1, t) else set_slot 0 val argv t);
      Some (if ret > 0 then 0 else - 2, t) }"
proof -
  define r where "r = drop (Suc (length (''mac='' @ mac))) (zeros 64)"
  define argv where "argv = ''mac='' @ mac @ NUL # r"
  have argv: "sprintf_to (zeros 64) (''mac='' @ mac) = Some argv"
    using assms(2) by (subst sprintf_to_Some) (simp_all add: argv_def r_def)
  have block: "cstr argv = Some (''mac='' @ mac)" "drop (length (g_cfg_parameter_name ! 0) + 1) argv = mac @ NUL # r"
    using assms(1) cstr_append_NUL [of "''mac='' @ mac" r] by (simp_all add: argv_def NUL_def first_name)
  have fnd: "find_param (\<lambda>n. prefix n (''mac='' @ mac)) g_cfg_parameter_name 0 = Some 0"
    using find_prefix [of 0 "''='' @ mac"] by (simp add: first_name strneq_prefix)
  have "length mac \<le> 192" using assms(2) by simp
  then obtain val where val: "src_prefix (mac @ NUL # r) CFG_DATA_LEN_MAX = Some mac"
    "strncpy_to (zeros (CFG_DATA_LEN_MAX + 1)) mac CFG_DATA_LEN_MAX = Some val" "length val = 193"
    "val = mac @ zeros (193 - length mac)"
    by (rule value_of [OF assms(1)])
  have "cstr val = Some mac"
    using assms by (cases "193 - length mac") (auto simp: val(4) zeros_def)
  moreover have set: "cm_flash_setmac True mac t = do {
      (go, t) \<leftarrow> set_mac_file 0 val t;
      (ret, t) \<leftarrow> (if \<not> go then Some (- 1, t) else set_slot 0 val argv t);
      Some (if ret > 0 then 0 else - 2, t) }"
    by (simp add: cm_flash_setmac_def argv cfg_set_def block strneq_prefix fnd val(1,2) case_prod_unfold del: append_Cons One_nat_def add_Suc_right)
  ultimately show thesis using that val(4) \<open>cstr val = Some mac\<close> block(1) by blast
qed

text \<open>\<open>cm_flash_setmac\<close> followed by \<open>cm_flash_getmac\<close>: twelve hexadecimal digits are stored, written
  to a file in the colon form, and read back; any other text of up to 59 characters is refused with
  -2 and changes nothing; a longer text overruns the 64 characters of the local buffer.\<close>

theorem cm_flash_mac_roundtrip:
  assumes "NUL \<notin> set mac" and "MAX_SPACE \<le> length (dev t)" and "12 < length result"
  shows "if 60 \<le> length mac then cm_flash_setmac True mac t = None
    else if length mac = 12 \<and> list_all isxdigit mac then
      (\<exists>t'. cm_flash_setmac True mac t = Some (0, t') \<and>
        cm_flash_getmac True result t' = Some (0, mac @ NUL # drop 13 result, t') \<and>
        commands t' = commands t @
          [''echo '' @ [CHR 0x27] @ colon_form mac @ [CHR 0x27] @ '' >/usr/data/mac.txt'', ''sync'', ''sync''])
    else cm_flash_setmac True mac t = Some (- 2, t)"
proof (cases "60 \<le> length mac")
  case True
  then show ?thesis by (simp add: cm_flash_setmac_def sprintf_to_None)
next
  case False
  obtain val argv where val: "cstr val = Some mac" "val = mac @ zeros (193 - length mac)"
    and block: "cstr argv = Some (''mac='' @ mac)"
    and set: "cm_flash_setmac True mac t = do {
      (go, t) \<leftarrow> set_mac_file 0 val t;
      (ret, t) \<leftarrow> (if \<not> go then Some (- 1, t) else set_slot 0 val argv t);
      Some (if ret > 0 then 0 else - 2, t) }"
    by (rule cm_flash_setmac_steps [OF assms(1), where t = t]) (use False in auto)
  show ?thesis
  proof (cases "length mac = 12 \<and> list_all isxdigit mac")
    case True
    then have len: "length mac = 12" by simp
    obtain m where m: "temp_mac_loop 6 (mac @ zeros (193 - length mac)) 0 0 (zeros 32) = Some m"
      "cstr m = Some (colon_form mac)" "length (colon_form mac) = 17" "NUL \<notin> set (colon_form mac)"
      by (rule temp_mac_form [OF len assms(1)])
    define cmd where "cmd = ''echo '' @ [CHR 0x27] @ colon_form mac @ [CHR 0x27] @ '' >/usr/data/mac.txt''"
    have "echo_to (colon_form mac) ''/usr/data/mac.txt'' t = Some (system cmd t)"
      using m(3,4) by (subst echo_to_Some) (simp_all add: NUL_def cmd_def)
    then have made: "set_mac_file 0 val t = Some (True, system ''sync'' (system cmd t))"
      using m True val(1) by (simp add: set_mac_file_def check_mac_def val(2))
    obtain d where d: "fwrite_at val (g_parameter_data_len ! 0) (cfg_offset 0) (dev t) = Some d" "length d = length (dev t)"
      "slot d 0 = take (g_parameter_data_len ! 0) val"
      by (rule fwrite_slot [of 0 "dev t" val]) (use assms(2) val(2) False in auto)
    define t' where "t' = system ''sync'' ((system ''sync'' (system cmd t))\<lparr>dev := d\<rparr>)"
    have "set_slot 0 val argv (system ''sync'' (system cmd t)) = Some (1, t')"
      using d(1) block by (simp add: set_slot_def export_file_def Let_def strneq_def QQSN_def QQLICENCE_def
          QQPID_def CFGFLAG_def FW_VERSION_def t'_def)
    then have "cm_flash_setmac True mac t = Some (0, t')" by (simp add: set made)
    moreover have "read_param (dev t') 0 = Some mac"
      using slot_value [OF assms(1), of 64] len
      by (simp add: t'_def read_param_slot d(3) param_len val(2))
    then have "cm_flash_getmac True result t' = Some (0, mac @ NUL # drop 13 result, t')"
      using find_name [of 0, unfolded first_name] assms(3) len by (cases "mac = []") (simp_all add: cm_flash_getmac_def cm_flash_cfg_get_def sprintf_to_Some Let_def)
    moreover have "commands t' = commands t @ [cmd, ''sync'', ''sync'']" by (simp add: t'_def system_def)
    ultimately show ?thesis using True False by (auto simp: cmd_def)
  next
    case no: False
    then have "set_mac_file 0 val t = Some (False, t)"
      using val(1) by (auto simp: set_mac_file_def check_mac_def)
    then show ?thesis using no False by (simp add: set)
  qed
qed


section \<open>Examples\<close>

text \<open>A blank device.\<close>

definition blank_tool :: tool where
  "blank_tool = \<lparr>dev = zeros MAX_SPACE, printed = [], commands = []\<rparr>"

lemma blank_tool_len: "MAX_SPACE \<le> length (dev blank_tool)"
  by (simp add: blank_tool_def)

theorem cfg_set_get_witness:
  "\<exists>t'. cfg_set (g_cfg_parameter_name ! 1 @ CHR ''='' # ''airdisk'' @ NUL # []) blank_tool =
      Some (if (1::nat) = 10 \<or> (1::nat) = 19 then 0 else 1, t') \<and>
    cm_flash_cfg_get (g_cfg_parameter_name ! 1) (zeros 10) t' =
      Some (0, if ''airdisk'' = [] then zeros 10 else ''airdisk'' @ NUL # drop (Suc (length ''airdisk'')) (zeros 10), t') \<and>
    length (dev t') = length (dev blank_tool) \<and>
    (\<forall>j < 36. j \<noteq> 1 \<longrightarrow> read_param (dev t') j = read_param (dev blank_tool) j)"
  by (rule cfg_set_get) (simp_all add: NUL_def blank_tool_len param_len)

theorem cfg_license_res_unreachable_witness:
  "\<exists>t''. cfg_set (''license_res='' @ ''abc'' @ NUL # []) blank_tool = Some (1, t'') \<and>
     read_param (dev t'') 21 = Some (''res='' @ ''abc'')"
proof -
  have "cfg_set [NUL] blank_tool = Some (0, blank_tool)"
    by (simp add: cfg_set_def strneq_prefix cstr_def g_cfg_parameter_name_def)
  from cfg_license_res_unreachable [OF blank_tool_len _ _ this, of "''abc''" "[]"]
  show ?thesis by (simp add: NUL_def)
qed

theorem cfg_overruns_witness:
  "cfg_erase blank_tool = None \<and>
   cfg_set (''license'' @ CHR ''='' # replicate 163 (CHR ''x'') @ NUL # []) blank_tool = None \<and>
   cfg_set (g_cfg_parameter_name ! 1 @ [NUL]) blank_tool = None"
  by (rule cfg_overruns) (simp_all add: NUL_def blank_tool_len)

theorem cm_flash_mac_roundtrip_witness:
  "\<exists>t'. cm_flash_setmac True ''845dd7001122'' blank_tool = Some (0, t') \<and>
     cm_flash_getmac True (zeros 20) t' = Some (0, ''845dd7001122'' @ NUL # drop 13 (zeros 20), t')"
  using cm_flash_mac_roundtrip [of "''845dd7001122''" blank_tool "zeros 20"]
  by (auto simp: NUL_def blank_tool_len isxdigit_def)

end
