(* ===== verification/BusServer.thy ===== *)
theory BusServer
  imports CNumber
begin

text \<open>
  The message bus of src/common/busserver/src/busserver_ex.c: messages of several parts, each with
  its length in front, on TCP connections; a server with a table of five named clients that passes
  on what it is given; a client that joins under a name and hands published messages to a callback.

  Connections belong to the mongoose library. Of it the model has the receive buffer with the three
  functions that the bus relies on (an allocated block and the number of bytes in use; what lies
  behind them stays as it is), and a sent text that \<open>mg_send\<close> appends to. Pointers into the buffer
  are offsets. Log output is left out, but the texts it reads must be terminated inside the block.
\<close>

section \<open>Receive buffers\<close>

record mbuf =
  mb_buf :: "char list"
  mb_len :: nat
  mb_size :: nat

record mg_connection =
  recv_mbuf :: mbuf
  sent :: string

text \<open>Appending reallocates when the size the buffer knows of is too small; \<open>fresh\<close> is what a new block holds behind
  the bytes that are kept.\<close>

definition mbuf_append :: "(nat \<Rightarrow> char list) \<Rightarrow> mbuf \<Rightarrow> char list \<Rightarrow> mbuf" where
  "mbuf_append fresh a xs =
     (let n = mb_len a + length xs in
      if n \<le> mb_size a
      then a\<lparr>mb_buf := take (mb_len a) (mb_buf a) @ xs @ drop n (mb_buf a), mb_len := n\<rparr>
      else let new_size = n * 3 div 2; blk = take new_size (mb_buf a) @ drop (length (mb_buf a)) (fresh new_size) in
        \<lparr>mb_buf = take (mb_len a) blk @ xs @ drop n blk, mb_len = n, mb_size = new_size\<rparr>)"

definition mbuf_remove :: "mbuf \<Rightarrow> nat \<Rightarrow> mbuf" where
  "mbuf_remove mb n =
     (if n > 0 \<and> n \<le> mb_len mb
      then mb\<lparr>mb_buf := take (mb_len mb - n) (drop n (mb_buf mb)) @ drop (mb_len mb - n) (mb_buf mb),
            mb_len := mb_len mb - n\<rparr>
      else mb)"

text \<open>\<open>n\<close> bytes arrive in the block \<open>blk\<close>, on a connection that is not about to be closed; an empty buffer adopts the
  block, and takes the number of bytes for its size.\<close>

definition mg_recv_common :: "(nat \<Rightarrow> char list) \<Rightarrow> mg_connection \<Rightarrow> char list \<Rightarrow> nat \<Rightarrow> mg_connection" where
  "mg_recv_common fresh nc blk n =
     (if mb_len (recv_mbuf nc) = 0 then nc\<lparr>recv_mbuf := \<lparr>mb_buf = blk, mb_len = n, mb_size = n\<rparr>\<rparr>
      else nc\<lparr>recv_mbuf := mbuf_append fresh (recv_mbuf nc) (take n blk)\<rparr>)"

definition mg_send :: "mg_connection \<Rightarrow> string \<Rightarrow> mg_connection" where
  "mg_send nc s = nc\<lparr>sent := sent nc @ s\<rparr>"

section \<open>Reading text in a block\<close>

text \<open>A pointer \<open>buf + off\<close>: the rest of the block.\<close>

definition ptr :: "char list \<Rightarrow> int \<Rightarrow> char list option" where
  "ptr blk off = (if 0 \<le> off \<and> nat off \<le> length blk then Some (drop (nat off) blk) else None)"

text \<open>\<open>find_in_str\<close>: \<open>strstr\<close> ends at a NUL, and runs off a block that has neither.\<close>

fun find_in_str :: "char list \<Rightarrow> int \<Rightarrow> int option" where
  "find_in_str [] k = None"
| "find_in_str (c # cs) k =
     (if c = NUL then Some (- 1)
      else if c = CHR 0x0D then (case cs of [] \<Rightarrow> None
        | d # _ \<Rightarrow> if d = CHR 0x0A then Some k else find_in_str cs (k + 1))
      else find_in_str cs (k + 1))"

text \<open>\<open>atoi\<close> in a block: the character that ends the number must lie inside.\<close>

definition atoi_at :: "char list \<Rightarrow> int option" where
  "atoi_at s =
     (let t = dropWhile is_space s;
          u = (case t of c # r \<Rightarrow> if c = CHR ''-'' \<or> c = CHR ''+'' then r else t | [] \<Rightarrow> [])
      in if takeWhile is_digit u = u then None else atoi (takeWhile (\<lambda>c. c \<noteq> NUL) s))"

text \<open>\<open>strncmp(s, "t", n) == 0\<close> with a literal.\<close>

fun strncmp_at :: "char list \<Rightarrow> string \<Rightarrow> nat \<Rightarrow> bool option" where
  "strncmp_at s t 0 = Some True"
| "strncmp_at [] t (Suc n) = None"
| "strncmp_at (c # s) [] (Suc n) = Some (c = NUL)"
| "strncmp_at (c # s) (d # t) (Suc n) = (if c = d then strncmp_at s t n else Some False)"

section \<open>Messages\<close>

definition BUSCLIENT_MAX_MULTIPART_OPT :: nat where "BUSCLIENT_MAX_MULTIPART_OPT = 20"
definition BUSCLIENT_KEEPALIVE :: int where "BUSCLIENT_KEEPALIVE = 1"
definition BUSCLIENT_RPC_REQUEST :: int where "BUSCLIENT_RPC_REQUEST = 2"
definition BUSCLIENT_RPC_RESPONSE :: int where "BUSCLIENT_RPC_RESPONSE = 3"
definition BUSCLIENT_RECV_TOPIC :: int where "BUSCLIENT_RECV_TOPIC = 5"

text \<open>A received part: its length and where its data starts in the buffer. An entry of the array that
  was never written is \<open>None\<close>.\<close>

record bc_str =
  bs_len :: int
  bs_data :: int

record message =
  bm_n :: nat
  bm_part :: "bc_str option list"

definition message_uninit :: message where
  "message_uninit = \<lparr>bm_n = 0, bm_part = replicate BUSCLIENT_MAX_MULTIPART_OPT None\<rparr>"

definition part :: "message \<Rightarrow> nat \<Rightarrow> bc_str option" where
  "part msg i = do { p \<leftarrow> idx (bm_part msg) i; p }"

text \<open>\<open>strncmp(part.data, "t", n) == 0\<close>; a negative \<open>n\<close> is a huge \<open>size_t\<close>.\<close>

definition part_is :: "char list \<Rightarrow> bc_str \<Rightarrow> string \<Rightarrow> int \<Rightarrow> bool option" where
  "part_is blk p t n = do { s \<leftarrow> ptr blk (bs_data p); strncmp_at s t (nat (n mod 2 ^ 64)) }"

definition message_type :: "char list \<Rightarrow> message \<Rightarrow> int \<Rightarrow> int option" where
  "message_type blk msg type = do {
     p \<leftarrow> part msg 0;
     k \<leftarrow> part_is blk p ''keepalive'' 9;
     let type = (if k then BUSCLIENT_KEEPALIVE else type);
     q \<leftarrow> part_is blk p ''request'' 7;
     let type = (if q then BUSCLIENT_RPC_REQUEST else type);
     r \<leftarrow> part_is blk p ''response'' 8;
     let type = (if r then BUSCLIENT_RPC_RESPONSE else type);
     t \<leftarrow> part_is blk p ''publish'' 7;
     Some (if t then BUSCLIENT_RECV_TOPIC else type)
   }"

text \<open>The test that a part of the announced length ends with CRLF, with what it occupies.\<close>

definition part_ok :: "char list \<Rightarrow> int \<Rightarrow> int \<Rightarrow> int \<Rightarrow> int \<Rightarrow> bool option" where
  "part_ok blk p l part_len reserve_len = do {
     a \<leftarrow> c_int (l + 2 + part_len);
     need \<leftarrow> c_int (a + 2);
     if reserve_len \<ge> need then do {
       s \<leftarrow> ptr blk (p + l);
       e \<leftarrow> strncmp_at s CRLF 2;
       if e then do { s \<leftarrow> ptr blk (p + l + 2 + part_len); strncmp_at s CRLF 2 } else Some False
     } else Some False
   }"

fun parse_loop :: "nat \<Rightarrow> char list \<Rightarrow> int \<Rightarrow> int \<Rightarrow> int \<Rightarrow> nat \<Rightarrow> message \<Rightarrow> int \<Rightarrow> (int \<times> message \<times> int) option" where
  "parse_loop 0 blk len handle_len reserve_len n msg type = Some (- 1, msg, type)"
| "parse_loop (Suc i) blk len handle_len reserve_len n msg type = do {
     p \<leftarrow> ptr blk handle_len;
     l \<leftarrow> find_in_str p 0;
     part_len \<leftarrow> atoi_at p;
     ok \<leftarrow> part_ok blk handle_len l part_len reserve_len;
     if \<not> ok then Some (- 1, msg, type)
     else do {
       parts \<leftarrow> upd (bm_part msg) n (Some \<lparr>bs_len = part_len, bs_data = handle_len + l + 2\<rparr>);
       let msg = \<lparr>bm_n = n + 1, bm_part = parts\<rparr>;
       handle_len \<leftarrow> c_int (handle_len + l + 2 + part_len + 2);
       let reserve_len = len - handle_len;
       done \<leftarrow> (if reserve_len \<ge> 2 then do { p \<leftarrow> ptr blk handle_len; strncmp_at p CRLF 2 } else Some False);
       if done then do { type \<leftarrow> message_type blk msg type; Some (handle_len + 2, msg, type) }
       else parse_loop i blk len handle_len reserve_len (n + 1) msg type
     }
   }"

definition busclient_parse_multipart_msg :: "mg_connection \<Rightarrow> message \<Rightarrow> int \<Rightarrow> (int \<times> message \<times> int) option" where
  "busclient_parse_multipart_msg nc msg type =
     (let len = int (mb_len (recv_mbuf nc)) in
      parse_loop BUSCLIENT_MAX_MULTIPART_OPT (mb_buf (recv_mbuf nc)) len 0 len 0 msg type)"

section \<open>Sending\<close>

definition busclient_mg_send :: "mg_connection \<Rightarrow> string \<Rightarrow> mg_connection option" where
  "busclient_mg_send nc data = do {
     tmp \<leftarrow> sprintf_to (zeros 10) (fmt_d (int (length data)));
     digits \<leftarrow> cstr tmp;
     Some (mg_send (mg_send (mg_send (mg_send nc digits) CRLF) data) CRLF)
   }"

fun send_parts :: "mg_connection \<Rightarrow> string list \<Rightarrow> mg_connection option" where
  "send_parts nc [] = Some nc"
| "send_parts nc (d # ds) = do { nc \<leftarrow> busclient_mg_send nc d; send_parts nc ds }"

definition busclient_multipart_send :: "mg_connection \<Rightarrow> string list \<Rightarrow> mg_connection option" where
  "busclient_multipart_send nc bm = do { nc \<leftarrow> send_parts nc bm; Some (mg_send nc CRLF) }"


section \<open>The receive loop of both sides\<close>

text \<open>\<open>handle\<close> acts on the state of the side and sends on the connection. The type found survives from
  one message to the next.\<close>

partial_function (option) recv_loop ::
  "('s \<Rightarrow> mg_connection \<Rightarrow> message \<Rightarrow> ('s \<times> mg_connection) option) \<Rightarrow> 's \<Rightarrow> mg_connection \<Rightarrow> message \<Rightarrow> int \<Rightarrow>
     ('s \<times> mg_connection) option" where
  "recv_loop handle st nc msg type = do {
     (len, msg, type) \<leftarrow> busclient_parse_multipart_msg nc msg type;
     if len = - 1 \<or> type = 0 then Some (st, nc)
     else do {
       (st, nc) \<leftarrow> handle st nc msg;
       recv_loop handle st (nc\<lparr>recv_mbuf := mbuf_remove (recv_mbuf nc) (nat len)\<rparr>) msg type
     }
   }"

text \<open>A text that is logged with \<open>%s\<close>, and \<open>n\<close> bytes that are handed on.\<close>

definition log_str :: "char list \<Rightarrow> bc_str \<Rightarrow> unit option" where
  "log_str blk p = do { s \<leftarrow> ptr blk (bs_data p); cstr s; Some () }"

definition part_bytes :: "char list \<Rightarrow> bc_str \<Rightarrow> string option" where
  "part_bytes blk p = do { s \<leftarrow> ptr blk (bs_data p); if bs_len p < 0 then None else mem_read s 0 (nat (bs_len p)) }"

text \<open>\<open>strncpy(a, part.data, n)\<close> into a zeroed array of \<open>m\<close>, and the text it then holds.\<close>

definition copy_part :: "char list \<Rightarrow> bc_str \<Rightarrow> nat \<Rightarrow> nat \<Rightarrow> string option" where
  "copy_part blk p n m = do {
     s \<leftarrow> ptr blk (bs_data p);
     x \<leftarrow> src_prefix s n;
     a \<leftarrow> strncpy_to (zeros m) x n;
     cstr a
   }"

section \<open>The server\<close>

definition BUS_TYPE_MAX :: nat where "BUS_TYPE_MAX = 5"

record bus_clients =
  bc_name :: "char list"
  bc_conn :: "nat option"

record CMBusserver =
  clients :: "bus_clients list"
  has_cb :: bool
  delivered :: "(string \<times> string) list"

definition set_client :: "CMBusserver \<Rightarrow> nat \<Rightarrow> string \<Rightarrow> nat \<Rightarrow> CMBusserver option" where
  "set_client ss i name conn = do {
     c \<leftarrow> idx (clients ss) i;
     a \<leftarrow> strncpy_to (bc_name c) name 31;
     cs \<leftarrow> upd (clients ss) i \<lparr>bc_name = a, bc_conn = Some conn\<rparr>;
     Some (ss\<lparr>clients := cs\<rparr>)
   }"

text \<open>The two searches through the table: for a name that starts with the given one, for a free entry.\<close>

fun find_client :: "(char list \<Rightarrow> bool option) \<Rightarrow> bus_clients list \<Rightarrow> nat \<Rightarrow> nat option option" where
  "find_client P [] i = Some None"
| "find_client P (c # cs) i = do { b \<leftarrow> P (bc_name c); if b then Some (Some i) else find_client P cs (i + 1) }"

definition is_free :: "char list \<Rightarrow> bool option" where
  "is_free a = do { c \<leftarrow> idx a 0; Some (c = NUL) }"

definition bus_client_set_conn :: "CMBusserver \<Rightarrow> string \<Rightarrow> nat \<Rightarrow> (int \<times> CMBusserver) option" where
  "bus_client_set_conn ss name conn = do {
     known \<leftarrow> find_client (\<lambda>a. strncmp_at a name (length name)) (clients ss) 0;
     case known of
       Some i \<Rightarrow> do { ss \<leftarrow> set_client ss i name conn; Some (0, ss) }
     | None \<Rightarrow> do {
         free \<leftarrow> find_client is_free (clients ss) 0;
         case free of
           Some i \<Rightarrow> do { ss \<leftarrow> set_client ss i name conn; Some (0, ss) }
         | None \<Rightarrow> Some (0, ss)
       }
   }"

definition handle_multipart_msg :: "nat \<Rightarrow> CMBusserver \<Rightarrow> mg_connection \<Rightarrow> message \<Rightarrow> (CMBusserver \<times> mg_connection) option" where
  "handle_multipart_msg conn ss nc msg = do {
     let blk = mb_buf (recv_mbuf nc);
     p0 \<leftarrow> part msg 0;
     request \<leftarrow> part_is blk p0 ''request'' (bs_len p0);
     if request then do {
       p1 \<leftarrow> part msg 1;
       join \<leftarrow> part_is blk p1 ''/bus/join'' (bs_len p1);
       if join then do {
         p2 \<leftarrow> part msg 2;
         log_str blk p1;
         log_str blk p2;
         let n = nat (bs_len p2 mod 2 ^ 64);
         name \<leftarrow> copy_part blk p2 (if n > 32 then 31 else n) 32;
         (r, ss) \<leftarrow> bus_client_set_conn ss name conn;
         nc \<leftarrow> busclient_multipart_send nc [''response''];
         Some (ss, nc)
       }
       else do {
         subscribe \<leftarrow> part_is blk p1 ''/bus/subscribe'' (bs_len p1);
         if subscribe then do { nc \<leftarrow> busclient_multipart_send nc [''response'']; Some (ss, nc) }
         else Some (ss, nc)
       }
     }
     else do {
       publish \<leftarrow> part_is blk p0 ''publish'' (bs_len p0);
       if publish then do {
         p1 \<leftarrow> part msg 1;
         topic \<leftarrow> copy_part blk p1 (nat (bs_len p1 mod 2 ^ 64)) 1024;
         if has_cb ss then do {
           p2 \<leftarrow> part msg 2;
           data \<leftarrow> part_bytes blk p2;
           Some (ss\<lparr>delivered := delivered ss @ [(topic, data)]\<rparr>, nc)
         }
         else Some (ss, nc)
       }
       else Some (ss, nc)
     }
   }"

datatype event = MG_EV_ACCEPT | MG_EV_CONNECT | MG_EV_RECV | MG_EV_CLOSE | MG_EV_TIMER "string list"

fun clear_conn :: "nat \<Rightarrow> bus_clients list \<Rightarrow> bus_clients list option" where
  "clear_conn conn [] = Some []"
| "clear_conn conn (c # cs) =
     (if bc_conn c = Some conn then do { n \<leftarrow> upd (bc_name c) 0 NUL; Some (\<lparr>bc_name = n, bc_conn = None\<rparr> # cs) }
      else do { cs \<leftarrow> clear_conn conn cs; Some (c # cs) })"

definition ev_handler :: "nat \<Rightarrow> CMBusserver \<Rightarrow> mg_connection \<Rightarrow> event \<Rightarrow> (CMBusserver \<times> mg_connection) option" where
  "ev_handler conn ss nc ev = (case ev of
     MG_EV_RECV \<Rightarrow> recv_loop (handle_multipart_msg conn) ss nc message_uninit 0
   | MG_EV_CLOSE \<Rightarrow> do { cs \<leftarrow> clear_conn conn (clients ss); Some (ss\<lparr>clients := cs\<rparr>, nc) }
   | MG_EV_TIMER m \<Rightarrow> do { nc \<leftarrow> busclient_multipart_send nc m; Some (ss, nc) }
   | _ \<Rightarrow> Some (ss, nc))"

text \<open>\<open>malloc\<close> gives a block with some content, or nothing; the table of clients is not cleared.
  \<open>bound\<close> says whether \<open>mg_bind\<close> succeeds.\<close>

definition cm_busserver_init :: "bus_clients list option \<Rightarrow> bool \<Rightarrow> bool \<Rightarrow> int \<times> CMBusserver option" where
  "cm_busserver_init block bound cb =
     (case block of None \<Rightarrow> (- 1, None)
      | Some table \<Rightarrow>
          if \<not> bound then (- 1, None)
          else (0, Some \<lparr>clients = table, has_cb = cb, delivered = []\<rparr>))"

text \<open>Sending to connections: the world maps them to their state, a connection it does not have is gone.\<close>

definition send_to :: "(nat \<Rightarrow> mg_connection option) \<Rightarrow> nat \<Rightarrow> string list \<Rightarrow> (nat \<Rightarrow> mg_connection option) option" where
  "send_to w c m = do { nc \<leftarrow> w c; nc \<leftarrow> busclient_multipart_send nc m; Some (w(c \<mapsto> nc)) }"

fun broadcast_loop :: "bus_clients list \<Rightarrow> string list \<Rightarrow> (nat \<Rightarrow> mg_connection option) \<Rightarrow> (nat \<Rightarrow> mg_connection option) option" where
  "broadcast_loop [] m w = Some w"
| "broadcast_loop (c # cs) m w =
     (case bc_conn c of None \<Rightarrow> broadcast_loop cs m w
      | Some conn \<Rightarrow> do { cstr (bc_name c); w \<leftarrow> send_to w conn m; broadcast_loop cs m w })"

definition cm_busserver_broadcast ::
  "CMBusserver option \<Rightarrow> string option \<Rightarrow> string \<Rightarrow> (nat \<Rightarrow> mg_connection option) \<Rightarrow> (int \<times> (nat \<Rightarrow> mg_connection option)) option" where
  "cm_busserver_broadcast ss topic data w = (case (ss, topic) of
     (Some ss, Some topic) \<Rightarrow> do { w \<leftarrow> broadcast_loop (clients ss) [''publish'', topic, data] w; Some (0, w) }
   | _ \<Rightarrow> Some (- 1, w))"

definition cm_busserver_send_msg ::
  "CMBusserver option \<Rightarrow> string \<Rightarrow> string option \<Rightarrow> string \<Rightarrow> (nat \<Rightarrow> mg_connection option) \<Rightarrow> (int \<times> (nat \<Rightarrow> mg_connection option)) option" where
  "cm_busserver_send_msg ss to topic data w = (case (ss, topic) of
     (Some ss, Some topic) \<Rightarrow> do {
       i \<leftarrow> find_client (\<lambda>a. strncmp_at a to (length to)) (clients ss) 0;
       case (case i of None \<Rightarrow> None | Some i \<Rightarrow> bc_conn (clients ss ! i)) of
         Some c \<Rightarrow> do { w \<leftarrow> send_to w c [''publish'', topic, data]; Some (0, w) }
       | None \<Rightarrow> Some (0, w)
     }
   | _ \<Rightarrow> Some (- 1, w))"

section \<open>The client\<close>

record CMBusclient =
  cc_name :: "char list"
  cc_addr :: "char list"
  cc_port :: int
  cc_conn :: "nat option"
  cc_exit :: int
  cc_cb :: bool
  cc_delivered :: "(string \<times> string) list"

text \<open>Neither the connection nor the exit flag is set: they are what the block held.\<close>

definition cm_busclient_init :: "CMBusclient option \<Rightarrow> string \<Rightarrow> string \<Rightarrow> int \<Rightarrow> bool \<Rightarrow> (int \<times> CMBusclient option) option" where
  "cm_busclient_init block from addr port cb =
     (case block of None \<Rightarrow> Some (- 1, None)
      | Some c \<Rightarrow> do {
          n \<leftarrow> strncpy_to (cc_name c) from 31;
          a \<leftarrow> strncpy_to (cc_addr c) addr 63;
          Some (0, Some (c\<lparr>cc_name := n, cc_addr := a, cc_port := port, cc_cb := cb, cc_delivered := []\<rparr>))
        })"

text \<open>\<open>cm_busclient_send_request\<close> and \<open>cm_busclient_send_msg\<close> on the connection \<open>nc\<close> the client holds.\<close>

definition cm_busclient_send :: "string \<Rightarrow> CMBusclient option \<Rightarrow> string \<Rightarrow> string \<Rightarrow> mg_connection \<Rightarrow> (int \<times> mg_connection) option" where
  "cm_busclient_send kind cc topic data nc =
     (case cc of None \<Rightarrow> Some (- 1, nc)
      | Some c \<Rightarrow>
          if cc_conn c \<noteq> None then do { nc \<leftarrow> busclient_multipart_send nc [kind, topic, data]; Some (0, nc) }
          else Some (0, nc))"

definition cm_busclient_send_request :: "CMBusclient option \<Rightarrow> string \<Rightarrow> string \<Rightarrow> mg_connection \<Rightarrow> (int \<times> mg_connection) option" where
  "cm_busclient_send_request = cm_busclient_send ''request''"

definition cm_busclient_send_msg :: "CMBusclient option \<Rightarrow> string \<Rightarrow> string \<Rightarrow> mg_connection \<Rightarrow> (int \<times> mg_connection) option" where
  "cm_busclient_send_msg = cm_busclient_send ''publish''"

definition handle_multipart_msg_client :: "CMBusclient \<Rightarrow> mg_connection \<Rightarrow> message \<Rightarrow> (CMBusclient \<times> mg_connection) option" where
  "handle_multipart_msg_client cc nc msg = do {
     let blk = mb_buf (recv_mbuf nc);
     p0 \<leftarrow> part msg 0;
     request \<leftarrow> part_is blk p0 ''request'' (bs_len p0);
     if request then Some (cc, nc)
     else do {
       publish \<leftarrow> part_is blk p0 ''publish'' (bs_len p0);
       if publish \<and> cc_cb cc then do {
         p1 \<leftarrow> part msg 1;
         topic \<leftarrow> copy_part blk p1 (nat (bs_len p1 mod 2 ^ 64)) 1024;
         p2 \<leftarrow> part msg 2;
         data \<leftarrow> part_bytes blk p2;
         Some (cc\<lparr>cc_delivered := cc_delivered cc @ [(topic, data)]\<rparr>, nc)
       }
       else Some (cc, nc)
     }
   }"

definition ev_handler_client :: "nat \<Rightarrow> CMBusclient \<Rightarrow> mg_connection \<Rightarrow> event \<Rightarrow> (CMBusclient \<times> mg_connection) option" where
  "ev_handler_client conn cc nc ev = (case ev of
     MG_EV_CONNECT \<Rightarrow> do {
       let cc = cc\<lparr>cc_conn := Some conn\<rparr>;
       name \<leftarrow> cstr (cc_name cc);
       (r, nc) \<leftarrow> cm_busclient_send_request (Some cc) ''/bus/join'' name nc;
       Some (cc, nc)
     }
   | MG_EV_RECV \<Rightarrow> recv_loop handle_multipart_msg_client cc nc message_uninit 0
   | MG_EV_CLOSE \<Rightarrow> Some (cc\<lparr>cc_exit := 2\<rparr>, nc)
   | _ \<Rightarrow> Some (cc, nc))"


section \<open>Framing\<close>

text \<open>What \<open>busclient_multipart_send\<close> puts on the wire.\<close>

definition frame :: "string \<Rightarrow> string" where
  "frame d = fmt_d (int (length d)) @ CRLF @ d @ CRLF"

definition frames :: "string list \<Rightarrow> string" where
  "frames ds = concat (map frame ds)"

lemma frames_simps [simp]: "frames [] = []" "frames (d # ds) = frame d @ frames ds" "frames (ds @ es) = frames ds @ frames es"
  by (simp_all add: frames_def)

lemma busclient_mg_send_frame:
  assumes "length d < 10 ^ 9"
  shows "busclient_mg_send nc d = Some (mg_send nc (frame d))"
proof -
  have "length (fmt_d (int (length d))) \<le> 9"
    using show_nat_length [of "length d" 9] assms by (simp add: fmt_d_def)
  then show ?thesis
    by (simp add: busclient_mg_send_def sprintf_to_Some mg_send_def frame_def)
qed

lemma send_parts_frames:
  "\<forall>d \<in> set ds. length d < 10 ^ 9 \<Longrightarrow> send_parts nc ds = Some (mg_send nc (frames ds))"
  by (induction ds arbitrary: nc) (simp_all add: busclient_mg_send_frame mg_send_def)

lemma busclient_multipart_send_frames:
  "\<forall>d \<in> set ds. length d < 10 ^ 9 \<Longrightarrow> busclient_multipart_send nc ds = Some (mg_send nc (frames ds @ CRLF))"
  by (simp add: busclient_multipart_send_def send_parts_frames mg_send_def)

lemma ptr_append [simp]: "ptr (p @ s) (int (length p)) = Some s"
  by (simp add: ptr_def)

lemma ptr_append_at: "off = int (length p) \<Longrightarrow> ptr (p @ s) off = Some s"
  by simp

lemma strncmp_at_prefix: "strncmp_at (t @ s) t (length t) = Some True"
  by (induction t) auto

lemma strncmp_at_prefix_iff: "strncmp_at s t (length t) = Some True \<longleftrightarrow> prefix t s"
  by (induction t arbitrary: s; case_tac s) (auto split: if_splits)

lemma strncmp_at_CRLF [simp]:
  "strncmp_at (CRLF @ s) CRLF 2 = Some True"
  using strncmp_at_prefix [of CRLF s] by (simp add: CRLF_def numeral_2_eq_2)

lemma strncmp_at_digit: "is_digit c \<Longrightarrow> strncmp_at (c # s) CRLF 2 = Some False"
  by (auto simp: CRLF_def numeral_2_eq_2 is_digit_def)

lemma find_in_str_digits:
  "\<forall>c \<in> set ds. is_digit c \<Longrightarrow> find_in_str (ds @ CRLF @ s) k = Some (k + int (length ds))"
  by (induction ds arbitrary: k) (auto simp: CRLF_def NUL_def is_digit_def)

lemma fmt_d_nat: "fmt_d (int n) = show_nat n"
  by (simp add: fmt_d_def)

lemma atoi_at_frame:
  assumes "n < 2 ^ 31"
  shows "atoi_at (fmt_d (int n) @ CRLF @ s) = Some (int n)"
proof -
  obtain c r where cr: "show_nat n = c # r" using show_nat_nonempty [of n] by (cases "show_nat n") auto
  have dig: "\<forall>x \<in> set (c # r). is_digit x" using show_nat_digits [of _ n] cr by auto
  have "\<not> is_space c" "c \<noteq> CHR ''-''" "c \<noteq> CHR ''+''"
    using dig digit_not_space digit_neq_sign by auto
  moreover have "takeWhile is_digit ((c # r) @ CHR 0x0D # CHR 0x0A # s) = c # r"
    using dig by (intro takeWhile_append_stop) (auto simp: is_digit_def)
  moreover have "takeWhile (\<lambda>x. x \<noteq> NUL) ((c # r) @ CHR 0x0D # CHR 0x0A # s) =
      (c # r) @ CHR 0x0D # CHR 0x0A # takeWhile (\<lambda>x. x \<noteq> NUL) s"
    using dig by (subst takeWhile_append2) (auto simp: NUL_def is_digit_def)
  moreover have "takeWhile is_digit ((c # r) @ CHR 0x0D # t) = c # r" for t
    using dig by (intro takeWhile_append_stop) (auto simp: is_digit_def)
  moreover have "num_of_digits (c # r) = n" using num_of_show_nat [of n] cr by simp
  moreover have "is_digit c" "c \<noteq> NUL" "\<not> is_digit (CHR 0x0D)"
    using dig digit_neq_NUL by (auto simp: is_digit_def)
  ultimately show ?thesis using assms
    by (simp add: atoi_at_def fmt_d_nat cr CRLF_def atoi_def strtol_val_def Let_def) blast
qed

text \<open>Where the parts of a framed message lie, from offset \<open>off\<close> on.\<close>

fun layout :: "nat \<Rightarrow> string list \<Rightarrow> bc_str option list" where
  "layout off [] = []"
| "layout off (d # ds) =
     Some \<lparr>bs_len = int (length d), bs_data = int off + int (length (fmt_d (int (length d)))) + 2\<rparr> #
     layout (off + length (frame d)) ds"

lemma length_layout [simp]: "length (layout off ds) = length ds"
  by (induction off ds rule: layout.induct) simp_all

lemma length_frame: "length (frame d) = length (fmt_d (int (length d))) + length d + 4"
  by (simp add: frame_def CRLF_def)

lemma part_ok_frame:
  assumes "blk = pre @ frame d @ rest" and "length (frame d) \<le> reserve" and "reserve < 2 ^ 31"
  shows "part_ok blk (int (length pre)) (int (length (fmt_d (int (length d))))) (int (length d)) (int reserve) = Some True"
proof -
  define f where "f = fmt_d (int (length d))"
  have blk1: "blk = (pre @ f) @ CRLF @ d @ CRLF @ rest" and blk2: "blk = (pre @ f @ CRLF @ d) @ CRLF @ rest"
    by (simp_all add: assms(1) frame_def f_def)
  have "length f + length d + 4 \<le> reserve" using assms(2) by (simp add: length_frame f_def)
  then have "c_int (int (length f) + 2 + int (length d)) = Some (int (length f) + 2 + int (length d))"
    "c_int (int (length f) + 2 + int (length d) + 2) = Some (int (length f) + 2 + int (length d) + 2)"
    "\<not> int reserve < int (length f) + 2 + int (length d) + 2"
    using assms(3) by (auto simp: c_int_def)
  moreover have "ptr blk (int (length pre) + int (length f)) = Some (CRLF @ d @ CRLF @ rest)"
    unfolding blk1 by (rule ptr_append_at) simp
  moreover have "ptr blk (int (length pre) + int (length f) + 2 + int (length d)) = Some (CRLF @ rest)"
    unfolding blk2 by (rule ptr_append_at) (simp add: CRLF_def)
  ultimately show ?thesis by (simp add: part_ok_def f_def [symmetric])
qed

lemma parse_step:
  assumes "blk = pre @ frame d @ rest" and "length (frame d) \<le> reserve" and "length pre + reserve < 2 ^ 31" and "n < length (bm_part msg)"
  shows "parse_loop (Suc i) blk len (int (length pre)) (int reserve) n msg type =
    (let h = int (length (pre @ frame d));
         msg = \<lparr>bm_n = n + 1, bm_part = (bm_part msg)[n := hd (layout (length pre) [d])]\<rparr> in do {
       done \<leftarrow> (if len - h \<ge> 2 then do { p \<leftarrow> ptr blk h; strncmp_at p CRLF 2 } else Some False);
       if done then do { type \<leftarrow> message_type blk msg type; Some (h + 2, msg, type) }
       else parse_loop i blk len h (len - h) (n + 1) msg type })"
proof -
  define f where "f = fmt_d (int (length d))"
  have blk: "blk = pre @ f @ CRLF @ d @ CRLF @ rest" by (simp add: assms(1) frame_def f_def)
  have at: "ptr blk (int (length pre)) = Some (f @ CRLF @ d @ CRLF @ rest)" by (simp add: blk)
  have "\<forall>c \<in> set f. is_digit c" using fmt_d_nonneg_chars [of "int (length d)"] by (simp add: f_def)
  then have crlf: "find_in_str (f @ CRLF @ d @ CRLF @ rest) 0 = Some (int (length f))"
    by (simp add: find_in_str_digits)
  have len: "length f + length d + 4 \<le> reserve" using assms(2) by (simp add: length_frame f_def)
  have num: "atoi_at (f @ CRLF @ d @ CRLF @ rest) = Some (int (length d))"
    unfolding f_def by (rule atoi_at_frame) (use len assms(3) in auto)
  have ok: "part_ok blk (int (length pre)) (int (length f)) (int (length d)) (int reserve) = Some True"
    unfolding f_def by (rule part_ok_frame [OF assms(1,2)]) (use assms(3) in auto)
  have "c_int (int (length pre) + int (length f) + 2 + int (length d) + 2) = Some (int (length pre) + int (length (frame d)))"
    using len assms(2,3) by (simp add: c_int_def length_frame f_def)
  then show ?thesis
    using assms(4) ok at by (simp add: crlf num upd_def Let_def f_def [symmetric])
qed


lemma frames_digit: "ds \<noteq> [] \<Longrightarrow> \<exists>c r. frames ds = c # r \<and> is_digit c"
proof (cases ds)
  case (Cons d ds')
  moreover obtain c r where "show_nat (length d) = c # r"
    using show_nat_nonempty [of "length d"] by (cases "show_nat (length d)") auto
  moreover have "is_digit c" using show_nat_digits [of c "length d"] calculation by auto
  ultimately show ?thesis by (simp add: frame_def fmt_d_nat)
qed simp

lemma parse_frames:
  assumes "blk = pre @ frames ds @ CRLF @ z" and "ds \<noteq> []" and "length ds \<le> i"
    and "n + length ds \<le> length (bm_part msg)" and "length pre + length (frames ds) + 2 < 2 ^ 31"
    and "len = int (length pre + length (frames ds) + 2)"
  shows "parse_loop i blk len (int (length pre)) (int (length (frames ds) + 2)) n msg type =
    (let m = \<lparr>bm_n = n + length ds,
              bm_part = take n (bm_part msg) @ layout (length pre) ds @ drop (n + length ds) (bm_part msg)\<rparr>
     in do { type \<leftarrow> message_type blk m type; Some (len, m, type) })"
  using assms
proof (induction ds arbitrary: pre i n msg)
  case (Cons d ds)
  obtain i' where i: "i = Suc i'" using Cons.prems(3) by (cases i) auto
  have blk: "blk = pre @ frame d @ (frames ds @ CRLF @ z)" using Cons.prems(1) by simp
  have n: "n < length (bm_part msg)" using Cons.prems(4) by simp
  define m1 where "m1 = \<lparr>bm_n = n + 1, bm_part = (bm_part msg)[n := hd (layout (length pre) [d])]\<rparr>"
  have step: "parse_loop i blk len (int (length pre)) (int (length (frames (d # ds)) + 2)) n msg type =
    (let h = int (length (pre @ frame d)) in do {
       done \<leftarrow> (if len - h \<ge> 2 then do { p \<leftarrow> ptr blk h; strncmp_at p CRLF 2 } else Some False);
       if done then do { type \<leftarrow> message_type blk m1 type; Some (h + 2, m1, type) }
       else parse_loop i' blk len h (len - h) (n + 1) m1 type })"
    using parse_step [OF blk, of "length (frames (d # ds)) + 2" n msg i' len type] Cons.prems(5) n
    unfolding i m1_def Let_def by simp
  have rest: "len - int (length (pre @ frame d)) = int (length (frames ds) + 2)" using Cons.prems(6) by simp
  have at: "ptr blk (int (length (pre @ frame d))) = Some (frames ds @ CRLF @ z)"
    using ptr_append [of "pre @ frame d" "frames ds @ CRLF @ z"] by (simp add: blk)
  show ?case
  proof (cases "ds = []")
    case True
    have "m1 = \<lparr>bm_n = n + 1, bm_part = take n (bm_part msg) @ layout (length pre) [d] @ drop (n + 1) (bm_part msg)\<rparr>"
      using n by (simp add: m1_def upd_conv_take_nth_drop)
    then show ?thesis using step rest at True Cons.prems(6) by (simp add: Let_def add_ac)
  next
    case False
    obtain c r where cr: "frames ds = c # r" "is_digit c" using frames_digit [OF False] by auto
    have m1: "bm_part m1 = take n (bm_part msg) @ hd (layout (length pre) [d]) # drop (n + 1) (bm_part msg)"
      using n by (simp add: m1_def upd_conv_take_nth_drop)
    have "parse_loop i blk len (int (length pre)) (int (length (frames (d # ds)) + 2)) n msg type =
        parse_loop i' blk len (int (length (pre @ frame d))) (int (length (frames ds) + 2)) (n + 1) m1 type"
      unfolding step Let_def rest at using strncmp_at_digit [OF cr(2)] by (simp add: cr(1))
    also have "\<dots> = (let m = \<lparr>bm_n = n + 1 + length ds,
              bm_part = take (n + 1) (bm_part m1) @ layout (length (pre @ frame d)) ds @ drop (n + 1 + length ds) (bm_part m1)\<rparr>
       in do { type \<leftarrow> message_type blk m type; Some (len, m, type) })"
      by (rule Cons.IH) (use Cons.prems blk False i in \<open>auto simp: m1_def\<close>)
    also have "take (n + 1) (bm_part m1) = take n (bm_part msg) @ layout (length pre) [d]"
      using n by (simp add: m1 take_Cons')
    also have "drop (n + 1 + length ds) (bm_part m1) = drop (n + length (d # ds)) (bm_part msg)"
      using n by (simp add: m1 add.commute)
    finally show ?thesis by (simp add: Let_def)
  qed
qed simp

end
