(* ===== verification/BusServer_Correct.thy ===== *)
theory BusServer_Correct
  imports BusServer
begin

text \<open>
  Correctness of the message bus: a framed message is read back part by part, a client that joins is
  entered in the table and reached under its name, and the table of the server stays well formed.
  The names are compared as prefixes, with the consequences stated at the end.
\<close>

section \<open>Comparing in a block\<close>

lemma strncmp_at_total:
  "c \<in> set s \<Longrightarrow> c \<notin> set t \<Longrightarrow> strncmp_at s t (length t) = Some (prefix t s)"
proof (induction s arbitrary: t)
  case (Cons a s)
  then show ?case by (cases t) auto
qed simp

lemma prefix_upto:
  "c \<notin> set t \<Longrightarrow> prefix t (d @ c # r) \<longleftrightarrow> prefix t d"
  by (auto simp: prefix_append Cons_prefix_Cons prefix_Cons)

lemma strncmp_at_line:
  "CHR 0x0D \<notin> set t \<Longrightarrow> strncmp_at (d @ CRLF @ r) t (length t) = Some (prefix t d)"
  using strncmp_at_total [of "CHR 0x0D" "d @ CRLF @ r" t] prefix_upto [of "CHR 0x0D" t d] by (simp add: CRLF_def)

lemma strncmp_at_all: "strncmp_at (t @ s) t (length t) = Some True"
  by (induction t) auto

section \<open>The parts of a message\<close>

definition msg_of :: "string list \<Rightarrow> message" where
  "msg_of ds = \<lparr>bm_n = length ds, bm_part = layout 0 ds @ replicate (20 - length ds) None\<rparr>"

definition wire :: "string list \<Rightarrow> string" where
  "wire ds = frames ds @ CRLF"

lemma layout_nth:
  "i < length ds \<Longrightarrow> \<exists>pre rest. layout off ds ! i = Some \<lparr>bs_len = int (length (ds ! i)), bs_data = int (off + length pre)\<rparr> \<and>
     frames ds = pre @ ds ! i @ CRLF @ rest"
proof (induction ds arbitrary: i off)
  case (Cons d ds)
  show ?case
  proof (cases i)
    case 0
    have "frames (d # ds) = (fmt_d (int (length d)) @ CRLF) @ d @ CRLF @ frames ds" by (simp add: frame_def)
    moreover have "int off + int (length (fmt_d (int (length d)))) + 2 = int (off + length (fmt_d (int (length d)) @ CRLF))"
      by (simp add: CRLF_def)
    ultimately show ?thesis unfolding 0
      by (intro exI [of _ "fmt_d (int (length d)) @ CRLF"] exI [of _ "frames ds"]) (simp del: of_nat_add)
  next
    case (Suc j)
    then obtain pre rest where
      "layout (off + length (frame d)) ds ! j = Some \<lparr>bs_len = int (length (ds ! j)), bs_data = int (off + length (frame d) + length pre)\<rparr>"
      "frames ds = pre @ ds ! j @ CRLF @ rest"
      using Cons.IH [of j "off + length (frame d)"] Cons.prems by auto
    then show ?thesis unfolding Suc
      by (intro exI [of _ "frame d @ pre"] exI [of _ rest]) (simp add: add.assoc)
  qed
qed simp

lemma part_msg_of:
  assumes "i < length ds" and "length ds \<le> 20"
  obtains p rest where "part (msg_of ds) i = Some p" "bs_len p = int (length (ds ! i))"
    "ptr (wire ds @ z) (bs_data p) = Some (ds ! i @ CRLF @ rest @ z)"
proof -
  obtain pre rest where l: "layout 0 ds ! i = Some \<lparr>bs_len = int (length (ds ! i)), bs_data = int (0 + length pre)\<rparr>"
    and f: "frames ds = pre @ ds ! i @ CRLF @ rest"
    using layout_nth [OF assms(1), of 0] by blast
  have "part (msg_of ds) i = Some \<lparr>bs_len = int (length (ds ! i)), bs_data = int (length pre)\<rparr>"
    using assms l by (simp add: part_def msg_of_def idx_def nth_append)
  moreover have "ptr (wire ds @ z) (int (length pre)) = Some (ds ! i @ CRLF @ (rest @ CRLF) @ z)"
    using ptr_append [of pre "ds ! i @ CRLF @ (rest @ CRLF) @ z"] f by (simp add: wire_def)
  ultimately show thesis using that by simp
qed

text \<open>The type a first part stands for.\<close>

definition kind_of :: "string \<Rightarrow> int \<Rightarrow> int" where
  "kind_of d type =
     (if prefix ''publish'' d then BUSCLIENT_RECV_TOPIC
      else if prefix ''response'' d then BUSCLIENT_RPC_RESPONSE
      else if prefix ''request'' d then BUSCLIENT_RPC_REQUEST
      else if prefix ''keepalive'' d then BUSCLIENT_KEEPALIVE else type)"

lemma part_is_literal:
  assumes "ptr blk (bs_data p) = Some (d @ CRLF @ r)" and "CHR 0x0D \<notin> set t" and "n = int (length t)" and "length t < 2 ^ 64"
  shows "part_is blk p t n = Some (prefix t d)"
  using assms strncmp_at_line [OF assms(2), of d r] by (simp add: part_is_def)

lemma message_type_of:
  assumes "0 < length ds" and "length ds \<le> 20"
  shows "message_type (wire ds @ z) (msg_of ds) type = Some (kind_of (ds ! 0) type)"
proof -
  obtain p rest where p: "part (msg_of ds) 0 = Some p" "ptr (wire ds @ z) (bs_data p) = Some (ds ! 0 @ CRLF @ rest @ z)"
    using part_msg_of [OF assms, of z] by blast
  note lit = part_is_literal [OF p(2)]
  show ?thesis
    by (simp add: message_type_def p(1) lit kind_of_def Let_def)
qed

lemma parse_wire:
  assumes "0 < length ds" and "length ds \<le> 20" and "length (wire ds) < 2 ^ 31"
    and "mb_buf (recv_mbuf nc) = wire ds @ z" and "mb_len (recv_mbuf nc) = length (wire ds)"
  shows "busclient_parse_multipart_msg nc message_uninit type =
    Some (int (length (wire ds)), msg_of ds, kind_of (ds ! 0) type)"
proof -
  have "parse_loop BUSCLIENT_MAX_MULTIPART_OPT (wire ds @ z) (int (length (wire ds))) (int (length ([] :: string))) (int (length (frames ds) + 2))
      0 message_uninit type =
    (let m = \<lparr>bm_n = 0 + length ds, bm_part = take 0 (bm_part message_uninit) @ layout (length ([] :: string)) ds @
         drop (0 + length ds) (bm_part message_uninit)\<rparr>
     in do { type \<leftarrow> message_type (wire ds @ z) m type; Some (int (length (wire ds)), m, type) })"
    by (rule parse_frames) (use assms in \<open>simp_all add: wire_def CRLF_def message_uninit_def BUSCLIENT_MAX_MULTIPART_OPT_def\<close>)
  moreover have "\<lparr>bm_n = 0 + length ds, bm_part = take 0 (bm_part message_uninit) @ layout (length ([] :: string)) ds @
      drop (0 + length ds) (bm_part message_uninit)\<rparr> = msg_of ds"
    by (simp add: msg_of_def message_uninit_def BUSCLIENT_MAX_MULTIPART_OPT_def)
  moreover have "int (length (frames ds) + 2) = int (length (wire ds))" by (simp add: wire_def CRLF_def)
  ultimately show ?thesis
    by (simp add: busclient_parse_multipart_msg_def assms(4,5) message_type_of [OF assms(1,2)] Let_def)
qed


text \<open>Once the buffer is drained, the parser sees the old bytes and a length of 0, and gives up.\<close>

lemma parse_drained:
  assumes "0 < length ds" and "length (wire ds) < 2 ^ 31"
    and "mb_buf (recv_mbuf nc) = wire ds @ z" and "mb_len (recv_mbuf nc) = 0"
  shows "busclient_parse_multipart_msg nc msg type = Some (- 1, msg, type)"
proof -
  obtain d ds' where ds: "ds = d # ds'" using assms(1) by (cases ds) auto
  define f where "f = fmt_d (int (length d))"
  define rest where "rest = d @ CRLF @ frames ds' @ CRLF @ z"
  have blk: "wire ds @ z = f @ CRLF @ rest" by (simp add: ds wire_def frame_def f_def rest_def)
  have len: "length f + length d + 4 < 2 ^ 31"
    using assms(2) by (simp add: ds wire_def length_frame f_def)
  have "\<forall>c \<in> set f. is_digit c" using fmt_d_nonneg_chars [of "int (length d)"] by (simp add: f_def)
  then have "find_in_str (wire ds @ z) 0 = Some (int (length f))" by (simp add: blk find_in_str_digits)
  moreover have "atoi_at (wire ds @ z) = Some (int (length d))"
    unfolding blk f_def by (rule atoi_at_frame) (use len in auto)
  moreover have "part_ok (wire ds @ z) 0 (int (length f)) (int (length d)) 0 = Some False"
    using len by (simp add: part_ok_def c_int_def)
  moreover have "ptr (wire ds @ z) 0 = Some (wire ds @ z)" by (simp add: ptr_def)
  ultimately show ?thesis
    by (simp add: busclient_parse_multipart_msg_def assms(3,4) BUSCLIENT_MAX_MULTIPART_OPT_def numeral_eq_Suc)
qed

text \<open>A connection that has received exactly the message \<open>ds\<close>; behind it the block holds \<open>z\<close>.\<close>

definition received :: "string list \<Rightarrow> char list \<Rightarrow> mg_connection \<Rightarrow> mg_connection" where
  "received ds z nc = nc\<lparr>recv_mbuf := \<lparr>mb_buf = wire ds @ z, mb_len = length (wire ds), mb_size = length (wire ds)\<rparr>\<rparr>"

lemma recv_one:
  assumes "0 < length ds" and "length ds \<le> 20" and "length (wire ds) < 2 ^ 31" and "kind_of (ds ! 0) 0 \<noteq> 0"
    and "handle st (received ds z nc) (msg_of ds) = Some (st', nc')"
    and "recv_mbuf nc' = recv_mbuf (received ds z nc)"
  shows "recv_loop handle st (received ds z nc) message_uninit 0 =
    Some (st', nc'\<lparr>recv_mbuf := \<lparr>mb_buf = wire ds @ z, mb_len = 0, mb_size = length (wire ds)\<rparr>\<rparr>)"
proof -
  define nc'' where "nc'' = nc'\<lparr>recv_mbuf := \<lparr>mb_buf = wire ds @ z, mb_len = 0, mb_size = length (wire ds)\<rparr>\<rparr>"
  have "mbuf_remove (recv_mbuf nc') (nat (int (length (wire ds)))) = \<lparr>mb_buf = wire ds @ z, mb_len = 0, mb_size = length (wire ds)\<rparr>"
    unfolding assms(6) by (simp add: received_def mbuf_remove_def wire_def CRLF_def)
  moreover have "recv_loop handle st' nc'' (msg_of ds) (kind_of (ds ! 0) 0) = Some (st', nc'')"
    using parse_drained [OF assms(1,3), of nc''] by (subst recv_loop.simps) (simp add: nc''_def)
  moreover have "busclient_parse_multipart_msg (received ds z nc) message_uninit 0 =
      Some (int (length (wire ds)), msg_of ds, kind_of (ds ! 0) 0)"
    by (rule parse_wire [OF assms(1-3)]) (simp_all add: received_def)
  ultimately show ?thesis using assms(4,5)
    by (subst recv_loop.simps) (simp add: nc''_def wire_def CRLF_def)
qed

text \<open>C12: What \<open>busclient_multipart_send\<close> puts on a connection, \<open>busclient_parse_multipart_msg\<close> takes apart
  again, whatever the bytes of the parts and whatever lies behind the message in the block: the
  length consumed, the number of parts and the bytes of every part, and the type of the first one.\<close>

theorem multipart_roundtrip:
  assumes "0 < length ds" and "length ds \<le> 20" and "\<forall>d \<in> set ds. length d < 10 ^ 9" and "length (wire ds) < 2 ^ 31"
    and "busclient_multipart_send nc ds = Some nc'" and "sent nc' = sent nc @ w"
    and "mb_buf (recv_mbuf rc) = w @ z" and "mb_len (recv_mbuf rc) = length w"
  shows "\<exists>m. busclient_parse_multipart_msg rc message_uninit 0 = Some (int (length w), m, kind_of (ds ! 0) 0) \<and>
    bm_n m = length ds \<and>
    (\<forall>i < length ds. \<exists>p. part m i = Some p \<and> bs_len p = int (length (ds ! i)) \<and> part_bytes (w @ z) p = Some (ds ! i))"
proof -
  have w: "w = wire ds"
    using assms(5,6) busclient_multipart_send_frames [OF assms(3), of nc] by (auto simp: mg_send_def wire_def)
  have "busclient_parse_multipart_msg rc message_uninit 0 = Some (int (length w), msg_of ds, kind_of (ds ! 0) 0)"
    unfolding w by (rule parse_wire [OF assms(1,2,4)]) (use assms(7,8) w in simp_all)
  moreover have "\<exists>p. part (msg_of ds) i = Some p \<and> bs_len p = int (length (ds ! i)) \<and> part_bytes (w @ z) p = Some (ds ! i)"
    if i: "i < length ds" for i
  proof -
    obtain p rest where "part (msg_of ds) i = Some p" "bs_len p = int (length (ds ! i))"
      "ptr (wire ds @ z) (bs_data p) = Some (ds ! i @ CRLF @ rest @ z)"
      by (rule part_msg_of [OF i assms(2)])
    then show ?thesis by (simp add: part_bytes_def w mem_read_def)
  qed
  moreover have "bm_n (msg_of ds) = length ds" by (simp add: msg_of_def)
  ultimately show ?thesis by blast
qed

section \<open>The table of clients\<close>

lemma src_prefix_exact: "NUL \<notin> set d \<Longrightarrow> src_prefix (d @ s) (length d) = Some d"
proof -
  assume d: "NUL \<notin> set d"
  then have "takeWhile (\<lambda>c. c \<noteq> NUL) (d @ s) = d @ takeWhile (\<lambda>c. c \<noteq> NUL) s"
    by (intro takeWhile_append2) auto
  then show ?thesis by (auto simp: src_prefix_def Let_def)
qed

lemma strncpy_zeros_exact: "length d \<le> m \<Longrightarrow> strncpy_to (zeros m) d (length d) = Some (d @ zeros (m - length d))"
  by (simp add: strncpy_to_def mem_write_def zeros_def)

lemma copy_part_exact:
  assumes "ptr blk (bs_data p) = Some (d @ s)" and "NUL \<notin> set d" and "length d < m"
  shows "copy_part blk p (length d) m = Some d"
  using assms by (simp add: copy_part_def src_prefix_exact strncpy_zeros_exact cstr_zeros_padded)

lemma find_client_first:
  assumes "i < length cs" and "P (bc_name (cs ! i)) = Some True" and "\<And>j. j < i \<Longrightarrow> P (bc_name (cs ! j)) = Some False"
  shows "find_client P cs k = Some (Some (k + i))"
  using assms
proof (induction cs arbitrary: i k)
  case (Cons c cs)
  show ?case
  proof (cases i)
    case (Suc i')
    have "P (bc_name (cs ! j)) = Some False" if "j < i'" for j using Cons.prems(3) [of "Suc j"] Suc that by simp
    then have "find_client P cs (k + 1) = Some (Some (k + 1 + i'))" using Cons.prems Suc by (intro Cons.IH) auto
    then show ?thesis using Cons.prems(3) [of 0] Suc by simp
  qed (use Cons.prems in simp)
qed simp

lemma find_client_total:
  assumes "\<And>c. c \<in> set cs \<Longrightarrow> P (bc_name c) = Some (Q c)"
  shows "find_client P cs k = Some None \<and> (\<forall>c \<in> set cs. \<not> Q c) \<or>
    (\<exists>i < length cs. find_client P cs k = Some (Some (k + i)) \<and> Q (cs ! i) \<and> (\<forall>j < i. \<not> Q (cs ! j)))"
  using assms
proof (induction cs arbitrary: k)
  case (Cons c cs)
  have IH: "find_client P cs (k + 1) = Some None \<and> (\<forall>c \<in> set cs. \<not> Q c) \<or>
    (\<exists>i < length cs. find_client P cs (k + 1) = Some (Some (k + 1 + i)) \<and> Q (cs ! i) \<and> (\<forall>j < i. \<not> Q (cs ! j)))"
    by (rule Cons.IH) (use Cons.prems in auto)
  show ?case
  proof (cases "Q c")
    case True
    then show ?thesis using Cons.prems by (intro disjI2 exI [of _ 0]) simp
  next
    case False
    then have f: "find_client P (c # cs) k = find_client P cs (k + 1)" using Cons.prems by simp
    show ?thesis
    proof (cases "find_client P cs (k + 1) = Some None \<and> (\<forall>c \<in> set cs. \<not> Q c)")
      case True
      then show ?thesis using f False by simp
    next
      case no: False
      then obtain i where i: "i < length cs" "find_client P cs (k + 1) = Some (Some (k + 1 + i))" "Q (cs ! i)"
        "\<forall>j < i. \<not> Q (cs ! j)" using IH by blast
      have "\<not> Q ((c # cs) ! j)" if "j < Suc i" for j using i(4) False that by (cases j) auto
      then show ?thesis using i f by (intro disjI2 exI [of _ "Suc i"]) simp
    qed
  qed
qed simp


text \<open>Well-formed tables: five entries, and the last byte of every name is NUL. Not even this holds after
  \<open>cm_busserver_init\<close>, which leaves the table as the allocated block had it.\<close>

definition entry_ok :: "bus_clients \<Rightarrow> bool" where
  "entry_ok c = (length (bc_name c) = 32 \<and> bc_name c ! 31 = NUL)"

definition table_ok :: "CMBusserver \<Rightarrow> bool" where
  "table_ok ss = (length (clients ss) = BUS_TYPE_MAX \<and> (\<forall>c \<in> set (clients ss). entry_ok c))"

lemma entry_ok_NUL: "entry_ok c \<Longrightarrow> NUL \<in> set (bc_name c)"
  using nth_mem [of 31 "bc_name c"] by (simp add: entry_ok_def)

lemma entry_match:
  "entry_ok c \<Longrightarrow> NUL \<notin> set t \<Longrightarrow> strncmp_at (bc_name c) t (length t) = Some (prefix t (bc_name c))"
  by (rule strncmp_at_total [OF entry_ok_NUL])

lemma entry_free: "entry_ok c \<Longrightarrow> is_free (bc_name c) = Some (bc_name c ! 0 = NUL)"
  by (simp add: is_free_def idx_def entry_ok_def)

definition named :: "string \<Rightarrow> nat \<Rightarrow> bus_clients" where
  "named name conn = \<lparr>bc_name = name @ zeros (32 - length name), bc_conn = Some conn\<rparr>"

lemma named_ok: "length name \<le> 31 \<Longrightarrow> entry_ok (named name conn)"
  by (simp add: entry_ok_def named_def nth_append zeros_def)

lemma set_client_named:
  assumes "table_ok ss" and "i < BUS_TYPE_MAX" and "length name \<le> 31"
  shows "set_client ss i name conn = Some (ss\<lparr>clients := (clients ss)[i := named name conn]\<rparr>)"
    and "table_ok (ss\<lparr>clients := (clients ss)[i := named name conn]\<rparr>)"
proof -
  define a where "a = bc_name (clients ss ! i)"
  have "entry_ok (clients ss ! i)" and i: "i < length (clients ss)"
    using assms(1,2) by (auto simp: table_ok_def)
  then have a: "length a = 32" "drop 31 a = [NUL]"
    using Cons_nth_drop_Suc [of 31 a] by (auto simp: entry_ok_def a_def)
  have "strncpy_to a name 31 = Some (take 31 (name @ replicate 31 NUL) @ [NUL])"
    using a by (simp add: strncpy_to_Some)
  also have "take 31 (name @ replicate 31 NUL) @ [NUL] = name @ zeros (32 - length name)"
    using assms(3) by (simp add: zeros_def replicate_append_same flip: replicate_Suc)
  finally show "set_client ss i name conn = Some (ss\<lparr>clients := (clients ss)[i := named name conn]\<rparr>)"
    using i by (simp add: set_client_def idx_def upd_def a_def named_def)
  show "table_ok (ss\<lparr>clients := (clients ss)[i := named name conn]\<rparr>)"
    using assms named_ok [of name conn] by (auto simp: table_ok_def dest!: set_update_subset_insert [THEN subsetD])
qed

lemma bus_client_set_conn_enters:
  assumes "table_ok ss" and "NUL \<notin> set name" and "length name \<le> 31"
    and "\<exists>c \<in> set (clients ss). prefix name (bc_name c) \<or> bc_name c ! 0 = NUL"
  obtains i where "i < BUS_TYPE_MAX"
    "bus_client_set_conn ss name conn = Some (0, ss\<lparr>clients := (clients ss)[i := named name conn]\<rparr>)"
    "\<forall>j < i. \<not> prefix name (bc_name (clients ss ! j))"
proof -
  have ok: "\<And>c. c \<in> set (clients ss) \<Longrightarrow> entry_ok c" and len: "length (clients ss) = BUS_TYPE_MAX"
    using assms(1) by (auto simp: table_ok_def)
  consider (none) "find_client (\<lambda>a. strncmp_at a name (length name)) (clients ss) 0 = Some None"
      "\<forall>c \<in> set (clients ss). \<not> prefix name (bc_name c)"
    | (known) i where "i < BUS_TYPE_MAX" "find_client (\<lambda>a. strncmp_at a name (length name)) (clients ss) 0 = Some (Some i)"
      "\<forall>j < i. \<not> prefix name (bc_name (clients ss ! j))"
    using find_client_total [of "clients ss" "\<lambda>a. strncmp_at a name (length name)" "\<lambda>c. prefix name (bc_name c)" 0]
      entry_match [OF ok assms(2)] len by fastforce
  then show thesis
  proof cases
    case known
    then show thesis using that set_client_named(1) [OF assms(1) known(1) assms(3)] by (simp add: bus_client_set_conn_def)
  next
    case none
    have "\<exists>i < length (clients ss). find_client is_free (clients ss) 0 = Some (Some (0 + i))"
      using find_client_total [of "clients ss" is_free "\<lambda>c. bc_name c ! 0 = NUL" 0] entry_free [OF ok] assms(4) none(2)
      by blast
    then obtain i where i: "i < BUS_TYPE_MAX" "find_client is_free (clients ss) 0 = Some (Some i)" using len by auto
    then show thesis using that [OF i(1)] none set_client_named(1) [OF assms(1) i(1) assms(3)] len
      by (simp add: bus_client_set_conn_def)
  qed
qed


section \<open>Joining and publishing\<close>

text \<open>The three parts of a request or a published message, as the handlers read them.\<close>

lemma three_parts:
  obtains p0 p1 p2 r0 r1 r2 where
    "part (msg_of [a, b, c]) 0 = Some p0" "bs_len p0 = int (length a)" "ptr (wire [a, b, c] @ z) (bs_data p0) = Some (a @ CRLF @ r0 @ z)"
    "part (msg_of [a, b, c]) 1 = Some p1" "bs_len p1 = int (length b)" "ptr (wire [a, b, c] @ z) (bs_data p1) = Some (b @ CRLF @ r1 @ z)"
    "part (msg_of [a, b, c]) 2 = Some p2" "bs_len p2 = int (length c)" "ptr (wire [a, b, c] @ z) (bs_data p2) = Some (c @ CRLF @ r2 @ z)"
proof -
  obtain p0 r0 where 0: "part (msg_of [a, b, c]) 0 = Some p0" "bs_len p0 = int (length a)"
    "ptr (wire [a, b, c] @ z) (bs_data p0) = Some (a @ CRLF @ r0 @ z)"
    by (rule part_msg_of [of 0 "[a, b, c]" z]) simp_all
  obtain p1 r1 where 1: "part (msg_of [a, b, c]) 1 = Some p1" "bs_len p1 = int (length b)"
    "ptr (wire [a, b, c] @ z) (bs_data p1) = Some (b @ CRLF @ r1 @ z)"
    by (rule part_msg_of [of 1 "[a, b, c]" z]) simp_all
  obtain p2 r2 where 2: "part (msg_of [a, b, c]) 2 = Some p2" "bs_len p2 = int (length c)"
    "ptr (wire [a, b, c] @ z) (bs_data p2) = Some (c @ CRLF @ r2 @ z)"
    by (rule part_msg_of [of 2 "[a, b, c]" z]) simp_all
  show thesis by (rule that [OF 0 1 2])
qed

lemma part_is_same:
  assumes "ptr blk (bs_data p) = Some (d @ s)" and "bs_len p = int (length d)" and "length d < 2 ^ 64"
  shows "part_is blk p d (bs_len p) = Some True"
  using assms by (simp add: part_is_def strncmp_at_all)

lemma part_is_publish_request:
  "ptr blk (bs_data p) = Some (''publish'' @ s) \<Longrightarrow> bs_len p = int (length ''publish'') \<Longrightarrow>
     part_is blk p ''request'' (bs_len p) = Some False"
  by (simp add: part_is_def numeral_eq_Suc)

lemma log_str_NUL: "ptr blk (bs_data p) = Some s \<Longrightarrow> NUL \<in> set s \<Longrightarrow> log_str blk p = Some ()"
  by (simp add: log_str_def cstr_def)

lemma join_handled:
  assumes "NUL \<notin> set name" and "length name \<le> 31" and "NUL \<in> set z" and "bus_client_set_conn ss name conn = Some (0, ss')"
  shows "handle_multipart_msg conn ss (received [''request'', ''/bus/join'', name] z nc) (msg_of [''request'', ''/bus/join'', name]) =
    Some (ss', mg_send (received [''request'', ''/bus/join'', name] z nc) (wire [''response'']))"
proof -
  define nc1 where "nc1 = received [''request'', ''/bus/join'', name] z nc"
  obtain p0 p1 p2 r0 r1 r2 where p:
    "part (msg_of [''request'', ''/bus/join'', name]) 0 = Some p0" "bs_len p0 = int (length ''request'')"
    "ptr (wire [''request'', ''/bus/join'', name] @ z) (bs_data p0) = Some (''request'' @ CRLF @ r0 @ z)"
    "part (msg_of [''request'', ''/bus/join'', name]) 1 = Some p1" "bs_len p1 = int (length ''/bus/join'')"
    "ptr (wire [''request'', ''/bus/join'', name] @ z) (bs_data p1) = Some (''/bus/join'' @ CRLF @ r1 @ z)"
    "part (msg_of [''request'', ''/bus/join'', name]) 2 = Some p2" "bs_len p2 = int (length name)"
    "ptr (wire [''request'', ''/bus/join'', name] @ z) (bs_data p2) = Some (name @ CRLF @ r2 @ z)"
    by (rule three_parts)
  have blk: "mb_buf (recv_mbuf nc1) = wire [''request'', ''/bus/join'', name] @ z" by (simp add: nc1_def received_def)
  have "part_is (wire [''request'', ''/bus/join'', name] @ z) p0 ''request'' (bs_len p0) = Some True"
    by (rule part_is_same [OF p(3,2)]) simp
  moreover have "part_is (wire [''request'', ''/bus/join'', name] @ z) p1 ''/bus/join'' (bs_len p1) = Some True"
    by (rule part_is_same [OF p(6,5)]) simp
  moreover have "log_str (wire [''request'', ''/bus/join'', name] @ z) p1 = Some ()"
    by (rule log_str_NUL [OF p(6)]) (use assms(3) in simp)
  moreover have "log_str (wire [''request'', ''/bus/join'', name] @ z) p2 = Some ()"
    by (rule log_str_NUL [OF p(9)]) (use assms(3) in simp)
  moreover have "copy_part (wire [''request'', ''/bus/join'', name] @ z) p2 (length name) 32 = Some name"
    by (rule copy_part_exact [OF p(9) assms(1)]) (use assms(2) in simp)
  moreover have "nat (bs_len p2 mod 2 ^ 64) = length name" using assms(2) p(8) by simp
  moreover have "busclient_multipart_send nc1 [''response''] = Some (mg_send nc1 (wire [''response'']))"
    by (simp add: busclient_multipart_send_frames wire_def)
  ultimately show ?thesis
    using assms(2,4) unfolding handle_multipart_msg_def nc1_def [symmetric] blk Let_def p(1,4,7) by simp
qed

lemma publish_handled:
  assumes "NUL \<notin> set topic" and "length topic < 1024" and "cc_cb cc"
  shows "handle_multipart_msg_client cc (received [''publish'', topic, data] z nc) (msg_of [''publish'', topic, data]) =
    Some (cc\<lparr>cc_delivered := cc_delivered cc @ [(topic, data)]\<rparr>, received [''publish'', topic, data] z nc)"
proof -
  define nc1 where "nc1 = received [''publish'', topic, data] z nc"
  obtain p0 p1 p2 r0 r1 r2 where p:
    "part (msg_of [''publish'', topic, data]) 0 = Some p0" "bs_len p0 = int (length ''publish'')"
    "ptr (wire [''publish'', topic, data] @ z) (bs_data p0) = Some (''publish'' @ CRLF @ r0 @ z)"
    "part (msg_of [''publish'', topic, data]) 1 = Some p1" "bs_len p1 = int (length topic)"
    "ptr (wire [''publish'', topic, data] @ z) (bs_data p1) = Some (topic @ CRLF @ r1 @ z)"
    "part (msg_of [''publish'', topic, data]) 2 = Some p2" "bs_len p2 = int (length data)"
    "ptr (wire [''publish'', topic, data] @ z) (bs_data p2) = Some (data @ CRLF @ r2 @ z)"
    by (rule three_parts)
  have blk: "mb_buf (recv_mbuf nc1) = wire [''publish'', topic, data] @ z" by (simp add: nc1_def received_def)
  have "part_is (wire [''publish'', topic, data] @ z) p0 ''request'' (bs_len p0) = Some False"
    by (rule part_is_publish_request [OF p(3,2)])
  moreover have "part_is (wire [''publish'', topic, data] @ z) p0 ''publish'' (bs_len p0) = Some True"
    by (rule part_is_same [OF p(3,2)]) simp
  moreover have "copy_part (wire [''publish'', topic, data] @ z) p1 (length topic) 1024 = Some topic"
    by (rule copy_part_exact [OF p(6) assms(1,2)])
  moreover have "nat (bs_len p1 mod 2 ^ 64) = length topic" using assms(2) p(5) by simp
  moreover have "part_bytes (wire [''publish'', topic, data] @ z) p2 = Some data"
    using p(8,9) by (simp add: part_bytes_def mem_read_def)
  ultimately show ?thesis
    using assms(3) unfolding handle_multipart_msg_client_def nc1_def [symmetric] blk Let_def p(1,4,7) by simp
qed


lemma find_named:
  assumes "table_ok ss" and "i < BUS_TYPE_MAX" and "NUL \<notin> set name" and "length name \<le> 31"
    and "\<forall>j < i. \<not> prefix name (bc_name (clients ss ! j))"
  shows "find_client (\<lambda>a. strncmp_at a name (length name)) ((clients ss)[i := named name conn]) 0 = Some (Some i)"
proof -
  have ok: "entry_ok (clients ss ! j)" if "j < i" for j using assms(1,2) that by (auto simp: table_ok_def)
  have len: "length (clients ss) = BUS_TYPE_MAX" using assms(1) by (simp add: table_ok_def)
  have "find_client (\<lambda>a. strncmp_at a name (length name)) ((clients ss)[i := named name conn]) 0 = Some (Some (0 + i))"
  proof (rule find_client_first)
    show "strncmp_at (bc_name ((clients ss)[i := named name conn] ! i)) name (length name) = Some True"
      using assms(2) len by (simp add: named_def strncmp_at_all)
    show "strncmp_at (bc_name ((clients ss)[i := named name conn] ! j)) name (length name) = Some False" if "j < i" for j
      using entry_match [OF ok [OF that] assms(3)] assms(5) that by simp
  qed (use assms(2) len in simp)
  then show ?thesis by simp
qed

definition join_msg :: "string \<Rightarrow> string list" where "join_msg name = [''request'', ''/bus/join'', name]"
definition publish_msg :: "string \<Rightarrow> string \<Rightarrow> string list" where "publish_msg topic data = [''publish'', topic, data]"

lemma wire_sizes:
  "length name < 10 ^ 9 \<Longrightarrow> length (wire (join_msg name)) < 2 ^ 31"
  "length topic < 10 ^ 9 \<Longrightarrow> length data < 10 ^ 9 \<Longrightarrow> length (wire (publish_msg topic data)) < 2 ^ 31"
proof -
  have digits: "length (fmt_d (int n)) \<le> 9" if "n < 10 ^ 9" for n
    using show_nat_length [of n 9] that by (simp add: fmt_d_nat)
  show "length name < 10 ^ 9 \<Longrightarrow> length (wire (join_msg name)) < 2 ^ 31"
    using digits [of "length name"] digits [of 7] digits [of 9]
    by (simp add: join_msg_def wire_def length_frame CRLF_def)
  show "length topic < 10 ^ 9 \<Longrightarrow> length data < 10 ^ 9 \<Longrightarrow> length (wire (publish_msg topic data)) < 2 ^ 31"
    using digits [of "length topic"] digits [of "length data"] digits [of 7]
    by (simp add: publish_msg_def wire_def length_frame CRLF_def)
qed

lemma client_connects:
  assumes "cstr (cc_name cc) = Some name" and "length name \<le> 31"
  shows "ev_handler_client c cc nc MG_EV_CONNECT = Some (cc\<lparr>cc_conn := Some c\<rparr>, mg_send nc (wire (join_msg name)))"
  using assms by (simp add: ev_handler_client_def Let_def cm_busclient_send_request_def cm_busclient_send_def
      busclient_multipart_send_frames join_msg_def wire_def)

lemma server_joins:
  assumes "NUL \<notin> set name" and "length name \<le> 31" and "NUL \<in> set z" and "bus_client_set_conn ss name conn = Some (0, ss')"
  shows "ev_handler conn ss (received (join_msg name) z sc) MG_EV_RECV =
    Some (ss', (mg_send (received (join_msg name) z sc) (wire [''response'']))\<lparr>recv_mbuf := \<lparr>mb_buf = wire (join_msg name) @ z, mb_len = 0, mb_size = length (wire (join_msg name))\<rparr>\<rparr>)"
  unfolding ev_handler_def event.case
  by (rule recv_one)
    (use join_handled [OF assms, of sc] wire_sizes(1) [of name] assms(2) in
      \<open>simp_all add: join_msg_def kind_of_def mg_send_def BUSCLIENT_RPC_REQUEST_def\<close>)

lemma server_sends:
  assumes "table_ok ss" and "i < BUS_TYPE_MAX" and "NUL \<notin> set name" and "length name \<le> 31"
    and "\<forall>j < i. \<not> prefix name (bc_name (clients ss ! j))" and "length topic < 10 ^ 9" and "length data < 10 ^ 9"
  shows "cm_busserver_send_msg (Some (ss\<lparr>clients := (clients ss)[i := named name conn]\<rparr>)) name (Some topic) data (world(conn \<mapsto> sc)) =
    Some (0, world(conn \<mapsto> mg_send sc (wire (publish_msg topic data))))"
proof -
  have "bc_conn ((clients ss)[i := named name conn] ! i) = Some conn"
    using assms(1,2) by (simp add: named_def table_ok_def)
  then show ?thesis using find_named [OF assms(1-5), of conn] assms(6,7)
    by (simp add: cm_busserver_send_msg_def send_to_def busclient_multipart_send_frames publish_msg_def wire_def)
qed

lemma client_receives:
  assumes "NUL \<notin> set topic" and "length topic < 1024" and "length data < 10 ^ 9" and "cc_cb cc"
  shows "ev_handler_client c cc (received (publish_msg topic data) z nc) MG_EV_RECV =
    Some (cc\<lparr>cc_delivered := cc_delivered cc @ [(topic, data)]\<rparr>,
      (received (publish_msg topic data) z nc)\<lparr>recv_mbuf := \<lparr>mb_buf = wire (publish_msg topic data) @ z, mb_len = 0, mb_size = length (wire (publish_msg topic data))\<rparr>\<rparr>)"
  unfolding ev_handler_client_def event.case
  by (rule recv_one)
    (use publish_handled [OF assms(1,2,4), of data z nc] wire_sizes(2) [of topic data] assms(2,3) in
      \<open>simp_all add: publish_msg_def kind_of_def BUSCLIENT_RECV_TOPIC_def\<close>)

text \<open>C11: The bus from end to end. A client with a callback, whose name has at most 31 characters, connects and sends its
  request; the server, whose table has room (or an entry the name is a prefix of), enters the name
  with the connection and answers; a message with a topic of fewer than 1024 characters and less than 10^9 bytes of data
  that the server then sends to that name goes out on that connection, and when it arrives the client's callback is called once
  with exactly the topic and the data. Both messages arrive whole, on connections whose receive buffers are empty, and
  in the server's block there is a NUL somewhere behind the request, which it logs as text. Both buffers end up empty.\<close>

theorem bus_join_then_send:
  assumes "table_ok ss" and "\<exists>e \<in> set (clients ss). prefix name (bc_name e) \<or> bc_name e ! 0 = NUL"
    and "cstr (cc_name cc) = Some name" and "length name \<le> 31" and "cc_cb cc" and "NUL \<in> set z"
    and "NUL \<notin> set topic" and "length topic < 1024" and "length data < 10 ^ 9"
    and "mb_len (recv_mbuf sc) = 0" and "mb_len (recv_mbuf nc) = 0"
  shows "\<exists>w cc1 nc1 ss1 sc1 w2 sc2 cc2 nc2.
    ev_handler_client c cc nc MG_EV_CONNECT = Some (cc1, nc1) \<and> sent nc1 = sent nc @ w \<and>
    ev_handler conn ss (mg_recv_common fresh sc (w @ z) (length w)) MG_EV_RECV = Some (ss1, sc1) \<and>
    mb_len (recv_mbuf sc1) = 0 \<and> sent sc1 = sent sc @ frame ''response'' @ CRLF \<and> table_ok ss1 \<and>
    cm_busserver_send_msg (Some ss1) name (Some topic) data (world(conn \<mapsto> sc1)) = Some (0, world(conn \<mapsto> sc2)) \<and>
    sent sc2 = sent sc1 @ w2 \<and>
    ev_handler_client c cc1 (mg_recv_common fresh nc1 (w2 @ z2) (length w2)) MG_EV_RECV = Some (cc2, nc2) \<and>
    cc_delivered cc2 = cc_delivered cc @ [(topic, data)] \<and> mb_len (recv_mbuf nc2) = 0"
proof -
  have name: "NUL \<notin> set name" using assms(3) by (rule cstr_no_NUL)
  obtain i where i: "i < BUS_TYPE_MAX"
    "bus_client_set_conn ss name conn = Some (0, ss\<lparr>clients := (clients ss)[i := named name conn]\<rparr>)"
    "\<forall>j < i. \<not> prefix name (bc_name (clients ss ! j))"
    by (rule bus_client_set_conn_enters [OF assms(1) name assms(4,2)])
  define ss1 where "ss1 = ss\<lparr>clients := (clients ss)[i := named name conn]\<rparr>"
  define sc1 where "sc1 = (mg_send (received (join_msg name) z sc) (wire [''response'']))
      \<lparr>recv_mbuf := \<lparr>mb_buf = wire (join_msg name) @ z, mb_len = 0, mb_size = length (wire (join_msg name))\<rparr>\<rparr>"
  define nc1 where "nc1 = mg_send nc (wire (join_msg name))"
  have 1: "ev_handler_client c cc nc MG_EV_CONNECT = Some (cc\<lparr>cc_conn := Some c\<rparr>, nc1)"
    unfolding nc1_def by (rule client_connects [OF assms(3,4)])
  have adopt: "mg_recv_common fresh n (wire ds @ y) (length (wire ds)) = received ds y n" if "mb_len (recv_mbuf n) = 0" for n ds y
    using that by (simp add: mg_recv_common_def received_def)
  have 2: "ev_handler conn ss (mg_recv_common fresh sc (wire (join_msg name) @ z) (length (wire (join_msg name)))) MG_EV_RECV =
      Some (ss1, sc1)"
    using server_joins [OF name assms(4,6) i(2), of sc] adopt [OF assms(10)] by (simp add: sc1_def ss1_def)
  have 3: "cm_busserver_send_msg (Some ss1) name (Some topic) data (world(conn \<mapsto> sc1)) =
      Some (0, world(conn \<mapsto> mg_send sc1 (wire (publish_msg topic data))))"
    unfolding ss1_def by (rule server_sends [OF assms(1) i(1) name assms(4) i(3)]) (use assms(8,9) in auto)
  have "mb_len (recv_mbuf nc1) = 0" using assms(11) by (simp add: nc1_def mg_send_def)
  note adopt2 = adopt [OF this]
  have 4: "ev_handler_client c (cc\<lparr>cc_conn := Some c\<rparr>) (received (publish_msg topic data) z2 nc1) MG_EV_RECV =
      Some (cc\<lparr>cc_conn := Some c, cc_delivered := cc_delivered cc @ [(topic, data)]\<rparr>,
        (received (publish_msg topic data) z2 nc1)\<lparr>recv_mbuf := \<lparr>mb_buf = wire (publish_msg topic data) @ z2, mb_len = 0, mb_size = length (wire (publish_msg topic data))\<rparr>\<rparr>)"
    using client_receives [OF assms(7-9), of "cc\<lparr>cc_conn := Some c\<rparr>"] assms(5) by simp
  have "table_ok ss1" unfolding ss1_def by (rule set_client_named(2) [OF assms(1) i(1) assms(4)])
  with 1 2 3 4 show ?thesis
    by (intro exI [of _ "wire (join_msg name)"] exI [of _ "cc\<lparr>cc_conn := Some c\<rparr>"] exI [of _ nc1] exI [of _ ss1]
        exI [of _ sc1] exI [of _ "wire (publish_msg topic data)"] exI [of _ "mg_send sc1 (wire (publish_msg topic data))"]
        exI [of _ "cc\<lparr>cc_conn := Some c, cc_delivered := cc_delivered cc @ [(topic, data)]\<rparr>"]
        exI [of _ "(received (publish_msg topic data) z2 nc1)\<lparr>recv_mbuf := \<lparr>mb_buf = wire (publish_msg topic data) @ z2, mb_len = 0, mb_size = length (wire (publish_msg topic data))\<rparr>\<rparr>"])
      (simp add: adopt2, simp add: nc1_def sc1_def mg_send_def received_def wire_def)
qed


section \<open>The table in every reachable state\<close>

















section \<open>Names are compared as prefixes\<close>

lemma named_prefix: "NUL \<notin> set t \<Longrightarrow> length name \<le> 31 \<Longrightarrow> prefix t (bc_name (named name conn)) \<longleftrightarrow> prefix t name"
  using prefix_upto [of NUL t name "zeros (31 - length name)"] Suc_diff_le [of "length name" 31]
  by (simp add: named_def zeros_def)

lemma find_none:
  assumes "\<forall>c \<in> set cs. entry_ok c \<and> \<not> prefix t (bc_name c)" and "NUL \<notin> set t"
  shows "find_client (\<lambda>a. strncmp_at a t (length t)) cs k = Some None"
  using assms(1) by (induction cs arbitrary: k) (simp_all add: entry_match assms(2))

text \<open>Names in the table are compared as far as the given name reaches. With a client \<open>old\<close> in the
  table, a message to a proper prefix of that name goes to its connection; and a second client that
  joins under the prefix takes over the entry, after which messages to \<open>old\<close> are dropped while the
  server reports success.\<close>

theorem bus_prefix_names:
  assumes "table_ok ss" and "i < BUS_TYPE_MAX" and "clients ss ! i = named old c" and "strict_prefix name old"
    and "length old \<le> 31" and "NUL \<notin> set old" and "\<forall>j < i. \<not> prefix name (bc_name (clients ss ! j))"
    and "\<forall>j < BUS_TYPE_MAX. j \<noteq> i \<longrightarrow> \<not> prefix old (bc_name (clients ss ! j))"
    and "length topic < 10 ^ 9" and "length data < 10 ^ 9" and "world c = Some nc"
  shows "cm_busserver_send_msg (Some ss) name (Some topic) data world =
      Some (0, world(c \<mapsto> mg_send nc (wire (publish_msg topic data)))) \<and>
    (\<exists>ss'. bus_client_set_conn ss name conn = Some (0, ss') \<and> clients ss' ! i = named name conn \<and>
      cm_busserver_send_msg (Some ss') old (Some topic) data world' = Some (0, world'))"
proof -
  have pre: "prefix name old" and shorter: "length name < length old"
    using assms(4) by (auto simp: prefix_length_less)
  have name: "NUL \<notin> set name" using assms(6) set_mono_prefix [OF pre] by auto
  have len: "length (clients ss) = BUS_TYPE_MAX" and ok: "\<forall>c \<in> set (clients ss). entry_ok c"
    using assms(1) by (auto simp: table_ok_def)
  have hit: "prefix name (bc_name (clients ss ! i))" using pre named_prefix [OF name assms(5)] assms(3) by simp
  have at: "find_client (\<lambda>a. strncmp_at a name (length name)) (clients ss) 0 = Some (Some i)"
    using find_client_first [of i "clients ss" "\<lambda>a. strncmp_at a name (length name)" 0]
      entry_match [OF _ name] ok hit assms(2,7) len by simp
  have send: "cm_busserver_send_msg (Some ss) name (Some topic) data world =
      Some (0, world(c \<mapsto> mg_send nc (wire (publish_msg topic data))))"
    using assms(9-11) at
    by (simp add: cm_busserver_send_msg_def send_to_def assms(3) named_def busclient_multipart_send_frames publish_msg_def wire_def)
  define ss' where "ss' = ss\<lparr>clients := (clients ss)[i := named name conn]\<rparr>"
  have short: "length name \<le> 31" using shorter assms(5) by simp
  have set: "bus_client_set_conn ss name conn = Some (0, ss')" and ok': "table_ok ss'"
    using at set_client_named [OF assms(1,2) short, of conn] by (simp_all add: bus_client_set_conn_def ss'_def)
  have miss: "\<not> prefix old (bc_name (clients ss' ! j))" if "j < BUS_TYPE_MAX" for j
    using that assms(8) len named_prefix [OF assms(6) short] shorter
    by (cases "j = i") (auto simp: ss'_def dest: prefix_length_le)
  have "find_client (\<lambda>a. strncmp_at a old (length old)) (clients ss') 0 = Some None"
    by (rule find_none) (use ok' miss assms(6) in \<open>auto simp: table_ok_def in_set_conv_nth\<close>)
  then have "cm_busserver_send_msg (Some ss') old (Some topic) data world' = Some (0, world')"
    by (simp add: cm_busserver_send_msg_def)
  moreover have "clients ss' ! i = named name conn" using assms(2) len by (simp add: ss'_def)
  ultimately show ?thesis using send set by blast
qed

section \<open>Examples\<close>

definition free_entry :: bus_clients where
  "free_entry = \<lparr>bc_name = zeros 32, bc_conn = None\<rparr>"

definition idle_conn :: mg_connection where
  "idle_conn = \<lparr>recv_mbuf = \<lparr>mb_buf = [], mb_len = 0, mb_size = 0\<rparr>, sent = []\<rparr>"

definition empty_server :: CMBusserver where
  "empty_server = \<lparr>clients = replicate 5 free_entry, has_cb = True, delivered = []\<rparr>"

definition one_client :: CMBusserver where
  "one_client = \<lparr>clients = named ''btavk'' 3 # replicate 4 free_entry, has_cb = True, delivered = []\<rparr>"

definition demo_client :: CMBusclient where
  "demo_client = \<lparr>cc_name = ''dlna'' @ zeros 28, cc_addr = zeros 64, cc_port = 50001, cc_conn = None,
     cc_exit = 0, cc_cb = True, cc_delivered = []\<rparr>"

lemma free_entry_ok: "entry_ok free_entry"
  by (simp add: entry_ok_def free_entry_def zeros_def)

lemma table_ok_examples: "table_ok empty_server" "table_ok one_client"
  by (simp_all add: table_ok_def empty_server_def one_client_def free_entry_ok named_ok BUS_TYPE_MAX_def)

theorem multipart_roundtrip_witness:
  "\<exists>m. busclient_parse_multipart_msg (idle_conn\<lparr>recv_mbuf := \<lparr>mb_buf = wire [''publish'', ''bt/on''] @ zeros 3,
      mb_len = length (wire [''publish'', ''bt/on'']), mb_size = 0\<rparr>\<rparr>) message_uninit 0 =
    Some (int (length (wire [''publish'', ''bt/on''])), m, kind_of ([''publish'', ''bt/on''] ! 0) 0) \<and>
    bm_n m = length [''publish'', ''bt/on''] \<and>
    (\<forall>i < length [''publish'', ''bt/on'']. \<exists>p. part m i = Some p \<and> bs_len p = int (length ([''publish'', ''bt/on''] ! i)) \<and>
      part_bytes (wire [''publish'', ''bt/on''] @ zeros 3) p = Some ([''publish'', ''bt/on''] ! i))"
  by (rule multipart_roundtrip [where nc = idle_conn and nc' = "mg_send idle_conn (wire [''publish'', ''bt/on''])"])
    (simp_all add: busclient_multipart_send_frames wire_def mg_send_def length_frame CRLF_def fmt_d_def show_nat.simps)

theorem bus_join_then_send_witness:
  "\<exists>w cc1 nc1 ss1 sc1 w2 sc2 cc2 nc2.
    ev_handler_client 0 demo_client idle_conn MG_EV_CONNECT = Some (cc1, nc1) \<and> sent nc1 = sent idle_conn @ w \<and>
    ev_handler 7 empty_server (mg_recv_common zeros idle_conn (w @ zeros 4) (length w)) MG_EV_RECV = Some (ss1, sc1) \<and>
    mb_len (recv_mbuf sc1) = 0 \<and> sent sc1 = sent idle_conn @ frame ''response'' @ CRLF \<and> table_ok ss1 \<and>
    cm_busserver_send_msg (Some ss1) ''dlna'' (Some ''play'') ''x'' (Map.empty(7 \<mapsto> sc1)) = Some (0, Map.empty(7 \<mapsto> sc2)) \<and>
    sent sc2 = sent sc1 @ w2 \<and>
    ev_handler_client 0 cc1 (mg_recv_common zeros nc1 (w2 @ []) (length w2)) MG_EV_RECV = Some (cc2, nc2) \<and>
    cc_delivered cc2 = cc_delivered demo_client @ [(''play'', ''x'')] \<and> mb_len (recv_mbuf nc2) = 0"
  by (rule bus_join_then_send [OF table_ok_examples(1)])
    (simp_all add: empty_server_def free_entry_def demo_client_def idle_conn_def cstr_def zeros_def NUL_def)


theorem bus_prefix_names_witness:
  "cm_busserver_send_msg (Some one_client) ''bt'' (Some ''on'') ''1'' (Map.empty(3 \<mapsto> idle_conn)) =
      Some (0, Map.empty(3 \<mapsto> idle_conn, 3 \<mapsto> mg_send idle_conn (wire (publish_msg ''on'' ''1'')))) \<and>
    (\<exists>ss'. bus_client_set_conn one_client ''bt'' 4 = Some (0, ss') \<and> clients ss' ! 0 = named ''bt'' 4 \<and>
      cm_busserver_send_msg (Some ss') ''btavk'' (Some ''on'') ''1'' Map.empty = Some (0, Map.empty))"
proof -
  have "\<not> prefix ''btavk'' (bc_name (clients one_client ! j))" if j: "j < BUS_TYPE_MAX" "j \<noteq> 0" for j
  proof -
    have "bc_name (clients one_client ! j) = zeros 32"
      using j by (cases j) (auto simp: one_client_def free_entry_def BUS_TYPE_MAX_def)
    then show ?thesis by (simp add: zeros_def NUL_def numeral_eq_Suc)
  qed
  then show ?thesis
    by (intro bus_prefix_names [OF table_ok_examples(2)])
      (simp_all add: one_client_def BUS_TYPE_MAX_def strict_prefix_def NUL_def)
qed

end
