(* ===== verification/CmConf.thy ===== *)
theory CmConf
  imports CNumber "HOL-Library.AList"
begin

text \<open>
  The configuration file of src/common/cm_conf.c: an array of key and value texts, written as lines
  \<open>key=value\<close> below a comment line and read back. A file is its contents; what \<open>fopen\<close> gives is an
  argument (\<open>None\<close>, or the contents). The array is the list of its entries; an access behind its end
  is \<open>None\<close>. The functions refine an association list, and a written file is read back.
\<close>

section \<open>Reading lines and fields\<close>

definition LF :: char where "LF = CHR 0x0A"

text \<open>\<open>fgets(line, n, f)\<close>: the line and what is left of the file; \<open>None\<close> is the null pointer.\<close>

definition fgets :: "nat \<Rightarrow> char list \<Rightarrow> (char list \<times> char list) option" where
  "fgets n s =
     (if s = [] then None
      else let t = take (n - 1) s;
               u = takeWhile (\<lambda>c. c \<noteq> LF) t;
               k = (if length u < length t then length u + 1 else length t)
           in Some (take k s, drop k s))"

text \<open>\<open>sscanf(line, "%[^=]=%s", key, value)\<close>.\<close>

definition sscanf_pair :: "string \<Rightarrow> char list \<Rightarrow> char list \<Rightarrow> (int \<times> char list \<times> char list) option" where
  "sscanf_pair line key val =
     (let k = takeWhile (\<lambda>c. c \<noteq> CHR ''='') line in
      if k = [] then Some (0, key, val)
      else do {
        key \<leftarrow> sprintf_to key k;
        case dropWhile (\<lambda>c. c \<noteq> CHR ''='') line of
          [] \<Rightarrow> Some (1, key, val)
        | e # t \<Rightarrow>
            let v = takeWhile (\<lambda>c. \<not> is_space c) (dropWhile is_space t) in
            if v = [] then Some (1, key, val)
            else do { val \<leftarrow> sprintf_to val v; Some (2, key, val) }
      })"

section \<open>The array of entries\<close>

record CMConfig =
  conf_key :: "char list"
  conf_value :: "char list"

definition put_key :: "CMConfig list \<Rightarrow> nat \<Rightarrow> string \<Rightarrow> CMConfig list option" where
  "put_key conf i k = do { c \<leftarrow> idx conf i; a \<leftarrow> strncpy_to (conf_key c) k 32; upd conf i (c\<lparr>conf_key := a\<rparr>) }"

definition put_value :: "CMConfig list \<Rightarrow> nat \<Rightarrow> string \<Rightarrow> CMConfig list option" where
  "put_value conf i v = do { c \<leftarrow> idx conf i; a \<leftarrow> strncpy_to (conf_value c) v 256; upd conf i (c\<lparr>conf_value := a\<rparr>) }"

text \<open>The loop of \<open>cm_config_read\<close>.\<close>

function read_loop :: "char list \<Rightarrow> CMConfig list \<Rightarrow> nat \<Rightarrow> int \<Rightarrow> (int \<times> CMConfig list) option" where
  "read_loop file conf i mx =
     (if int i > mx then Some (int i, conf)
      else case fgets 128 file of
        None \<Rightarrow> Some (int i, conf)
      | Some (line, rest) \<Rightarrow>
          let s = takeWhile (\<lambda>c. c \<noteq> NUL) line in
          if s = [] \<or> hd s = CHR ''#'' then read_loop rest conf i mx
          else do {
            (ret, key, val) \<leftarrow> sscanf_pair s (zeros 32) (zeros 256);
            if ret = 2 then do {
              k \<leftarrow> cstr key;
              v \<leftarrow> cstr val;
              conf \<leftarrow> put_key conf i k;
              conf \<leftarrow> put_value conf i v;
              read_loop rest conf (i + 1) mx
            }
            else read_loop rest conf i mx
          })"
  by pat_completeness auto

lemma fgets_shorter: "1 < n \<Longrightarrow> fgets n s = Some (line, rest) \<Longrightarrow> length rest < length s"
  by (cases s) (auto simp: fgets_def Let_def split: if_splits)

termination read_loop
  by (relation "measure (\<lambda>(file, conf, i, mx). length file)") (auto intro: fgets_shorter [of 128, simplified])

declare read_loop.simps [simp del]

definition cm_config_read :: "char list option \<Rightarrow> CMConfig list \<Rightarrow> int \<Rightarrow> (int \<times> CMConfig list) option" where
  "cm_config_read f conf mx =
     (case f of Some file \<Rightarrow> read_loop file conf 0 mx | None \<Rightarrow> Some (- 2, conf))"

text \<open>\<open>cm_config_write\<close>: the new contents of the file, if it can be opened. \<open>timestr\<close> is what \<open>ctime\<close> gives.\<close>

fun write_loop :: "char list \<Rightarrow> CMConfig list \<Rightarrow> nat \<Rightarrow> nat \<Rightarrow> string option" where
  "write_loop line conf i 0 = Some []"
| "write_loop line conf i (Suc n) = do {
     c \<leftarrow> idx conf i;
     k \<leftarrow> cstr (conf_key c);
     v \<leftarrow> cstr (conf_value c);
     line \<leftarrow> sprintf_to line (k @ ''='' @ v @ [LF]);
     out \<leftarrow> cstr line;
     rest \<leftarrow> write_loop line conf (i + 1) n;
     Some (out @ rest)
   }"

definition cm_config_write :: "bool \<Rightarrow> string \<Rightarrow> CMConfig list \<Rightarrow> int \<Rightarrow> (int \<times> string option) option" where
  "cm_config_write opens timestr conf mx =
     (if \<not> opens then Some (- 1, None)
      else do {
        line \<leftarrow> sprintf_to (zeros 512) (''# Generated by program.'' @ '' @ '' @ timestr @ [LF]);
        header \<leftarrow> cstr line;
        body \<leftarrow> write_loop line conf 0 (nat mx);
        Some (0, Some (header @ body))
      })"

text \<open>The search shared by the two lookups, from entry \<open>i\<close> on, \<open>n\<close> entries: the index of the first hit.\<close>

fun find_key :: "CMConfig list \<Rightarrow> string \<Rightarrow> nat \<Rightarrow> nat \<Rightarrow> nat option option" where
  "find_key conf key i 0 = Some None"
| "find_key conf key i (Suc n) = do {
     c \<leftarrow> idx conf i;
     k \<leftarrow> cstr (conf_key c);
     if strcmp k key = 0 then Some (Some i) else find_key conf key (i + 1) n
   }"

text \<open>The pointer that \<open>cm_config_value\<close> returns is the value array of the entry with this index.\<close>

definition cm_config_value :: "CMConfig list \<Rightarrow> int \<Rightarrow> string \<Rightarrow> nat option option" where
  "cm_config_value conf mx key = find_key conf key 0 (nat mx)"

definition cm_config_set_value :: "CMConfig list \<Rightarrow> int \<Rightarrow> string \<Rightarrow> string \<Rightarrow> (int \<times> CMConfig list) option" where
  "cm_config_set_value conf mx key val = do {
     r \<leftarrow> find_key conf key 0 (nat mx);
     case r of
       Some i \<Rightarrow> do { conf \<leftarrow> put_value conf i val; Some (int i, conf) }
     | None \<Rightarrow>
         if mx \<ge> 0 then do {
           conf \<leftarrow> put_key conf (nat mx) key;
           conf \<leftarrow> put_value conf (nat mx) val;
           Some (mx, conf)
         }
         else Some (0, conf)
   }"

text \<open>\<open>cm_config_write_buf\<close> and \<open>cm_config_read_buf\<close>; the length becomes a \<open>size_t\<close>.\<close>

definition cm_config_write_buf :: "bool \<Rightarrow> char list \<Rightarrow> int \<Rightarrow> (int \<times> char list option) option" where
  "cm_config_write_buf opens buf len =
     (if opens then do { d \<leftarrow> mem_read buf 0 (nat (len mod 2 ^ 64)); Some (int (length d), Some d) }
      else Some (- 1, None))"

definition cm_config_read_buf :: "char list option \<Rightarrow> char list \<Rightarrow> int \<Rightarrow> (int \<times> char list) option" where
  "cm_config_read_buf f buf len =
     (case f of
        Some file \<Rightarrow> do {
          let d = take (nat (len mod 2 ^ 64)) file;
          buf \<leftarrow> mem_write buf 0 d;
          Some (int (length d), buf)
        }
      | None \<Rightarrow> Some (- 1, buf))"


section \<open>The texts of the entries\<close>

definition entry_text :: "CMConfig \<Rightarrow> (string \<times> string) option" where
  "entry_text c = do { k \<leftarrow> cstr (conf_key c); v \<leftarrow> cstr (conf_value c); Some (k, v) }"

text \<open>The first \<open>length kvs\<close> entries hold the pairs \<open>kvs\<close>; every entry has its full size.\<close>

definition holds :: "CMConfig list \<Rightarrow> (string \<times> string) list \<Rightarrow> bool" where
  "holds conf kvs = (map entry_text (take (length kvs) conf) = map Some kvs)"

definition sized :: "CMConfig list \<Rightarrow> bool" where
  "sized conf = (\<forall>c \<in> set conf. length (conf_key c) = 32 \<and> length (conf_value c) = 256)"

definition entry :: "string \<Rightarrow> string \<Rightarrow> CMConfig" where
  "entry k v = \<lparr>conf_key = k @ zeros (32 - length k), conf_value = v @ zeros (256 - length v)\<rparr>"

lemma strncpy_full:
  "length a = n \<Longrightarrow> length s \<le> n \<Longrightarrow> strncpy_to a s n = Some (s @ zeros (n - length s))"
  by (simp add: strncpy_to_Some zeros_def)

lemma entry_text_entry: "NUL \<notin> set k \<Longrightarrow> NUL \<notin> set v \<Longrightarrow> length k < 32 \<Longrightarrow> length v < 256 \<Longrightarrow> entry_text (entry k v) = Some (k, v)"
  by (simp add: entry_text_def entry_def)

lemma entry_text_Some:
  "entry_text c = Some (k, v) \<longleftrightarrow> cstr (conf_key c) = Some k \<and> cstr (conf_value c) = Some v"
  by (auto simp: entry_text_def bind_eq_Some_conv)

lemma holds_length: "holds conf kvs \<Longrightarrow> length kvs \<le> length conf"
proof -
  assume "holds conf kvs"
  then have "length (map entry_text (take (length kvs) conf)) = length (map Some kvs)" by (simp add: holds_def)
  then show ?thesis by simp
qed

lemma holds_nth: "holds conf kvs \<longleftrightarrow> length kvs \<le> length conf \<and> (\<forall>i < length kvs. entry_text (conf ! i) = Some (kvs ! i))"
  using holds_length [of conf kvs] by (auto simp: holds_def list_eq_iff_nth_eq)

lemma sized_update: "sized conf \<Longrightarrow> length k \<le> 32 \<Longrightarrow> length v \<le> 256 \<Longrightarrow> sized (conf[i := entry k v])"
  by (auto simp: sized_def entry_def dest!: set_update_subset_insert [THEN subsetD])

lemma put_key_Some:
  "sized conf \<Longrightarrow> i < length conf \<Longrightarrow> length k \<le> 32 \<Longrightarrow>
     put_key conf i k = Some (conf[i := (conf ! i)\<lparr>conf_key := k @ zeros (32 - length k)\<rparr>])"
  by (simp add: put_key_def idx_def upd_def sized_def strncpy_full)

lemma put_value_Some:
  "sized conf \<Longrightarrow> i < length conf \<Longrightarrow> length v \<le> 256 \<Longrightarrow>
     put_value conf i v = Some (conf[i := (conf ! i)\<lparr>conf_value := v @ zeros (256 - length v)\<rparr>])"
  by (simp add: put_value_def idx_def upd_def sized_def strncpy_full)

lemma put_both:
  assumes "sized conf" and "i < length conf" and "length k \<le> 32" and "length v \<le> 256"
  shows "put_key conf i k \<bind> (\<lambda>conf. put_value conf i v \<bind> f) = f (conf[i := entry k v])"
proof -
  define c where "c = conf[i := (conf ! i)\<lparr>conf_key := k @ zeros (32 - length k)\<rparr>]"
  have "sized c" using assms(1-3) by (auto simp: sized_def c_def dest!: set_update_subset_insert [THEN subsetD])
  then have "put_value c i v = Some (conf[i := entry k v])"
    using assms(2,4) put_value_Some [of c i v] by (cases "conf ! i") (simp add: c_def entry_def)
  then show ?thesis using assms by (simp add: put_key_Some c_def)
qed

section \<open>Looking up and setting\<close>

lemma find_key_spec:
  assumes "\<forall>j < n. \<exists>c. idx conf (i + j) = Some c \<and> entry_text c = Some (kvs ! j)" and "length kvs = n"
  shows "(find_key conf key i n = Some None \<and> map_of kvs key = None) \<or>
    (\<exists>j < n. find_key conf key i n = Some (Some (i + j)) \<and> fst (kvs ! j) = key \<and> map_of kvs key = Some (snd (kvs ! j)) \<and>
       (\<forall>l < j. fst (kvs ! l) \<noteq> key))"
  using assms
proof (induction n arbitrary: i kvs)
  case (Suc n)
  obtain k v kvs' where kvs: "kvs = (k, v) # kvs'" and len: "length kvs' = n" using Suc.prems(2) by (cases kvs) auto
  obtain c where c: "idx conf i = Some c" "cstr (conf_key c) = Some k"
    using Suc.prems(1) kvs by (fastforce simp: entry_text_Some)
  show ?case
  proof (cases "k = key")
    case True
    then show ?thesis using c kvs by (intro disjI2 exI [of _ 0]) simp
  next
    case False
    have nxt: "\<forall>j < n. \<exists>c. idx conf (i + 1 + j) = Some c \<and> entry_text c = Some (kvs' ! j)"
    proof (intro allI impI)
      fix j assume "j < n"
      then show "\<exists>c. idx conf (i + 1 + j) = Some c \<and> entry_text c = Some (kvs' ! j)"
        using Suc.prems(1) [rule_format, of "Suc j"] kvs by simp
    qed
    consider "find_key conf key (i + 1) n = Some None" "map_of kvs' key = None"
      | j where "j < n" "find_key conf key (i + 1) n = Some (Some (i + 1 + j))" "fst (kvs' ! j) = key"
        "map_of kvs' key = Some (snd (kvs' ! j))" "\<forall>l < j. fst (kvs' ! l) \<noteq> key"
      using Suc.IH [OF nxt len] by auto
    then show ?thesis
    proof cases
      case 1
      then show ?thesis using c kvs False by simp
    next
      case 2
      have "\<forall>l < Suc j. fst (kvs ! l) \<noteq> key" using 2(5) kvs False by (simp add: All_less_Suc2)
      then show ?thesis using 2 c kvs False by (intro disjI2 exI [of _ "Suc j"]) simp
    qed
  qed
qed simp

lemma find_key_holds:
  assumes "holds conf kvs"
  shows "(find_key conf key 0 (length kvs) = Some None \<and> map_of kvs key = None) \<or>
    (\<exists>j < length kvs. find_key conf key 0 (length kvs) = Some (Some j) \<and> fst (kvs ! j) = key \<and>
       map_of kvs key = Some (snd (kvs ! j)) \<and> (\<forall>l < j. fst (kvs ! l) \<noteq> key))"
  using find_key_spec [of "length kvs" conf 0 kvs key] assms by (simp add: holds_nth idx_def)

lemma update_first:
  "j < length kvs \<Longrightarrow> fst (kvs ! j) = k \<Longrightarrow> \<forall>l < j. fst (kvs ! l) \<noteq> k \<Longrightarrow> AList.update k v kvs = kvs[j := (k, v)]"
proof (induction kvs arbitrary: j)
  case (Cons p kvs)
  then show ?case by (cases p; cases j) (auto simp: All_less_Suc2)
qed simp

lemma update_new: "map_of kvs k = None \<Longrightarrow> AList.update k v kvs = kvs @ [(k, v)]"
  by (induction kvs) auto

text \<open>C16: The array is an association list: \<open>cm_config_value\<close> finds the first entry of a key as \<open>map_of\<close>
  does, and \<open>cm_config_set_value\<close> replaces that entry's value or appends the pair, returning its index;
  no other entry changes, and no more than one entry is added.\<close>

theorem cm_config_refines_alist:
  assumes "holds conf kvs" and "sized conf" and "length kvs < length conf" and "NUL \<notin> set k" and "NUL \<notin> set v"
    and "length k < 32" and "length v < 256"
  shows "\<exists>r i conf'. cm_config_value conf (int (length kvs)) key = Some r \<and>
      map_option (\<lambda>i. snd (kvs ! i)) r = map_of kvs key \<and>
      cm_config_set_value conf (int (length kvs)) k v = Some (int i, conf') \<and>
      holds conf' (AList.update k v kvs) \<and> sized conf' \<and> length conf' = length conf \<and>
      AList.update k v kvs ! i = (k, v) \<and> drop (length kvs + 1) conf' = drop (length kvs + 1) conf"
proof -
  obtain r where r: "cm_config_value conf (int (length kvs)) key = Some r" "map_option (\<lambda>i. snd (kvs ! i)) r = map_of kvs key"
    using find_key_holds [OF assms(1), of key] by (auto simp: cm_config_value_def)
  have new: "entry_text (entry k v) = Some (k, v)" using assms(4-7) by (rule entry_text_entry)
  have "\<exists>i conf'. cm_config_set_value conf (int (length kvs)) k v = Some (int i, conf') \<and>
      holds conf' (AList.update k v kvs) \<and> sized conf' \<and> length conf' = length conf \<and>
      AList.update k v kvs ! i = (k, v) \<and> drop (length kvs + 1) conf' = drop (length kvs + 1) conf"
  proof (cases "map_of kvs k")
    case None
    then have "find_key conf k 0 (length kvs) = Some None" using find_key_holds [OF assms(1), of k] by auto
    then have "cm_config_set_value conf (int (length kvs)) k v = Some (int (length kvs), conf[length kvs := entry k v])"
      using assms(2,3,6,7) put_both [of conf "length kvs" k v] by (simp add: cm_config_set_value_def)
    moreover have "holds (conf[length kvs := entry k v]) (kvs @ [(k, v)])"
      using assms(1,3) new by (auto simp: holds_nth nth_append less_Suc_eq)
    ultimately show ?thesis using update_new [OF None, of v] sized_update [OF assms(2)] assms(6,7)
      by (intro exI [of _ "length kvs"] exI [of _ "conf[length kvs := entry k v]"]) simp
  next
    case (Some v0)
    then obtain j where j: "j < length kvs" "find_key conf k 0 (length kvs) = Some (Some j)" "fst (kvs ! j) = k"
      "\<forall>l < j. fst (kvs ! l) \<noteq> k" using find_key_holds [OF assms(1), of k] by auto
    define c where "c = (conf ! j)\<lparr>conf_value := v @ zeros (256 - length v)\<rparr>"
    have set: "cm_config_set_value conf (int (length kvs)) k v = Some (int j, conf[j := c])"
      using put_value_Some [OF assms(2), of j v] j(1,2) assms(3,7) by (simp add: cm_config_set_value_def c_def)
    have "entry_text (conf ! j) = Some (kvs ! j)" using assms(1) j(1) by (simp add: holds_nth)
    then have "entry_text (conf ! j) = Some (k, snd (kvs ! j))" using j(3) by (cases "kvs ! j") simp
    then have "entry_text c = Some (k, v)" using assms(5,7) by (simp add: entry_text_Some c_def)
    then have "holds (conf[j := c]) (kvs[j := (k, v)])" using assms(1) j(1) by (auto simp: holds_nth nth_list_update)
    moreover have "sized (conf[j := c])"
      using assms(2,3,7) j(1) by (auto simp: sized_def c_def dest!: set_update_subset_insert [THEN subsetD])
    ultimately show ?thesis using set j update_first [of j kvs k v]
      by (intro exI [of _ j] exI [of _ "conf[j := c]"]) simp
  qed
  then show ?thesis using r by blast
qed

section \<open>Writing and reading back\<close>

definition line_of :: "string \<times> string \<Rightarrow> string" where
  "line_of kv = fst kv @ ''='' @ snd kv @ [LF]"

text \<open>Pairs that survive: a key without separator, newline or leading \<open>#\<close>, a value without white space, both
  nonempty, and a line that fits the buffer of the reader.\<close>

definition writable :: "string \<times> string \<Rightarrow> bool" where
  "writable kv = (fst kv \<noteq> [] \<and> hd (fst kv) \<noteq> CHR ''#'' \<and> CHR ''='' \<notin> set (fst kv) \<and> LF \<notin> set (fst kv) \<and>
     length (fst kv) < 32 \<and> snd kv \<noteq> [] \<and> (\<forall>c \<in> set (snd kv). \<not> is_space c) \<and>
     length (fst kv) + length (snd kv) + 2 \<le> 127)"

lemma write_loop_lines:
  assumes "sized conf" and "holds conf kvs" and "i + n = length kvs" and "length line = 512"
  shows "write_loop line conf i n = Some (concat (map line_of (drop i kvs)))"
  using assms(3,4)
proof (induction n arbitrary: i line)
  case (Suc n)
  have i: "i < length kvs" "i < length conf" using Suc.prems(1) holds_length [OF assms(2)] by simp_all
  obtain k v where kv: "kvs ! i = (k, v)" by (cases "kvs ! i")
  then have tx: "cstr (conf_key (conf ! i)) = Some k" "cstr (conf_value (conf ! i)) = Some v"
    using assms(2) i by (auto simp: holds_nth entry_text_Some)
  have "conf ! i \<in> set conf" using i by simp
  then have "length k < 32" "length v < 256"
    using cstr_length [OF tx(1)] cstr_length [OF tx(2)] assms(1) by (auto simp: sized_def)
  then have fits: "length (k @ ''='' @ v @ [LF]) < length line" using Suc.prems(2) by simp
  obtain line' where l: "sprintf_to line (k @ ''='' @ v @ [LF]) = Some line'" using sprintf_to_Some [OF fits] by blast
  have "NUL \<notin> set (k @ ''='' @ v @ [LF])"
    using cstr_no_NUL [OF tx(1)] cstr_no_NUL [OF tx(2)] by (simp add: NUL_def LF_def)
  then have "cstr line' = Some (line_of (k, v))" "length line' = 512"
    using sprintf_to_cstr [OF l] Suc.prems(2) by (simp_all add: line_of_def)
  moreover have "drop i kvs = (k, v) # drop (i + 1) kvs" using Cons_nth_drop_Suc [OF i(1)] kv by simp
  ultimately show ?case
    using Suc.IH [of "i + 1" line'] Suc.prems(1) i tx l by (simp add: idx_def)
qed simp

lemma fgets_line:
  assumes "LF \<notin> set l" and "length l < 127"
  shows "fgets 128 (l @ LF # rest) = Some (l @ [LF], rest)"
proof -
  have t: "take 127 (l @ LF # rest) = l @ LF # take (126 - length l) rest"
    using assms(2) by (simp add: take_Cons' )
  have "takeWhile (\<lambda>c. c \<noteq> LF) (l @ LF # take (126 - length l) rest) = l"
    by (rule takeWhile_append_stop) (use assms(1) in auto)
  moreover have "take (Suc (length l)) (l @ LF # rest) = l @ [LF]" "drop (Suc (length l)) (l @ LF # rest) = rest" by simp_all
  ultimately show ?thesis by (simp add: fgets_def Let_def t del: take_append)
qed

lemma read_line:
  assumes "writable (k, v)" and "NUL \<notin> set k" and "NUL \<notin> set v" and "int i \<le> mx"
  shows "read_loop (line_of (k, v) @ rest) conf i mx =
    do { conf \<leftarrow> put_key conf i k; conf \<leftarrow> put_value conf i v; read_loop rest conf (i + 1) mx }"
proof -
  have w: "k \<noteq> []" "hd k \<noteq> CHR ''#''" "\<forall>c \<in> set k. c \<noteq> CHR ''=''" "LF \<notin> set k" "length k < 32" "v \<noteq> []"
    "\<forall>c \<in> set v. \<not> is_space c" "length k + length v + 2 \<le> 127"
    using assms(1) by (auto simp: writable_def)
  have sp: "is_space LF" by (simp add: is_space_def LF_def)
  then have "LF \<notin> set (k @ ''='' @ v)" using w(4,7) by (auto simp: LF_def)
  then have line: "fgets 128 (line_of (k, v) @ rest) = Some ((k @ ''='' @ v) @ [LF], rest)"
    using fgets_line [of "k @ ''='' @ v" rest] w(8) by (simp add: line_of_def)
  have s: "takeWhile (\<lambda>c. c \<noteq> NUL) ((k @ ''='' @ v) @ [LF]) = (k @ ''='' @ v) @ [LF]"
    using assms(2,3) by (auto simp: takeWhile_eq_all_conv NUL_def LF_def)
  have "dropWhile is_space (v @ [LF]) = v @ [LF]" using w(6,7) by (cases v) auto
  moreover have "takeWhile (\<lambda>c. \<not> is_space c) (v @ [LF]) = v" by (rule takeWhile_append_stop) (use w(7) sp in auto)
  moreover have "takeWhile (\<lambda>c. c \<noteq> CHR ''='') (k @ ''='' @ v @ [LF]) = k"
    using takeWhile_append_stop [of k "\<lambda>c. c \<noteq> CHR ''=''"] w(3) by simp
  moreover have "dropWhile (\<lambda>c. c \<noteq> CHR ''='') (k @ ''='' @ v @ [LF]) = CHR ''='' # v @ [LF]"
    using dropWhile_append_stop [of k "\<lambda>c. c \<noteq> CHR ''=''"] w(3) by simp
  moreover have "sprintf_to (zeros 32) k = Some (k @ NUL # zeros (31 - length k))"
    "sprintf_to (zeros 256) v = Some (v @ NUL # zeros (255 - length v))"
    using w(5,8) by (simp_all add: sprintf_to_Some zeros_def)
  ultimately have scan: "sscanf_pair ((k @ ''='' @ v) @ [LF]) (zeros 32) (zeros 256) =
      Some (2, k @ NUL # zeros (31 - length k), v @ NUL # zeros (255 - length v))"
    using w(1,6) by (simp add: sscanf_pair_def Let_def)
  have hd: "hd ((k @ ''='' @ v) @ [LF]) \<noteq> CHR ''#''" using w(1,2) by simp
  show ?thesis
    using w(5,8) assms(2-4) hd
    by (subst read_loop.simps) (simp add: line s [simplified] scan [simplified] Let_def)
qed

lemma read_lines:
  assumes "\<forall>kv \<in> set kvs. writable kv \<and> NUL \<notin> set (fst kv) \<and> NUL \<notin> set (snd kv)" and "sized conf"
    and "i + length kvs \<le> length conf" and "int (i + length kvs) \<le> mx"
  shows "read_loop (concat (map line_of kvs) @ rest) conf i mx =
    read_loop rest (take i conf @ map (\<lambda>(k, v). entry k v) kvs @ drop (i + length kvs) conf) (i + length kvs) mx"
  using assms
proof (induction kvs arbitrary: i conf)
  case (Cons kv kvs)
  obtain k v where kv: "kv = (k, v)" by (cases kv)
  have fit: "length k \<le> 32" "length v \<le> 256" using Cons.prems(1) by (auto simp: kv writable_def)
  have "read_loop (concat (map line_of (kv # kvs)) @ rest) conf i mx =
      read_loop (concat (map line_of kvs) @ rest) (conf[i := entry k v]) (i + 1) mx"
    using read_line [of k v i mx "concat (map line_of kvs) @ rest" conf] put_both [of conf i k v] Cons.prems fit by (simp add: kv)
  also have "\<dots> = read_loop rest (take (i + 1) (conf[i := entry k v]) @ map (\<lambda>(k, v). entry k v) kvs @
      drop (i + 1 + length kvs) (conf[i := entry k v])) (i + 1 + length kvs) mx"
    by (rule Cons.IH) (use Cons.prems sized_update [OF Cons.prems(2) fit] in auto)
  also have "take (i + 1) (conf[i := entry k v]) = take i conf @ [entry k v]"
    using Cons.prems(3) by (simp add: take_Suc_conv_app_nth)
  finally show ?case by (simp add: kv)
qed simp

lemma read_end: "read_loop [] conf i mx = Some (int i, conf)"
  by (simp add: read_loop.simps fgets_def)

text \<open>The header: a comment line and, because \<open>ctime\<close> ends in a newline too, an empty one.\<close>

definition header :: "string \<Rightarrow> string" where
  "header t = ''# Generated by program. @ '' @ t @ [LF, LF]"

lemma read_first_line:
  assumes "LF \<notin> set t" and "length t \<le> 100" and "0 \<le> mx"
  shows "read_loop (header t @ rest) conf 0 mx = read_loop rest conf 0 mx"
proof -
  have "LF \<notin> set (''# Generated by program. @ '' @ t)" using assms(1) by (simp add: LF_def)
  then have one: "fgets 128 (header t @ rest) = Some ((''# Generated by program. @ '' @ t) @ [LF], [LF] @ rest)"
    using fgets_line [of "''# Generated by program. @ '' @ t" "[LF] @ rest"] assms(2) by (simp add: header_def)
  have two: "fgets 128 (LF # rest) = Some ([LF], rest)" using fgets_line [of "[]" rest] by simp
  have nn: "LF \<noteq> NUL" "LF \<noteq> CHR ''#''" by (simp_all add: LF_def NUL_def)
  have "sscanf_pair [LF] (zeros 32) (zeros 256) = Some (1, LF # NUL # zeros 30, zeros 256)"
    by (simp add: sscanf_pair_def LF_def sprintf_to_Some zeros_def)
  then have "read_loop (LF # rest) conf 0 mx = read_loop rest conf 0 mx"
    using assms(3) nn by (subst read_loop.simps) (simp add: two)
  then show ?thesis using assms(3) by (subst read_loop.simps) (simp add: one NUL_def)
qed

lemma written_file:
  assumes "sized conf" and "holds conf kvs" and "NUL \<notin> set t" and "length t \<le> 100"
  shows "cm_config_write True (t @ [LF]) conf (int (length kvs)) = Some (0, Some (header t @ concat (map line_of kvs)))"
proof -
  obtain line where line: "sprintf_to (zeros 512) (header t) = Some line"
    using sprintf_to_Some [of "header t" "zeros 512"] assms(4) by (auto simp: header_def)
  have "NUL \<notin> set (header t)" using assms(3) by (simp add: header_def NUL_def LF_def)
  then have "cstr line = Some (header t)" "length line = 512" using sprintf_to_cstr [OF line] by simp_all
  then show ?thesis using write_loop_lines [OF assms(1,2), of 0 "length kvs" line] line
    by (simp add: cm_config_write_def header_def)
qed

text \<open>C17: A configuration that is written with \<open>cm_config_write\<close> and read with \<open>cm_config_read\<close> into an array with
  room for it comes back: the same number of pairs, the same keys and values in the same order; the header is
  skipped and the entries behind the pairs are not touched. It needs keys and values that survive the line
  format.\<close>

theorem cm_config_write_read:
  assumes "sized conf" and "holds conf kvs" and "\<forall>kv \<in> set kvs. writable kv" and "LF \<notin> set t" and "NUL \<notin> set t"
    and "length t \<le> 100" and "sized conf0" and "length kvs \<le> length conf0" and "int (length kvs) \<le> mx"
  shows "\<exists>f conf1. cm_config_write True (t @ [LF]) conf (int (length kvs)) = Some (0, Some f) \<and>
    cm_config_read (Some f) conf0 mx = Some (int (length kvs), conf1) \<and> holds conf1 kvs \<and>
    length conf1 = length conf0 \<and> drop (length kvs) conf1 = drop (length kvs) conf0"
proof -
  have nul: "NUL \<notin> set (fst kv) \<and> NUL \<notin> set (snd kv)" if kv: "kv \<in> set kvs" for kv
  proof -
    obtain i where "i < length kvs" "kv = kvs ! i" using kv by (metis in_set_conv_nth)
    then have "entry_text (conf ! i) = Some (fst kv, snd kv)" using assms(2) by (simp add: holds_nth)
    then show ?thesis using entry_text_Some [of "conf ! i" "fst kv" "snd kv"] by (auto dest: cstr_no_NUL)
  qed
  define conf1 where "conf1 = map (\<lambda>(k, v). entry k v) kvs @ drop (length kvs) conf0"
  have "read_loop (concat (map line_of kvs)) conf0 0 mx = Some (int (length kvs), conf1)"
    using read_lines [of kvs conf0 0 mx "[]"] assms(3,7-9) nul by (simp add: conf1_def read_end)
  then have "cm_config_read (Some (header t @ concat (map line_of kvs))) conf0 mx = Some (int (length kvs), conf1)"
    using read_first_line [OF assms(4,6)] assms(9) by (simp add: cm_config_read_def)
  moreover have "holds conf1 kvs"
  proof -
    have "entry_text (entry (fst kv) (snd kv)) = Some kv" if kv: "kv \<in> set kvs" for kv
    proof -
      have "length (fst kv) < 32" "length (snd kv) < 256" using assms(3) kv by (auto simp: writable_def)
      then show ?thesis using entry_text_entry [of "fst kv" "snd kv"] nul [OF kv] by simp
    qed
    then show ?thesis by (auto simp: holds_def conf1_def case_prod_unfold)
  qed
  moreover have "length conf1 = length conf0" "drop (length kvs) conf1 = drop (length kvs) conf0"
    using assms(8) by (simp_all add: conf1_def)
  ultimately show ?thesis using written_file [OF assms(1,2,5,6)] by blast
qed

section \<open>Where reading goes wrong\<close>

text \<open>\<open>cm_config_read\<close> can write outside its memory. The loop stops only when the index exceeds \<open>max\<close>, so a
  file with one pair more than the array has entries is stored behind its end; and a line with 32 or more
  characters before its first separator overruns the key.\<close>

theorem cm_config_read_overruns:
  assumes "\<forall>kv \<in> set kvs. writable kv \<and> NUL \<notin> set (fst kv) \<and> NUL \<notin> set (snd kv)" and "writable (k, v)"
    and "NUL \<notin> set k" and "NUL \<notin> set v" and "sized conf" and "length conf = length kvs"
    and "LF \<notin> set l" and "CHR ''='' \<notin> set l" and "NUL \<notin> set l" and "32 \<le> length l" and "length l < 127" and "hd l \<noteq> CHR ''#''"
    and "0 \<le> mx"
  shows "cm_config_read (Some (concat (map line_of kvs) @ line_of (k, v))) conf (int (length conf)) = None \<and>
    cm_config_read (Some (l @ [LF])) conf mx = None"
proof
  show "cm_config_read (Some (l @ [LF])) conf mx = None"
  proof -
    have ne: "l \<noteq> []" using assms(10) by auto
    have "takeWhile (\<lambda>c. c \<noteq> CHR ''='') (l @ [LF]) = l @ [LF]" "takeWhile (\<lambda>c. c \<noteq> NUL) (l @ [LF]) = l @ [LF]"
      using assms(8,9) by (auto simp: takeWhile_eq_all_conv LF_def NUL_def)
    moreover have "sprintf_to (zeros 32) (l @ [LF]) = None" using assms(10) by (simp add: sprintf_to_None)
    ultimately show ?thesis
      using fgets_line [OF assms(7,11), of "[]"] assms(12,13) ne
      by (simp add: cm_config_read_def read_loop.simps [of "l @ [LF]"] sscanf_pair_def Let_def)
  qed
  define conf' where "conf' = map (\<lambda>(k, v). entry k v) kvs"
  have "read_loop (concat (map line_of kvs) @ line_of (k, v)) conf 0 (int (length conf)) =
      read_loop (line_of (k, v)) conf' (length conf') (int (length conf))"
    using read_lines [of kvs conf 0 "int (length conf)" "line_of (k, v)"] assms(1,5,6) by (simp add: conf'_def)
  also have "\<dots> = None"
    using read_line [OF assms(2-4), of "length conf'" "int (length conf)" "[]" conf'] assms(6)
    by (simp add: put_key_def idx_def conf'_def)
  finally show "cm_config_read (Some (concat (map line_of kvs) @ line_of (k, v))) conf (int (length conf)) = None"
    by (simp add: cm_config_read_def)
qed

text \<open>The raw variants: what was written is read, as far as the buffer of the reader is asked to go.\<close>

lemma cm_config_buf_roundtrip:
  assumes "length d \<le> length buf" and "n \<le> m" and "n \<le> length buf2" and "length d = n" and "m < 2 ^ 31"
  shows "\<exists>f. cm_config_write_buf True (d @ rest) (int n) = Some (int n, Some f) \<and>
    cm_config_read_buf (Some f) buf2 (int m) = Some (int n, d @ drop n buf2)"
  using assms by (simp add: cm_config_write_buf_def cm_config_read_buf_def mem_read_def mem_write_def)

section \<open>Examples\<close>

definition demo_conf :: "CMConfig list" where
  "demo_conf = [entry ''mac'' ''001122'', entry ''volume'' ''70'', entry [] []]"

definition demo_kvs :: "(string \<times> string) list" where
  "demo_kvs = [(''mac'', ''001122''), (''volume'', ''70'')]"

lemma demo_sized: "sized demo_conf" "length demo_conf = 3"
  by (simp_all add: demo_conf_def sized_def entry_def)

lemma demo_holds: "holds demo_conf demo_kvs" "length demo_kvs = 2"
  by (simp_all add: holds_def demo_conf_def demo_kvs_def entry_text_entry NUL_def)

lemma demo_writable: "writable (''mac'', ''001122'')" "writable (''volume'', ''70'')"
  by (simp_all add: writable_def LF_def is_space_def)

theorem cm_config_refines_alist_witness:
  "\<exists>r i conf'. cm_config_value demo_conf (int (length demo_kvs)) ''volume'' = Some r \<and>
      map_option (\<lambda>i. snd (demo_kvs ! i)) r = map_of demo_kvs ''volume'' \<and>
      cm_config_set_value demo_conf (int (length demo_kvs)) ''volume'' ''55'' = Some (int i, conf') \<and>
      holds conf' (AList.update ''volume'' ''55'' demo_kvs) \<and> sized conf' \<and> length conf' = length demo_conf \<and>
      AList.update ''volume'' ''55'' demo_kvs ! i = (''volume'', ''55'') \<and>
      drop (length demo_kvs + 1) conf' = drop (length demo_kvs + 1) demo_conf"
  by (rule cm_config_refines_alist [OF demo_holds(1) demo_sized(1)])
    (simp_all add: demo_sized demo_holds NUL_def)

theorem cm_config_write_read_witness:
  "\<exists>f conf1. cm_config_write True (''Wed May 23 10:00:00 2018'' @ [LF]) demo_conf (int (length demo_kvs)) = Some (0, Some f) \<and>
    cm_config_read (Some f) demo_conf 64 = Some (int (length demo_kvs), conf1) \<and> holds conf1 demo_kvs \<and>
    length conf1 = length demo_conf \<and> drop (length demo_kvs) conf1 = drop (length demo_kvs) demo_conf"
  by (rule cm_config_write_read [OF demo_sized(1) demo_holds(1)])
    (use demo_writable in \<open>simp_all add: demo_sized demo_holds demo_kvs_def NUL_def LF_def\<close>)

theorem cm_config_read_overruns_witness:
  "cm_config_read (Some (concat (map line_of [(''mac'', ''001122'')]) @ line_of (''volume'', ''70''))) [entry [] []] (int (length [entry [] []])) = None \<and>
    cm_config_read (Some (replicate 32 (CHR ''k'') @ [LF])) [entry [] []] 4 = None"
  by (rule cm_config_read_overruns)
    (use demo_writable in \<open>simp_all add: sized_def entry_def NUL_def LF_def\<close>)

end
