(* ===== verification/ConnTcp.thy ===== *)
theory ConnTcp
  imports Prelude
begin

text \<open>
  Sending and receiving on a connection, as in src/common/cm_conn_tcp.c. The network is what the
  system calls report: for receiving a list of arrivals, each of them what one \<open>select\<close> finds (bytes,
  nothing within the time limit, or an error); no arrival left means that the peer has closed. For
  sending it is how many bytes a call of \<open>send\<close> takes. Creating and connecting sockets is left out.
\<close>

datatype arrival = Chunk "u8 list" | Timeout | Broken

record CMConnTCP =
  incoming :: "arrival list"
  outgoing :: "u8 list"
  conn_status :: int

text \<open>\<open>cm_conn_tcp_recv_simple\<close>: the result, the bytes stored, the connection. What a chunk holds beyond the
  length asked for stays for the next call. A readable socket that gives no bytes counts as closed.\<close>

definition cm_conn_tcp_recv_simple :: "CMConnTCP \<Rightarrow> nat \<Rightarrow> int \<times> u8 list \<times> CMConnTCP" where
  "cm_conn_tcp_recv_simple conn len =
     (case incoming conn of
        [] \<Rightarrow> (- 1, [], conn\<lparr>conn_status := 0\<rparr>)
      | Timeout # r \<Rightarrow> (0, [], conn\<lparr>incoming := r\<rparr>)
      | Broken # r \<Rightarrow> (- 1, [], conn\<lparr>incoming := r\<rparr>)
      | Chunk d # r \<Rightarrow>
          let got = take len d; conn' = conn\<lparr>incoming := (if len < length d then Chunk (drop len d) # r else r)\<rparr> in
          if got = [] then (- 1, [], conn'\<lparr>conn_status := 0\<rparr>) else (int (length got), got, conn'))"

text \<open>The loop of \<open>cm_conn_tcp_send\<close>; \<open>accepts i n\<close> is the result of the \<open>i\<close>th call of \<open>send\<close>, for \<open>n\<close> bytes.
  The chunk size only shrinks. The loop does not end while \<open>send\<close> takes nothing.\<close>

partial_function (option) send_loop ::
  "(nat \<Rightarrow> nat \<Rightarrow> int) \<Rightarrow> nat \<Rightarrow> CMConnTCP \<Rightarrow> u8 list \<Rightarrow> int \<Rightarrow> int \<Rightarrow> int \<Rightarrow> (int \<times> CMConnTCP) option" where
  "send_loop accepts i conn data sendlen remain sendval =
     (let sendval = (if remain < sendval then remain else sendval);
          out = accepts i (nat sendval) in
      if out < 0 then Some (out, conn)
      else do {
        d \<leftarrow> mem_read data (nat sendlen) (nat out);
        let conn = conn\<lparr>outgoing := outgoing conn @ d\<rparr>;
        if remain - out > 0 then send_loop accepts (i + 1) conn data (sendlen + out) (remain - out) sendval
        else Some (sendlen + out, conn)
      })"

definition cm_conn_tcp_send :: "(nat \<Rightarrow> nat \<Rightarrow> int) \<Rightarrow> CMConnTCP option \<Rightarrow> u8 list option \<Rightarrow> int \<Rightarrow> (int \<times> CMConnTCP option) option" where
  "cm_conn_tcp_send accepts conn data len = (case (conn, data) of
     (Some c, Some d) \<Rightarrow>
        if len \<le> 0 then Some (- 111, conn)
        else do { (n, c) \<leftarrow> send_loop accepts 0 c d 0 len 20480; Some (n, Some c) }
   | _ \<Rightarrow> Some (- 111, conn))"

text \<open>\<open>cm_conn_tcp_send_simple\<close> calls \<open>send\<close> once.\<close>

definition cm_conn_tcp_send_simple :: "(nat \<Rightarrow> int) \<Rightarrow> CMConnTCP \<Rightarrow> u8 list \<Rightarrow> int \<Rightarrow> (int \<times> CMConnTCP) option" where
  "cm_conn_tcp_send_simple accepts conn data len = do {
     let out = accepts (nat (len mod 2 ^ 64));
     if out < 0 then Some (out, conn)
     else do { d \<leftarrow> mem_read data 0 (nat out); Some (out, conn\<lparr>outgoing := outgoing conn @ d\<rparr>) }
   }"

definition cm_conn_tcp_get_status :: "CMConnTCP option \<Rightarrow> int" where
  "cm_conn_tcp_get_status conn = (case conn of None \<Rightarrow> - 1 | Some c \<Rightarrow> conn_status c)"

text \<open>\<open>recv(sockfd, data, len, MSG_DONTWAIT)\<close>: an empty chunk stands for the result 0, \<open>Timeout\<close> for \<open>EAGAIN\<close>.\<close>

definition recv_dontwait :: "CMConnTCP \<Rightarrow> nat \<Rightarrow> arrival \<times> CMConnTCP" where
  "recv_dontwait conn len =
     (case incoming conn of
        [] \<Rightarrow> (Chunk [], conn)
      | Chunk d # r \<Rightarrow> (Chunk (take len d), conn\<lparr>incoming := (if len < length d then Chunk (drop len d) # r else r)\<rparr>)
      | a # r \<Rightarrow> (a, conn\<lparr>incoming := r\<rparr>))"

text \<open>The loop of \<open>cm_conn_tcp_recv\<close>: \<open>continue\<close> goes to the condition at the end. The buffer of the caller is
  not asked for its size.\<close>

partial_function (option) tcp_recv_loop ::
  "CMConnTCP \<Rightarrow> u8 list \<Rightarrow> int \<Rightarrow> int \<Rightarrow> nat \<Rightarrow> bool \<Rightarrow> (int \<times> u8 list \<times> int \<times> CMConnTCP) option" where
  "tcp_recv_loop conn recvData recvLen containLen recv_counts bCycle =
     (case recv_dontwait conn 10240 of
        (Broken, conn) \<Rightarrow>
          if recv_counts > 50 then Some (0, recvData, recvLen, conn)
          else Some (- 2, recvData, recvLen, conn\<lparr>conn_status := 0\<rparr>)
      | (Timeout, conn) \<Rightarrow>
          if recv_counts > 50 \<or> \<not> bCycle then Some (0, recvData, recvLen, conn)
          else tcp_recv_loop conn recvData recvLen containLen (recv_counts + 1) bCycle
      | (Chunk d, conn) \<Rightarrow>
          if d = [] then
            if recv_counts > 50 \<or> \<not> bCycle then Some (0, recvData, recvLen, conn)
            else tcp_recv_loop conn recvData recvLen containLen (recv_counts + 1) bCycle
          else do {
            recvData \<leftarrow> mem_write recvData (nat recvLen) d;
            let recvLen = recvLen + int (length d);
            if recvLen \<ge> containLen then Some (1, recvData, recvLen, conn)
            else if bCycle then tcp_recv_loop conn recvData recvLen containLen recv_counts bCycle
            else Some (0, recvData, recvLen, conn)
          })"

definition cm_conn_tcp_recv :: "CMConnTCP \<Rightarrow> u8 list \<Rightarrow> int \<Rightarrow> bool \<Rightarrow> (int \<times> u8 list \<times> int \<times> CMConnTCP) option" where
  "cm_conn_tcp_recv conn recvData recvLen bCycle = tcp_recv_loop conn recvData 0 recvLen 0 bCycle"

section \<open>Everything is sent\<close>

text \<open>A sender that takes at least one byte and at most what it is given.\<close>

definition accepting :: "(nat \<Rightarrow> nat \<Rightarrow> int) \<Rightarrow> bool" where
  "accepting f = (\<forall>i n. 0 < n \<longrightarrow> 0 < f i n \<and> f i n \<le> int n)"

lemma send_loop_all:
  assumes "accepting f" and "0 < remain" and "0 < sendval" and "int (length data) = sendlen + remain" and "0 \<le> sendlen"
  shows "send_loop f i conn (data @ w) sendlen remain sendval =
    Some (sendlen + remain, conn\<lparr>outgoing := outgoing conn @ drop (nat sendlen) data\<rparr>)"
  using assms(2-5)
proof (induction "nat remain" arbitrary: i conn sendlen remain sendval rule: less_induct)
  case less
  define sv where "sv = (if remain < sendval then remain else sendval)"
  define out where "out = f i (nat sv)"
  have sv: "0 < sv" "sv \<le> remain" using less.prems by (auto simp: sv_def)
  have "0 < nat sv" using sv by simp
  then have "0 < out \<and> out \<le> int (nat sv)" using assms(1) unfolding accepting_def out_def by blast
  then have out: "0 < out" "out \<le> sv" using sv by auto
  define d where "d = take (nat out) (drop (nat sendlen) data)"
  have read: "mem_read (data @ w) (nat sendlen) (nat out) = Some d"
    using less.prems out sv by (simp add: mem_read_def d_def)
  have dr: "d @ drop (nat (sendlen + out)) data = drop (nat sendlen) data"
    using out less.prems append_take_drop_id [of "nat out" "drop (nat sendlen) data"]
    by (simp add: d_def nat_add_distrib add.commute)
  show ?case
  proof (cases "remain - out > 0")
    case True
    have "send_loop f (i + 1) (conn\<lparr>outgoing := outgoing conn @ d\<rparr>) (data @ w) (sendlen + out) (remain - out) sv =
        Some (sendlen + out + (remain - out),
          conn\<lparr>outgoing := outgoing conn @ d\<rparr>\<lparr>outgoing := outgoing (conn\<lparr>outgoing := outgoing conn @ d\<rparr>) @ drop (nat (sendlen + out)) data\<rparr>)"
      by (rule less.hyps) (use True less.prems sv out in auto)
    then show ?thesis using True out dr read
      by (subst send_loop.simps) (simp add: Let_def sv_def [symmetric] out_def [symmetric])
  next
    case False
    then have "out = remain" using out sv by simp
    moreover have "d = drop (nat sendlen) data" using dr less.prems calculation by simp
    ultimately show ?thesis using False out read
      by (subst send_loop.simps) (simp add: Let_def sv_def [symmetric] out_def [symmetric])
  qed
qed

lemma send_loop_prefix:
  assumes "accepting f" and "data \<noteq> []" and "0 < sendval"
  shows "send_loop f i conn (data @ w) 0 (int (length data)) sendval =
    Some (int (length data), conn\<lparr>outgoing := outgoing conn @ data\<rparr>)"
  using send_loop_all [OF assms(1), where sendlen = 0 and remain = "int (length data)" and data = data] assms(2,3) by simp

lemma cm_conn_tcp_send_all:
  assumes "accepting f" and "data \<noteq> []"
  shows "cm_conn_tcp_send f (Some conn) (Some data) (int (length data)) =
    Some (int (length data), Some (conn\<lparr>outgoing := outgoing conn @ data\<rparr>))"
  using send_loop_prefix [OF assms, where w = "[]" and sendval = 20480] assms(2) by (simp add: cm_conn_tcp_send_def)

end
