(* ===== verification/WebSocket.thy ===== *)
theory WebSocket
  imports CodeUtils ConnTcp
begin

text \<open>
  WebSocket frames: the header functions of src/common/cm_http.c and the client of
  src/common/cm_conn_ws.c. A received byte is a word of eight bits, a pointer into a frame an offset.
  \<open>fresh n\<close> is what a new block of \<open>n\<close> bytes holds, \<open>None\<close> when there is no memory; the code does not
  check that, so the model is undefined there. Log output is left out.
\<close>

section \<open>Frame headers\<close>

record CMWSFrameHeader =
  cFin :: u8
  cOpcode :: u8
  cMask :: u8
  ullPayloadLength :: u64
  cMasking_key :: "u8 list"
  pData :: "nat option"
  iHeaderLength :: int

definition ws_header_zero :: CMWSFrameHeader where
  "ws_header_zero = \<lparr>cFin = 0, cOpcode = 0, cMask = 0, ullPayloadLength = 0, cMasking_key = replicate 4 0,
     pData = None, iHeaderLength = 0\<rparr>"

fun invert_loop :: "u8 list \<Rightarrow> nat \<Rightarrow> nat \<Rightarrow> nat \<Rightarrow> u8 list option" where
  "invert_loop str len i 0 = Some str"
| "invert_loop str len i (Suc n) = do {
     temp \<leftarrow> idx str i;
     b \<leftarrow> idx str (len - i - 1);
     str \<leftarrow> upd str i b;
     str \<leftarrow> upd str (len - i - 1) temp;
     invert_loop str len (i + 1) n
   }"

definition cm_ws_invert_string :: "u8 list \<Rightarrow> int \<Rightarrow> u8 list option" where
  "cm_ws_invert_string str len = invert_loop str (nat len) 0 (nat len div 2)"

fun umask_loop :: "u8 list \<Rightarrow> u8 list \<Rightarrow> nat \<Rightarrow> nat \<Rightarrow> u8 list option" where
  "umask_loop data key i 0 = Some data"
| "umask_loop data key i (Suc n) = do {
     a \<leftarrow> idx data i;
     m \<leftarrow> idx key (i mod 4);
     data \<leftarrow> upd data i (a XOR m);
     umask_loop data key (i + 1) n
   }"

definition cm_ws_umask :: "u8 list \<Rightarrow> int \<Rightarrow> u8 list \<Rightarrow> u8 list option" where
  "cm_ws_umask data len key = umask_loop data key 0 (nat len)"

definition cm_ws_umask_string :: "u8 list \<Rightarrow> int \<Rightarrow> u8 list \<Rightarrow> u8 list option" where
  "cm_ws_umask_string data len key = umask_loop data key 0 (nat len)"

text \<open>The eight bytes of an \<open>unsigned long long\<close> in memory, and reading them.\<close>

definition ull_of_bytes :: "u8 list \<Rightarrow> u64" where
  "ull_of_bytes b = foldr (\<lambda>x w. ucast x OR push_bit 8 w) b 0"

definition cm_ws_generate_frame_head :: "(nat \<Rightarrow> u8 list option) \<Rightarrow> CMWSFrameHeader \<Rightarrow> (u8 list \<times> int) option" where
  "cm_ws_generate_frame_head fresh h = do {
     (head, n) \<leftarrow>
       (if ullPayloadLength h < 126 then do {
          p \<leftarrow> fresh 2;
          p \<leftarrow> upd p 0 0x81;
          p \<leftarrow> upd p 1 (ucast (ullPayloadLength h));
          Some (p, 2)
        }
        else if ullPayloadLength h < 0xFFFF then do {
          p \<leftarrow> fresh 4;
          p \<leftarrow> upd p 0 0x81;
          p \<leftarrow> upd p 1 126;
          p \<leftarrow> upd p 2 (ucast (drop_bit 8 (ullPayloadLength h) AND 0xFF));
          p \<leftarrow> upd p 3 (ucast (ullPayloadLength h AND 0xFF));
          Some (p, 4)
        }
        else do {
          p \<leftarrow> fresh 12;
          p \<leftarrow> upd p 0 0x81;
          p \<leftarrow> upd p 1 127;
          p \<leftarrow> mem_write p 2 (length_bytes_le (ullPayloadLength h));
          e \<leftarrow> cm_ws_invert_string (drop 2 p) 8;
          Some (take 2 p @ e, 12)
        });
     if cMask h \<noteq> 0 then do {
       b \<leftarrow> idx head 1;
       head \<leftarrow> upd head 1 (b OR 0x80);
       new \<leftarrow> fresh (n + 4);
       head \<leftarrow> mem_write new 0 head;
       key \<leftarrow> mem_read (cMasking_key h) 0 4;
       head \<leftarrow> mem_write head n key;
       Some (head, int n + 4)
     }
     else Some (head, int n)
   }"

definition cm_ws_parse_frame_header :: "u8 list \<Rightarrow> (int \<times> CMWSFrameHeader) option" where
  "cm_ws_parse_frame_header p = do {
     p0 \<leftarrow> idx p 0;
     p1 \<leftarrow> idx p 1;
     let h = ws_header_zero\<lparr>cFin := of_bool (p0 AND 0x80 = 0x80), cOpcode := p0 AND 0x0F,
       cMask := of_bool (p1 AND 0x80 = 0x80), ullPayloadLength := ucast (p1 AND 0x7F)\<rparr>;
     (h, head_len) \<leftarrow>
       (if ullPayloadLength h = 126 then do {
          p2 \<leftarrow> idx p 2;
          p3 \<leftarrow> idx p 3;
          Some (h\<lparr>ullPayloadLength := push_bit 8 (ucast p2) OR ucast p3\<rparr>, 4)
        }
        else if ullPayloadLength h = 127 then do {
          e \<leftarrow> mem_read p 4 8;
          e \<leftarrow> cm_ws_invert_string e 8;
          Some (h\<lparr>ullPayloadLength := ull_of_bytes e\<rparr>, 10)
        }
        else Some (h, 2));
     (h, head_len) \<leftarrow>
       (if cMask h \<noteq> 0 then do { key \<leftarrow> mem_read p 11 4; Some (h\<lparr>cMasking_key := key\<rparr>, head_len + 4) }
        else Some (h, head_len));
     Some (0, h\<lparr>pData := Some head_len, iHeaderLength := int head_len\<rparr>)
   }"


section \<open>The client\<close>

text \<open>\<open>cm_websocket_request_read\<close> takes a header from the connection, field by field. A field that arrives in
  part is used as it lies in the uninitialised array. The masking key is read and dropped.\<close>

definition read_length :: "CMConnTCP \<Rightarrow> CMWSFrameHeader \<Rightarrow> (int \<times> CMConnTCP \<times> CMWSFrameHeader) option" where
  "read_length conn h =
     (if ullPayloadLength h = 126 then do {
        let (n, e, conn) = cm_conn_tcp_recv_simple conn 2;
        if n \<le> 0 then Some (if n = 0 then 0 else - 3, conn, h)
        else do {
          e0 \<leftarrow> idx e 0;
          e1 \<leftarrow> idx e 1;
          Some (n, conn, h\<lparr>ullPayloadLength := push_bit 8 (ucast e0) OR ucast e1\<rparr>)
        }
      }
      else if ullPayloadLength h = 127 then do {
        let (n, e, conn) = cm_conn_tcp_recv_simple conn 8;
        if n \<le> 0 then Some (if n = 0 then 0 else - 4, conn, h)
        else do {
          e \<leftarrow> cm_ws_invert_string e 8;
          Some (n, conn, h\<lparr>ullPayloadLength := ull_of_bytes e\<rparr>)
        }
      }
      else Some (1, conn, h))"

definition read_mask :: "int \<Rightarrow> CMConnTCP \<Rightarrow> CMWSFrameHeader \<Rightarrow> int \<times> CMConnTCP \<times> CMWSFrameHeader" where
  "read_mask n conn h =
     (if cMask h \<noteq> 0 then
        let (n, d, conn) = cm_conn_tcp_recv_simple conn 4 in
        (if n \<le> 0 then if n = 0 then 0 else - 5 else n, conn, h)
      else (n, conn, h))"

definition cm_websocket_request_read :: "CMConnTCP \<Rightarrow> CMWSFrameHeader \<Rightarrow> (int \<times> CMConnTCP \<times> CMWSFrameHeader) option" where
  "cm_websocket_request_read conn h = do {
     let (n, p, conn) = cm_conn_tcp_recv_simple conn 1;
     if n \<le> 0 then Some (if n = 0 then 0 else - 1, conn, h)
     else do {
       p0 \<leftarrow> idx p 0;
       let h = h\<lparr>cFin := of_bool (p0 AND 0x80 = 0x80), cOpcode := p0 AND 0x0F\<rparr>;
       let (n, p, conn) = cm_conn_tcp_recv_simple conn 1;
       if n \<le> 0 then Some (if n = 0 then 0 else - 2, conn, h)
       else do {
         p0 \<leftarrow> idx p 0;
         let h = h\<lparr>cMask := of_bool (p0 AND 0x80 = 0x80), ullPayloadLength := ucast (p0 AND 0x7F)\<rparr>;
         (n, conn, h) \<leftarrow> read_length conn h;
         if n \<le> 0 then Some (n, conn, h) else Some (read_mask n conn h)
       }
     }
   }"

text \<open>\<open>(int)head.ullPayloadLength\<close>.\<close>

definition to_int32 :: "u64 \<Rightarrow> int" where
  "to_int32 w = sint (ucast w :: u32)"

text \<open>The body of a frame, as \<open>cm_websocket_request_recv\<close> reads it: when nothing arrives in time, the
  length asked for counts as read. The result is the code, the position and the buffer.\<close>

partial_function (option) body_loop ::
  "CMConnTCP \<Rightarrow> u8 list \<Rightarrow> int \<Rightarrow> int \<Rightarrow> int \<Rightarrow> (int \<times> int \<times> u8 list \<times> CMConnTCP) option" where
  "body_loop conn result data_pos needread readlen =
     (if needread \<le> 0 then Some (0, data_pos, result, conn)
      else let (n, d, conn) = cm_conn_tcp_recv_simple conn (nat needread) in
        if n < 0 then Some (- 5, data_pos, result, conn)
        else do {
          result \<leftarrow> (if d = [] then Some result else mem_write result (nat data_pos) d);
          let data_pos = data_pos + (if n > 0 then n else needread);
          body_loop conn result data_pos (readlen - data_pos) readlen
        })"

text \<open>\<open>cm_websocket_request_recv\<close>: \<open>clk i\<close> is the reading of the clock in the \<open>i\<close>th pass. The result is the
  error value, the length stored into \<open>lenresult\<close> if it is, the buffer and the connection. The size of
  the buffer is not compared with the length of the frame.\<close>

partial_function (option) recv_passes ::
  "(nat \<Rightarrow> u64) \<Rightarrow> u64 \<Rightarrow> nat \<Rightarrow> CMConnTCP \<Rightarrow> CMWSFrameHeader \<Rightarrow> u8 list \<Rightarrow> (int \<times> int option \<times> u8 list \<times> CMConnTCP) option" where
  "recv_passes clk lasttime i conn head result =
     (if clk i - lasttime > 8000 then Some (- 4, None, result, conn)
      else do {
        (n, conn, head) \<leftarrow> cm_websocket_request_read conn head;
        if n = 0 then recv_passes clk lasttime (i + 1) conn head result
        else if n < 0 then Some (- 2, None, result, conn)
        else do {
          let readlen = to_int32 (ullPayloadLength head);
          (r, data_pos, result, conn) \<leftarrow> body_loop conn result 0 readlen readlen;
          if r < 0 then Some (r, None, result, conn) else Some (0, Some data_pos, result, conn)
        }
      })"

definition cm_websocket_request_recv ::
  "(nat \<Rightarrow> u64) \<Rightarrow> CMConnTCP option \<Rightarrow> u8 list \<Rightarrow> (int \<times> int option \<times> u8 list \<times> CMConnTCP option) option" where
  "cm_websocket_request_recv clk conn result = (case conn of
     None \<Rightarrow> Some (- 1, None, result, None)
   | Some c \<Rightarrow> do {
       (r, len, result, c) \<leftarrow> recv_passes clk (clk 0) 1 c ws_header_zero result;
       Some (r, len, result, Some c)
     })"

text \<open>\<open>cm_websocket_request\<close>: the message is masked in the caller's buffer, which is part of the result.\<close>

definition cm_websocket_request ::
  "(nat \<Rightarrow> u8 list option) \<Rightarrow> (nat \<Rightarrow> nat) \<Rightarrow> (nat \<Rightarrow> nat \<Rightarrow> int) \<Rightarrow> (nat \<Rightarrow> u64) \<Rightarrow> CMConnTCP \<Rightarrow> bool \<Rightarrow> u8 list \<Rightarrow> nat \<Rightarrow> u8 list \<Rightarrow>
     (int \<times> u8 list \<times> int option \<times> u8 list \<times> CMConnTCP) option" where
  "cm_websocket_request fresh rand accepts clk conn waitres msg len res = do {
     (r, key) \<leftarrow> cm_random_with_num_char rand (replicate 4 (CHR 0x00)) 4;
     let header = ws_header_zero\<lparr>ullPayloadLength := of_nat len, cMask := 1, cMasking_key := bytes_of key\<rparr>;
     (head_str, head_str_len) \<leftarrow> cm_ws_generate_frame_head fresh header;
     sendlen \<leftarrow> c_int (head_str_len + int len);
     senddata \<leftarrow> fresh (nat sendlen);
     h \<leftarrow> mem_read head_str 0 (nat head_str_len);
     senddata \<leftarrow> mem_write senddata 0 h;
     msg \<leftarrow> (if cMask header \<noteq> 0 then cm_ws_umask msg (int len) (cMasking_key header) else Some msg);
     m \<leftarrow> mem_read msg 0 len;
     senddata \<leftarrow> mem_write senddata (nat head_str_len) m;
     (n, c) \<leftarrow> cm_conn_tcp_send accepts (Some conn) (Some senddata) sendlen;
     case c of None \<Rightarrow> None
     | Some conn \<Rightarrow>
         if n > 0 \<and> waitres then do {
           (nn, lenres, res, c) \<leftarrow> cm_websocket_request_recv clk (Some conn) res;
           conn \<leftarrow> c;
           Some (n, msg, lenres, res, conn)
         }
         else Some (n, msg, None, res, conn)
   }"

end
