(* ===== verification/WebSocket_Correct.thy ===== *)
theory WebSocket_Correct
  imports WebSocket
begin

text \<open>
  Correctness of the WebSocket client against the framing of RFC 6455, stated as a decoder and an
  encoder of its own: which requests a server decodes, which frames from a server are received, what
  a frame of 65535 bytes and a pause in the middle of a frame do.
\<close>

section \<open>Inverting and masking\<close>

lemma invert_loop_nth:
  assumes "2 * (i + n) \<le> len" and "len \<le> length str"
  shows "\<exists>r. invert_loop str len i n = Some r \<and> length r = length str \<and>
    (\<forall>j < length str. r ! j = (if i \<le> j \<and> j < i + n \<or> len - i - n \<le> j \<and> j < len - i then str ! (len - 1 - j) else str ! j))"
  using assms
proof (induction n arbitrary: i str)
  case (Suc n)
  define s1 where "s1 = str[i := str ! (len - i - 1), len - i - 1 := str ! i]"
  have i: "i < length str" "len - i - 1 < length str" "i < len - i - 1" using Suc.prems by auto
  have s1: "s1 ! j = (if j = i then str ! (len - 1 - i) else if j = len - 1 - i then str ! i else str ! j)" if "j < length str" for j
    using i that by (auto simp: s1_def nth_list_update)
  obtain r where r: "invert_loop s1 len (i + 1) n = Some r" "length r = length str"
    "\<forall>j < length str. r ! j = (if i + 1 \<le> j \<and> j < i + 1 + n \<or> len - (i + 1) - n \<le> j \<and> j < len - (i + 1) then s1 ! (len - 1 - j) else s1 ! j)"
    using Suc.IH [of "i + 1" s1] Suc.prems by (auto simp: s1_def)
  have "invert_loop str len i (Suc n) = Some r" using i r(1) by (simp add: idx_def upd_def s1_def)
  moreover have "r ! j = (if i \<le> j \<and> j < i + Suc n \<or> len - i - Suc n \<le> j \<and> j < len - i then str ! (len - 1 - j) else str ! j)"
    if j: "j < length str" for j
  proof -
    consider "j = i" | "j = len - 1 - i" | "i < j" "j < len - 1 - i" | "j < i" | "len - 1 - i < j" by linarith
    then show ?thesis
    proof cases
      case 3
      then have "len - 1 - j \<noteq> i" "len - 1 - j \<noteq> len - 1 - i" "len - 1 - j < length str" using Suc.prems by auto
      then have "s1 ! (len - 1 - j) = str ! (len - 1 - j)" "s1 ! j = str ! j" using s1 j 3 by auto
      then show ?thesis using r(3) j 3 Suc.prems by auto
    qed (use r(3) s1 j i Suc.prems in auto)
  qed
  ultimately show ?case using r(2) by blast
qed auto

lemma cm_ws_invert_string_rev:
  assumes "n \<le> length str"
  shows "cm_ws_invert_string str (int n) = Some (rev (take n str) @ drop n str)"
proof -
  obtain r where r: "invert_loop str n 0 (n div 2) = Some r" "length r = length str"
    "\<forall>j < length str. r ! j = (if 0 \<le> j \<and> j < 0 + n div 2 \<or> n - 0 - n div 2 \<le> j \<and> j < n - 0 then str ! (n - 1 - j) else str ! j)"
    using invert_loop_nth [of 0 "n div 2" n str] assms by auto
  have "r = rev (take n str) @ drop n str"
  proof (rule nth_equalityI)
    show "r ! j = (rev (take n str) @ drop n str) ! j" if "j < length r" for j
    proof (cases "j < n")
      case True
      have j: "j < length str" using that r(2) by simp
      have "r ! j = (if j < n div 2 \<or> n - n div 2 \<le> j then str ! (n - 1 - j) else str ! j)"
        using r(3) j True by simp
      moreover have "n - 1 - j = j" if "\<not> (j < n div 2 \<or> n - n div 2 \<le> j)" using that True by linarith
      ultimately have "r ! j = str ! (n - 1 - j)" by (metis (full_types))
      moreover have "(rev (take n str) @ drop n str) ! j = str ! (n - 1 - j)"
        using True assms by (simp add: nth_append rev_nth)
      ultimately show ?thesis by simp
    next
      case False
      have "\<not> j < n div 2" using False by linarith
      then have "r ! j = str ! j" using r(3) that r(2) False by simp
      then show ?thesis using False assms that r(2) by (simp add: nth_append)
    qed
  qed (use assms r(2) in simp)
  then show ?thesis using r(1) by (simp add: cm_ws_invert_string_def)
qed

text \<open>The masking of the RFC.\<close>

definition masked :: "u8 list \<Rightarrow> u8 list \<Rightarrow> u8 list" where
  "masked key d = map (\<lambda>j. d ! j XOR key ! (j mod 4)) [0..<length d]"

lemma length_masked [simp]: "length (masked key d) = length d"
  by (simp add: masked_def)

lemma masked_masked [simp]: "masked key (masked key d) = d"
  by (rule nth_equalityI) (simp_all add: masked_def xor.assoc)

lemma masked_zero [simp]: "masked [0, 0, 0, 0] d = d"
proof (rule nth_equalityI)
  show "masked [0, 0, 0, 0] d ! j = d ! j" if "j < length (masked [0, 0, 0, 0] d)" for j
  proof -
    have "[0, 0, 0, 0 :: u8] = replicate 4 0" by (simp add: numeral_eq_Suc)
    then have "[0, 0, 0, 0 :: u8] ! (j mod 4) = 0" by (simp del: replicate.simps)
    then show ?thesis using that by (simp add: masked_def)
  qed
qed simp

lemma umask_loop_nth:
  assumes "i + n \<le> length data" and "length key = 4"
  shows "umask_loop data key i n =
    Some (take i data @ map (\<lambda>j. data ! j XOR key ! (j mod 4)) [i..<i + n] @ drop (i + n) data)"
  using assms(1)
proof (induction n arbitrary: i data)
  case (Suc n)
  define d where "d = data[i := data ! i XOR key ! (i mod 4)]"
  have i: "i < length data" "i mod 4 < length key" using Suc.prems assms(2) by auto
  have "umask_loop data key i (Suc n) = umask_loop d key (i + 1) n" using i by (simp add: idx_def upd_def d_def)
  also have "\<dots> = Some (take (i + 1) d @ map (\<lambda>j. d ! j XOR key ! (j mod 4)) [i + 1..<i + 1 + n] @ drop (i + 1 + n) d)"
    by (rule Suc.IH) (use Suc.prems in \<open>simp add: d_def\<close>)
  also have "take (i + 1) d = take i data @ [data ! i XOR key ! (i mod 4)]"
    using i by (simp add: d_def take_Suc_conv_app_nth)
  also have "map (\<lambda>j. d ! j XOR key ! (j mod 4)) [i + 1..<i + 1 + n] = map (\<lambda>j. data ! j XOR key ! (j mod 4)) [i + 1..<i + 1 + n]"
    by (auto simp: d_def)
  finally have "umask_loop data key i (Suc n) = Some (take i data @ map (\<lambda>j. data ! j XOR key ! (j mod 4)) (i # [i + 1..<i + 1 + n]) @
      drop (i + Suc n) data)" by (simp add: d_def del: upt_Suc umask_loop.simps)
  moreover have "i # [i + 1..<i + 1 + n] = [i..<i + Suc n]" by (simp add: upt_conv_Cons del: upt_Suc)
  ultimately show ?case by (simp only:)
qed simp

lemma cm_ws_umask_masked:
  assumes "n \<le> length data" and "length key = 4"
  shows "cm_ws_umask data (int n) key = Some (masked key (take n data) @ drop n data)"
proof -
  have "map (\<lambda>j. data ! j XOR key ! (j mod 4)) [0..<n] = masked key (take n data)"
    using assms(1) by (auto simp: masked_def)
  then show ?thesis using umask_loop_nth [of 0 n data key] assms by (simp add: cm_ws_umask_def)
qed

section \<open>The framing of RFC 6455\<close>

definition be_value :: "u8 list \<Rightarrow> nat" where
  "be_value b = foldl (\<lambda>a x. 256 * a + unat x) 0 b"

text \<open>A frame at the start of a text: the end flag, the opcode, the payload after unmasking, and what follows.\<close>

definition rfc_payload :: "u8 \<Rightarrow> u8 \<Rightarrow> nat \<Rightarrow> u8 list \<Rightarrow> (bool \<times> u8 \<times> u8 list \<times> u8 list) option" where
  "rfc_payload b0 b1 n r = do {
     (key, r) \<leftarrow> (if b1 AND 0x80 \<noteq> 0 then if 4 \<le> length r then Some (take 4 r, drop 4 r) else None else Some ([0, 0, 0, 0], r));
     if n \<le> length r then Some (b0 AND 0x80 \<noteq> 0, b0 AND 0x0F, masked key (take n r), drop n r) else None
   }"

definition rfc_decode :: "u8 list \<Rightarrow> (bool \<times> u8 \<times> u8 list \<times> u8 list) option" where
  "rfc_decode b = (case b of
     b0 # b1 # r \<Rightarrow>
       let l = unat (b1 AND 0x7F) in
       if l < 126 then rfc_payload b0 b1 l r
       else let k = (if l = 126 then 2 else 8) in
         if k \<le> length r then rfc_payload b0 b1 (be_value (take k r)) (drop k r) else None
   | _ \<Rightarrow> None)"

text \<open>An unmasked frame, as a server sends it.\<close>

definition be_bytes :: "nat \<Rightarrow> nat \<Rightarrow> u8 list" where
  "be_bytes k n = rev (map (\<lambda>i. of_nat (n div 256 ^ i)) [0..<k])"

definition rfc_header :: "u8 \<Rightarrow> nat \<Rightarrow> u8 list" where
  "rfc_header b0 n =
     (if n < 126 then [b0, of_nat n] else if n < 2 ^ 16 then [b0, 126] @ be_bytes 2 n else [b0, 127] @ be_bytes 8 n)"

lemma length_be_bytes [simp]: "length (be_bytes k n) = k"
  by (simp add: be_bytes_def)

lemma be_bytes_Suc: "be_bytes (Suc k) n = be_bytes k (n div 256) @ [of_nat n]"
proof -
  have "[0..<Suc k] = 0 # map Suc [0..<k]" by (simp add: map_Suc_upt upt_conv_Cons)
  then show ?thesis by (simp add: be_bytes_def div_mult2_eq comp_def del: upt_Suc)
qed

lemma be_value_bytes: "be_value (be_bytes k n) = n mod 256 ^ k"
proof (induction k arbitrary: n)
  case (Suc k)
  have "be_value (be_bytes (Suc k) n) = 256 * (n div 256 mod 256 ^ k) + n mod 256"
    using Suc by (simp add: be_bytes_Suc be_value_def unat_of_nat)
  also have "\<dots> = n mod 256 ^ Suc k" by (simp add: mod_mult2_eq)
  finally show ?case .
qed (simp add: be_bytes_def be_value_def)

section \<open>Generated headers\<close>

lemma ucast_nat: "ucast w = of_nat (unat w)"
  by (rule of_nat_unat [symmetric])

lemma byte_at: "(ucast (drop_bit k (w :: u64)) :: u8) = of_nat (unat w div 2 ^ k)"
  by (simp only: ucast_nat unat_drop_bit_eq) (simp only: drop_bit_eq_div)

lemma length_bytes_be: "rev (length_bytes_le w) = be_bytes 8 (unat w)"
proof -
  have up: "[0..<8] = [0, 1, 2, 3, 4, 5, 6, 7 :: nat]" by (simp add: upt_rec)
  have "length_bytes_le w = map (\<lambda>i. of_nat (unat w div 256 ^ i)) [0..<8]"
    unfolding length_bytes_le_def up list.map byte_at ucast_nat [of w] by (simp del: of_nat_unat)
  then show ?thesis by (simp add: be_bytes_def)
qed

text \<open>An allocator that never fails.\<close>

definition allocates :: "(nat \<Rightarrow> u8 list option) \<Rightarrow> bool" where
  "allocates fresh = (\<forall>n. \<exists>b. fresh n = Some b \<and> length b = n)"

lemma allocates_block: "allocates fresh \<Longrightarrow> \<exists>b. fresh n = Some b \<and> length b = n"
  by (simp add: allocates_def)

lemma fin_bit: "(0x81 :: u8) AND 0x80 \<noteq> 0" "(0x81 :: u8) AND 0x0F = 1"
  by simp_all

lemma mask_bit:
  fixes x :: u8
  shows "(x OR 0x80) AND 0x80 = 0x80" and "(x OR 0x80) AND 0x7F = x AND 0x7F"
proof -
  show "(x OR 0x80) AND 0x80 = 0x80" by (metis and.commute bit.conj_disj_distrib2 or.commute or.idem word_ao_absorbs(1))
  show "(x OR 0x80) AND 0x7F = x AND 0x7F" by (simp add: bit.conj_disj_distrib2)
qed

lemma seven_bits: "n < 128 \<Longrightarrow> unat ((of_nat n :: u8) AND 0x7F) = n"
  using nat_and_mask [of n 7] by (simp add: unsigned_and_eq unat_of_nat)

text \<open>The header without the masking key, for payloads that the two short forms can hold.\<close>

definition short_head :: "u8 \<Rightarrow> nat \<Rightarrow> u8 list" where
  "short_head m n = (if n < 126 then [0x81, of_nat n OR m] else [0x81, 126 OR m] @ be_bytes 2 n)"

definition ws_header :: "u8 \<Rightarrow> u8 list \<Rightarrow> nat \<Rightarrow> CMWSFrameHeader" where
  "ws_header m key n = ws_header_zero\<lparr>ullPayloadLength := of_nat n, cMask := m, cMasking_key := key\<rparr>"

lemma length_low_byte: "n < 2 ^ 64 \<Longrightarrow> (ucast (of_nat n :: u64) :: u8) = of_nat n"
  by (simp add: unsigned_of_nat take_bit_nat_eq_self)

lemma two_bytes:
  assumes "n < 2 ^ 16"
  shows "[ucast (drop_bit 8 (of_nat n :: u64) AND 0xFF), ucast ((of_nat n :: u64) AND 0xFF)] = be_bytes 2 n"
proof -
  have u: "unat (of_nat n :: u64) = n" using assms by (simp add: unat_of_nat)
  have "unat (drop_bit 8 (of_nat n :: u64)) = n div 256" using u by (simp add: unat_drop_bit_eq) (simp add: drop_bit_eq_div)
  then have "unat (drop_bit 8 (of_nat n :: u64) AND 0xFF) = n div 256 mod 256"
    using nat_and_mask [of "n div 256" 8] by (simp add: unsigned_and_eq)
  moreover have "unat ((of_nat n :: u64) AND 0xFF) = n mod 256"
    using nat_and_mask [of n 8] u by (simp add: unsigned_and_eq)
  moreover have "(of_nat (k mod 256) :: u8) = of_nat k" for k by (simp add: of_nat_mod unat_of_nat word_unat_eq_iff)
  ultimately have "ucast (drop_bit 8 (of_nat n :: u64) AND 0xFF) = (of_nat (n div 256) :: u8)"
    "ucast ((of_nat n :: u64) AND 0xFF) = (of_nat n :: u8)"
    by (simp_all only: ucast_nat)
  then show ?thesis by (simp add: be_bytes_def numeral_2_eq_2)
qed

lemma generate_short:
  assumes "allocates fresh" and "n < 0xFFFF" and "length key = 4"
  shows "cm_ws_generate_frame_head fresh (ws_header 1 key n) = Some (short_head 0x80 n @ key, int (length (short_head 0x80 n)) + 4)"
    and "cm_ws_generate_frame_head fresh (ws_header 0 key n) = Some (short_head 0 n, int (length (short_head 0 n)))"
proof -
  have n: "unat (of_nat n :: u64) = n" using assms(2) by (simp add: unat_of_nat)
  obtain a b where 2: "fresh 2 = Some [a, b]"
    using allocates_block [OF assms(1), of 2] by (auto simp: numeral_2_eq_2 length_Suc_conv)
  obtain c d e f where 4: "fresh 4 = Some [c, d, e, f]"
    using allocates_block [OF assms(1), of 4] by (auto simp: numeral_eq_Suc length_Suc_conv)
  obtain p q where new: "fresh 6 = Some p" "length p = 6" "fresh 8 = Some q" "length q = 8"
    using allocates_block [OF assms(1)] by metis
  have key: "mem_read key 0 4 = Some key" using assms(3) by (simp add: mem_read_def)
  have less: "(of_nat n :: u64) < 126 \<longleftrightarrow> n < 126" "(of_nat n :: u64) < 0xFFFF" using n assms(2) by (simp_all add: word_less_nat_alt)
  have byte: "(ucast (of_nat n :: u64) :: u8) = of_nat n" using assms(2) by (intro length_low_byte) simp
  show "cm_ws_generate_frame_head fresh (ws_header 1 key n) = Some (short_head 0x80 n @ key, int (length (short_head 0x80 n)) + 4)"
  proof (cases "n < 126")
    case True
    then show ?thesis using less byte 2 new key assms(3)
      by (simp add: cm_ws_generate_frame_head_def ws_header_def ws_header_zero_def upd_def idx_def short_head_def mem_write_def)
  next
    case False
    then show ?thesis using less 4 new key assms(2,3) two_bytes [of n]
      by (simp add: cm_ws_generate_frame_head_def ws_header_def ws_header_zero_def upd_def idx_def short_head_def mem_write_def)
  qed
  show "cm_ws_generate_frame_head fresh (ws_header 0 key n) = Some (short_head 0 n, int (length (short_head 0 n)))"
  proof (cases "n < 126")
    case True
    then show ?thesis using less byte 2
      by (simp add: cm_ws_generate_frame_head_def ws_header_def ws_header_zero_def upd_def short_head_def)
  next
    case False
    then show ?thesis using less 4 assms(2) two_bytes [of n]
      by (simp add: cm_ws_generate_frame_head_def ws_header_def ws_header_zero_def upd_def short_head_def)
  qed
qed

lemma decode_short:
  assumes "n < 0xFFFF" and "length d = n" and "length key = 4"
  shows "rfc_decode (short_head 0x80 n @ key @ masked key d @ r) = Some (True, 1, d, r)"
proof -
  have pay: "rfc_payload 0x81 b1 n (key @ masked key d @ r) = Some (True, 1, d, r)" if "b1 AND 0x80 = 0x80" for b1
    using that assms(2,3) by (simp add: rfc_payload_def)
  show ?thesis
  proof (cases "n < 126")
    case True
    then show ?thesis using pay mask_bit [of "of_nat n"] seven_bits [of n]
      by (simp add: rfc_decode_def short_head_def Let_def)
  next
    case False
    have v: "be_value (be_bytes 2 n) = n" using assms(1) by (simp add: be_value_bytes)
    show ?thesis using False pay [of "126 OR 0x80"] v
      by (simp add: rfc_decode_def short_head_def Let_def)
  qed
qed

lemma generate_long:
  assumes "allocates fresh" and "0xFFFF \<le> n" and "n < 2 ^ 64" and "length key = 4"
  shows "\<exists>g. length g = 2 \<and> cm_ws_generate_frame_head fresh (ws_header 1 key n) = Some ([0x81, 0xFF] @ be_bytes 8 n @ g @ key, 16)"
proof -
  have n: "unat (of_nat n :: u64) = n" using assms(3) by (simp add: unat_of_nat)
  obtain blk where blk: "fresh 12 = Some blk" "length blk = 12" using allocates_block [OF assms(1)] by blast
  obtain p where new: "fresh 16 = Some p" "length p = 16" using allocates_block [OF assms(1)] by blast
  have key: "mem_read key 0 4 = Some key" using assms(4) by (simp add: mem_read_def)
  have less: "\<not> (of_nat n :: u64) < 126" "\<not> (of_nat n :: u64) < 0xFFFF" using n assms(2) by (simp_all add: word_less_nat_alt)
  define tl where "tl = drop 10 blk"
  have tl: "length tl = 2" and ne: "blk \<noteq> []" using blk(2) by (auto simp: tl_def)
  have w: "mem_write (blk[0 := 0x81, 1 := 127]) 2 (length_bytes_le (of_nat n)) = Some ([0x81, 127] @ length_bytes_le (of_nat n) @ tl)"
  proof -
    have "take 2 (blk[0 := 0x81, 1 := 127]) = [0x81, 127 :: u8]"
      using blk(2) by (intro nth_equalityI) (auto simp: nth_Cons' less_Suc_eq numeral_2_eq_2)
    moreover have "drop 10 (blk[0 := 0x81, 1 := 127]) = tl" by (simp add: tl_def)
    ultimately show ?thesis using blk(2) by (simp add: mem_write_def)
  qed
  have inv: "cm_ws_invert_string (length_bytes_le (of_nat n) @ tl) 8 = Some (be_bytes 8 n @ tl)"
    using cm_ws_invert_string_rev [of 8 "length_bytes_le (of_nat n) @ tl"] length_bytes_be [of "of_nat n"] n by simp
  have "mem_write p 0 ([0x81, 0xFF] @ be_bytes 8 n @ tl) = Some (([0x81, 0xFF] @ be_bytes 8 n @ tl) @ drop 12 p)"
    using new by (simp add: mem_write_def tl)
  moreover have "mem_write (([0x81, 0xFF] @ be_bytes 8 n @ tl) @ drop 12 p) 12 key = Some ([0x81, 0xFF] @ be_bytes 8 n @ tl @ key)"
    using new assms(4) by (simp add: mem_write_def tl)
  ultimately show ?thesis using less blk new key w inv ne
    by (intro exI [of _ tl])
      (simp add: cm_ws_generate_frame_head_def ws_header_def ws_header_zero_def upd_def idx_def tl)
qed

section \<open>Requests\<close>

lemma random_loop_Some:
  "chars \<noteq> [] \<Longrightarrow> i + n \<le> length a \<Longrightarrow> \<exists>r. random_loop rand n i chars a = Some r \<and> length r = length a"
proof (induction n arbitrary: i a)
  case (Suc n)
  then show ?case using Suc.IH [of "i + 1" "a[i := chars ! (rand i mod length chars)]"] by (simp add: upd_def)
qed simp

lemma random_key:
  "\<exists>k. cm_random_with_num_char rand (replicate 4 (CHR 0x00)) 4 = Some (0, k) \<and> length k = 4"
  using random_loop_Some [of num_char 0 4 "replicate 4 (CHR 0x00)" rand]
  by (auto simp: cm_random_with_num_char_def cm_random_with_chars_def num_char_def)

text \<open>What a request sends when the header is \<open>h\<close>: the header and the masked message, in one block.\<close>

lemma request_sends:
  assumes "allocates fresh" and "accepting accepts" and "len \<le> length msg"
    and "cm_random_with_num_char rand (replicate 4 (CHR 0x00)) 4 = Some (0, k)" and "length k = 4"
    and "cm_ws_generate_frame_head fresh (ws_header 1 (bytes_of k) len) = Some (h, int (length h))"
    and "h \<noteq> []" and "int (length h) + int len < 2 ^ 31"
  shows "cm_websocket_request fresh rand accepts clk conn False msg len res =
    Some (int (length h + len), masked (bytes_of k) (take len msg) @ drop len msg, None, res,
      conn\<lparr>outgoing := outgoing conn @ h @ masked (bytes_of k) (take len msg)\<rparr>)"
proof -
  define m where "m = masked (bytes_of k) (take len msg)"
  have m: "length m = len" using assms(3) by (simp add: m_def)
  have key: "length (bytes_of k) = 4" using assms(5) by (simp add: bytes_of_def)
  obtain blk where blk: "fresh (length h + len) = Some blk" "length blk = length h + len"
    using allocates_block [OF assms(1)] by blast
  have w1: "mem_write blk 0 h = Some (h @ drop (length h) blk)" using blk(2) by (simp add: mem_write_def)
  have w2: "mem_write (h @ drop (length h) blk) (length h) m = Some (h @ m)" using blk(2) m by (simp add: mem_write_def)
  have send: "cm_conn_tcp_send accepts (Some conn) (Some (h @ m)) (int (length h) + int len) =
      Some (int (length h + len), Some (conn\<lparr>outgoing := outgoing conn @ h @ m\<rparr>))"
    using cm_conn_tcp_send_all [OF assms(2), of "h @ m" conn] assms(7) m by simp
  have "nat (int (length h) + int len) = length h + len" by simp
  then show ?thesis
    using assms(4,6,8) blk w1 w2 send m cm_ws_umask_masked [OF assms(3) key]
    by (simp add: cm_websocket_request_def ws_header_def c_int_Some mem_read_def m_def [symmetric] Let_def ws_header_zero_def)
qed

text \<open>C14: A request reaches a peer that follows RFC 6455. For messages of up to 65534 bytes, with an
  allocator that succeeds and a socket that takes at least one byte per call, the bytes put on the connection
  decode to one final text frame with exactly the message, whatever follows it on the wire. The caller's
  own buffer is left masked.\<close>

theorem ws_request_rfc:
  assumes "allocates fresh" and "accepting accepts" and "len \<le> length msg" and "len < 0xFFFF"
  shows "\<exists>w key. cm_websocket_request fresh rand accepts clk conn False msg len res =
      Some (int (length w), masked key (take len msg) @ drop len msg, None, res, conn\<lparr>outgoing := outgoing conn @ w\<rparr>) \<and>
    (\<forall>r. rfc_decode (w @ r) = Some (True, 1, take len msg, r))"
proof -
  obtain k where k: "cm_random_with_num_char rand (replicate 4 (CHR 0x00)) 4 = Some (0, k)" "length k = 4" using random_key by blast
  have key: "length (bytes_of k) = 4" using k(2) by (simp add: bytes_of_def)
  define h where "h = short_head 0x80 len @ bytes_of k"
  have "cm_ws_generate_frame_head fresh (ws_header 1 (bytes_of k) len) = Some (h, int (length h))"
    using generate_short(1) [OF assms(1,4) key] key by (simp add: h_def)
  moreover have "h \<noteq> []" "length h \<le> 8" using key by (auto simp: h_def short_head_def)
  ultimately have "cm_websocket_request fresh rand accepts clk conn False msg len res =
    Some (int (length h + len), masked (bytes_of k) (take len msg) @ drop len msg, None, res,
      conn\<lparr>outgoing := outgoing conn @ h @ masked (bytes_of k) (take len msg)\<rparr>)"
    using assms k by (intro request_sends) auto
  moreover have "rfc_decode ((h @ masked (bytes_of k) (take len msg)) @ r) = Some (True, 1, take len msg, r)" for r
    using decode_short [OF assms(4) _ key, of "take len msg" r] assms(3) by (simp add: h_def)
  ultimately show ?thesis using assms(3)
    by (intro exI [of _ "h @ masked (bytes_of k) (take len msg)"] exI [of _ "bytes_of k"]) simp
qed

text \<open>Longer requests do not. From 65535 bytes on the generated header has two bytes more than the frame
  format, with whatever the allocated block held: a peer takes them and the first half of the key for the
  masking key, delivers the other half of the key, unmasked with that, as the beginning of the message, and
  finds the last two bytes of the message where the next frame should start.\<close>

theorem ws_long_request_broken:
  assumes "allocates fresh" and "accepting accepts" and "len \<le> length msg" and "0xFFFF \<le> len" and "len + 16 < 2 ^ 31"
  shows "\<exists>w key g. cm_websocket_request fresh rand accepts clk conn False msg len res =
      Some (int (length w), masked key (take len msg) @ drop len msg, None, res, conn\<lparr>outgoing := outgoing conn @ w\<rparr>) \<and>
    length key = 4 \<and> length g = 2 \<and>
    rfc_decode w = Some (True, 1,
      masked (g @ take 2 key) (drop 2 key @ take (len - 2) (masked key (take len msg))), drop (len - 2) (masked key (take len msg)))"
proof -
  obtain k where k: "cm_random_with_num_char rand (replicate 4 (CHR 0x00)) 4 = Some (0, k)" "length k = 4" using random_key by blast
  define key where "key = bytes_of k"
  have key: "length key = 4" using k(2) by (simp add: key_def bytes_of_def)
  obtain g where g: "length g = 2"
    "cm_ws_generate_frame_head fresh (ws_header 1 key len) = Some ([0x81, 0xFF] @ be_bytes 8 len @ g @ key, 16)"
    using generate_long [OF assms(1,4) _ key] assms(5) by auto
  define h where "h = [0x81, 0xFF] @ be_bytes 8 len @ g @ key"
  have h: "length h = 16" using g(1) key by (simp add: h_def)
  define m where "m = masked key (take len msg)"
  have m: "length m = len" using assms(3) by (simp add: m_def)
  have req: "cm_websocket_request fresh rand accepts clk conn False msg len res =
    Some (int (length h + len), m @ drop len msg, None, res, conn\<lparr>outgoing := outgoing conn @ h @ m\<rparr>)"
    unfolding m_def key_def
  proof (rule request_sends [OF assms(1-3) k])
    show "cm_ws_generate_frame_head fresh (ws_header 1 (bytes_of k) len) = Some (h, int (length h))"
      using g(2) h by (simp add: h_def key_def)
  qed (use h assms(5) in auto)
  have v: "be_value (be_bytes 8 len) = len" using assms(5) by (simp add: be_value_bytes)
  have "take 4 (g @ key) = g @ take 2 key" "drop 4 (g @ key) = drop 2 key" using g(1) by simp_all
  moreover have "take len (drop 2 key @ m) = drop 2 key @ take (len - 2) m" "drop len (drop 2 key @ m) = drop (len - 2) m"
    using key assms(4) by simp_all
  ultimately have "rfc_payload 0x81 0xFF len (g @ key @ m) = Some (True, 1, masked (g @ take 2 key) (drop 2 key @ take (len - 2) m), drop (len - 2) m)"
    using g(1) key m by (simp add: rfc_payload_def)
  then have "rfc_decode (h @ m) = Some (True, 1, masked (g @ take 2 key) (drop 2 key @ take (len - 2) m), drop (len - 2) m)"
    using v by (simp add: rfc_decode_def h_def Let_def)
  then show ?thesis using req key g(1) m by (intro exI [of _ "h @ m"] exI [of _ key] exI [of _ g]) (simp add: m_def)
qed

section \<open>Receiving\<close>

text \<open>Bytes that are there for the next \<open>select\<close>, before the arrivals \<open>r\<close>.\<close>

definition arrived :: "u8 list \<Rightarrow> arrival list \<Rightarrow> arrival list" where
  "arrived d r = (if d = [] then r else Chunk d # r)"

lemma recv_arrived:
  assumes "x \<noteq> []" and "n = length x"
  shows "cm_conn_tcp_recv_simple (c\<lparr>incoming := arrived (x @ y) r\<rparr>) n = (int n, x, c\<lparr>incoming := arrived y r\<rparr>)"
  using assms by (auto simp: cm_conn_tcp_recv_simple_def arrived_def Let_def)

lemma recv_all:
  assumes "d \<noteq> []" and "length d \<le> n"
  shows "cm_conn_tcp_recv_simple (c\<lparr>incoming := arrived d r\<rparr>) n = (int (length d), d, c\<lparr>incoming := r\<rparr>)"
  using assms by (auto simp: cm_conn_tcp_recv_simple_def arrived_def Let_def)

lemma recv_pause: "cm_conn_tcp_recv_simple (c\<lparr>incoming := Timeout # r\<rparr>) n = (0, [], c\<lparr>incoming := r\<rparr>)"
  by (simp add: cm_conn_tcp_recv_simple_def)

lemma byte_join: "(ucast (b :: u8) :: u64) OR push_bit 8 w = of_nat (unat b) + 256 * w"
proof -
  have "(ucast b :: u64) AND push_bit 8 w = 0" by (rule bit_word_eqI) (auto simp: bit_simps dest: bit_imp_le_length)
  then have "ucast b + push_bit 8 w = ucast b OR push_bit 8 w" by (rule disjunctive_add_eq_or)
  then show ?thesis by (simp add: push_bit_eq_mult mult.commute)
qed

lemma ull_of_bytes_digits: "ull_of_bytes (map (\<lambda>i. of_nat (n div 256 ^ i)) [0..<k]) = of_nat (n mod 256 ^ k)"
proof (induction k arbitrary: n)
  case (Suc k)
  have "[0..<Suc k] = 0 # map Suc [0..<k]" by (simp add: map_Suc_upt upt_conv_Cons)
  then have "ull_of_bytes (map (\<lambda>i. of_nat (n div 256 ^ i)) [0..<Suc k]) =
      ucast (of_nat n :: u8) OR push_bit 8 (ull_of_bytes (map (\<lambda>i. of_nat (n div 256 div 256 ^ i)) [0..<k]))"
    by (simp add: ull_of_bytes_def div_mult2_eq comp_def del: upt_Suc)
  also have "\<dots> = of_nat (n mod 256) + 256 * of_nat (n div 256 mod 256 ^ k)"
    unfolding byte_join Suc by (simp add: unat_of_nat)
  also have "\<dots> = of_nat (n mod 256 ^ Suc k)" by (simp add: mod_mult2_eq)
  finally show ?case .
qed (simp add: ull_of_bytes_def)

lemma ull_of_bytes_be: "n < 2 ^ 64 \<Longrightarrow> ull_of_bytes (rev (be_bytes 8 n)) = of_nat n"
  using ull_of_bytes_digits [of n 8] by (simp add: be_bytes_def del: upt_Suc)

lemma two_bytes_value:
  assumes "n < 2 ^ 16"
  shows "(push_bit 8 (ucast (of_nat (n div 256) :: u8)) OR ucast (of_nat n :: u8) :: u64) = of_nat n"
proof -
  have c: "(ucast (of_nat (n div 256) :: u8) :: u64) = of_nat (n div 256)"
    using assms by (simp add: ucast_nat [of "of_nat (n div 256) :: u8"] unat_of_nat del: of_nat_unat)
  have "(push_bit 8 (ucast (of_nat (n div 256) :: u8)) OR ucast (of_nat n :: u8) :: u64) =
      of_nat (n mod 256) + 256 * of_nat (n div 256)"
    using byte_join [of "of_nat n" "of_nat (n div 256)"]
    by (simp add: or.commute unat_of_nat c)
  also have "\<dots> = of_nat (n mod 256 + 256 * (n div 256))" by (simp only: of_nat_add of_nat_mult of_nat_numeral)
  finally show ?thesis by simp
qed

lemma length_byte_bits:
  assumes "n < 128"
  shows "ucast ((of_nat n :: u8) AND 0x7F) = (of_nat n :: u64)" and "(of_nat n :: u8) AND 0x80 \<noteq> 0x80"
proof -
  show "ucast ((of_nat n :: u8) AND 0x7F) = (of_nat n :: u64)"
    using ucast_nat [of "(of_nat n :: u8) AND 0x7F"] seven_bits [OF assms] by simp
  have "(of_nat n :: u8) AND 0x7F = of_nat n"
    using seven_bits [OF assms] assms by (simp add: word_unat_eq_iff unat_of_nat)
  then have "(of_nat n :: u8) AND 0x80 = (of_nat n AND 0x7F) AND 0x80" by simp
  then show "(of_nat n :: u8) AND 0x80 \<noteq> 0x80" by (simp add: and.assoc)
qed

lemma be_bytes_2: "be_bytes 2 n = [of_nat (n div 256), of_nat n]"
  by (simp add: be_bytes_def numeral_2_eq_2)

text \<open>A header of a server is taken from the connection as a whole.\<close>

lemma read_frame_head:
  assumes "n < 2 ^ 64"
  shows "\<exists>k h'. cm_websocket_request_read (c\<lparr>incoming := arrived (rfc_header b0 n @ p) r\<rparr>) h =
    Some (k, c\<lparr>incoming := arrived p r\<rparr>, h') \<and> 0 < k \<and> ullPayloadLength h' = of_nat n \<and>
      cFin h' = of_bool (b0 AND 0x80 = 0x80)"
proof -
  define b1 :: u8 where "b1 = (if n < 126 then of_nat n else if n < 2 ^ 16 then 126 else 127)"
  define ext where "ext = (if n < 126 then [] else if n < 2 ^ 16 then be_bytes 2 n else be_bytes 8 n)"
  have hdr: "rfc_header b0 n @ p = [b0] @ [b1] @ ext @ p" by (simp add: rfc_header_def b1_def ext_def)
  have first: "cm_conn_tcp_recv_simple (c\<lparr>incoming := arrived (rfc_header b0 n @ p) r\<rparr>) 1 = (1, [b0], c\<lparr>incoming := arrived ([b1] @ ext @ p) r\<rparr>)"
    unfolding hdr using recv_arrived [of "[b0]" 1 "[b1] @ ext @ p" r c] by simp
  have second: "cm_conn_tcp_recv_simple (c\<lparr>incoming := arrived ([b1] @ ext @ p) r\<rparr>) 1 = (1, [b1], c\<lparr>incoming := arrived (ext @ p) r\<rparr>)"
    using recv_arrived [of "[b1]" 1 "ext @ p" r c] by simp
  define h1 where "h1 = h\<lparr>cFin := of_bool (b0 AND 0x80 = 0x80), cOpcode := b0 AND 0x0F,
      cMask := of_bool (b1 AND 0x80 = 0x80), ullPayloadLength := ucast (b1 AND 0x7F)\<rparr>"
  have "b1 AND 0x80 \<noteq> 0x80" using length_byte_bits(2) [of n] by (auto simp: b1_def)
  then have nomask: "cMask h1 = 0" by (simp add: h1_def)
  have len: "\<exists>k h'. read_length (c\<lparr>incoming := arrived (ext @ p) r\<rparr>) h1 = Some (k, c\<lparr>incoming := arrived p r\<rparr>, h') \<and>
      0 < k \<and> ullPayloadLength h' = of_nat n \<and> cMask h' = 0 \<and> cFin h' = cFin h1"
  proof -
    consider "n < 126" | "126 \<le> n" "n < 2 ^ 16" | "2 ^ 16 \<le> n" by linarith
    then show ?thesis
    proof cases
      case 1
      then have "ullPayloadLength h1 = of_nat n" using length_byte_bits(1) [of n] by (simp add: h1_def b1_def)
      moreover have "(of_nat n :: u64) \<noteq> 126" "(of_nat n :: u64) \<noteq> 127" using 1 by (simp_all add: word_unat_eq_iff unat_of_nat)
      ultimately show ?thesis using 1 nomask by (simp add: read_length_def ext_def)
    next
      case 2
      then have l: "ullPayloadLength h1 = 126" and e: "ext = [of_nat (n div 256), of_nat n]"
        by (simp_all add: h1_def b1_def ext_def be_bytes_2)
      then have ext: "length ext = 2" "ext \<noteq> []" by simp_all
      have "cm_conn_tcp_recv_simple (c\<lparr>incoming := arrived (ext @ p) r\<rparr>) 2 = (2, ext, c\<lparr>incoming := arrived p r\<rparr>)"
        using recv_arrived [of ext 2 p r c] ext by simp
      then show ?thesis using two_bytes_value [OF 2(2)] l nomask
        by (simp add: read_length_def e idx_def)
    next
      case 3
      then have l: "ullPayloadLength h1 = 127" and e: "ext = be_bytes 8 n" by (simp_all add: h1_def b1_def ext_def)
      then have ext: "length ext = 8" "ext \<noteq> []" using length_be_bytes [of 8 n] by (simp_all flip: length_greater_0_conv)
      have "cm_conn_tcp_recv_simple (c\<lparr>incoming := arrived (ext @ p) r\<rparr>) 8 = (8, ext, c\<lparr>incoming := arrived p r\<rparr>)"
        using recv_arrived [of ext 8 p r c] ext by simp
      then show ?thesis using cm_ws_invert_string_rev [of 8 "be_bytes 8 n"] ull_of_bytes_be [OF assms] l nomask
        by (simp add: read_length_def e)
    qed
  qed
  then obtain k h' where k: "read_length (c\<lparr>incoming := arrived (ext @ p) r\<rparr>) h1 = Some (k, c\<lparr>incoming := arrived p r\<rparr>, h')"
    "0 < k" "ullPayloadLength h' = of_nat n" "cMask h' = 0" "cFin h' = cFin h1" by blast
  then have "cm_websocket_request_read (c\<lparr>incoming := arrived (rfc_header b0 n @ p) r\<rparr>) h = Some (k, c\<lparr>incoming := arrived p r\<rparr>, h')"
    using first second by (simp add: cm_websocket_request_read_def idx_def Let_def h1_def read_mask_def)
  then show ?thesis using k by (auto simp: h1_def)
qed

lemma body_step:
  assumes "d \<noteq> []" and "int (length d) \<le> readlen - pos" and "0 \<le> pos" and "nat pos + length d \<le> length buf"
  shows "body_loop (c\<lparr>incoming := arrived d r\<rparr>) buf pos (readlen - pos) readlen =
    body_loop (c\<lparr>incoming := r\<rparr>) (take (nat pos) buf @ d @ drop (nat pos + length d) buf) (pos + int (length d))
      (readlen - (pos + int (length d))) readlen"
proof -
  have len: "0 < int (length d)" using assms(1) by simp
  have "\<not> readlen - pos \<le> 0" using assms(2) len by linarith
  moreover have "length d \<le> nat (readlen - pos)" using assms(2-3) by auto
  ultimately show ?thesis using recv_all [OF assms(1), where n = "nat (readlen - pos)" and c = c and r = r] assms(1,4)
    by (subst body_loop.simps) (simp add: mem_write_def Let_def del: diff_le_0_iff_le)
qed

lemma body_done: "body_loop c buf pos 0 readlen = Some (0, pos, buf, c)"
  by (subst body_loop.simps) simp

lemma body_pause: "pos < readlen \<Longrightarrow>
    body_loop (c\<lparr>incoming := Timeout # r\<rparr>) buf pos (readlen - pos) readlen = Some (0, readlen, buf, c\<lparr>incoming := r\<rparr>)"
  using recv_pause [where c = c and r = r] body_done by (subst body_loop.simps) simp

text \<open>What ends a body of \<open>missing\<close> more bytes: nothing, when none is missing, and else a pause.\<close>

definition ends_body :: "int \<Rightarrow> arrival list \<Rightarrow> arrival list \<Rightarrow> bool" where
  "ends_body missing tail r = (if missing = 0 then tail = r else 0 < missing \<and> tail = Timeout # r)"

lemma body_end:
  assumes "ends_body (readlen - pos) tail r"
  shows "body_loop (c\<lparr>incoming := tail\<rparr>) buf pos (readlen - pos) readlen = Some (0, readlen, buf, c\<lparr>incoming := r\<rparr>)"
  using assms body_done [of "c\<lparr>incoming := r\<rparr>" buf readlen readlen] body_pause [where pos = pos and readlen = readlen and c = c and r = r and buf = buf]
  by (auto simp: ends_body_def split: if_splits)

lemma body_chunks:
  assumes "\<forall>p \<in> set ps. p \<noteq> []" and "0 \<le> data_pos" and "nat data_pos + length (p0 @ concat ps) \<le> length result"
    and "ends_body (readlen - (data_pos + int (length (p0 @ concat ps)))) tail r"
  shows "body_loop (c\<lparr>incoming := arrived p0 (map Chunk ps @ tail)\<rparr>) result data_pos (readlen - data_pos) readlen =
    Some (0, readlen, take (nat data_pos) result @ p0 @ concat ps @ drop (nat data_pos + length (p0 @ concat ps)) result,
      c\<lparr>incoming := r\<rparr>)"
  using assms
proof (induction ps arbitrary: p0 result data_pos)
  case Nil
  then show ?case
  proof (cases "p0 = []")
    case True
    then show ?thesis using Nil body_end [where readlen = readlen and pos = data_pos and tail = tail and r = r and c = c and buf = result] by (simp add: arrived_def)
  next
    case False
    define buf where "buf = take (nat data_pos) result @ p0 @ drop (nat data_pos + length p0) result"
    have "int (length p0) \<le> readlen - data_pos" using Nil(4) by (auto simp: ends_body_def split: if_splits)
    then show ?thesis using False Nil body_step [where d = p0 and readlen = readlen and pos = data_pos and buf = result and c = c and r = tail]
        body_end [where readlen = readlen and pos = "data_pos + int (length p0)" and tail = tail and r = r and c = c and buf = buf] by (simp add: buf_def)
  qed
next
  case (Cons p ps)
  have p: "p \<noteq> []" "\<forall>p \<in> set ps. p \<noteq> []" using Cons.prems(1) by auto
  show ?case
  proof (cases "p0 = []")
    case True
    have "body_loop (c\<lparr>incoming := arrived p (map Chunk ps @ tail)\<rparr>) result data_pos (readlen - data_pos) readlen =
        Some (0, readlen, take (nat data_pos) result @ p @ concat ps @ drop (nat data_pos + length (p @ concat ps)) result, c\<lparr>incoming := r\<rparr>)"
      by (rule Cons.IH) (use Cons.prems p True in simp_all)
    then show ?thesis using True p(1) by (simp add: arrived_def)
  next
    case False
    define buf where "buf = take (nat data_pos) result @ p0 @ drop (nat data_pos + length p0) result"
    define pos where "pos = data_pos + int (length p0)"
    have buf: "length buf = length result" using Cons.prems by (simp add: buf_def)
    have pos: "0 \<le> pos" "nat pos = nat data_pos + length p0" using Cons.prems(2) by (simp_all add: pos_def nat_add_distrib)
    have "int (length p0) \<le> readlen - data_pos" using Cons.prems(4) by (auto simp: ends_body_def split: if_splits)
    then have "body_loop (c\<lparr>incoming := arrived p0 (Chunk p # map Chunk ps @ tail)\<rparr>) result data_pos (readlen - data_pos) readlen =
        body_loop (c\<lparr>incoming := arrived p (map Chunk ps @ tail)\<rparr>) buf pos (readlen - pos) readlen"
      using body_step [where d = p0 and readlen = readlen and pos = data_pos and buf = result and c = c and r = "Chunk p # map Chunk ps @ tail"] False Cons.prems p(1)
      by (simp add: buf_def pos_def arrived_def)
    also have "\<dots> = Some (0, readlen, take (nat pos) buf @ p @ concat ps @ drop (nat pos + length (p @ concat ps)) buf, c\<lparr>incoming := r\<rparr>)"
      by (rule Cons.IH) (use Cons.prems p buf pos in \<open>simp_all add: pos_def algebra_simps\<close>)
    also have "take (nat pos) buf = take (nat data_pos) result @ p0"
      using Cons.prems by (simp add: buf_def pos)
    also have "drop (nat pos + length (p @ concat ps)) buf = drop (nat data_pos + length (p0 @ concat (p # ps))) result"
      using Cons.prems by (simp add: buf_def pos ac_simps)
    finally show ?thesis using p(1) by simp
  qed
qed

text \<open>A \<open>select\<close> that times out before the first byte of a header costs one pass and changes nothing.\<close>

lemma recv_passes_waits:
  assumes "\<And>j. i \<le> j \<Longrightarrow> j < i + k \<Longrightarrow> clk j - t \<le> 8000"
  shows "recv_passes clk t i (c\<lparr>incoming := replicate k Timeout @ r\<rparr>) h result =
    recv_passes clk t (i + k) (c\<lparr>incoming := r\<rparr>) h result"
  using assms
proof (induction k arbitrary: i)
  case (Suc k)
  have "\<not> 8000 < clk i - t" using Suc.prems [of i] by simp
  moreover have "cm_websocket_request_read (c\<lparr>incoming := Timeout # replicate k Timeout @ r\<rparr>) h =
      Some (0, c\<lparr>incoming := replicate k Timeout @ r\<rparr>, h)"
    using recv_pause by (simp add: cm_websocket_request_read_def)
  ultimately show ?case using Suc.IH [of "i + 1"] Suc.prems by (subst recv_passes.simps) simp
qed simp

text \<open>C15: A frame from a server is received, whatever its first byte. Before it the connection may have been
  silent for \<open>k\<close> times a \<open>select\<close>, as long as the clock has not gone more than 8000 ms beyond the reading at
  the call; the header arrives in one piece, the bytes of the payload behind it in any pieces without a pause
  between them, for each of which one \<open>select\<close> is enough. The announced length is below \<open>2 ^ 31\<close>, and what
  arrives fits the buffer. Either all of the payload arrives: then the call returns 0, its length and the
  payload at the start of the buffer, leaves the rest of the buffer alone and takes exactly the frame from the
  connection. Or a pause of one \<open>select\<close> comes before its end: then the call returns 0 and the announced length
  all the same, with only the bytes before the pause in the buffer, and leaves the bytes after the pause on the
  connection, where the next call takes them for the header of a frame.\<close>

theorem ws_recv_frame:
  assumes "\<And>j. 0 < j \<Longrightarrow> j \<le> Suc k \<Longrightarrow> clk j - clk 0 \<le> 8000" and "\<forall>p \<in> set ps. p \<noteq> []" and "d = p0 @ concat ps"
    and "length d \<le> length result" and "n < 2 ^ 31" and "length d = n \<and> tail = r \<or> length d < n \<and> tail = Timeout # r"
  shows "cm_websocket_request_recv clk
      (Some (c\<lparr>incoming := replicate k Timeout @ Chunk (rfc_header b0 n @ p0) # map Chunk ps @ tail\<rparr>)) result =
    Some (0, Some (int n), d @ drop (length d) result, Some (c\<lparr>incoming := r\<rparr>))"
proof -
  have intime: "\<not> 8000 < clk (Suc k) - clk 0" using assms(1) [of "Suc k"] by simp
  have "Chunk (rfc_header b0 n @ p0) # map Chunk ps @ tail = arrived (rfc_header b0 n @ p0) (map Chunk ps @ tail)"
    by (simp add: arrived_def rfc_header_def)
  moreover obtain m h where h: "cm_websocket_request_read (c\<lparr>incoming := arrived (rfc_header b0 n @ p0) (map Chunk ps @ tail)\<rparr>) ws_header_zero =
      Some (m, c\<lparr>incoming := arrived p0 (map Chunk ps @ tail)\<rparr>, h)" "0 < m" "ullPayloadLength h = of_nat n"
    using read_frame_head [where n = n and c = c and ?b0.0 = b0 and p = p0 and r = "map Chunk ps @ tail" and h = ws_header_zero] assms(5) by auto
  moreover have "to_int32 (of_nat n) = int n"
    using assms(5) by (simp add: to_int32_def unsigned_of_nat take_bit_nat_eq_self sint_uint signed_take_bit_int_eq_self)
  moreover have "ends_body (int n - (0 + int (length (p0 @ concat ps)))) tail r"
    using assms(3,6) by (auto simp: ends_body_def)
  then have "body_loop (c\<lparr>incoming := arrived p0 (map Chunk ps @ tail)\<rparr>) result 0 (int n) (int n) =
      Some (0, int n, d @ drop (length d) result, c\<lparr>incoming := r\<rparr>)"
    using body_chunks [OF assms(2), where data_pos = 0 and ?p0.0 = p0 and result = result and readlen = "int n" and tail = tail and r = r and c = c] assms(3,4) by simp
  ultimately have "recv_passes clk (clk 0) (1 + k) (c\<lparr>incoming := Chunk (rfc_header b0 n @ p0) # map Chunk ps @ tail\<rparr>) ws_header_zero result =
      Some (0, Some (int n), d @ drop (length d) result, c\<lparr>incoming := r\<rparr>)" using intime
    by (subst recv_passes.simps) simp
  then show ?thesis
    using recv_passes_waits [where i = 1 and k = k and clk = clk and t = "clk 0" and c = c and r = "Chunk (rfc_header b0 n @ p0) # map Chunk ps @ tail" and h = ws_header_zero and result = result] assms(1)
    by (simp add: cm_websocket_request_recv_def)
qed

text \<open>In the middle of the header a pause makes the pass give up what it has read, so that the next pass takes
  the rest for the beginning of a frame.\<close>

theorem ws_recv_pause:
  "\<exists>h'. cm_websocket_request_read (c\<lparr>incoming := Chunk [b0] # Timeout # r\<rparr>) h = Some (0, c\<lparr>incoming := r\<rparr>, h')"
  by (simp add: cm_websocket_request_read_def cm_conn_tcp_recv_simple_def idx_def Let_def)

section \<open>The parser of the library\<close>

text \<open>\<open>cm_ws_parse_frame_header\<close> reads the short headers that \<open>cm_ws_generate_frame_head\<close> makes: end flag, text
  opcode, mask bit, length, and, without a mask, where the payload begins. With a mask the key is taken from
  offset 11, which is never where it is: the parser reads behind the frame when that ends before, and
  otherwise takes bytes of the payload for the key.\<close>

theorem ws_header_roundtrip:
  assumes "allocates fresh" and "n < 0xFFFF" and "length key = 4"
  shows "\<exists>w w' h. cm_ws_generate_frame_head fresh (ws_header 0 key n) = Some (w, int (length w)) \<and>
      cm_ws_parse_frame_header (w @ d) = Some (0, h) \<and> cFin h = 1 \<and> cOpcode h = 1 \<and> cMask h = 0 \<and>
      ullPayloadLength h = of_nat n \<and> pData h = Some (length w) \<and> iHeaderLength h = int (length w) \<and>
    cm_ws_generate_frame_head fresh (ws_header 1 key n) = Some (w', int (length w')) \<and>
    (case cm_ws_parse_frame_header (w' @ d) of
       None \<Rightarrow> length (w' @ d) < 15
     | Some (r, h') \<Rightarrow> cMask h' = 1 \<and> ullPayloadLength h' = of_nat n \<and> cMasking_key h' = take 4 (drop (11 - length w') d))"
proof -
  have fields: "of_bool ((0x81 :: u8) AND 0x80 = 0x80) = (1 :: u8)" "(0x81 :: u8) AND 0x0F = 1" by simp_all
  have pars: "cm_ws_parse_frame_header (short_head m n @ x) =
      do { key \<leftarrow> (if m = 0x80 then mem_read (short_head m n @ x) 11 4 else Some (replicate 4 0));
        let l = length (short_head m n);
        Some (0, ws_header_zero\<lparr>cFin := 1, cOpcode := 1, cMask := of_bool (m = 0x80), ullPayloadLength := of_nat n,
          cMasking_key := key, pData := Some (if m = 0x80 then l + 4 else l), iHeaderLength := int (if m = 0x80 then l + 4 else l)\<rparr>) }"
    if m: "m = 0 \<or> m = 0x80" for m x
  proof (cases "n < 126")
    case True
    have "ucast ((of_nat n OR m) AND 0x7F) = (of_nat n :: u64)"
      using m mask_bit(2) [of "of_nat n"] length_byte_bits(1) [of n] True by auto
    moreover have "(of_nat n OR m) AND 0x80 = 0x80 \<longleftrightarrow> m = 0x80"
      using m mask_bit(1) [of "of_nat n"] length_byte_bits(2) [of n] True by auto
    moreover have "(of_nat n :: u64) \<noteq> 126" "(of_nat n :: u64) \<noteq> 127" using True by (simp_all add: word_unat_eq_iff unat_of_nat)
    ultimately show ?thesis using True fields
      by (simp add: cm_ws_parse_frame_header_def short_head_def idx_def Let_def ws_header_zero_def)
  next
    case False
    have "ucast (((126 :: u8) OR m) AND 0x7F) = (126 :: u64)" "((126 :: u8) OR m) AND 0x80 = 0x80 \<longleftrightarrow> m = 0x80"
      using m by auto
    then show ?thesis using False fields two_bytes_value [of n] assms(2)
      by (simp add: cm_ws_parse_frame_header_def short_head_def idx_def Let_def ws_header_zero_def be_bytes_2)
  qed
  have "take 4 (drop 11 ((short_head 0x80 n @ key) @ d)) = take 4 (drop (11 - length (short_head 0x80 n @ key)) d)"
    using assms(3) by (simp add: short_head_def)
  then show ?thesis using generate_short [OF assms] pars [of 0 d] pars [of "0x80" "key @ d"] assms(3)
    by (intro exI [of _ "short_head 0 n"] exI [of _ "short_head 0x80 n @ key"])
      (auto simp: mem_read_def ws_header_zero_def Let_def)
qed

section \<open>Examples\<close>

definition some_block :: "nat \<Rightarrow> u8 list option" where "some_block n = Some (replicate n 0xAA)"
definition takes_half :: "nat \<Rightarrow> nat \<Rightarrow> int" where "takes_half i n = int (n - n div 2)"
definition idle_tcp :: CMConnTCP where "idle_tcp = \<lparr>incoming = [], outgoing = [], conn_status = 1\<rparr>"

lemma environment_ok: "allocates some_block" "accepting takes_half"
  by (auto simp: allocates_def some_block_def accepting_def takes_half_def)

theorem ws_request_rfc_witness:
  "\<exists>w key. cm_websocket_request some_block (\<lambda>i. i) takes_half (\<lambda>i. 0) idle_tcp False [0x68, 0x69, 0x21] 2 [] =
      Some (int (length w), masked key (take 2 [0x68, 0x69, 0x21]) @ drop 2 [0x68, 0x69, 0x21], None, [],
        idle_tcp\<lparr>outgoing := outgoing idle_tcp @ w\<rparr>) \<and>
    (\<forall>r. rfc_decode (w @ r) = Some (True, 1, take 2 [0x68, 0x69, 0x21], r))"
  by (rule ws_request_rfc [OF environment_ok]) simp_all

theorem ws_long_request_broken_witness:
  "\<exists>w key g. cm_websocket_request some_block (\<lambda>i. i) takes_half (\<lambda>i. 0) idle_tcp False (replicate 65535 7) 65535 [] =
      Some (int (length w), masked key (take 65535 (replicate 65535 7)) @ drop 65535 (replicate 65535 7), None, [],
        idle_tcp\<lparr>outgoing := outgoing idle_tcp @ w\<rparr>) \<and>
    length key = 4 \<and> length g = 2 \<and>
    rfc_decode w = Some (True, 1,
      masked (g @ take 2 key) (drop 2 key @ take (65535 - 2) (masked key (take 65535 (replicate 65535 7)))),
      drop (65535 - 2) (masked key (take 65535 (replicate 65535 7))))"
  by (rule ws_long_request_broken [OF environment_ok]) simp_all

theorem ws_recv_frame_witness:
  "cm_websocket_request_recv (\<lambda>i. 1000 * of_nat i) (Some (idle_tcp\<lparr>incoming := replicate 2 Timeout @
      Chunk (rfc_header 0x81 3 @ [1]) # map Chunk [[2], [3]] @ [Timeout]\<rparr>)) [9, 9, 9, 9] =
    Some (0, Some (int 3), [1, 2, 3] @ drop (length [1 :: u8, 2, 3]) [9, 9, 9, 9], Some (idle_tcp\<lparr>incoming := [Timeout]\<rparr>)) \<and>
   cm_websocket_request_recv (\<lambda>i. 1000 * of_nat i) (Some (idle_tcp\<lparr>incoming := replicate 2 Timeout @
      Chunk (rfc_header 0x81 3 @ [1]) # map Chunk [] @ Timeout # [Chunk [2, 3]]\<rparr>)) [9, 9, 9, 9] =
    Some (0, Some (int 3), [1] @ drop (length [1 :: u8]) [9, 9, 9, 9], Some (idle_tcp\<lparr>incoming := [Chunk [2, 3]]\<rparr>))"
proof
  have clk: "1000 * of_nat j - 1000 * of_nat 0 \<le> (8000 :: u64)" if "0 < j" "j \<le> Suc 2" for j :: nat
  proof -
    have "j \<in> {1, 2, 3}" using that by auto
    then show ?thesis by auto
  qed
  show "cm_websocket_request_recv (\<lambda>i. 1000 * of_nat i) (Some (idle_tcp\<lparr>incoming := replicate 2 Timeout @
      Chunk (rfc_header 0x81 3 @ [1]) # map Chunk [[2], [3]] @ [Timeout]\<rparr>)) [9, 9, 9, 9] =
    Some (0, Some (int 3), [1, 2, 3] @ drop (length [1 :: u8, 2, 3]) [9, 9, 9, 9], Some (idle_tcp\<lparr>incoming := [Timeout]\<rparr>))"
    by (rule ws_recv_frame [where clk = "\<lambda>i. 1000 * of_nat i", OF clk]) simp_all
  show "cm_websocket_request_recv (\<lambda>i. 1000 * of_nat i) (Some (idle_tcp\<lparr>incoming := replicate 2 Timeout @
      Chunk (rfc_header 0x81 3 @ [1]) # map Chunk [] @ Timeout # [Chunk [2, 3]]\<rparr>)) [9, 9, 9, 9] =
    Some (0, Some (int 3), [1] @ drop (length [1 :: u8]) [9, 9, 9, 9], Some (idle_tcp\<lparr>incoming := [Chunk [2, 3]]\<rparr>))"
    by (rule ws_recv_frame [where clk = "\<lambda>i. 1000 * of_nat i", OF clk]) simp_all
qed

theorem ws_header_roundtrip_witness:
  "\<exists>w w' h. cm_ws_generate_frame_head some_block (ws_header 0 [1, 2, 3, 4] 300) = Some (w, int (length w)) \<and>
      cm_ws_parse_frame_header (w @ [5]) = Some (0, h) \<and> cFin h = 1 \<and> cOpcode h = 1 \<and> cMask h = 0 \<and>
      ullPayloadLength h = of_nat 300 \<and> pData h = Some (length w) \<and> iHeaderLength h = int (length w) \<and>
    cm_ws_generate_frame_head some_block (ws_header 1 [1, 2, 3, 4] 300) = Some (w', int (length w')) \<and>
    (case cm_ws_parse_frame_header (w' @ [5]) of
       None \<Rightarrow> length (w' @ [5]) < 15
     | Some (r, h') \<Rightarrow> cMask h' = 1 \<and> ullPayloadLength h' = of_nat 300 \<and> cMasking_key h' = take 4 (drop (11 - length w') [5]))"
  by (rule ws_header_roundtrip [OF environment_ok(1)]) simp_all

end
