(* ===== verification/CmHttp.thy ===== *)
theory CmHttp
  imports CodeUtils Base64
begin

text \<open>
  The HTTP client texts of src/common/cm_http.c: requests and the answers to them, the handshake of a
  WebSocket, and the upload of a file as a form with several parts. Headers are records of character
  arrays; the members that no function reads are left out. \<open>stat\<close> and the random numbers are
  arguments. A text with \<open>%s\<close> of an array without terminator is undefined.
\<close>

section \<open>Headers and messages\<close>

definition QUOTE :: string where "QUOTE = [CHR 0x22]"

record CMHttpExt =
  ext_key :: "char list"
  ext_value :: "char list"
  ext_str :: "char list"

record CMHttpHeader =
  szMethod :: "char list"
  iVersionMajor :: int
  iVersionMinor :: int
  szURL :: "char list"
  szUserAgent :: "char list"
  szContentType :: "char list"
  szContentLength :: int
  szConnection :: "char list"
  szFileHeader :: "char list"
  szReferer :: "char list"
  szPath :: "char list"
  szBoundary :: "char list"
  szLastBoundary :: "char list"
  szHost :: "char list"
  szOrigin :: "char list"
  szUploadKeyname :: "char list"
  szUploadFilename :: "char list"
  iExtIndex :: int
  szExt :: "CMHttpExt list"
  iExtLength :: int
  iUpgrade :: int
  szWSUpgrade :: "char list"
  szWSKey :: "char list"
  szWSProtocol :: "char list"
  iWSVersion :: int

record CMHttpMessage =
  iResponse :: int
  szHeader :: CMHttpHeader
  msg_data :: "string option"

definition ext_zero :: CMHttpExt where
  "ext_zero = \<lparr>ext_key = zeros 64, ext_value = zeros 128, ext_str = zeros 1024\<rparr>"

definition http_header_zero :: CMHttpHeader where
  "http_header_zero =
     \<lparr>szMethod = zeros 8, iVersionMajor = 0, iVersionMinor = 0, szURL = zeros 256, szUserAgent = zeros 512,
      szContentType = zeros 32, szContentLength = 0, szConnection = zeros 32, szFileHeader = zeros 2048,
      szReferer = zeros 512, szPath = zeros 64, szBoundary = zeros 64, szLastBoundary = zeros 128, szHost = zeros 128,
      szOrigin = zeros 128, szUploadKeyname = zeros 128, szUploadFilename = zeros 1024, iExtIndex = 0,
      szExt = replicate 16 ext_zero, iExtLength = 0, iUpgrade = 0, szWSUpgrade = zeros 16, szWSKey = zeros 32,
      szWSProtocol = zeros 32, iWSVersion = 0\<rparr>"

section \<open>Requests and answers\<close>

text \<open>The position of \<open>strstr\<close> as the rest of the text.\<close>

definition strstr_rest :: "string \<Rightarrow> string \<Rightarrow> string option" where
  "strstr_rest s t = map_option (\<lambda>k. drop k s) (strstr s t)"

definition cm_http_parse_url :: "string \<Rightarrow> char list \<Rightarrow> (int \<times> char list \<times> int) option" where
  "cm_http_parse_url origin addr = do {
     p \<leftarrow> (case strstr_rest origin ''/'' of
         Some p \<Rightarrow> if 2 \<le> length p then Some (drop 2 p) else None
       | None \<Rightarrow> Some origin);
     (n, port) \<leftarrow> (case strstr p '':'' of
         Some k \<Rightarrow> do {
           portstr \<leftarrow> strncpy_to (zeros 8) (drop (k + 1) p) 8;
           s \<leftarrow> cstr portstr;
           port \<leftarrow> atoi s;
           Some (k, port)
         }
       | None \<Rightarrow> Some (length p, 80));
     addr \<leftarrow> strncpy_to addr p n;
     Some (0, addr, port)
   }"

definition cm_http_parse_response_data :: "string option \<Rightarrow> char list option \<Rightarrow> int \<Rightarrow> (int \<times> char list option) option" where
  "cm_http_parse_response_data origin data maxdata = (case (origin, data) of
     (Some origin, Some d) \<Rightarrow>
       if maxdata \<le> 0 then Some (- 1, data)
       else (case strstr_rest origin ''Content-Length: '' of
         None \<Rightarrow> Some (- 2, data)
       | Some p \<Rightarrow> do {
           let p = drop 16 p;
           let pe = strstr p CRLF;
           reslenstr \<leftarrow> (case pe of
               Some tlen \<Rightarrow> strncpy_to (zeros 16) p (if tlen < 16 then tlen else 16)
             | None \<Rightarrow> Some (zeros 16));
           s \<leftarrow> cstr reslenstr;
           datalen \<leftarrow> atoi s;
           if datalen > 10240 then Some (- 3, data)
           else do {
             k \<leftarrow> pe;
             if k + 4 \<le> length p then do {
               d \<leftarrow> strncpy_to d (drop (k + 4) p) (nat ((if datalen > maxdata then maxdata else datalen) mod 2 ^ 64));
               Some (datalen, Some d)
             }
             else None
           }
         })
   | _ \<Rightarrow> Some (- 1, data))"

definition cm_http_generate_header :: "string \<Rightarrow> string \<Rightarrow> (int \<times> CMHttpHeader) option" where
  "cm_http_generate_header method url = do {
     let h = http_header_zero;
     m \<leftarrow> snprintf_to (szMethod h) 8 method;
     u \<leftarrow> snprintf_to (szURL h) 256 url;
     c \<leftarrow> snprintf_to (szConnection h) 32 ''close'';
     Some (0, h\<lparr>szMethod := m, iVersionMajor := 1, iVersionMinor := 1, szURL := u, szConnection := c\<rparr>)
   }"

text \<open>The header of the caller gets the length too.\<close>

definition cm_http_generate_msg :: "CMHttpHeader \<Rightarrow> string option \<Rightarrow> int \<Rightarrow> int \<times> CMHttpMessage \<times> CMHttpHeader" where
  "cm_http_generate_msg header data len =
     (let header = header\<lparr>szContentLength := len\<rparr> in
      (0, \<lparr>iResponse = 0, szHeader = header, msg_data = data\<rparr>, header))"

text \<open>\<open>snprintf\<close> returns the length of the whole text; a negative size is a huge one.\<close>

definition snprintf_n :: "char list \<Rightarrow> int \<Rightarrow> string \<Rightarrow> (int \<times> char list) option" where
  "snprintf_n a n s = do { a \<leftarrow> snprintf_to a (nat (n mod 2 ^ 64)) s; Some (int (length s), a) }"

definition cm_http_generate_str :: "CMHttpMessage \<Rightarrow> char list \<Rightarrow> int \<Rightarrow> (int \<times> char list) option" where
  "cm_http_generate_str msg result maxresult = do {
     let h = szHeader msg;
     method \<leftarrow> cstr (szMethod h);
     url \<leftarrow> cstr (szURL h);
     host \<leftarrow> cstr (szHost h);
     conn \<leftarrow> cstr (szConnection h);
     agent \<leftarrow> cstr (szUserAgent h);
     data \<leftarrow> msg_data msg;
     snprintf_n result maxresult
       (method @ '' '' @ url @ '' HTTP/'' @ fmt_d (iVersionMajor h) @ ''.'' @ fmt_d (iVersionMinor h) @ CRLF @
        ''Host: '' @ host @ CRLF @
        ''Connection: '' @ conn @ CRLF @
        ''User-Agent: '' @ agent @ CRLF @
        ''Accept: text/plain'' @ CRLF @
        ''Accept-Encoding: gzip,deflate'' @ CRLF @
        ''Accept-Language: zh-CN,zh;q=0.8,nb;q=0.6'' @ CRLF @
        ''Content-Length: '' @ fmt_d (szContentLength h) @ CRLF @
        CRLF @ data)
   }"

section \<open>The handshake of a WebSocket\<close>

definition cm_http_ws_generate_key :: "(nat \<Rightarrow> nat) \<Rightarrow> char list \<Rightarrow> nat \<Rightarrow> (int \<times> char list \<times> nat) option" where
  "cm_http_ws_generate_key rand key len = do {
     (r, gen) \<leftarrow> cm_random_with_num_char rand (zeros 18) 16;
     (r, key, len) \<leftarrow> cm_base64_encode (bytes_of key) len (bytes_of gen) 16;
     Some (0, text_of key, len)
   }"

definition cm_http_ws_header_init :: "(nat \<Rightarrow> nat) \<Rightarrow> string \<Rightarrow> string \<Rightarrow> int \<Rightarrow> (int \<times> CMHttpHeader) option" where
  "cm_http_ws_header_init rand url addr port = do {
     let h = http_header_zero;
     method \<leftarrow> snprintf_to (szMethod h) 8 ''GET'';
     u \<leftarrow> snprintf_to (szURL h) 256 url;
     host \<leftarrow> snprintf_to (szHost h) 128 (addr @ '':'' @ fmt_d port);
     origin \<leftarrow> snprintf_to (szOrigin h) 128 (''http://'' @ addr);
     (r, key, n) \<leftarrow> cm_http_ws_generate_key rand (szWSKey h) 32;
     conn \<leftarrow> snprintf_to (szConnection h) 32 ''Upgrade'';
     proto \<leftarrow> snprintf_to (szWSProtocol h) 32 ''chat, superchat'';
     up \<leftarrow> snprintf_to (szWSUpgrade h) 16 ''websocket'';
     agent \<leftarrow> snprintf_to (szUserAgent h) 512 ''yt-client'';
     Some (0, h\<lparr>iVersionMajor := 1, iVersionMinor := 1, szMethod := method, szURL := u, szHost := host, szOrigin := origin,
       szWSKey := key, szConnection := conn, szWSProtocol := proto, szWSUpgrade := up, szUserAgent := agent,
       iWSVersion := 13, iUpgrade := 1\<rparr>)
   }"

definition cm_http_ws_generate_str :: "CMHttpHeader \<Rightarrow> char list \<Rightarrow> int \<Rightarrow> (int \<times> char list) option" where
  "cm_http_ws_generate_str h result maxresult =
     (if iUpgrade h = 0 then Some (0, result)
      else do {
        method \<leftarrow> cstr (szMethod h);
        url \<leftarrow> cstr (szURL h);
        host \<leftarrow> cstr (szHost h);
        up \<leftarrow> cstr (szWSUpgrade h);
        conn \<leftarrow> cstr (szConnection h);
        key \<leftarrow> cstr (szWSKey h);
        origin \<leftarrow> cstr (szOrigin h);
        agent \<leftarrow> cstr (szUserAgent h);
        snprintf_n result maxresult
          (method @ '' '' @ url @ '' HTTP/'' @ fmt_d (iVersionMajor h) @ ''.'' @ fmt_d (iVersionMinor h) @ CRLF @
           ''Host: '' @ host @ CRLF @
           ''Upgrade: '' @ up @ CRLF @
           ''Connection: '' @ conn @ CRLF @
           ''Sec-WebSocket-Key: '' @ key @ CRLF @
           ''Origin: '' @ origin @ CRLF @
           ''Sec-WebSocket-Version: '' @ fmt_d (iWSVersion h) @ CRLF @
           ''UserAgent: '' @ agent @ CRLF @
           CRLF)
      })"

text \<open>\<open>sscanf(str, "%s %d %s\r\n", version, &resultcode, other)\<close>: the number of conversions, and the code.\<close>

definition scan_word :: "string \<Rightarrow> (string \<times> string) option" where
  "scan_word s = (let t = dropWhile is_space s; w = takeWhile (\<lambda>c. \<not> is_space c) t in
     if w = [] then None else Some (w, dropWhile (\<lambda>c. \<not> is_space c) t))"

definition scan_int :: "string \<Rightarrow> (int \<times> string) option" where
  "scan_int s = (let t = dropWhile is_space s;
       u = (case t of c # r \<Rightarrow> if c = CHR ''-'' \<or> c = CHR ''+'' then r else t | [] \<Rightarrow> []) in
     if takeWhile is_digit u = [] then None else Some (strtol_val t, dropWhile is_digit u))"

definition scan_status :: "string \<Rightarrow> (int \<times> int) option" where
  "scan_status str = (case scan_word str of
     None \<Rightarrow> Some (- 1, 0)
   | Some (w, r) \<Rightarrow> do {
       version \<leftarrow> sprintf_to (zeros 32) w;
       case scan_int r of
         None \<Rightarrow> Some (1, 0)
       | Some (v, r) \<Rightarrow> do {
           code \<leftarrow> c_int v;
           case scan_word r of
             None \<Rightarrow> Some (2, code)
           | Some (w, r) \<Rightarrow> do { other \<leftarrow> sprintf_to (zeros 32) w; Some (3, code) }
         }
     })"

definition cm_http_ws_parser_result_code :: "string \<Rightarrow> nat \<Rightarrow> int option" where
  "cm_http_ws_parser_result_code str len = do {
     (n, resultcode) \<leftarrow> scan_status str;
     Some (if n < 2 then - 1 else if resultcode = 101 then 1 else 0)
   }"

section \<open>Uploading a file\<close>

definition cm_http_upload_init ::
  "int option \<Rightarrow> (nat \<Rightarrow> nat) \<Rightarrow> CMHttpMessage \<Rightarrow> string \<Rightarrow> string \<Rightarrow> string \<Rightarrow> (int \<times> CMHttpMessage) option" where
  "cm_http_upload_init st rand msg url path filename = (case st of
     None \<Rightarrow> Some (- 1, msg)
   | Some fsize \<Rightarrow> do {
       let h = http_header_zero;
       p \<leftarrow> snprintf_to (szPath h) 64 path;
       host \<leftarrow> snprintf_to (szHost h) 128 url;
       origin \<leftarrow> snprintf_to (szOrigin h) 128 (''http://'' @ url);
       fname \<leftarrow> snprintf_to (szUploadFilename h) 1024 filename;
       key \<leftarrow> sprintf_to (szUploadKeyname h) ''uploadfile'';
       ctype \<leftarrow> sprintf_to (szContentType h) ''application/octet-stream'';
       where_to \<leftarrow> (case strstr path ''?'' of
           Some pl \<Rightarrow> do { pp \<leftarrow> strncpy_to (zeros 64) path pl; cstr pp }
         | None \<Rightarrow> Some path);
       referer \<leftarrow> snprintf_to (szReferer h) 512 (''http://'' @ url @ ''/'' @ where_to);
       (r, ramvalue) \<leftarrow> cm_random_with_num_char rand (zeros 18) 16;
       ram \<leftarrow> cstr ramvalue;
       boundary \<leftarrow> snprintf_to (szBoundary h) 64 (''----------------------'' @ ram);
       Some (0, \<lparr>iResponse = 0, szHeader = h\<lparr>iVersionMajor := 1, iVersionMinor := 1, szPath := p, szHost := host,
         szOrigin := origin, szUploadFilename := fname, szUploadKeyname := key, szContentType := ctype,
         szReferer := referer, szBoundary := boundary, szContentLength := fsize\<rparr>, msg_data = None\<rparr>)
     })"

definition on_header :: "(CMHttpHeader \<Rightarrow> CMHttpHeader) \<Rightarrow> CMHttpMessage \<Rightarrow> CMHttpMessage" where
  "on_header f msg = msg\<lparr>szHeader := f (szHeader msg)\<rparr>"

definition cm_http_upload_ext_add :: "CMHttpMessage option \<Rightarrow> string option \<Rightarrow> string option \<Rightarrow> (int \<times> CMHttpMessage option) option" where
  "cm_http_upload_ext_add msg key val = (case (msg, key, val) of
     (Some m, Some k, Some v) \<Rightarrow> do {
       let i = iExtIndex (szHeader m);
       index \<leftarrow> c_int (i + 1);
       e \<leftarrow> (if i < 0 then None else idx (szExt (szHeader m)) (nat i));
       a \<leftarrow> strncpy_to (ext_key e) k 64;
       b \<leftarrow> strncpy_to (ext_value e) v 128;
       es \<leftarrow> upd (szExt (szHeader m)) (nat i) (e\<lparr>ext_key := a, ext_value := b\<rparr>);
       Some (0, Some (on_header (\<lambda>h. h\<lparr>iExtIndex := index, szExt := es\<rparr>) m))
     }
   | _ \<Rightarrow> Some (- 1, msg))"

text \<open>The head of the part that holds the file.\<close>

definition file_text :: "string \<Rightarrow> string \<Rightarrow> string \<Rightarrow> string \<Rightarrow> string" where
  "file_text boundary keyname fname contenttype =
     ''--'' @ boundary @ CRLF @
     ''Content-Disposition: form-data; name='' @ QUOTE @ keyname @ QUOTE @ ''; filename='' @ QUOTE @ fname @ QUOTE @ CRLF @
     ''Content-Type: '' @ contenttype @ CRLF @ CRLF"

definition cm_http_upload_gen_file :: "CMHttpHeader \<Rightarrow> string option \<Rightarrow> string option \<Rightarrow> char list \<Rightarrow> int \<Rightarrow> (int \<times> char list) option" where
  "cm_http_upload_gen_file h keyname contenttype result maxresult = do {
     boundary \<leftarrow> cstr (szBoundary h);
     fname \<leftarrow> cstr (szUploadFilename h);
     snprintf_n result maxresult
       (file_text boundary (case keyname of None \<Rightarrow> ''uploadfile'' | Some k \<Rightarrow> k) fname
          (case contenttype of None \<Rightarrow> ''application/octet-stream'' | Some t \<Rightarrow> t))
   }"

text \<open>One additional part, with the line break that ends the part before it.\<close>

definition ext_text :: "string \<Rightarrow> string \<Rightarrow> string \<Rightarrow> string" where
  "ext_text boundary key val =
     CRLF @ ''--'' @ boundary @ CRLF @
     ''Content-Disposition: form-data; name='' @ QUOTE @ key @ QUOTE @ CRLF @ CRLF @ val"

definition last_boundary :: "string \<Rightarrow> string" where
  "last_boundary boundary = CRLF @ ''--'' @ boundary @ ''--'' @ CRLF"

fun gen_ext_loop :: "string \<Rightarrow> CMHttpExt list \<Rightarrow> nat \<Rightarrow> nat \<Rightarrow> int \<Rightarrow> (CMHttpExt list \<times> int) option" where
  "gen_ext_loop boundary es i 0 len = Some (es, len)"
| "gen_ext_loop boundary es i (Suc n) len = do {
     e \<leftarrow> idx es i;
     k \<leftarrow> cstr (ext_key e);
     v \<leftarrow> cstr (ext_value e);
     s \<leftarrow> snprintf_to (ext_str e) 1024 (ext_text boundary k v);
     es \<leftarrow> upd es i (e\<lparr>ext_str := s\<rparr>);
     t \<leftarrow> cstr s;
     len \<leftarrow> c_int (len + int (length t));
     gen_ext_loop boundary es (i + 1) n len
   }"

definition cm_http_upload_gen_ext :: "CMHttpMessage \<Rightarrow> (int \<times> CMHttpMessage) option" where
  "cm_http_upload_gen_ext msg = do {
     boundary \<leftarrow> cstr (szBoundary (szHeader msg));
     (es, len) \<leftarrow> gen_ext_loop boundary (szExt (szHeader msg)) 0 (nat (iExtIndex (szHeader msg))) 0;
     Some (0, on_header (\<lambda>h. h\<lparr>szExt := es, iExtLength := len\<rparr>) msg)
   }"

definition post_text :: "CMHttpHeader \<Rightarrow> string option" where
  "post_text h = do {
     path \<leftarrow> cstr (szPath h);
     host \<leftarrow> cstr (szHost h);
     referer \<leftarrow> cstr (szReferer h);
     origin \<leftarrow> cstr (szOrigin h);
     boundary \<leftarrow> cstr (szBoundary h);
     Some (''POST /'' @ path @ '' HTTP/'' @ fmt_d (iVersionMajor h) @ ''.'' @ fmt_d (iVersionMinor h) @ CRLF @
       ''Host: '' @ host @ CRLF @
       ''Referer: '' @ referer @ CRLF @
       ''Origin: '' @ origin @ CRLF @
       ''Accept: */*'' @ CRLF @
       ''Content-Type: multipart/form-data; boundary='' @ boundary @ CRLF @
       ''User-Agent: cm'' @ CRLF @
       ''Content-Length: '' @ fmt_d (szContentLength h) @ CRLF @ CRLF)
   }"

definition cm_http_upload_generate :: "CMHttpMessage option \<Rightarrow> char list option \<Rightarrow> int \<Rightarrow>
    (int \<times> CMHttpMessage option \<times> char list option) option" where
  "cm_http_upload_generate msg result maxresult = (case (msg, result) of
     (Some m, Some res) \<Rightarrow>
       if maxresult = 0 then Some (- 1, msg, result)
       else do {
         key \<leftarrow> cstr (szUploadKeyname (szHeader m));
         ctype \<leftarrow> cstr (szContentType (szHeader m));
         (r, fh) \<leftarrow> cm_http_upload_gen_file (szHeader m) (Some key) (Some ctype) (szFileHeader (szHeader m)) 2048;
         let m = on_header (\<lambda>h. h\<lparr>szFileHeader := fh\<rparr>) m;
         (r, m) \<leftarrow> cm_http_upload_gen_ext m;
         boundary \<leftarrow> cstr (szBoundary (szHeader m));
         lb \<leftarrow> snprintf_to (szLastBoundary (szHeader m)) 128 (last_boundary boundary);
         let m = on_header (\<lambda>h. h\<lparr>szLastBoundary := lb\<rparr>) m;
         fht \<leftarrow> cstr (szFileHeader (szHeader m));
         lbt \<leftarrow> cstr lb;
         len \<leftarrow> c_int (szContentLength (szHeader m) + iExtLength (szHeader m) + int (length fht) + int (length lbt));
         let m = on_header (\<lambda>h. h\<lparr>szContentLength := len\<rparr>) m;
         post \<leftarrow> post_text (szHeader m);
         (n, res) \<leftarrow> snprintf_n res maxresult post;
         Some (n, Some m, Some res)
       }
   | _ \<Rightarrow> Some (- 1, msg, result))"

text \<open>The texts that are sent behind the header.\<close>

definition cm_http_upload_fileheader :: "CMHttpMessage \<Rightarrow> (int \<times> string) option" where
  "cm_http_upload_fileheader msg = do { s \<leftarrow> cstr (szFileHeader (szHeader msg)); Some (int (length s), s) }"

definition cm_http_upload_lastboundary :: "CMHttpMessage \<Rightarrow> (int \<times> string) option" where
  "cm_http_upload_lastboundary msg = do { s \<leftarrow> cstr (szLastBoundary (szHeader msg)); Some (int (length s), s) }"

text \<open>\<open>Some None\<close> is the null pointer for a wrong index.\<close>

definition cm_http_upload_ext_string :: "CMHttpMessage \<Rightarrow> int \<Rightarrow> (int \<times> string) option option" where
  "cm_http_upload_ext_string msg index =
     (if index < 0 \<or> index \<ge> iExtIndex (szHeader msg) then Some None
      else do {
        e \<leftarrow> idx (szExt (szHeader msg)) (nat index);
        s \<leftarrow> cstr (ext_str e);
        Some (Some (int (length s), s))
      })"

text \<open>The pointer \<open>p\<close> into the result is an offset.\<close>

fun ext_data_loop :: "string \<Rightarrow> CMHttpExt list \<Rightarrow> nat \<Rightarrow> nat \<Rightarrow> char list \<Rightarrow> nat \<Rightarrow> int \<Rightarrow> (char list \<times> nat \<times> int) option" where
  "ext_data_loop boundary es i 0 result p remain = Some (result, p, remain)"
| "ext_data_loop boundary es i (Suc n) result p remain = do {
     e \<leftarrow> idx es i;
     k \<leftarrow> cstr (ext_key e);
     v \<leftarrow> cstr (ext_value e);
     a \<leftarrow> snprintf_to (drop p result) (nat (remain mod 2 ^ 64)) (ext_text boundary k v);
     t \<leftarrow> cstr a;
     ext_data_loop boundary es (i + 1) n (take p result @ a) (p + length t) (remain - int (length t))
   }"

definition cm_http_upload_ext_data :: "CMHttpMessage option \<Rightarrow> char list option \<Rightarrow> int \<Rightarrow> (int \<times> char list option) option" where
  "cm_http_upload_ext_data msg result maxlen = (case (msg, result) of
     (Some m, Some res) \<Rightarrow> do {
       boundary \<leftarrow> cstr (szBoundary (szHeader m));
       (res, p, remain) \<leftarrow> ext_data_loop boundary (szExt (szHeader m)) 0 (nat (iExtIndex (szHeader m))) res 0 maxlen;
       lb \<leftarrow> cstr (szLastBoundary (szHeader m));
       a \<leftarrow> strncpy_to (drop p res) lb (nat (remain mod 2 ^ 64));
       Some (0, Some (take p res @ a))
     }
   | _ \<Rightarrow> Some (- 1, result))"

end
