(* ===== verification/CmHttp_Correct.thy ===== *)
theory CmHttp_Correct
  imports CmHttp
begin

text \<open>
  Correctness of the HTTP texts: an upload announces as many bytes as it sends, an answer is read back,
  and where the parsers leave their memory.
\<close>

section \<open>Texts in arrays\<close>

lemma CRLF_simps [simp]: "length CRLF = 2" "NUL \<notin> set CRLF" "length QUOTE = 1" "NUL \<notin> set QUOTE"
  by (simp_all add: CRLF_def QUOTE_def NUL_def)

lemma snprintf_fits:
  assumes "length s < n" and "n \<le> length a" and "NUL \<notin> set s"
  shows "\<exists>b. snprintf_to a n s = Some b \<and> cstr b = Some s \<and> length b = length a"
proof -
  have "snprintf_to a n s = Some (s @ NUL # drop (Suc (length s)) a)" using assms by (simp add: snprintf_to_Some)
  then show ?thesis using assms by simp
qed

lemma snprintf_n_cstr:
  assumes "NUL \<notin> set s" and "0 < n" and "n \<le> int (length a)" and "n < 2 ^ 64"
  shows "\<exists>b. snprintf_n a n s = Some (int (length s), b) \<and> cstr b = Some (take (nat n - 1) s) \<and> length b = length a"
proof -
  have n: "0 < nat n" "nat n \<le> length a" "n mod 2 ^ 64 = n" using assms by auto
  have "\<exists>b. snprintf_to a (nat n) s = Some b" using n by (simp add: snprintf_to_Some)
  then obtain b where "snprintf_to a (nat n) s = Some b" by blast
  then show ?thesis using snprintf_to_cstr [OF _ assms(1) n(1,2)] n(3) by (simp add: snprintf_n_def)
qed

section \<open>Additional parts of an upload\<close>

definition ext_kv :: "CMHttpExt \<Rightarrow> (string \<times> string) option" where
  "ext_kv e = do { k \<leftarrow> cstr (ext_key e); v \<leftarrow> cstr (ext_value e); Some (k, v) }"

lemma ext_kv_Some: "ext_kv e = Some (k, v) \<longleftrightarrow> cstr (ext_key e) = Some k \<and> cstr (ext_value e) = Some v"
  by (auto simp: ext_kv_def bind_eq_Some_conv)

definition ext_sized :: "CMHttpExt \<Rightarrow> bool" where
  "ext_sized e = (length (ext_key e) = 64 \<and> length (ext_value e) = 128 \<and> length (ext_str e) = 1024)"

definition exts_hold :: "CMHttpExt list \<Rightarrow> (string \<times> string) list \<Rightarrow> bool" where
  "exts_hold es kvs = (length kvs \<le> length es \<and> (\<forall>i < length kvs. ext_kv (es ! i) = Some (kvs ! i)) \<and> (\<forall>e \<in> set es. ext_sized e))"

definition parts_text :: "string \<Rightarrow> (string \<times> string) list \<Rightarrow> string" where
  "parts_text b kvs = concat (map (\<lambda>(k, v). ext_text b k v) kvs)"

lemma parts_text_simps [simp]:
  "parts_text b [] = []" "parts_text b (kv # kvs) = ext_text b (fst kv) (snd kv) @ parts_text b kvs"
  by (simp_all add: parts_text_def case_prod_unfold)

lemma ext_text_no_NUL: "NUL \<notin> set b \<Longrightarrow> NUL \<notin> set k \<Longrightarrow> NUL \<notin> set v \<Longrightarrow> NUL \<notin> set (ext_text b k v)"
  by (simp add: ext_text_def) (simp add: NUL_def)

lemma ext_text_length: "length (ext_text b k v) = length b + length k + length v + 49"
  by (simp add: ext_text_def)

lemma exts_hold_nth:
  assumes "exts_hold es kvs" and "i < length kvs"
  obtains e k v where "idx es i = Some e" "cstr (ext_key e) = Some k" "cstr (ext_value e) = Some v" "kvs ! i = (k, v)"
    "length k < 64" "length v < 128" "length (ext_str e) = 1024" "NUL \<notin> set k" "NUL \<notin> set v" "i < length es" "es ! i = e"
proof -
  obtain k v where kv: "kvs ! i = (k, v)" by (cases "kvs ! i")
  have i: "i < length es" using assms by (simp add: exts_hold_def)
  then have "ext_sized (es ! i)" using assms(1) by (simp add: exts_hold_def)
  moreover have "ext_kv (es ! i) = Some (k, v)" using assms kv by (simp add: exts_hold_def)
  ultimately have e: "length (ext_key (es ! i)) = 64" "length (ext_value (es ! i)) = 128" "length (ext_str (es ! i)) = 1024"
    "cstr (ext_key (es ! i)) = Some k" "cstr (ext_value (es ! i)) = Some v"
    by (simp_all add: ext_sized_def ext_kv_Some)
  show thesis using that [of "es ! i" k v] kv i e cstr_length [OF e(4)] cstr_length [OF e(5)] cstr_no_NUL [OF e(4)] cstr_no_NUL [OF e(5)]
    by (simp add: idx_def)
qed

lemma gen_ext_loop_texts:
  assumes "exts_hold es kvs" and "i + n = length kvs" and "NUL \<notin> set b" and "length b < 64"
    and "0 \<le> len" and "len + int (length (parts_text b (drop i kvs))) < 2 ^ 31"
  shows "\<exists>es'. gen_ext_loop b es i n len = Some (es', len + int (length (parts_text b (drop i kvs)))) \<and>
    exts_hold es' kvs \<and> length es' = length es"
  using assms
proof (induction n arbitrary: i es len)
  case (Suc n)
  have i: "i < length kvs" using Suc.prems(2) by simp
  obtain e k v where e: "idx es i = Some e" "cstr (ext_key e) = Some k" "cstr (ext_value e) = Some v" "kvs ! i = (k, v)"
    "length k < 64" "length v < 128" "length (ext_str e) = 1024" "NUL \<notin> set k" "NUL \<notin> set v" "i < length es" "es ! i = e"
    by (rule exts_hold_nth [OF Suc.prems(1) i])
  obtain s where s: "snprintf_to (ext_str e) 1024 (ext_text b k v) = Some s" "cstr s = Some (ext_text b k v)" "length s = 1024"
    using snprintf_fits [of "ext_text b k v" 1024 "ext_str e"] e ext_text_no_NUL [OF Suc.prems(3)] Suc.prems(4)
    by (auto simp: ext_text_length)
  have split: "drop i kvs = (k, v) # drop (i + 1) kvs" using Cons_nth_drop_Suc [OF i] e(4) by simp
  define es1 where "es1 = es[i := e\<lparr>ext_str := s\<rparr>]"
  have "exts_hold es1 kvs"
    using Suc.prems(1) e s(3) unfolding exts_hold_def es1_def
    by (auto simp: nth_list_update ext_kv_def ext_sized_def dest!: set_update_subset_insert [THEN subsetD])
  moreover define len1 where "len1 = len + int (length (ext_text b k v))"
  ultimately obtain es' where es': "gen_ext_loop b es1 (i + 1) n len1 = Some (es', len1 + int (length (parts_text b (drop (i + 1) kvs))))"
    "exts_hold es' kvs" "length es' = length es1"
    using Suc.IH [of es1 "i + 1" len1] Suc.prems split by (auto simp: len1_def)
  have "c_int (len + int (length (ext_text b k v))) = Some len1"
    using Suc.prems(5,6) split by (simp add: c_int_def len1_def)
  then have "gen_ext_loop b es i (Suc n) len = Some (es', len1 + int (length (parts_text b (drop (i + 1) kvs))))"
    using e s es' by (simp add: upd_def es1_def)
  then show ?case using es' split by (auto simp: len1_def es1_def)
qed simp

lemma ext_data_loop_texts:
  assumes "exts_hold es kvs" and "i + n = length kvs" and "NUL \<notin> set b"
    and "p + length (parts_text b (drop i kvs)) < length res" and "remain = int (length res) - int p" and "length res < 2 ^ 31"
  shows "\<exists>res'. ext_data_loop b es i n res p remain =
      Some (res', p + length (parts_text b (drop i kvs)), remain - int (length (parts_text b (drop i kvs)))) \<and>
    length res' = length res \<and> take (p + length (parts_text b (drop i kvs))) res' = take p res @ parts_text b (drop i kvs)"
  using assms
proof (induction n arbitrary: i res p remain)
  case (Suc n)
  have i: "i < length kvs" using Suc.prems(2) by simp
  obtain e k v where e: "idx es i = Some e" "cstr (ext_key e) = Some k" "cstr (ext_value e) = Some v" "kvs ! i = (k, v)"
    "NUL \<notin> set k" "NUL \<notin> set v" by (rule exts_hold_nth [OF Suc.prems(1) i])
  define t where "t = ext_text b k v"
  have split: "drop i kvs = (k, v) # drop (i + 1) kvs" using Cons_nth_drop_Suc [OF i] e(4) by simp
  have t: "NUL \<notin> set t" "length t < length (drop p res)" "nat (remain mod 2 ^ 64) = length (drop p res)"
    using ext_text_no_NUL [OF Suc.prems(3) e(5,6)] Suc.prems(4,5,6) split by (simp_all add: t_def)
  define a where "a = t @ NUL # drop (Suc (length t)) (drop p res)"
  have a: "snprintf_to (drop p res) (nat (remain mod 2 ^ 64)) t = Some a" "cstr a = Some t"
    using t by (simp_all add: snprintf_to_Some a_def)
  define res1 where "res1 = take p res @ a"
  have res1: "length res1 = length res" "take (p + length t) res1 = take p res @ t"
    using t(2) by (simp_all add: res1_def a_def)
  obtain res' where r: "ext_data_loop b es (i + 1) n res1 (p + length t) (remain - int (length t)) =
      Some (res', p + length t + length (parts_text b (drop (i + 1) kvs)), remain - int (length t) - int (length (parts_text b (drop (i + 1) kvs))))"
    "length res' = length res1"
    "take (p + length t + length (parts_text b (drop (i + 1) kvs))) res' = take (p + length t) res1 @ parts_text b (drop (i + 1) kvs)"
    using Suc.IH [of "i + 1" "p + length t" res1 "remain - int (length t)"] Suc.prems split res1(1) by (auto simp: t_def)
  have "ext_data_loop b es i (Suc n) res p remain = ext_data_loop b es (i + 1) n res1 (p + length t) (remain - int (length t))"
    using e a by (simp add: t_def [symmetric] res1_def)
  then show ?case using r res1 split by (simp add: t_def [symmetric] add.assoc)
qed simp

section \<open>The announced length\<close>

text \<open>A message that an upload can be generated from: what \<open>cm_http_upload_init\<close> and
  \<open>cm_http_upload_ext_add\<close> leave, with boundary \<open>b\<close> and additional parts \<open>kvs\<close>.\<close>

definition text_in :: "char list \<Rightarrow> nat \<Rightarrow> bool" where
  "text_in a n = (length a = n \<and> NUL \<in> set a)"

lemma text_in_cstr: "text_in a n \<Longrightarrow> \<exists>t. cstr a = Some t \<and> length t < n \<and> NUL \<notin> set t"
  by (metis cstr_def cstr_length cstr_no_NUL text_in_def)

definition upload_ok :: "CMHttpMessage \<Rightarrow> string \<Rightarrow> (string \<times> string) list \<Rightarrow> bool" where
  "upload_ok m b kvs = (let h = szHeader m in
     cstr (szBoundary h) = Some b \<and> length (szBoundary h) = 64 \<and>
     text_in (szUploadFilename h) 1024 \<and> text_in (szUploadKeyname h) 128 \<and> text_in (szContentType h) 32 \<and>
     text_in (szPath h) 64 \<and> text_in (szHost h) 128 \<and> text_in (szReferer h) 512 \<and> text_in (szOrigin h) 128 \<and>
     length (szFileHeader h) = 2048 \<and> length (szLastBoundary h) = 128 \<and>
     length (szExt h) = 16 \<and> exts_hold (szExt h) kvs \<and> iExtIndex h = int (length kvs) \<and>
     0 \<le> szContentLength h \<and> iVersionMajor h = 1 \<and> iVersionMinor h = 1)"

lemma last_boundary_simps: "length (last_boundary b) = length b + 8" "NUL \<notin> set b \<Longrightarrow> NUL \<notin> set (last_boundary b)"
  by (simp_all add: last_boundary_def) (simp add: NUL_def)

lemma gen_file_fits:
  assumes "upload_ok m b kvs" and "cstr (szUploadKeyname (szHeader m)) = Some k" and "cstr (szContentType (szHeader m)) = Some t"
  shows "\<exists>n fh fht. cm_http_upload_gen_file (szHeader m) (Some k) (Some t) (szFileHeader (szHeader m)) 2048 = Some (n, fh) \<and>
    cstr fh = Some fht \<and> length fh = 2048 \<and> length fht < 2048"
proof -
  have ok: "cstr (szBoundary (szHeader m)) = Some b" "length (szBoundary (szHeader m)) = 64" "text_in (szUploadFilename (szHeader m)) 1024"
    "text_in (szUploadKeyname (szHeader m)) 128" "text_in (szContentType (szHeader m)) 32" "length (szFileHeader (szHeader m)) = 2048"
    using assms(1) by (simp_all add: upload_ok_def Let_def)
  obtain f where f: "cstr (szUploadFilename (szHeader m)) = Some f" "length f < 1024" "NUL \<notin> set f" using text_in_cstr [OF ok(3)] by blast
  have b: "length b < 64" "NUL \<notin> set b" using cstr_length [OF ok(1)] cstr_no_NUL [OF ok(1)] ok(2) by auto
  have kt: "length k < 128" "NUL \<notin> set k" "length t < 32" "NUL \<notin> set t"
    using text_in_cstr [OF ok(4)] text_in_cstr [OF ok(5)] assms(2,3) by auto
  define s where "s = file_text b k f t"
  have "length s < 2048" using b(1) f(2) kt(1,3) by (simp add: s_def file_text_def)
  moreover have "NUL \<notin> set s" using b(2) f(3) kt(2,4) by (simp add: s_def file_text_def) (simp add: NUL_def)
  ultimately obtain fh where "snprintf_to (szFileHeader (szHeader m)) 2048 s = Some fh" "cstr fh = Some s" "length fh = 2048"
    using snprintf_fits [of s 2048 "szFileHeader (szHeader m)"] ok(6) by auto
  then show ?thesis using \<open>length s < 2048\<close> ok(1) f(1)
    by (simp add: cm_http_upload_gen_file_def snprintf_n_def s_def [symmetric])
qed

lemma post_text_Some:
  assumes "upload_ok m b kvs"
  shows "\<exists>t. post_text (szHeader m) = Some t \<and> NUL \<notin> set t"
proof -
  obtain p h r o' where t: "cstr (szPath (szHeader m)) = Some p" "cstr (szHost (szHeader m)) = Some h"
    "cstr (szReferer (szHeader m)) = Some r" "cstr (szOrigin (szHeader m)) = Some o'" "cstr (szBoundary (szHeader m)) = Some b"
    using assms text_in_cstr unfolding upload_ok_def Let_def by metis
  note nn = cstr_no_NUL [OF t(1)] cstr_no_NUL [OF t(2)] cstr_no_NUL [OF t(3)] cstr_no_NUL [OF t(4)] cstr_no_NUL [OF t(5)]
  show ?thesis using nn t fmt_d_no_NUL
    by (simp add: post_text_def) (simp add: NUL_def)
qed

lemma parts_no_NUL:
  assumes "exts_hold es kvs" and "NUL \<notin> set b"
  shows "NUL \<notin> set (parts_text b kvs)"
proof -
  have "NUL \<notin> set (ext_text b (fst kv) (snd kv))" if kv: "kv \<in> set kvs" for kv
  proof -
    obtain i where i: "i < length kvs" "kv = kvs ! i" using kv by (metis in_set_conv_nth)
    obtain e k v where "kvs ! i = (k, v)" "NUL \<notin> set k" "NUL \<notin> set v"
      using exts_hold_nth [OF assms(1) i(1)] by metis
    then show ?thesis using ext_text_no_NUL [OF assms(2)] i(2) by simp
  qed
  then show ?thesis by (auto simp: parts_text_def case_prod_unfold)
qed

lemma ext_data_whole:
  assumes "upload_ok m b kvs" and "szLastBoundary (szHeader m) = lb" and "cstr lb = Some (last_boundary b)"
    and "length (parts_text b kvs) + length b + 8 < length buf" and "length buf < 2 ^ 31"
  shows "\<exists>buf'. cm_http_upload_ext_data (Some m) (Some buf) (int (length buf)) = Some (0, Some buf') \<and>
    cstr buf' = Some (parts_text b kvs @ last_boundary b)"
proof -
  have ok: "cstr (szBoundary (szHeader m)) = Some b" "exts_hold (szExt (szHeader m)) kvs" "iExtIndex (szHeader m) = int (length kvs)"
    using assms(1) by (simp_all add: upload_ok_def Let_def)
  have b: "NUL \<notin> set b" by (rule cstr_no_NUL [OF ok(1)])
  define P where "P = parts_text b kvs"
  have P: "length P + length b + 8 < length buf" "NUL \<notin> set P"
    using assms(4) parts_no_NUL [OF ok(2) b] by (simp_all add: P_def)
  obtain r1 where r1: "ext_data_loop b (szExt (szHeader m)) 0 (length kvs) buf 0 (int (length buf)) =
      Some (r1, length P, int (length buf) - int (length P))"
    "length r1 = length buf" "take (length P) r1 = P"
    using ext_data_loop_texts [OF ok(2), of 0 "length kvs" b 0 buf] b P assms(5) by (auto simp: P_def)
  define rem where "rem = length buf - length P"
  have rem: "length (drop (length P) r1) = rem" "length (last_boundary b) < rem" "int (length buf) - int (length P) = int rem"
    using r1(2) P by (auto simp: rem_def last_boundary_simps)
  have nrem: "nat (int rem mod 2 ^ 64) = rem" using assms(5) by (simp add: rem_def)
  define k where "k = rem - length (last_boundary b)"
  obtain k' where k': "k = Suc k'" using rem(2) by (cases k) (simp_all add: k_def)
  have "strncpy_to (drop (length P) r1) (last_boundary b) rem = Some (last_boundary b @ zeros k)"
    using rem(1,2) by (simp add: strncpy_to_Some zeros_def k_def)
  moreover have "cstr (P @ last_boundary b @ zeros k) = Some (P @ last_boundary b)"
    using P(2) last_boundary_simps(2) [OF b] cstr_append_NUL [of "P @ last_boundary b" "zeros k'"]
    by (simp add: k' zeros_def)
  ultimately show ?thesis using r1 nrem rem(3) ok(1,3) assms(2,3)
    by (simp add: cm_http_upload_ext_data_def P_def)
qed

text \<open>Where such messages come from.\<close>

lemma random_loop_writes:
  assumes "chars \<noteq> []" and "i + n \<le> length a"
  shows "random_loop rand n i chars a = Some (take i a @ map (\<lambda>j. chars ! (rand j mod length chars)) [i..<i + n] @ drop (i + n) a)"
  using assms
proof (induction n arbitrary: i a)
  case (Suc n)
  let ?c = "chars ! (rand i mod length chars)"
  have "take (Suc i) (a[i := ?c]) = take i a @ [?c]"
    using Suc.prems(2) by (simp add: take_Suc_conv_app_nth)
  moreover have "map (\<lambda>j. chars ! (rand j mod length chars)) [i..<i + Suc n] = ?c # map (\<lambda>j. chars ! (rand j mod length chars)) [Suc i..<Suc i + n]"
    by (simp add: upt_conv_Cons del: upt_Suc)
  ultimately show ?case using Suc.prems Suc.IH [of "Suc i" "a[i := ?c]"] by (simp add: upd_def)
qed simp

lemma random_16_text:
  "\<exists>a t. cm_random_with_num_char rand (zeros 18) 16 = Some (0, a) \<and> length a = 18 \<and> cstr a = Some t \<and> length t < 18 \<and> NUL \<notin> set t"
proof -
  have "num_char \<noteq> []" by (simp add: num_char_def)
  then obtain a where a: "random_loop rand 16 0 num_char (zeros 18) = Some a" "length a = 18" "drop 16 a = drop 16 (zeros 18)"
    using random_loop_writes [of num_char 0 16 "zeros 18" rand] by simp
  have "drop 16 (zeros 18) = zeros 2" by (simp add: zeros_def)
  then have "NUL \<in> set (drop 16 a)" using a(3) by (simp add: zeros_def)
  then have "text_in a 18" using a(2) by (auto simp: text_in_def dest: in_set_dropD)
  then show ?thesis using text_in_cstr [of a 18] a(1,2) by (auto simp: cm_random_with_num_char_def cm_random_with_chars_def)
qed

lemma snprintf_zeros: "0 < n \<Longrightarrow> \<exists>b. snprintf_to (zeros n) n s = Some b \<and> text_in b n"
  by (simp add: snprintf_to_Some text_in_def min_def)

lemma sprintf_zeros: "length s < n \<Longrightarrow> \<exists>b. sprintf_to (zeros n) s = Some b \<and> text_in b n"
  by (simp add: sprintf_to_Some text_in_def)

lemma exts_hold_zero: "exts_hold (replicate 16 ext_zero) []"
  by (simp add: exts_hold_def ext_sized_def ext_zero_def)

lemma upload_init_ok:
  assumes "0 \<le> fsize" and "\<And>pl. strstr path ''?'' = Some pl \<Longrightarrow> pl < 64"
  shows "\<exists>m' b. cm_http_upload_init (Some fsize) rand msg url path filename = Some (0, m') \<and> upload_ok m' b [] \<and>
    szContentLength (szHeader m') = fsize"
proof -
  obtain p where p: "snprintf_to (zeros 64) 64 path = Some p" "text_in p 64" using snprintf_zeros [OF zero_less_numeral] by blast
  obtain h where h: "snprintf_to (zeros 128) 128 url = Some h" "text_in h 128" using snprintf_zeros [OF zero_less_numeral] by blast
  obtain og where og: "snprintf_to (zeros 128) 128 (''http://'' @ url) = Some og" "text_in og 128" using snprintf_zeros [OF zero_less_numeral] by blast
  obtain f where f: "snprintf_to (zeros 1024) 1024 filename = Some f" "text_in f 1024" using snprintf_zeros [OF zero_less_numeral] by blast
  obtain k where k: "sprintf_to (zeros 128) ''uploadfile'' = Some k" "text_in k 128"
    using sprintf_zeros [of "''uploadfile''" 128] by auto
  obtain t where t: "sprintf_to (zeros 32) ''application/octet-stream'' = Some t" "text_in t 32"
    using sprintf_zeros [of "''application/octet-stream''" 32] by auto
  obtain w where w: "(case strstr path ''?'' of Some pl \<Rightarrow> do { pp \<leftarrow> strncpy_to (zeros 64) path pl; cstr pp } | None \<Rightarrow> Some path) = Some w"
    using assms(2) by (cases "strstr path ''?''") (auto simp: strncpy_to_Some cstr_def zeros_def)
  obtain r where r: "snprintf_to (zeros 512) 512 (''http://'' @ url @ ''/'' @ w) = Some r" "text_in r 512" using snprintf_zeros [OF zero_less_numeral] by blast
  obtain a ram where ram: "cm_random_with_num_char rand (zeros 18) 16 = Some (0, a)" "cstr a = Some ram" "length ram < 18" "NUL \<notin> set ram"
    using random_16_text by blast
  define b where "b = ''----------------------'' @ ram"
  have "length b < 64" "NUL \<notin> set b" using ram(3,4) by (simp_all add: b_def) (simp add: NUL_def)
  then obtain bd where bd: "snprintf_to (zeros 64) 64 b = Some bd" "cstr bd = Some b" "length bd = 64"
    using snprintf_fits [of b 64 "zeros 64"] by auto
  show ?thesis using p h og f k t w r ram bd(2,3) bd(1) [unfolded b_def] assms(1) exts_hold_zero
    by (simp add: cm_http_upload_init_def http_header_zero_def upload_ok_def)
qed

lemma ext_add_ok:
  assumes "upload_ok m b kvs" and "length kvs < 16" and "length k < 64" and "length v < 128" and "NUL \<notin> set k" and "NUL \<notin> set v"
  shows "\<exists>m'. cm_http_upload_ext_add (Some m) (Some k) (Some v) = Some (0, Some m') \<and> upload_ok m' b (kvs @ [(k, v)]) \<and>
    szContentLength (szHeader m') = szContentLength (szHeader m)"
proof -
  have ok: "length (szExt (szHeader m)) = 16" "exts_hold (szExt (szHeader m)) kvs" "iExtIndex (szHeader m) = int (length kvs)"
    using assms(1) by (simp_all add: upload_ok_def Let_def)
  define es where "es = szExt (szHeader m)"
  define e where "e = es ! length kvs"
  have e: "idx es (length kvs) = Some e" "ext_sized e" using ok(1,2) assms(2) by (simp_all add: idx_def e_def es_def exts_hold_def)
  define ak where "ak = k @ zeros (64 - length k)"
  define av where "av = v @ zeros (128 - length v)"
  have ak: "strncpy_to (ext_key e) k 64 = Some ak" "cstr ak = Some k" "length ak = 64"
    using e(2) assms(3) cstr_zeros_padded [OF assms(5), of "64 - length k"]
    by (simp_all add: strncpy_to_Some ext_sized_def ak_def zeros_def)
  have av: "strncpy_to (ext_value e) v 128 = Some av" "cstr av = Some v" "length av = 128"
    using e(2) assms(4) cstr_zeros_padded [OF assms(6), of "128 - length v"]
    by (simp_all add: strncpy_to_Some ext_sized_def av_def zeros_def)
  define e' where "e' = e\<lparr>ext_key := ak, ext_value := av\<rparr>"
  have "exts_hold (es[length kvs := e']) (kvs @ [(k, v)])"
    using ok(1,2) assms(2) e(2) ak av unfolding exts_hold_def es_def [symmetric]
    by (auto simp: nth_list_update nth_append ext_kv_def ext_sized_def e'_def less_Suc_eq dest!: set_update_subset_insert [THEN subsetD])
  moreover have "upd es (length kvs) e' = Some (es[length kvs := e'])" using ok(1) assms(2) by (simp add: upd_def es_def)
  moreover have "c_int (int (length kvs) + 1) = Some (int (length kvs) + 1)" using assms(2) by (simp add: c_int_def)
  ultimately show ?thesis using assms(1) ok e(1) ak(1) av(1)
    by (simp add: cm_http_upload_ext_add_def on_header_def upload_ok_def Let_def es_def [symmetric] e'_def [symmetric])
qed

lemma upload_generated:
  assumes "upload_ok m b kvs" and "0 < maxresult" and "maxresult \<le> int (length res)"
    and "length (parts_text b kvs) + length b + 8 < length buf"
    and "szContentLength (szHeader m) + int (length buf) + 2048 < 2 ^ 31"
    and "maxresult < 2 ^ 31"
  shows "\<exists>n m' res' fh buf' ed post.
    cm_http_upload_generate (Some m) (Some res) maxresult = Some (n, Some m', Some res') \<and>
    cm_http_upload_fileheader m' = Some (int (length fh), fh) \<and>
    cm_http_upload_ext_data (Some m') (Some buf) (int (length buf)) = Some (0, Some buf') \<and> cstr buf' = Some ed \<and>
    ed = parts_text b kvs @ CRLF @ ''--'' @ b @ ''--'' @ CRLF \<and>
    szContentLength (szHeader m') = int (length fh) + szContentLength (szHeader m) + int (length ed) \<and>
    upload_ok m' b kvs \<and> post_text (szHeader m') = Some post \<and> n = int (length post) \<and> cstr res' = Some (take (nat maxresult - 1) post)"
proof -
  have ok: "cstr (szBoundary (szHeader m)) = Some b" "length (szBoundary (szHeader m)) = 64"
    "text_in (szUploadKeyname (szHeader m)) 128" "text_in (szContentType (szHeader m)) 32"
    "exts_hold (szExt (szHeader m)) kvs" "length (szExt (szHeader m)) = 16" "iExtIndex (szHeader m) = int (length kvs)"
    "length (szLastBoundary (szHeader m)) = 128" "0 \<le> szContentLength (szHeader m)"
    using assms(1) by (simp_all add: upload_ok_def Let_def)
  have b: "length b < 64" "NUL \<notin> set b" using cstr_length [OF ok(1)] cstr_no_NUL [OF ok(1)] ok(2) by auto
  obtain k t where kt: "cstr (szUploadKeyname (szHeader m)) = Some k" "cstr (szContentType (szHeader m)) = Some t"
    using text_in_cstr [OF ok(3)] text_in_cstr [OF ok(4)] by blast
  obtain r fh fht where fh: "cm_http_upload_gen_file (szHeader m) (Some k) (Some t) (szFileHeader (szHeader m)) 2048 = Some (r, fh)"
    "cstr fh = Some fht" "length fh = 2048" "length fht < 2048" using gen_file_fits [OF assms(1) kt] by blast
  define P where "P = parts_text b kvs"
  have P: "length P + length b + 8 < length buf" using assms(4) by (simp add: P_def)
  obtain es where es: "gen_ext_loop b (szExt (szHeader m)) 0 (length kvs) 0 = Some (es, int (length P))" "exts_hold es kvs" "length es = 16"
    using gen_ext_loop_texts [OF ok(5), of 0 "length kvs" b 0] b assms(5) P ok(6,9) by (auto simp: P_def)
  obtain lb where lb: "snprintf_to (szLastBoundary (szHeader m)) 128 (last_boundary b) = Some lb" "cstr lb = Some (last_boundary b)" "length lb = 128"
    using snprintf_fits [of "last_boundary b" 128 "szLastBoundary (szHeader m)"] b ok(8) last_boundary_simps by auto
  define L where "L = szContentLength (szHeader m) + int (length P) + int (length fht) + int (length (last_boundary b))"
  have L: "c_int L = Some L" using ok(9) assms(5) fh(4) P by (simp add: c_int_def L_def last_boundary_simps)
  define m' where "m' = m\<lparr>szHeader := (szHeader m)\<lparr>szFileHeader := fh, szExt := es, iExtLength := int (length P), szLastBoundary := lb,
      szContentLength := L\<rparr>\<rparr>"
  have ok': "upload_ok m' b kvs"
    using assms(1) fh(3) es lb(3) ok(9) by (simp add: upload_ok_def Let_def m'_def L_def)
  obtain post where post: "post_text (szHeader m') = Some post" "NUL \<notin> set post" using post_text_Some [OF ok'] by blast
  have maxr: "maxresult < 2 ^ 64" using assms(6) by simp
  obtain res' where res': "snprintf_n res maxresult post = Some (int (length post), res')" "cstr res' = Some (take (nat maxresult - 1) post)"
    using snprintf_n_cstr [OF post(2) assms(2,3)] maxr by blast
  have gen: "cm_http_upload_generate (Some m) (Some res) maxresult = Some (int (length post), Some m', Some res')"
    using assms(2) kt fh es lb ok(1,7) L post(1) res'(1)
    by (simp add: cm_http_upload_generate_def cm_http_upload_gen_ext_def on_header_def L_def [symmetric] m'_def)
  have "\<exists>buf'. cm_http_upload_ext_data (Some m') (Some buf) (int (length buf)) = Some (0, Some buf') \<and> cstr buf' = Some (P @ last_boundary b)"
    using ext_data_whole [OF ok', of lb buf] lb(2) assms(4,5) ok(9) by (simp add: m'_def P_def)
  then obtain buf' where buf': "cm_http_upload_ext_data (Some m') (Some buf) (int (length buf)) = Some (0, Some buf')"
    "cstr buf' = Some (P @ last_boundary b)" by blast
  have "cm_http_upload_fileheader m' = Some (int (length fht), fht)" using fh(2) by (simp add: cm_http_upload_fileheader_def m'_def)
  moreover have "szContentLength (szHeader m') = int (length fht) + szContentLength (szHeader m) + int (length (P @ last_boundary b))"
    by (simp add: m'_def L_def last_boundary_simps)
  ultimately show ?thesis using gen buf' post(1) res'(2) ok' by (auto simp: P_def last_boundary_def)
qed

text \<open>An upload sends what it announces. After \<open>cm_http_upload_generate\<close> the length in the header is that of
  the file, of the text in front of it and of everything \<open>cm_http_upload_ext_data\<close> puts behind it, with any
  boundary and up to 16 additional parts, if the buffer for the latter has room; and the request in the
  result is the text with that number, as far as it fits.\<close>

theorem upload_length:
  assumes "upload_ok m b kvs" and "0 < maxresult" and "maxresult \<le> int (length res)"
    and "length (parts_text b kvs) + length b + 8 < length buf"
    and "szContentLength (szHeader m) + int (length buf) + 2048 < 2 ^ 31"
    and "maxresult < 2 ^ 31"
  shows "\<exists>n m' res' fh buf' ed post.
    cm_http_upload_generate (Some m) (Some res) maxresult = Some (n, Some m', Some res') \<and>
    cm_http_upload_fileheader m' = Some (int (length fh), fh) \<and>
    cm_http_upload_ext_data (Some m') (Some buf) (int (length buf)) = Some (0, Some buf') \<and> cstr buf' = Some ed \<and>
    ed = parts_text b kvs @ CRLF @ ''--'' @ b @ ''--'' @ CRLF \<and>
    szContentLength (szHeader m') = int (length fh) + szContentLength (szHeader m) + int (length ed) \<and>
    post_text (szHeader m') = Some post \<and> n = int (length post) \<and> cstr res' = Some (take (nat maxresult - 1) post)"
  using upload_generated [OF assms] by blast

section \<open>Examples\<close>

text \<open>A file of ten bytes with one additional part.\<close>

lemma upload_length_witness:
  "\<exists>m1 m2 n m3 res fh buf ed.
    cm_http_upload_init (Some 10) (\<lambda>i. i) \<lparr>iResponse = 0, szHeader = http_header_zero, msg_data = None\<rparr> ''h'' ''p?a'' ''f'' = Some (0, m1) \<and>
    cm_http_upload_ext_add (Some m1) (Some ''k'') (Some ''v'') = Some (0, Some m2) \<and>
    cm_http_upload_generate (Some m2) (Some (zeros 100)) 100 = Some (n, Some m3, Some res) \<and>
    cm_http_upload_fileheader m3 = Some (int (length fh), fh) \<and>
    cm_http_upload_ext_data (Some m3) (Some (zeros 200)) 200 = Some (0, Some buf) \<and> cstr buf = Some ed \<and>
    szContentLength (szHeader m3) = int (length fh) + 10 + int (length ed)"
proof -
  have "strstr ''p?a'' ''?'' = Some 1" by code_simp
  then obtain m1 b where m1: "cm_http_upload_init (Some 10) (\<lambda>i. i) \<lparr>iResponse = 0, szHeader = http_header_zero, msg_data = None\<rparr> ''h'' ''p?a'' ''f'' = Some (0, m1)"
    "upload_ok m1 b []" "szContentLength (szHeader m1) = 10" using upload_init_ok [of 10 "''p?a''"] by fastforce
  have "NUL \<notin> set ''k''" "NUL \<notin> set ''v''" by (simp_all add: NUL_def)
  then obtain m2 where m2: "cm_http_upload_ext_add (Some m1) (Some ''k'') (Some ''v'') = Some (0, Some m2)" "upload_ok m2 b [(''k'', ''v'')]"
    "szContentLength (szHeader m2) = 10" using ext_add_ok [OF m1(2), of "''k''" "''v''"] m1(3) by auto
  have "cstr (szBoundary (szHeader m2)) = Some b" "length (szBoundary (szHeader m2)) = 64" using m2(2) by (simp_all add: upload_ok_def Let_def)
  then have b: "length b < 64" using cstr_length by fastforce
  show ?thesis using upload_length [OF m2(2), of 100 "zeros 100" "zeros 200"] m1(1) m2(1,3) b
    by (auto simp: ext_text_length)
qed

end
