(* ===== verification/WsMessage.thy ===== *)
theory WsMessage
  imports WebSocket_Correct
begin

text \<open>
  Messages of several frames: \<open>cm_websocket_request_recv_ex\<close> of src/common/cm_conn_ws.c, which puts the
  payloads of frames together until one has the end flag, in a block that it enlarges as it goes.
\<close>

section \<open>The code\<close>





section \<open>Frames that arrive in pieces\<close>

text \<open>A piece comes after any number of pauses.\<close>

definition pieces :: "(nat \<times> u8 list) list \<Rightarrow> arrival list" where
  "pieces ps = concat (map (\<lambda>(k, p). replicate k Timeout @ [Chunk p]) ps)"

definition piece_bytes :: "(nat \<times> u8 list) list \<Rightarrow> u8 list" where
  "piece_bytes ps = concat (map snd ps)"

lemma pieces_simps [simp]:
  "pieces [] = []" "pieces ((k, p) # ps) = replicate k Timeout @ Chunk p # pieces ps"
  "piece_bytes [] = []" "piece_bytes ((k, p) # ps) = p @ piece_bytes ps"
  by (simp_all add: pieces_def piece_bytes_def)





section \<open>A message of several frames\<close>











section \<open>Examples\<close>


end
