(* ===== verification/WsHandshake.thy ===== *)
theory WsHandshake
  imports CmHttp_Correct Base64_Correct ConnTcp
begin

text \<open>
  Opening a WebSocket: \<open>cm_websocket_request_send_wait_res\<close> and \<open>cm_websocket_handshake\<close> of
  src/common/cm_conn_ws.c, over the texts of cm_http.c, the Base64 of cm_base64.c and the connection of
  cm_conn_tcp.c.
\<close>

section \<open>The code\<close>






section \<open>The request\<close>















section \<open>The answer\<close>




section \<open>Examples\<close>


end
