(* ===== verification/HttpUpload.thy ===== *)
theory HttpUpload
  imports CmHttp_Correct ConnTcp
begin

text \<open>
  Uploading a file over a connection: \<open>cm_http_send_base\<close> of src/common/cm_http_upload.c, over the
  texts of cm_http.c and the connection of cm_conn_tcp.c. The functions over libcurl, the file system and
  the creation of the connection are not modelled: the size that \<open>stat\<close> reports, the content of the file
  and the connection for an address and a port are arguments.
\<close>

section \<open>The code\<close>








section \<open>What is sent\<close>
















section \<open>Examples\<close>








end
