(* ===== verification/AvStorage.thy ===== *)
theory AvStorage
  imports WallTime "HOL-Library.Monad_Syntax"
begin

text \<open>
  The recorder of src/storage/avstorage.c: a stream of video data goes into files that are named after
  the local time and changed after a while or on demand. A file system is a map from names to contents;
  the clock and \<open>localtime\<close> are arguments. A file is known by its name, so opening a name for writing empties
  the file of that name. The files are written through the buffered streams of stdio, of which each push has
  its own behaviour \<open>io\<close>: what opening, \<open>fwrite\<close>, \<open>fflush\<close> and \<open>fclose\<close> do with the bytes.
\<close>

section \<open>Streams\<close>

type_synonym files = "string \<Rightarrow> u8 list option"

text \<open>A stream opened for writing: the name of its file, and the bytes it has taken and not yet sent there.\<close>

type_synonym FILE = "string \<times> u8 list"

text \<open>Whether a name can be opened; how many of \<open>n\<close> bytes \<open>fwrite\<close> takes; how many of \<open>n\<close> pending bytes go
  to the file with an \<open>fwrite\<close>, an \<open>fflush\<close> and an \<open>fclose\<close>. A count of more than there is means all.\<close>

record stdio =
  io_opens :: "string \<Rightarrow> bool"
  io_takes :: "nat \<Rightarrow> nat"
  io_sends :: "nat \<Rightarrow> nat"
  io_flushes :: "nat \<Rightarrow> nat"
  io_closes :: "nat \<Rightarrow> nat"

fun send_pending :: "nat \<Rightarrow> FILE \<Rightarrow> files \<Rightarrow> (FILE \<times> files) option" where
  "send_pending k (name, pending) fs = do {
     old \<leftarrow> fs name;
     Some ((name, drop k pending), fs(name \<mapsto> old @ take k pending))
   }"

definition fopen_w :: "stdio \<Rightarrow> string \<Rightarrow> files \<Rightarrow> FILE option \<times> files" where
  "fopen_w io name fs = (if io_opens io name then (Some (name, []), fs(name \<mapsto> [])) else (None, fs))"

fun fwrite :: "stdio \<Rightarrow> u8 list \<Rightarrow> FILE \<Rightarrow> files \<Rightarrow> (nat \<times> FILE \<times> files) option" where
  "fwrite io bytes (name, pending) fs = do {
     let n = min (io_takes io (length bytes)) (length bytes);
     let all = pending @ take n bytes;
     (f, fs) \<leftarrow> send_pending (io_sends io (length all)) (name, all) fs;
     Some (n, f, fs)
   }"

definition fflush :: "stdio \<Rightarrow> FILE \<Rightarrow> files \<Rightarrow> (FILE \<times> files) option" where
  "fflush io f fs = send_pending (io_flushes io (length (snd f))) f fs"

definition fclose :: "stdio \<Rightarrow> FILE \<Rightarrow> files \<Rightarrow> files option" where
  "fclose io f fs = do { (f, fs) \<leftarrow> send_pending (io_closes io (length (snd f))) f fs; Some fs }"

section \<open>The code\<close>

record AVStorage =
  szSavePath :: "char list"
  iTimePerFile :: int
  iSizePerFile :: int
  szFilePrefix :: "char list"
  szCurrentFileName :: "char list"
  szExt :: "char list"
  pWrite :: "FILE option"
  iLastOpen :: int

text \<open>The block of memory for the state is an argument; its arrays have the sizes of the struct.\<close>

definition storage_block :: "AVStorage \<Rightarrow> bool" where
  "storage_block b = (length (szSavePath b) = 256 \<and> length (szFilePrefix b) = 64 \<and> length (szCurrentFileName b) = 512 \<and>
     length (szExt b) = 8)"

definition cm_avstorage_init :: "AVStorage option \<Rightarrow> string \<Rightarrow> int \<Rightarrow> int \<Rightarrow> (int \<times> AVStorage option) option" where
  "cm_avstorage_init block savePath timePerFile sizePerFile = (case block of
     None \<Rightarrow> Some (- 1, None)
   | Some b \<Rightarrow> do {
       p \<leftarrow> strncpy_to (szSavePath b) savePath (length savePath);
       p \<leftarrow> upd p (length savePath) NUL;
       name \<leftarrow> upd (szCurrentFileName b) 0 NUL;
       pref \<leftarrow> sprintf_to (szFilePrefix b) ''jk-avstorage'';
       ext \<leftarrow> sprintf_to (szExt b) ''h265'';
       Some (0, Some (b\<lparr>szSavePath := p, iTimePerFile := timePerFile, iSizePerFile := sizePerFile, szCurrentFileName := name,
         szFilePrefix := pref, szExt := ext, pWrite := None, iLastOpen := 0\<rparr>))
     })"

text \<open>The format \<open>%s/%s-%04d%02d%02d-%02d%02d%02d.%s\<close>.\<close>

definition file_name :: "string \<Rightarrow> string \<Rightarrow> string \<Rightarrow> tm \<Rightarrow> string" where
  "file_name path pref ext tm =
     path @ ''/'' @ pref @ ''-'' @ fmt_date (tm_year tm + 1900) (tm_mon tm + 1) (tm_mday tm) @ ''-'' @
     fmt_clock (tm_hour tm) (tm_min tm) (tm_sec tm) @ ''.'' @ ext"

definition cm_avstorage_generate_filename :: "(int \<Rightarrow> tm) \<Rightarrow> int \<Rightarrow> AVStorage \<Rightarrow> AVStorage option" where
  "cm_avstorage_generate_filename localtime t stor = do {
     path \<leftarrow> cstr (szSavePath stor);
     pref \<leftarrow> cstr (szFilePrefix stor);
     ext \<leftarrow> cstr (szExt stor);
     year \<leftarrow> c_int (tm_year (localtime t) + 1900);
     mon \<leftarrow> c_int (tm_mon (localtime t) + 1);
     name \<leftarrow> sprintf_to (szCurrentFileName stor) (file_name path pref ext (localtime t));
     Some (stor\<lparr>szCurrentFileName := name\<rparr>)
   }"

text \<open>The old stream is flushed and closed, whatever comes of that, before the file is opened.\<close>

definition close_current :: "stdio \<Rightarrow> AVStorage \<Rightarrow> files \<Rightarrow> files option" where
  "close_current io stor fs = (case pWrite stor of
     None \<Rightarrow> Some fs
   | Some f \<Rightarrow> do { (f, fs) \<leftarrow> fflush io f fs; fclose io f fs })"

definition cm_avstorage_reopen :: "stdio \<Rightarrow> (int \<Rightarrow> tm) \<Rightarrow> int \<Rightarrow> AVStorage \<Rightarrow> files \<Rightarrow> (int \<times> AVStorage \<times> files) option" where
  "cm_avstorage_reopen io localtime t stor fs = do {
     fs \<leftarrow> close_current io stor fs;
     stor \<leftarrow> cm_avstorage_generate_filename localtime t stor;
     name \<leftarrow> cstr (szCurrentFileName stor);
     let (f, fs) = fopen_w io name fs;
     Some (if f = None then - 1 else 0, stor\<lparr>pWrite := f\<rparr>, fs)
   }"

text \<open>\<open>now\<close> is the first reading of the clock and \<open>t\<close> the one for the name. Writing to the null pointer is
  undefined. The result \<open>-3\<close> of the code is never reached, since its test compares a \<open>size_t\<close> with zero: a
  write that fails is a result of fewer bytes than asked for.\<close>

definition cm_avstorage_v_push ::
  "stdio \<Rightarrow> (int \<Rightarrow> tm) \<Rightarrow> AVStorage option \<Rightarrow> files \<Rightarrow> u8 list option \<Rightarrow> nat \<Rightarrow> int \<Rightarrow> int \<Rightarrow> bool \<Rightarrow>
     (int \<times> AVStorage option \<times> files) option" where
  "cm_avstorage_v_push io localtime stor fs data len now t forceNew = (case (stor, data) of
     (Some s, Some d) \<Rightarrow>
       if len = 0 then Some (- 1, stor, fs)
       else do {
         let reopen = (iLastOpen s \<noteq> 0 \<and> now - iLastOpen s \<ge> iTimePerFile s);
         let s = (if iLastOpen s = 0 then s\<lparr>iLastOpen := now\<rparr> else s);
         c \<leftarrow> idx (szCurrentFileName s) 0;
         (ret, s, fs) \<leftarrow>
           (if forceNew \<or> c = NUL \<or> reopen then do {
              (ret, s, fs) \<leftarrow> cm_avstorage_reopen io localtime t s fs;
              Some (ret, if ret < 0 then s else s\<lparr>iLastOpen := now\<rparr>, fs)
            }
            else Some (0, s, fs));
         if ret < 0 then Some (- 2, Some s, fs)
         else do {
           f \<leftarrow> pWrite s;
           bytes \<leftarrow> mem_read d 0 len;
           (n, f, fs) \<leftarrow> fwrite io bytes f fs;
           n \<leftarrow> c_int (int n);
           Some (n, Some (s\<lparr>pWrite := Some f\<rparr>), fs)
         }
       }
   | _ \<Rightarrow> Some (- 1, stor, fs))"

text \<open>The end frees the state. The stream is neither flushed nor closed, so the files stay as they are and what
  is pending is reachable by nobody any more.\<close>

definition cm_avstorage_deinit :: "AVStorage option option \<Rightarrow> int \<times> AVStorage option option" where
  "cm_avstorage_deinit stor = (case stor of None \<Rightarrow> (- 1, None) | Some _ \<Rightarrow> (0, Some None))"

section \<open>What a recording is\<close>

text \<open>A push of a client: how the streams behave, the data, the two readings of the clock, and whether a new
  file is asked for.\<close>

type_synonym push = "stdio \<times> u8 list \<times> int \<times> int \<times> bool"

text \<open>The recording as a list of segments, each with the name of its file: a push begins a segment or goes
  to the end of the last one. \<open>since\<close> is when that segment began.\<close>

fun record_push :: "(int \<Rightarrow> string) \<Rightarrow> int \<Rightarrow> int \<times> (string \<times> u8 list) list \<Rightarrow> push \<Rightarrow> int \<times> (string \<times> u8 list) list" where
  "record_push name T (since, segs) (io, d, now, t, force) =
     (if segs = [] \<or> force \<or> now - since \<ge> T then (now, segs @ [(name t, d)])
      else (since, butlast segs @ [(fst (last segs), snd (last segs) @ d)]))"

definition recording :: "(int \<Rightarrow> string) \<Rightarrow> int \<Rightarrow> push list \<Rightarrow> int \<times> (string \<times> u8 list) list" where
  "recording name T ps = foldl (record_push name T) (0, []) ps"

text \<open>The calls of the code.\<close>

fun push_all :: "(int \<Rightarrow> tm) \<Rightarrow> AVStorage \<Rightarrow> files \<Rightarrow> push list \<Rightarrow> (AVStorage \<times> files) option" where
  "push_all localtime s fs [] = Some (s, fs)"
| "push_all localtime s fs ((io, d, now, t, force) # ps) = do {
     (n, s', fs) \<leftarrow> cm_avstorage_v_push io localtime (Some s) fs (Some d) (length d) now t force;
     s \<leftarrow> s';
     if n = int (length d) then push_all localtime s fs ps else None
   }"

text \<open>What was pushed.\<close>

definition pushed :: "push list \<Rightarrow> u8 list" where
  "pushed ps = concat (map (fst \<circ> snd) ps)"

lemma recording_snoc: "recording name T (ps @ [p]) = record_push name T (recording name T ps) p"
  by (simp add: recording_def)

lemma recording_data: "concat (map snd (snd (recording name T ps))) = pushed ps"
proof (induction ps rule: rev_induct)
  case (snoc p ps)
  obtain io d now t force where p: "p = (io, d, now, t, force)" by (cases p)
  obtain since segs where r: "recording name T ps = (since, segs)" by (cases "recording name T ps")
  have "concat (map snd segs) = pushed ps" using snoc r by simp
  moreover have "segs \<noteq> [] \<Longrightarrow> concat (map snd segs) = concat (map snd (butlast segs)) @ snd (last segs)"
    by (subst append_butlast_last_id [symmetric]) (simp_all del: append_butlast_last_id)
  ultimately show ?case by (auto simp: recording_snoc p r pushed_def)
qed (simp add: recording_def pushed_def)

lemma push_all_append:
  "push_all localtime s fs (ps @ qs) = do { (s, fs) \<leftarrow> push_all localtime s fs ps; push_all localtime s fs qs }"
proof (induction ps arbitrary: s fs)
  case (Cons p ps)
  obtain io d now t force where p: "p = (io, d, now, t, force)" by (cases p)
  show ?case
  proof (cases "cm_avstorage_v_push io localtime (Some s) fs (Some d) (length d) now t force")
    case (Some r)
    obtain n s' fs' where "r = (n, s', fs')" by (cases r)
    then show ?thesis using Some by (cases s') (simp_all add: p Cons.IH)
  qed (simp add: p)
qed simp

section \<open>The files hold the recording\<close>

definition ready :: "string \<Rightarrow> int \<Rightarrow> AVStorage \<Rightarrow> bool" where
  "ready path T s = (cstr (szSavePath s) = Some path \<and> length path < 256 \<and> cstr (szFilePrefix s) = Some ''jk-avstorage'' \<and>
     cstr (szExt s) = Some ''h265'' \<and> length (szCurrentFileName s) = 512 \<and> iTimePerFile s = T)"

definition name_at :: "string \<Rightarrow> (int \<Rightarrow> tm) \<Rightarrow> int \<Rightarrow> string" where
  "name_at path localtime t = file_name path ''jk-avstorage'' ''h265'' (localtime t)"

text \<open>The files \<open>fs\<close> hold the recording \<open>rec\<close> over what was there before: all of it up to the last segment, and
  of the last segment what its stream has sent.\<close>

definition holds :: "files \<Rightarrow> AVStorage \<Rightarrow> files \<Rightarrow> int \<times> (string \<times> u8 list) list \<Rightarrow> bool" where
  "holds fs0 s fs rec = (case rec of (since, segs) \<Rightarrow> iLastOpen s = since \<and>
     (case pWrite s of
        None \<Rightarrow> segs = [] \<and> since = 0 \<and> hd (szCurrentFileName s) = NUL \<and> fs = fs0
      | Some (name, pending) \<Rightarrow> 0 < since \<and> hd (szCurrentFileName s) \<noteq> NUL \<and>
          (\<exists>b sent. segs = b @ [(name, sent @ pending)] \<and> fs = fs0 ++ map_of (b @ [(name, sent)]))))"

text \<open>Streams that work: the name can be opened, \<open>fwrite\<close> takes everything, and \<open>fflush\<close> sends everything. How
  much an \<open>fwrite\<close> sends at once does not matter.\<close>

definition works :: "stdio \<Rightarrow> string \<Rightarrow> bool" where
  "works io name = (io_opens io name \<and> (\<forall>n. n \<le> io_takes io n) \<and> (\<forall>n. n \<le> io_flushes io n))"

lemma init_ready:
  assumes "storage_block b" and "length path < 256" and "NUL \<notin> set path"
  shows "\<exists>s. cm_avstorage_init (Some b) path T sz = Some (0, Some s) \<and> ready path T s \<and> holds fs s fs (0, [])"
proof -
  have b: "length (szSavePath b) = 256" "length (szFilePrefix b) = 64" "length (szCurrentFileName b) = 512" "length (szExt b) = 8"
    using assms(1) by (simp_all add: storage_block_def)
  define p where "p = path @ NUL # drop (Suc (length path)) (szSavePath b)"
  have p: "cstr p = Some path" using assms(3) by (simp add: p_def)
  have "strncpy_to (szSavePath b) path (length path) = Some (path @ drop (length path) (szSavePath b))"
    using b(1) assms(2) by (simp add: strncpy_to_Some)
  moreover have "upd (path @ drop (length path) (szSavePath b)) (length path) NUL = Some p"
    using b(1) assms(2) by (simp add: upd_def p_def list_update_append drop_update_swap [symmetric] flip: Cons_nth_drop_Suc)
  moreover have "NUL \<notin> set ''jk-avstorage''" "NUL \<notin> set ''h265''" by (simp_all add: NUL_def)
  then have "\<exists>q. sprintf_to (szFilePrefix b) ''jk-avstorage'' = Some q \<and> cstr q = Some ''jk-avstorage''"
    "\<exists>q. sprintf_to (szExt b) ''h265'' = Some q \<and> cstr q = Some ''h265''"
    using b(2,4) by (simp_all add: sprintf_to_Some del: append.simps)
  moreover have "upd (szCurrentFileName b) 0 NUL = Some (NUL # tl (szCurrentFileName b))"
    using b(3) by (cases "szCurrentFileName b") (simp_all add: upd_def)
  ultimately show ?thesis using p b(3) assms(2) by (auto simp: cm_avstorage_init_def ready_def holds_def)
qed

lemma files_snoc: "n \<notin> fst ` set segs \<Longrightarrow> fs0 ++ map_of (segs @ [(n, d)]) = (fs0 ++ map_of segs)(n \<mapsto> d)"
proof -
  assume "n \<notin> fst ` set segs"
  then have "map_of segs n = None" by (simp add: map_of_eq_None_iff)
  then show ?thesis by (auto simp: map_add_def fun_eq_iff split: option.splits)
qed

lemma name_at_text:
  assumes "tm_ok (localtime t)" and "NUL \<notin> set path" and "length path < 256"
  shows "length (name_at path localtime t) < 511" and "NUL \<notin> set (name_at path localtime t)"
    and "\<exists>c r. name_at path localtime t = c # r \<and> c \<noteq> NUL"
proof -
  note tm = tm_strings [OF assms(1)]
  have digits: "NUL \<notin> set (fmt_date (tm_year (localtime t) + 1900) (tm_mon (localtime t) + 1) (tm_mday (localtime t)))"
    "NUL \<notin> set (fmt_clock (tm_hour (localtime t)) (tm_min (localtime t)) (tm_sec (localtime t)))"
    using tm(1,2) digit_neq_NUL by (auto simp: digits_def)
  show "length (name_at path localtime t) < 511"
    using tm(1,2) assms(3) by (simp add: name_at_def file_name_def digits_def)
  show nul: "NUL \<notin> set (name_at path localtime t)"
    using digits assms(2) by (simp add: name_at_def file_name_def) (simp add: NUL_def)
  obtain c r where c: "name_at path localtime t = c # r"
    by (cases "name_at path localtime t") (simp_all add: name_at_def file_name_def)
  moreover have "c \<noteq> NUL" using nul c by auto
  ultimately show "\<exists>c r. name_at path localtime t = c # r \<and> c \<noteq> NUL" by blast
qed

lemma send_pending_Some: "fs name = Some old \<Longrightarrow>
    send_pending k (name, pending) fs = Some ((name, drop k pending), fs(name \<mapsto> old @ take k pending))"
  by simp

text \<open>Closing the stream completes the last segment.\<close>

lemma close_current_complete:
  assumes "holds fs0 s fs (since, segs)" and "\<forall>n. n \<le> io_flushes io n" and "distinct (map fst segs)"
  shows "close_current io s fs = Some (fs0 ++ map_of segs)"
proof (cases "pWrite s")
  case None
  then show ?thesis using assms(1) by (simp add: holds_def close_current_def)
next
  case (Some f)
  obtain name pending where f: "f = (name, pending)" by (cases f)
  obtain b sent where b: "segs = b @ [(name, sent @ pending)]" "fs = fs0 ++ map_of (b @ [(name, sent)])"
    using assms(1) Some by (auto simp: holds_def f)
  have new: "name \<notin> fst ` set b" using assms(3) b(1) by auto
  have "fs = (fs0 ++ map_of b)(name \<mapsto> sent)" using b(2) files_snoc [OF new] by simp
  moreover have "take (io_flushes io (length pending)) pending = pending" "drop (io_flushes io (length pending)) pending = []"
    using assms(2) by simp_all
  ultimately show ?thesis using Some b(1) files_snoc [OF new]
    by (simp add: close_current_def fflush_def fclose_def f)
qed

lemma reopen_cases:
  assumes "ready path T s" and "tm_ok (localtime t)" and "NUL \<notin> set path" and "close_current io s fs = Some fs1"
  shows "\<exists>s'. cm_avstorage_reopen io localtime t s fs =
      (if io_opens io (name_at path localtime t)
       then Some (0, s'\<lparr>pWrite := Some (name_at path localtime t, [])\<rparr>, fs1(name_at path localtime t \<mapsto> []))
       else Some (- 1, s'\<lparr>pWrite := None\<rparr>, fs1)) \<and>
    ready path T s' \<and> hd (szCurrentFileName s') \<noteq> NUL \<and> iLastOpen s' = iLastOpen s"
proof -
  have s: "cstr (szSavePath s) = Some path" "length path < 256" "length (szCurrentFileName s) = 512"
    "cstr (szFilePrefix s) = Some ''jk-avstorage''" "cstr (szExt s) = Some ''h265''" using assms(1) by (simp_all add: ready_def)
  note n = name_at_text [where localtime = localtime and t = t, OF assms(2,3) s(2)]
  define nm where "nm = name_at path localtime t @ NUL # drop (Suc (length (name_at path localtime t))) (szCurrentFileName s)"
  have "sprintf_to (szCurrentFileName s) (name_at path localtime t) = Some nm" "length nm = 512" "cstr nm = Some (name_at path localtime t)"
    using n(1,2) s(3) by (simp_all add: nm_def sprintf_to_Some)
  moreover have "hd nm \<noteq> NUL" using n(3) by (auto simp: nm_def)
  ultimately show ?thesis using tm_strings(3,4) [OF assms(2)] s assms(1,4)
    by (intro exI [of _ "s\<lparr>szCurrentFileName := nm\<rparr>"])
      (simp add: cm_avstorage_reopen_def cm_avstorage_generate_filename_def fopen_w_def ready_def flip: name_at_def)
qed

text \<open>A write to the stream of the last segment.\<close>

lemma fwrite_segment:
  assumes "fs = fs0 ++ map_of (b @ [(name, sent)])" and "name \<notin> fst ` set b" and "\<forall>n. n \<le> io_takes io n"
  shows "\<exists>sent' pending'. fwrite io d (name, pending) fs = Some (length d, (name, pending'), fs0 ++ map_of (b @ [(name, sent')])) \<and>
    sent' @ pending' = sent @ pending @ d"
proof -
  have all: "min (io_takes io (length d)) (length d) = length d" using assms(3) by (simp add: min_def antisym)
  define k where "k = io_sends io (length (pending @ d))"
  have "fs = (fs0 ++ map_of b)(name \<mapsto> sent)" using assms(1) files_snoc [OF assms(2)] by simp
  then have "fwrite io d (name, pending) fs =
      Some (length d, (name, drop k (pending @ d)), fs0 ++ map_of (b @ [(name, sent @ take k (pending @ d))]))"
    using files_snoc [OF assms(2)] by (simp add: all Let_def k_def del: take_append drop_append)
  then show ?thesis
    by (intro exI [of _ "sent @ take k (pending @ d)"] exI [of _ "drop k (pending @ d)"]) (simp del: take_append drop_append)
qed

lemma push_step:
  assumes "ready path T s" and "holds fs0 s fs rec" and "tm_ok (localtime t)" and "NUL \<notin> set path"
    and "works io (name_at path localtime t)" and "0 < now" and "d \<noteq> []" and "length d < 2 ^ 31"
    and "distinct (map fst (snd (record_push (name_at path localtime) T rec (io, d, now, t, force))))"
  shows "\<exists>s' fs'. cm_avstorage_v_push io localtime (Some s) fs (Some d) (length d) now t force = Some (int (length d), Some s', fs') \<and>
    ready path T s' \<and> holds fs0 s' fs' (record_push (name_at path localtime) T rec (io, d, now, t, force))"
proof -
  obtain since segs where r: "rec = (since, segs)" by (cases rec)
  have T: "iTimePerFile s = T" "length (szCurrentFileName s) = 512" using assms(1) by (simp_all add: ready_def)
  have c: "idx (szCurrentFileName s) 0 = Some (hd (szCurrentFileName s))" using T(2) by (cases "szCurrentFileName s") (simp_all add: idx_def)
  have n: "c_int (int (length d)) = Some (int (length d))" "mem_read d 0 (length d) = Some d"
    using assms(8) by (simp_all add: c_int_def mem_read_def)
  have w: "io_opens io (name_at path localtime t)" "\<forall>n. n \<le> io_takes io n" "\<forall>n. n \<le> io_flushes io n"
    using assms(5) by (simp_all add: works_def)
  define s0 where "s0 = (if iLastOpen s = 0 then s\<lparr>iLastOpen := now\<rparr> else s)"
  have s0: "ready path T s0" "close_current io s0 fs = close_current io s fs" "szCurrentFileName s0 = szCurrentFileName s"
    using assms(1) by (simp_all add: s0_def ready_def close_current_def)
  have h: "iLastOpen s = since" "segs = [] \<longleftrightarrow> pWrite s = None" "pWrite s = None \<longleftrightarrow> since = 0" "hd (szCurrentFileName s) = NUL \<longleftrightarrow> since = 0"
    using assms(2) by (auto simp: holds_def r split: option.splits)
  show ?thesis
  proof (cases "segs = [] \<or> force \<or> now - since \<ge> T")
    case True
    define nm where "nm = name_at path localtime t"
    have rec: "record_push (name_at path localtime) T rec (io, d, now, t, force) = (now, segs @ [(nm, d)])"
      using True by (simp add: r nm_def)
    have new: "nm \<notin> fst ` set segs" "distinct (map fst segs)" using assms(9) rec by simp_all
    have rot: "force \<or> hd (szCurrentFileName s) = NUL \<or> iLastOpen s \<noteq> 0 \<and> T \<le> now - iLastOpen s"
      using True h by (cases "segs = []") auto
    have old: "close_current io s0 fs = Some (fs0 ++ map_of segs)"
      using close_current_complete [OF _ w(3) new(2)] assms(2) s0(2) by (simp add: r)
    have "\<exists>s1. cm_avstorage_reopen io localtime t s0 fs = Some (0, s1, (fs0 ++ map_of segs)(nm \<mapsto> [])) \<and>
        ready path T s1 \<and> hd (szCurrentFileName s1) \<noteq> NUL \<and> pWrite s1 = Some (nm, [])"
      using reopen_cases [where localtime = localtime and t = t and io = io, OF s0(1) assms(3,4) old] w(1)
      by (auto simp: nm_def ready_def)
    then obtain s1 where s1: "cm_avstorage_reopen io localtime t s0 fs = Some (0, s1, fs0 ++ map_of (segs @ [(nm, [])]))"
      "ready path T s1" "hd (szCurrentFileName s1) \<noteq> NUL" "pWrite s1 = Some (nm, [])"
      using files_snoc [OF new(1), where ?fs0.0 = fs0 and d = "[]"] by auto
    obtain sent pending where f: "fwrite io d (nm, []) (fs0 ++ map_of (segs @ [(nm, [])])) =
        Some (length d, (nm, pending), fs0 ++ map_of (segs @ [(nm, sent)]))" "sent @ pending = d"
      using fwrite_segment [OF refl new(1) w(2), where ?fs0.0 = fs0 and sent = "[]" and d = d and pending = "[]"] by auto
    have "cm_avstorage_v_push io localtime (Some s) fs (Some d) (length d) now t force =
        Some (int (length d), Some (s1\<lparr>iLastOpen := now, pWrite := Some (nm, pending)\<rparr>), fs0 ++ map_of (segs @ [(nm, sent)]))"
      using rot c n T(1) s1 assms(7) f(1) s0(3) by (simp add: cm_avstorage_v_push_def s0_def [symmetric] del: fwrite.simps)
    then show ?thesis using s1 assms(6) rec f(2) by (auto simp: holds_def ready_def)
  next
    case False
    then obtain nm pending where p: "pWrite s = Some (nm, pending)" using h(2) by auto
    then obtain b sent where segs: "segs = b @ [(nm, sent @ pending)]" "fs = fs0 ++ map_of (b @ [(nm, sent)])"
      using assms(2) by (auto simp: holds_def r)
    have rec: "record_push (name_at path localtime) T rec (io, d, now, t, force) = (since, b @ [(nm, (sent @ pending) @ d)])"
      using False by (simp add: r segs)
    have new: "nm \<notin> fst ` set b" using assms(9) rec by simp
    have st: "0 < since" "hd (szCurrentFileName s) \<noteq> NUL" using assms(2) p by (auto simp: holds_def r)
    obtain sent' pending' where f: "fwrite io d (nm, pending) fs = Some (length d, (nm, pending'), fs0 ++ map_of (b @ [(nm, sent')]))"
        "sent' @ pending' = sent @ pending @ d"
      using fwrite_segment [OF segs(2) new w(2), of d pending] by auto
    have "cm_avstorage_v_push io localtime (Some s) fs (Some d) (length d) now t force =
        Some (int (length d), Some (s\<lparr>pWrite := Some (nm, pending')\<rparr>), fs0 ++ map_of (b @ [(nm, sent')]))"
      using False c n T(1) assms(7) st h(1) p f(1) by (simp add: cm_avstorage_v_push_def del: fwrite.simps)
    moreover have "holds fs0 (s\<lparr>pWrite := Some (nm, pending')\<rparr>) (fs0 ++ map_of (b @ [(nm, sent')])) (since, b @ [(nm, sent' @ pending')])"
      using st h(1) by (auto simp: holds_def)
    ultimately show ?thesis using assms(1) rec f(2) by (auto simp: ready_def)
  qed
qed

lemma names_grow: "\<exists>more. map fst (snd (record_push name T (since, segs) p)) = map fst segs @ more"
proof -
  obtain io d now t force where p: "p = (io, d, now, t, force)" by (cases p)
  show ?thesis by (cases segs rule: rev_cases) (auto simp: p)
qed

text \<open>The pushes of a client whose data is not empty and whose streams work.\<close>

definition good_push :: "string \<Rightarrow> (int \<Rightarrow> tm) \<Rightarrow> push \<Rightarrow> bool" where
  "good_push path localtime p = (case p of (io, d, now, t, force) \<Rightarrow>
     d \<noteq> [] \<and> length d < 2 ^ 31 \<and> 0 < now \<and> tm_ok (localtime t) \<and> works io (name_at path localtime t))"

lemma push_all_holds:
  assumes "ready path T s" and "holds fs0 s fs (0, [])" and "NUL \<notin> set path"
    and "\<forall>p \<in> set ps. good_push path localtime p"
    and "distinct (map fst (snd (recording (name_at path localtime) T ps)))"
  shows "\<exists>s' fs'. push_all localtime s fs ps = Some (s', fs') \<and> ready path T s' \<and>
    holds fs0 s' fs' (recording (name_at path localtime) T ps)"
  using assms(4,5)
proof (induction ps rule: rev_induct)
  case (snoc p ps)
  obtain io d now t force where p: "p = (io, d, now, t, force)" by (cases p)
  obtain since segs where r: "recording (name_at path localtime) T ps = (since, segs)" by (cases "recording (name_at path localtime) T ps")
  have "distinct (map fst (snd (recording (name_at path localtime) T ps)))"
    using snoc.prems(2) names_grow [of "name_at path localtime" T since segs p] by (auto simp: recording_snoc r)
  then obtain s1 fs1 where s1: "push_all localtime s fs ps = Some (s1, fs1)" "ready path T s1"
    "holds fs0 s1 fs1 (recording (name_at path localtime) T ps)" using snoc by auto
  have dp: "d \<noteq> []" "length d < 2 ^ 31" "0 < now" "tm_ok (localtime t)" "works io (name_at path localtime t)"
    using snoc.prems(1) by (auto simp: p good_push_def)
  obtain s2 fs2 where "cm_avstorage_v_push io localtime (Some s1) fs1 (Some d) (length d) now t force = Some (int (length d), Some s2, fs2)"
    "ready path T s2" "holds fs0 s2 fs2 (recording (name_at path localtime) T (ps @ [p]))"
    using push_step [where localtime = localtime and t = t and io = io and force = force,
        OF s1(2,3) dp(4) assms(3) dp(5,3,1,2)] snoc.prems(2) by (auto simp: recording_snoc p)
  then show ?case using s1(1) by (auto simp: push_all_append p)
qed (use assms in \<open>simp add: recording_def\<close>)

text \<open>C35: The files hold the recording up to what the last stream has not sent yet. A push is appended to the last
  segment or begins one (the first push, one that asks for it, one that comes when the segment is as old as
  given); the segments one after the other are the data pushed. Every push reports all its bytes; the file of
  every segment but the last is complete; that of the last one holds a beginning of it, and the rest is
  pending in its stream; other files stay as they were. \<open>cm_avstorage_deinit\<close> then forgets the stream with
  what is pending. Conditions: every file can be opened, every \<open>fwrite\<close> takes all its bytes, every \<open>fflush\<close>
  sends what is pending (how much an \<open>fwrite\<close> sends is open); a push has data, below \<open>2 ^ 31\<close> bytes; the clock is
  positive, the local time has fields of the usual width; the path is shorter than 256 without NUL; the names
  of the segments, which hold the second at which they begin, differ.\<close>

theorem avstorage_records:
  assumes "storage_block b" and "length path < 256" and "NUL \<notin> set path"
    and "\<forall>p \<in> set ps. good_push path localtime p"
    and "recording (name_at path localtime) T ps = (since, segs)" and "distinct (map fst segs)"
  shows "concat (map snd segs) = pushed ps \<and>
    (\<exists>s s' fs'. cm_avstorage_init (Some b) path T sz = Some (0, Some s) \<and> push_all localtime s fs ps = Some (s', fs') \<and>
      (case pWrite s' of
         None \<Rightarrow> segs = [] \<and> fs' = fs
       | Some (name, pending) \<Rightarrow> \<exists>b sent. segs = b @ [(name, sent @ pending)] \<and> fs' = fs ++ map_of (b @ [(name, sent)])) \<and>
      cm_avstorage_deinit (Some (Some s')) = (0, Some None))"
proof -
  obtain s where s: "cm_avstorage_init (Some b) path T sz = Some (0, Some s)" "ready path T s" "holds fs s fs (0, [])"
    using init_ready [OF assms(1-3)] by blast
  obtain s' fs' where "push_all localtime s fs ps = Some (s', fs')" "holds fs s' fs' (since, segs)"
    using push_all_holds [where localtime = localtime, OF s(2,3) assms(3,4)] assms(5,6) by auto
  moreover from this(2) have "case pWrite s' of
         None \<Rightarrow> segs = [] \<and> fs' = fs
       | Some (name, pending) \<Rightarrow> \<exists>b sent. segs = b @ [(name, sent @ pending)] \<and> fs' = fs ++ map_of (b @ [(name, sent)])"
    by (auto simp: holds_def split: option.splits)
  ultimately show ?thesis using s(1) recording_data [of "name_at path localtime" T ps] assms(5) by (auto simp: cm_avstorage_deinit_def)
qed

text \<open>Two segments of one second are one file, and the first is lost: when a new file is asked for twice while the
  local time prints the same, the second push empties the file of the first, although both calls report
  success. A file that cannot be opened is fatal: the call that fails returns -2, and the next one in the
  same interval, which does not try again, writes to the null pointer. And with streams that send nothing
  before they are flushed, a recording of one push that is then ended is an empty file.\<close>

definition buffered :: stdio where
  "buffered = \<lparr>io_opens = (\<lambda>n. True), io_takes = id, io_sends = (\<lambda>n. 0), io_flushes = id, io_closes = id\<rparr>"

lemma fwrite_buffered: "fs name = Some old \<Longrightarrow> fwrite buffered d (name, pending) fs = Some (length d, (name, pending @ d), fs)"
  by (simp add: buffered_def fun_upd_idem)

theorem avstorage_loses:
  assumes "storage_block b" and "length path < 256" and "NUL \<notin> set path" and "tm_ok (localtime t)" and "0 < now" and "0 < T"
    and "d1 \<noteq> []" and "d2 \<noteq> []" and "length d1 < 2 ^ 31" and "length d2 < 2 ^ 31" and "\<not> io_opens io (name_at path localtime t)"
  shows "\<exists>s s1 s2 s3. cm_avstorage_init (Some b) path T sz = Some (0, Some s) \<and>
      cm_avstorage_v_push buffered localtime (Some s) fs (Some d1) (length d1) now t f =
        Some (int (length d1), Some s1, fs(name_at path localtime t \<mapsto> [])) \<and>
      cm_avstorage_deinit (Some (Some s1)) = (0, Some None) \<and>
      cm_avstorage_v_push buffered localtime (Some s1) (fs(name_at path localtime t \<mapsto> [])) (Some d2) (length d2) now t True =
        Some (int (length d2), Some s2, fs(name_at path localtime t \<mapsto> [])) \<and> pWrite s2 = Some (name_at path localtime t, d2) \<and>
      cm_avstorage_v_push io localtime (Some s) fs (Some d1) (length d1) now t f = Some (- 2, Some s3, fs) \<and>
      cm_avstorage_v_push io2 localtime (Some s3) fs (Some d2) (length d2) now t False = None"
proof -
  obtain s where s: "cm_avstorage_init (Some b) path T sz = Some (0, Some s)" "ready path T s" "holds fs s fs (0, [])"
    using init_ready [OF assms(1-3)] by blast
  define nm where "nm = name_at path localtime t"
  have s0: "iLastOpen s = 0" "pWrite s = None" "hd (szCurrentFileName s) = NUL"
    using s(3) by (auto simp: holds_def split: option.splits)
  have name: "idx (szCurrentFileName u) 0 = Some (hd (szCurrentFileName u))" if "ready path T u" for u
    using that by (cases "szCurrentFileName u") (simp_all add: idx_def ready_def)
  have d: "c_int (int (length d1)) = Some (int (length d1))" "mem_read d1 0 (length d1) = Some d1"
      "c_int (int (length d2)) = Some (int (length d2))" "mem_read d2 0 (length d2) = Some d2"
    using assms(9,10) by (simp_all add: c_int_def mem_read_def)
  define s' where "s' = s\<lparr>iLastOpen := now\<rparr>"
  have s': "ready path T s'" "close_current io' s' fs = Some fs" for io'
    using s(2) s0(2) by (simp_all add: s'_def ready_def close_current_def)
  have c0: "idx (szCurrentFileName s') 0 = Some NUL" using name [OF s(2)] s0(3) by (simp add: s'_def)
  obtain u where u: "cm_avstorage_reopen buffered localtime t s' fs = Some (0, u\<lparr>pWrite := Some (nm, [])\<rparr>, fs(nm \<mapsto> []))"
    "ready path T u" "hd (szCurrentFileName u) \<noteq> NUL"
    using reopen_cases [where localtime = localtime and t = t and io = buffered, OF s'(1) assms(4,3) s'(2)] by (auto simp: nm_def buffered_def)
  define s1 where "s1 = u\<lparr>pWrite := Some (nm, d1), iLastOpen := now\<rparr>"
  have p1: "cm_avstorage_v_push buffered localtime (Some s) fs (Some d1) (length d1) now t f = Some (int (length d1), Some s1, fs(nm \<mapsto> []))"
    using u s0 assms(7) d(1,2) name [OF s(2)] c0 by (simp add: cm_avstorage_v_push_def s'_def [symmetric] s1_def fwrite_buffered del: fwrite.simps)
  have s1: "ready path T s1" "close_current buffered s1 (fs(nm \<mapsto> [])) = Some (fs(nm \<mapsto> d1))" "iLastOpen s1 = now"
    using u(2) by (simp_all add: s1_def ready_def close_current_def fflush_def fclose_def buffered_def)
  obtain v where v: "cm_avstorage_reopen buffered localtime t s1 (fs(nm \<mapsto> [])) = Some (0, v\<lparr>pWrite := Some (nm, [])\<rparr>, fs(nm \<mapsto> []))"
    using reopen_cases [where localtime = localtime and t = t and io = buffered, OF s1(1) assms(4,3) s1(2)] by (auto simp: nm_def buffered_def)
  define s2 where "s2 = v\<lparr>pWrite := Some (nm, d2), iLastOpen := now\<rparr>"
  have p2: "cm_avstorage_v_push buffered localtime (Some s1) (fs(nm \<mapsto> [])) (Some d2) (length d2) now t True =
      Some (int (length d2), Some s2, fs(nm \<mapsto> []))"
    using v s1(3) assms(5,8) d(3,4) name [OF s1(1)] by (simp add: cm_avstorage_v_push_def s2_def fwrite_buffered del: fwrite.simps)
  obtain w where w: "cm_avstorage_reopen io localtime t s' fs = Some (- 1, w\<lparr>pWrite := None\<rparr>, fs)"
    "ready path T w" "hd (szCurrentFileName w) \<noteq> NUL" "iLastOpen w = now"
    using reopen_cases [where localtime = localtime and t = t and io = io, OF s'(1) assms(4,3) s'(2)] assms(11) by (auto simp: s'_def)
  have p3: "cm_avstorage_v_push io localtime (Some s) fs (Some d1) (length d1) now t f = Some (- 2, Some (w\<lparr>pWrite := None\<rparr>), fs)"
    using w(1) s0 assms(7) name [OF s(2)] by (simp add: cm_avstorage_v_push_def s'_def)
  moreover have "cm_avstorage_v_push io2 localtime (Some (w\<lparr>pWrite := None\<rparr>)) fs (Some d2) (length d2) now t False = None"
    using w name [OF w(2)] assms(5,6,8) by (simp add: cm_avstorage_v_push_def ready_def)
  ultimately show ?thesis using s(1) p1 p2 unfolding nm_def
    by (intro exI [of _ s] exI [of _ s1] exI [of _ s2] exI [of _ "w\<lparr>pWrite := None\<rparr>"]) (simp add: s2_def nm_def cm_avstorage_deinit_def)
qed

section \<open>Examples\<close>

definition demo_block :: AVStorage where
  "demo_block = \<lparr>szSavePath = zeros 256, iTimePerFile = 0, iSizePerFile = 0, szFilePrefix = zeros 64, szCurrentFileName = zeros 512,
     szExt = zeros 8, pWrite = None, iLastOpen = 0\<rparr>"

definition demo_time :: "int \<Rightarrow> tm" where
  "demo_time t = \<lparr>tm_sec = t mod 60, tm_min = 0, tm_hour = 12, tm_mday = 22, tm_mon = 1, tm_year = 119, tm_wday = 5\<rparr>"

lemma demo_block_ok: "storage_block demo_block" "NUL \<notin> set ''/tmp''" "tm_ok (demo_time t)"
proof -
  have "0 \<le> t mod 60" "t mod 60 < 100" by (simp, rule less_trans [OF pos_mod_bound]) simp_all
  then show "tm_ok (demo_time t)" by (simp add: tm_ok_def demo_time_def date_ok_def clock_ok_def)
qed (simp_all add: storage_block_def demo_block_def NUL_def)

lemma avstorage_records_witness:
  "\<exists>s s' fs'. cm_avstorage_init (Some demo_block) ''/tmp'' 10 20 = Some (0, Some s) \<and>
    push_all demo_time s (\<lambda>n. None) [(buffered, [1], 1, 1, False), (buffered, [2], 2, 2, False), (buffered, [3], 3, 3, True)] = Some (s', fs') \<and>
    (\<exists>sent pending. pWrite s' = Some (name_at ''/tmp'' demo_time 3, pending) \<and> sent @ pending = [3] \<and>
      fs' = (\<lambda>n. None) ++ map_of [(name_at ''/tmp'' demo_time 1, [1, 2]), (name_at ''/tmp'' demo_time 3, sent)])"
proof -
  let ?ps = "[(buffered, [1 :: u8], 1, 1, False), (buffered, [2], 2, 2, False), (buffered, [3], 3, 3, True)] :: push list"
  have r: "recording (name_at ''/tmp'' demo_time) 10 ?ps =
      (3, [(name_at ''/tmp'' demo_time 1, [1, 2]), (name_at ''/tmp'' demo_time 3, [3])])"
    by (simp add: recording_def)
  have n: "name_at ''/tmp'' demo_time 1 \<noteq> name_at ''/tmp'' demo_time 3" by code_simp
  have g: "\<forall>p \<in> set ?ps. good_push ''/tmp'' demo_time p"
    using demo_block_ok(3) by (simp add: good_push_def works_def buffered_def)
  show ?thesis
    using avstorage_records [OF demo_block_ok(1) _ demo_block_ok(2) g r, of 20 "\<lambda>n. None"] n
    by (auto simp del: push_all.simps split: option.splits prod.splits)
qed

lemma avstorage_loses_witness:
  "\<exists>s s1 s2. cm_avstorage_init (Some demo_block) ''/tmp'' 10 20 = Some (0, Some s) \<and>
    cm_avstorage_v_push buffered demo_time (Some s) (\<lambda>n. None) (Some [1]) 1 7 7 True =
      Some (1, Some s1, [name_at ''/tmp'' demo_time 7 \<mapsto> []]) \<and>
    cm_avstorage_v_push buffered demo_time (Some s1) [name_at ''/tmp'' demo_time 7 \<mapsto> []] (Some [2]) 1 7 7 True =
      Some (1, Some s2, [name_at ''/tmp'' demo_time 7 \<mapsto> []]) \<and> pWrite s2 = Some (name_at ''/tmp'' demo_time 7, [2])"
  using avstorage_loses [OF demo_block_ok(1) _ demo_block_ok(2), where localtime = demo_time and now = 7 and t = 7 and T = 10 and sz = 20 and fs = "\<lambda>n. None"
      and ?d1.0 = "[1]" and ?d2.0 = "[2]" and f = True and io = "buffered\<lparr>io_opens := \<lambda>n. False\<rparr>"] demo_block_ok(3) [of 7]
  by simp blast

end
