(* ===== verification/HttpDownload.thy ===== *)
theory HttpDownload
  imports CmConf CodeUtils
begin

text \<open>
  The HTTP download of src/common/cm_http_download.c: parsing of the address, the request, the header of
  the answer, and the content by length or in chunks. A connection is the text that comes from it and how
  it ends; connecting and sending are arguments, writing the file does not fail. Two functions end without
  a return statement, and their callers look at the result, which the standard leaves undefined: the argument
  \<open>missing\<close> says for each use of such a result what is found there, and with \<open>None\<close> the program is undefined.
\<close>

section \<open>The state\<close>

text \<open>After the last character a read finds the end of the connection or an error.\<close>

datatype stream_end = Closed | Interrupted | TimedOut | Failed

record http_t =
  host_name :: "char list"
  host_port :: int
  uri :: "char list"
  buffer :: "char list"
  status_code :: int
  chunked_flag :: int
  content_len :: int
  location :: "char list"
  saved :: "char list option"
  recv_data_len :: int
  stream_in :: "char list"
  stream_stop :: stream_end
  no_values :: nat

text \<open>\<open>no_values\<close> is not in the struct: it counts the results without a value that were used.\<close>

definition http_zero :: http_t where
  "http_zero = \<lparr>host_name = zeros 256, host_port = 0, uri = zeros 2048, buffer = zeros 8192, status_code = 0, chunked_flag = 0,
     content_len = 0, location = zeros 2048, saved = None, recv_data_len = 0, stream_in = [], stream_stop = Closed, no_values = 0\<rparr>"

section \<open>Addresses and requests\<close>

fun strncasestr :: "string \<Rightarrow> string \<Rightarrow> nat option" where
  "strncasestr [] sub = None"
| "strncasestr (c # s) sub =
     (if sub = [] then None
      else if strncasecmp (c # s) sub (length sub) = 0 then Some 0
      else map_option Suc (strncasestr s sub))"

definition strchr_at :: "string \<Rightarrow> char \<Rightarrow> nat option" where
  "strchr_at s c = (if c \<in> set s then Some (length (takeWhile (\<lambda>x. x \<noteq> c) s)) else None)"

definition parser_URL :: "string \<Rightarrow> http_t \<Rightarrow> (int \<times> http_t) option" where
  "parser_URL url info = do {
     let start = (if strncasestr url ''http://'' \<noteq> None then drop 7 url else url);
     case strchr_at start (CHR ''/'') of
       None \<Rightarrow> Some (- 1, info)
     | Some e \<Rightarrow> do {
         let len = min e 255;
         h \<leftarrow> strncpy_to (host_name info) start len;
         h \<leftarrow> upd h len NUL;
         let info = info\<lparr>host_port := 80, host_name := h\<rparr>;
         (r, info) \<leftarrow>
           (case strchr_at start (CHR '':'') of
              Some k \<Rightarrow>
                if k < e then do {
                  p \<leftarrow> atoi (drop (k + 1) start);
                  let info = info\<lparr>host_port := p\<rparr>;
                  if p \<le> 0 \<or> p \<ge> 65535 then Some (- 1, info)
                  else do {
                    let len = min k 255;
                    h \<leftarrow> strncpy_to (host_name info) start len;
                    h \<leftarrow> upd h len NUL;
                    Some (0, info\<lparr>host_name := h\<rparr>)
                  }
                }
                else Some (0, info)
            | None \<Rightarrow> Some (0, info));
         if r = (- 1 :: int) then Some (- 1, info)
         else do {
           u \<leftarrow> strncpy_to (uri info) (drop e start) 2047;
           Some (0, info\<lparr>uri := u\<rparr>)
         }
       }
   }"

definition request_of :: "string \<Rightarrow> string \<Rightarrow> string" where
  "request_of u h = ''GET '' @ u @ '' HTTP/1.1'' @ CRLF @
     ''Accept: */*'' @ CRLF @
     ''User-Agent: Mozilla/5.0 (compatible; MSIE 5.01; Windows NT 5.0)'' @ CRLF @
     ''Host: '' @ h @ CRLF @
     ''Connection: Close'' @ CRLF @ CRLF"

text \<open>The request that \<open>send_request\<close> puts on the connection.\<close>

definition send_request :: "http_t \<Rightarrow> (string \<times> http_t) option" where
  "send_request info = do {
     u \<leftarrow> cstr (uri info);
     h \<leftarrow> cstr (host_name info);
     b \<leftarrow> snprintf_to (zeros 8192) 8191 (request_of u h);
     req \<leftarrow> cstr b;
     Some (req, info\<lparr>buffer := b\<rparr>)
   }"

section \<open>Reading the answer\<close>

text \<open>\<open>fgets(info->buffer, RECV_BUF, info->in)\<close>. A line that an error cuts leaves the buffer indeterminate.\<close>

definition get_line :: "http_t \<Rightarrow> (bool \<times> http_t) option" where
  "get_line info = (case fgets 8192 (stream_in info) of
     None \<Rightarrow> Some (False, info)
   | Some (l, rest) \<Rightarrow>
       if rest = [] \<and> last l \<noteq> LF \<and> length l < 8191 \<and> stream_stop info \<noteq> Closed then None
       else do {
         b \<leftarrow> mem_write (buffer info) 0 (l @ [NUL]);
         Some (True, info\<lparr>buffer := b, stream_in := rest\<rparr>)
       })"

text \<open>The text behind the colon and one more character; without a colon the null pointer is used.\<close>

definition header_value :: "string \<Rightarrow> nat \<Rightarrow> string option" where
  "header_value s p = do {
     k \<leftarrow> strchr_at (drop p s) (CHR '':'');
     if p + k + 2 \<le> length s then Some (drop (p + k + 2) s) else None
   }"

partial_function (option) header_passes :: "http_t \<Rightarrow> (int \<times> http_t) option" where
  "header_passes info = do {
     (got, info) \<leftarrow> get_line info;
     if \<not> got then Some (- 1, info)
     else do {
       s \<leftarrow> cstr (buffer info);
       if strcmp s CRLF = 0 then Some (0, info)
       else case strncasestr s ''Content-length'' of
         Some p \<Rightarrow> do {
           v \<leftarrow> header_value s p;
           n \<leftarrow> atoi v;
           header_passes (info\<lparr>content_len := n\<rparr>)
         }
       | None \<Rightarrow>
           if strncasestr s ''Transfer-Encoding'' \<noteq> None then
             if strncasestr s ''chunked'' \<noteq> None then header_passes (info\<lparr>chunked_flag := 1\<rparr>)
             else Some (- 1, info)
           else case strncasestr s ''Location'' of
             Some p \<Rightarrow> do {
               v \<leftarrow> header_value s p;
               l \<leftarrow> strncpy_to (location info) v 2047;
               header_passes (info\<lparr>location := l\<rparr>)
             }
           | None \<Rightarrow> header_passes info
     }
   }"

text \<open>The result of the first \<open>fgets\<close> is not looked at.\<close>

definition parse_http_header :: "http_t \<Rightarrow> (int \<times> http_t) option" where
  "parse_http_header info = do {
     (got, info) \<leftarrow> get_line info;
     s \<leftarrow> cstr (buffer info);
     case strchr_at s (CHR '' '') of
       None \<Rightarrow> Some (- 1, info)
     | Some p \<Rightarrow>
         if strncasestr s ''HTTP'' = None then Some (- 1, info)
         else do {
           n \<leftarrow> atoi (drop (p + 1) s);
           header_passes (info\<lparr>status_code := n\<rparr>)
         }
   }"

section \<open>The content\<close>

text \<open>The result of a function that ends without a return statement.\<close>

definition no_return :: "(nat \<Rightarrow> int option) \<Rightarrow> http_t \<Rightarrow> (int \<times> http_t) option" where
  "no_return missing info = do {
     v \<leftarrow> missing (no_values info);
     Some (v, info\<lparr>no_values := Suc (no_values info)\<rparr>)
   }"

text \<open>The loop of \<open>save_data\<close> writes everything in one pass; then the function ends without a value.\<close>

definition save_data :: "bool \<Rightarrow> (nat \<Rightarrow> int option) \<Rightarrow> http_t \<Rightarrow> char list \<Rightarrow> (int \<times> http_t) option" where
  "save_data can_open missing info d = (case saved info of
     Some f \<Rightarrow> no_return missing (info\<lparr>saved := Some (f @ d)\<rparr>)
   | None \<Rightarrow> if can_open then no_return missing (info\<lparr>saved := Some d\<rparr>) else Some (- 1, info))"

text \<open>The loop of \<open>read_data\<close>: the value of an early return, the state, and what is still to be read. A negative
  length becomes a huge one for \<open>fread\<close>. What a short read at the end gives is counted but not saved.\<close>

partial_function (option) read_passes :: "bool \<Rightarrow> (nat \<Rightarrow> int option) \<Rightarrow> http_t \<Rightarrow> int \<Rightarrow> (int \<times> http_t \<times> int) option" where
  "read_passes can_open missing info total_len =
     (if total_len = 0 then Some (0, info, 0)
      else do {
        let read_len = min total_len 8192;
        let n = nat (read_len mod 2 ^ 64);
        let d = take n (stream_in info);
        let rtn_len = int (length d);
        b \<leftarrow> mem_write (buffer info) 0 d;
        let info = info\<lparr>buffer := b, stream_in := drop n (stream_in info)\<rparr>;
        if rtn_len < read_len \<and> (stream_stop info = Closed \<or> stream_stop info = TimedOut) then Some (0, info, total_len - rtn_len)
        else if rtn_len < read_len \<and> stream_stop info = Failed then Some (0, info, total_len)
        else do {
          let total_len = total_len - rtn_len;
          (r, info) \<leftarrow> save_data can_open missing info d;
          if r = - 1 then Some (- 1, info, total_len)
          else do {
            got \<leftarrow> c_int (recv_data_len info + rtn_len);
            read_passes can_open missing (info\<lparr>recv_data_len := got\<rparr>) total_len
          }
        }
      })"

definition read_data :: "bool \<Rightarrow> (nat \<Rightarrow> int option) \<Rightarrow> http_t \<Rightarrow> int \<Rightarrow> (int \<times> http_t) option" where
  "read_data can_open missing info len = do {
     (r, info, total_len) \<leftarrow> read_passes can_open missing info len;
     if r = - 1 \<or> total_len \<noteq> 0 then Some (- 1, info) else no_return missing info
   }"

text \<open>\<open>strtol(s, NULL, 16)\<close>, before any range check.\<close>

definition hex_num :: "string \<Rightarrow> nat" where
  "hex_num s = foldl (\<lambda>acc c. 16 * acc + hex_val c) 0 (takeWhile cm_isxdigit s)"

definition strtol16_val :: "string \<Rightarrow> int" where
  "strtol16_val s = (let t = dropWhile is_space s;
       neg = (t \<noteq> [] \<and> hd t = CHR ''-'');
       u = (if t \<noteq> [] \<and> (hd t = CHR ''-'' \<or> hd t = CHR ''+'') then tl t else t);
       v = (if take 2 u \<in> {''0x'', ''0X''} \<and> drop 2 u \<noteq> [] \<and> cm_isxdigit (u ! 2) then drop 2 u else u) in
     if neg then - int (hex_num v) else int (hex_num v))"

definition long_max :: int where "long_max = 2 ^ 63 - 1"

text \<open>Values out of range become the nearest \<open>long\<close>.\<close>

definition strtol16 :: "string \<Rightarrow> int" where
  "strtol16 s = max (- long_max - 1) (min long_max (strtol16_val s))"

text \<open>The conversion of a \<open>long\<close> to \<open>int\<close>.\<close>

definition long_to_int :: "int \<Rightarrow> int" where
  "long_to_int v = sint (word_of_int v :: u32)"

partial_function (option) recv_chunked_response :: "bool \<Rightarrow> (nat \<Rightarrow> int option) \<Rightarrow> http_t \<Rightarrow> (int \<times> http_t) option" where
  "recv_chunked_response can_open missing info = do {
     (got, info) \<leftarrow> get_line info;
     s \<leftarrow> cstr (buffer info);
     let part_len = strtol16 s;
     (r, info) \<leftarrow> read_data can_open missing info (long_to_int part_len);
     if r = - 1 then Some (- 1, info)
     else do {
       let d = take 2 (stream_in info);
       b \<leftarrow> mem_write (buffer info) 0 d;
       let info = info\<lparr>buffer := b, stream_in := drop 2 (stream_in info)\<rparr>;
       if length d \<noteq> 2 then Some (- 1, info)
       else if part_len \<noteq> 0 then recv_chunked_response can_open missing info
       else Some (0, info)
     }
   }"

definition recv_response :: "bool \<Rightarrow> (nat \<Rightarrow> int option) \<Rightarrow> http_t \<Rightarrow> (int \<times> http_t) option" where
  "recv_response can_open missing info =
     (if chunked_flag info \<noteq> 0 then recv_chunked_response can_open missing info
      else do {
        (r, info) \<leftarrow> read_data can_open missing info (content_len info);
        Some (if r = - 1 then - 1 else 0, info)
      })"

section \<open>The download\<close>

text \<open>\<open>i\<close> numbers the connections: \<open>missing i\<close> are the values of missing results there, \<open>connects\<close> tells whether one to a host and port comes about, \<open>answers\<close> what
  comes back for a request, \<open>None\<close> when it cannot be sent. A redirection starts again with the text of the
  header field. The result is the value and the content of the file, if it was opened.\<close>

partial_function (option) http_download ::
  "bool \<Rightarrow> (nat \<Rightarrow> nat \<Rightarrow> int option) \<Rightarrow> (nat \<Rightarrow> string \<Rightarrow> int \<Rightarrow> bool) \<Rightarrow> (nat \<Rightarrow> string \<Rightarrow> (char list \<times> stream_end) option) \<Rightarrow> nat \<Rightarrow> string \<Rightarrow>
     (int \<times> char list option) option" where
  "http_download can_open missing connects answers i url = do {
     (r, info) \<leftarrow> parser_URL url http_zero;
     if r = - 1 then Some (- 1, None)
     else do {
       h \<leftarrow> cstr (host_name info);
       if \<not> connects i h (host_port info) then Some (- 1, None)
       else do {
         (req, info) \<leftarrow> send_request info;
         case answers i req of
           None \<Rightarrow> Some (- 1, None)
         | Some (text, stop) \<Rightarrow> do {
             (r, info) \<leftarrow> parse_http_header (info\<lparr>stream_in := text, stream_stop := stop\<rparr>);
             if r = - 1 then Some (- 1, None)
             else if status_code info = 200 then do {
               (r, info) \<leftarrow> recv_response can_open (missing i) info;
               Some (if r = - 1 then - 1 else 0, saved info)
             }
             else if status_code info = 302 then do {
               l \<leftarrow> cstr (location info);
               tmp \<leftarrow> strncpy_to (zeros 2048) l 2047;
               u \<leftarrow> cstr tmp;
               http_download can_open missing connects answers (i + 1) u
             }
             else Some (- 1, None)
           }
       }
     }
   }"

end
