(* ===== verification/HttpDownload_Correct.thy ===== *)
theory HttpDownload_Correct
  imports HttpDownload
begin

text \<open>
  What a download saves: a chunked answer is put together, and what a redirection asks for.
\<close>

section \<open>Lines\<close>

lemma fgets_upto:
  assumes "LF \<notin> set l" and "length l + 1 < n"
  shows "fgets n (l @ LF # rest) = Some (l @ [LF], rest)"
proof -
  obtain k where k: "n - 1 = length l + Suc k" using assms(2) by (metis add_Suc_right less_diff_conv less_natE)
  then have t: "take (n - Suc 0) (l @ LF # rest) = l @ LF # take k rest" by simp
  have "takeWhile (\<lambda>c. c \<noteq> LF) (l @ LF # take k rest) = l"
    by (rule takeWhile_append_stop) (use assms(1) in auto)
  moreover have "take (Suc (length l)) (l @ LF # rest) = l @ [LF]" "drop (Suc (length l)) (l @ LF # rest) = rest" by simp_all
  ultimately show ?thesis by (simp add: fgets_def Let_def t del: take_append)
qed

text \<open>A line that fits the buffer, without its line feed.\<close>

definition line_ok :: "string \<Rightarrow> bool" where
  "line_ok l = (LF \<notin> set l \<and> NUL \<notin> set l \<and> length l < 8190)"

lemma get_line_ok:
  assumes "line_ok l" and "stream_in info = l @ LF # rest" and "length (buffer info) = 8192"
  shows "\<exists>b. get_line info = Some (True, info\<lparr>buffer := b, stream_in := rest\<rparr>) \<and> length b = 8192 \<and> cstr b = Some (l @ [LF])"
proof -
  have l: "LF \<notin> set l" "length l + 1 < 8192" "NUL \<notin> set (l @ [LF])" using assms(1) by (auto simp: line_ok_def LF_def NUL_def)
  define b where "b = (l @ [LF]) @ NUL # drop (length l + 2) (buffer info)"
  have "mem_write (buffer info) 0 ((l @ [LF]) @ [NUL]) = Some b" using l(2) assms(3) by (simp add: mem_write_def b_def)
  moreover have "length b = 8192" using l(2) assms(3) by (simp add: b_def)
  moreover have "cstr b = Some (l @ [LF])" unfolding b_def by (rule cstr_append_NUL [OF l(3)])
  ultimately show ?thesis using fgets_upto [OF l(1,2)] assms(2) by (auto simp: get_line_def)
qed

section \<open>Hexadecimal lengths\<close>

lemma xdigit_neq: "cm_isxdigit c \<Longrightarrow> \<not> is_space c \<and> c \<noteq> CHR ''-'' \<and> c \<noteq> CHR ''+'' \<and> c \<noteq> CHR ''x'' \<and> c \<noteq> CHR ''X'' \<and> c \<noteq> LF \<and> c \<noteq> NUL"
  by (auto simp: cm_isxdigit_def Let_def is_space_def LF_def NUL_def)

lemma strtol16_line:
  assumes "\<forall>c \<in> set h. cm_isxdigit c" and "h \<noteq> []" and "hex_num h < 2 ^ 31"
  shows "strtol16 (h @ CRLF) = int (hex_num h)" and "long_to_int (int (hex_num h)) = int (hex_num h)"
proof -
  obtain c r where h: "h = c # r" using assms(2) by (cases h) auto
  have c: "cm_isxdigit c" "\<not> is_space c" "c \<noteq> CHR ''-''" "c \<noteq> CHR ''+''" using assms(1) h xdigit_neq [of c] by auto
  have stop: "\<not> cm_isxdigit (CHR 0x0D)" by (simp add: cm_isxdigit_def)
  have "takeWhile cm_isxdigit (h @ CRLF) = h" "takeWhile cm_isxdigit h = h"
    using assms(1) stop by (auto simp: CRLF_def takeWhile_append2 takeWhile_eq_all_conv)
  then have num: "hex_num (h @ CRLF) = hex_num h" by (simp only: hex_num_def)
  have nox: "take 2 (h @ CRLF) \<notin> {''0x'', ''0X''}"
    using assms(1) xdigit_neq by (cases r) (auto simp: h CRLF_def)
  have "dropWhile is_space (h @ CRLF) = h @ CRLF" using c(2) by (simp add: h)
  then have "strtol16_val (h @ CRLF) = int (hex_num h)"
    using c nox num by (simp add: strtol16_val_def Let_def) (simp add: h)
  then show "strtol16 (h @ CRLF) = int (hex_num h)" using assms(3) by (simp add: strtol16_def long_max_def)
  show "long_to_int (int (hex_num h)) = int (hex_num h)"
    using assms(3) by (simp add: long_to_int_def sint_uint take_bit_int_eq_self signed_take_bit_int_eq_self unsigned_of_nat take_bit_nat_eq_self)
qed

section \<open>Content\<close>

definition file_of :: "http_t \<Rightarrow> char list" where
  "file_of info = (case saved info of None \<Rightarrow> [] | Some f \<Rightarrow> f)"

text \<open>The state after the content \<open>d\<close> has been read and saved.\<close>

definition after_content :: "http_t \<Rightarrow> char list \<Rightarrow> char list \<Rightarrow> char list \<Rightarrow> nat \<Rightarrow> http_t" where
  "after_content info d rest b k = info\<lparr>buffer := b, stream_in := rest, recv_data_len := recv_data_len info + int (length d),
     saved := (if d = [] then saved info else Some (file_of info @ d)), no_values := k\<rparr>"

text \<open>Something other than -1 is found wherever a value is missing.\<close>

definition benign :: "(nat \<Rightarrow> int option) \<Rightarrow> bool" where
  "benign missing = (\<forall>k. missing k \<noteq> None \<and> missing k \<noteq> Some (- 1))"

lemma benign_value: "benign missing \<Longrightarrow> \<exists>v. no_return missing info = Some (v, info\<lparr>no_values := Suc (no_values info)\<rparr>) \<and> v \<noteq> - 1"
proof -
  assume "benign missing"
  then obtain v where "missing (no_values info) = Some v" "v \<noteq> - 1" by (auto simp: benign_def)
  then show ?thesis by (simp add: no_return_def)
qed

lemma save_data_True: "save_data True missing info d = no_return missing (info\<lparr>saved := Some (file_of info @ d)\<rparr>)"
  by (auto simp: save_data_def file_of_def split: option.splits)

lemma read_passes_all:
  assumes "benign missing" and "stream_in info = d @ rest" and "length (buffer info) = 8192"
    and "0 \<le> recv_data_len info" and "recv_data_len info + int (length d) < 2 ^ 31"
  shows "\<exists>b k. read_passes True missing info (int (length d)) = Some (0, after_content info d rest b k, 0) \<and> length b = 8192"
  using assms(2-5)
proof (induction "length d" arbitrary: info d rule: less_induct)
  case less
  show ?case
  proof (cases "d = []")
    case True
    then show ?thesis using less.prems
      by (subst read_passes.simps) (auto simp: after_content_def intro!: exI [of _ "buffer info"] exI [of _ "no_values info"])
  next
    case False
    define n where "n = min (length d) 8192"
    define x where "x = take n d"
    define y where "y = drop n d"
    have xy: "d = x @ y" "length x = n" "0 < n" "n \<le> 8192" using False by (auto simp: x_def y_def n_def)
    have size: "min (int (length d)) 8192 = int n" "nat (int n mod 2 ^ 64) = n" using xy(4) by (simp_all add: n_def)
    have tk: "take n (stream_in info) = x" "drop n (stream_in info) = y @ rest" using less.prems(1) xy by simp_all
    have whole: "n \<le> length (stream_in info)" using less.prems(1) xy(1,2) by simp
    define b where "b = x @ drop n (buffer info)"
    have b: "mem_write (buffer info) 0 x = Some b" "length b = 8192" using less.prems(2) xy by (simp_all add: b_def mem_write_def)
    define info0 where "info0 = info\<lparr>buffer := b, stream_in := y @ rest\<rparr>"
    define info1 where "info1 = info\<lparr>buffer := b, stream_in := y @ rest, saved := Some (file_of info @ x),
      no_values := Suc (no_values info), recv_data_len := recv_data_len info + int n\<rparr>"
    obtain v where v: "save_data True missing info0 x = Some (v, info0\<lparr>saved := Some (file_of info0 @ x), no_values := Suc (no_values info0)\<rparr>)" "v \<noteq> - 1"
      using benign_value [OF assms(1), of "info0\<lparr>saved := Some (file_of info0 @ x)\<rparr>"] by (auto simp: save_data_True)
    have upd: "info0\<lparr>saved := Some (file_of info0 @ x), no_values := Suc (no_values info0), recv_data_len := recv_data_len info0 + int n\<rparr> = info1"
      by (cases info) (simp add: info0_def info1_def file_of_def)
    have got: "c_int (recv_data_len info0 + int n) = Some (recv_data_len info0 + int n)" "int (length d) - int n = int (length y)" "int (length d) \<noteq> 0"
      using less.prems(3,4) xy False by (auto simp: c_int_def info0_def)
    have "length y < length d" using xy by simp
    then obtain b2 k where b2: "read_passes True missing info1 (int (length y)) = Some (0, after_content info1 y rest b2 k, 0)" "length b2 = 8192"
      using less.hyps [of y info1] less.prems(3,4) b(2) xy by (auto simp: info1_def)
    have "after_content info1 y rest b2 k = after_content info d rest b2 k"
      using False xy by (cases info) (auto simp: after_content_def info1_def file_of_def)
    moreover have "read_passes True missing info (int (length d)) = read_passes True missing info1 (int (length y))"
      using size tk b(1) v got xy(2) whole upd
      by (subst read_passes.simps) (simp add: Let_def info0_def [symmetric] min_absorb2)
    ultimately show ?thesis using b2 by metis
  qed
qed

lemma read_data_all:
  assumes "benign missing" and "stream_in info = d @ rest" and "length (buffer info) = 8192"
    and "0 \<le> recv_data_len info" and "recv_data_len info + int (length d) < 2 ^ 31"
  shows "\<exists>v b k. read_data True missing info (int (length d)) = Some (v, after_content info d rest b k) \<and> v \<noteq> - 1 \<and> length b = 8192"
proof -
  obtain b k where b: "read_passes True missing info (int (length d)) = Some (0, after_content info d rest b k, 0)" "length b = 8192"
    using read_passes_all [OF assms] by blast
  obtain v where "no_return missing (after_content info d rest b k) = Some (v, after_content info d rest b (Suc k))" "v \<noteq> - 1"
    using benign_value [OF assms(1), of "after_content info d rest b k"] by (auto simp: after_content_def)
  then show ?thesis using b by (auto simp: read_data_def)
qed

text \<open>By the letter of the standard nothing can be read.\<close>

lemma read_data_undefined:
  assumes "stream_in info = d @ rest" and "length (buffer info) = 8192"
  shows "read_data True (\<lambda>_. None) info (int (length d)) = None"
proof (cases "d = []")
  case True
  then show ?thesis by (simp add: read_data_def read_passes.simps no_return_def)
next
  case False
  define n where "n = min (length d) 8192"
  have n: "min (int (length d)) 8192 = int n" "nat (int n mod 2 ^ 64) = n" "n \<le> length (stream_in info)"
    using assms(1) by (simp_all add: n_def)
  have "length (take n (stream_in info)) \<le> length (buffer info)" using assms(2) by (simp add: n_def)
  then have "\<exists>b. mem_write (buffer info) 0 (take n (stream_in info)) = Some b" by (simp add: mem_write_def)
  then show ?thesis using False n
    by (subst read_data_def, subst read_passes.simps) (auto simp: Let_def min_absorb2 save_data_True no_return_def)
qed

section \<open>Chunks\<close>

text \<open>A chunk is its length in hexadecimal digits and its data, as RFC 7230 writes it.\<close>

definition chunk_ok :: "string \<times> char list \<Rightarrow> bool" where
  "chunk_ok c = (case c of (h, d) \<Rightarrow> (\<forall>x \<in> set h. cm_isxdigit x) \<and> h \<noteq> [] \<and> length h < 8000 \<and> hex_num h = length d \<and> length d < 2 ^ 31)"

definition chunk_text :: "string \<times> char list \<Rightarrow> char list" where
  "chunk_text c = fst c @ CRLF @ snd c @ CRLF"

lemma CRLF_LF: "x @ CRLF @ y = (x @ [CHR 0x0D]) @ LF # y" "CRLF = [CHR 0x0D, LF]" "length CRLF = 2"
  by (simp_all add: CRLF_def LF_def)

lemma chunk_length:
  assumes "chunk_ok (h, d)" and "stream_in info = chunk_text (h, d) @ rest" and "length (buffer info) = 8192"
  shows "\<exists>b. get_line info = Some (True, info\<lparr>buffer := b, stream_in := d @ CRLF @ rest\<rparr>) \<and> length b = 8192 \<and> cstr b = Some (h @ CRLF)"
    and "strtol16 (h @ CRLF) = int (length d)" and "long_to_int (int (length d)) = int (length d)"
proof -
  have h: "\<forall>x \<in> set h. cm_isxdigit x" "h \<noteq> []" "hex_num h = length d" "hex_num h < 2 ^ 31" "length h < 8000" using assms(1) by (auto simp: chunk_ok_def)
  have ok: "line_ok (h @ [CHR 0x0D])" using h(1,5) xdigit_neq by (auto simp: line_ok_def LF_def NUL_def)
  show "\<exists>b. get_line info = Some (True, info\<lparr>buffer := b, stream_in := d @ CRLF @ rest\<rparr>) \<and> length b = 8192 \<and> cstr b = Some (h @ CRLF)"
    using get_line_ok [OF ok, of info "d @ CRLF @ rest"] assms(2,3) by (auto simp: chunk_text_def CRLF_LF(2))
  show "strtol16 (h @ CRLF) = int (length d)" and "long_to_int (int (length d)) = int (length d)"
    using strtol16_line [OF h(1,2,4)] h(3) by simp_all
qed

lemma chunk_pass:
  assumes "benign missing" and "chunk_ok c" and "stream_in info = chunk_text c @ rest" and "length (buffer info) = 8192"
    and "0 \<le> recv_data_len info" and "recv_data_len info + int (length (snd c)) < 2 ^ 31"
  shows "\<exists>b k. recv_chunked_response True missing info =
      (if snd c = [] then Some (0, after_content info (snd c) rest b k)
       else recv_chunked_response True missing (after_content info (snd c) rest b k)) \<and> length b = 8192"
proof -
  obtain h d where c: "c = (h, d)" by (cases c)
  note len = chunk_length [OF assms(2,3,4) [unfolded c]]
  obtain b where b: "get_line info = Some (True, info\<lparr>buffer := b, stream_in := d @ CRLF @ rest\<rparr>)" "length b = 8192" "cstr b = Some (h @ CRLF)"
    using len(1) by blast
  define info1 where "info1 = info\<lparr>buffer := b, stream_in := d @ CRLF @ rest\<rparr>"
  obtain v b2 k where b2: "read_data True missing info1 (int (length d)) = Some (v, after_content info1 d (CRLF @ rest) b2 k)" "v \<noteq> - 1" "length b2 = 8192"
    using read_data_all [OF assms(1), of info1 d "CRLF @ rest"] b(2) assms(5,6) by (auto simp: info1_def c)
  define b3 where "b3 = CRLF @ drop 2 b2"
  have b3: "mem_write b2 0 CRLF = Some b3" "length b3 = 8192" using b2(3) by (simp_all add: b3_def mem_write_def CRLF_LF(3) numeral_2_eq_2)
  define info2 where "info2 = after_content info1 d (CRLF @ rest) b2 k"
  have info2: "info2\<lparr>buffer := b3, stream_in := rest\<rparr> = after_content info d rest b3 k"
    "take 2 (stream_in info2) = CRLF" "drop 2 (stream_in info2) = rest" "length (stream_in info2) = 2 + length rest" "buffer info2 = b2" "buffer info1 = b"
    by (cases info, simp_all add: after_content_def info1_def info2_def file_of_def CRLF_LF(2))
  have "recv_chunked_response True missing info =
      (if d = [] then Some (0, after_content info d rest b3 k) else recv_chunked_response True missing (after_content info d rest b3 k))"
    using b(1,3) len(2,3) b2(1,2) b3(1) info2
    by (subst recv_chunked_response.simps) (simp add: info1_def [symmetric] info2_def [symmetric] CRLF_LF(3))
  then show ?thesis using b3(2) by (auto simp: c)
qed

lemma chunk_undefined:
  assumes "chunk_ok c" and "stream_in info = chunk_text c @ rest" and "length (buffer info) = 8192"
  shows "recv_chunked_response True (\<lambda>_. None) info = None"
proof -
  obtain h d where c: "c = (h, d)" by (cases c)
  note len = chunk_length [OF assms [unfolded c]]
  obtain b where "get_line info = Some (True, info\<lparr>buffer := b, stream_in := d @ CRLF @ rest\<rparr>)" "length b = 8192" "cstr b = Some (h @ CRLF)"
    using len(1) by blast
  then show ?thesis using len(2,3) read_data_undefined [of "info\<lparr>buffer := b, stream_in := d @ CRLF @ rest\<rparr>" d "CRLF @ rest"]
    by (subst recv_chunked_response.simps) simp
qed

lemma chunks_saved:
  assumes "benign missing" and "\<forall>c \<in> set cs. chunk_ok c \<and> snd c \<noteq> []" and "chunk_ok (h0, [])"
    and "stream_in info = concat (map chunk_text cs) @ chunk_text (h0, []) @ rest" and "length (buffer info) = 8192"
    and "0 \<le> recv_data_len info" and "recv_data_len info + int (length (concat (map snd cs))) < 2 ^ 31"
  shows "\<exists>b k. recv_chunked_response True missing info = Some (0, after_content info (concat (map snd cs)) rest b k)"
  using assms(2,4-7)
proof (induction cs arbitrary: info)
  case Nil
  then show ?case using chunk_pass [OF assms(1,3), of info rest] by auto
next
  case (Cons c cs)
  define more where "more = concat (map chunk_text cs) @ chunk_text (h0, []) @ rest"
  obtain b k where b: "recv_chunked_response True missing info = recv_chunked_response True missing (after_content info (snd c) more b k)" "length b = 8192"
    using chunk_pass [OF assms(1), of c info more] Cons.prems by (auto simp: more_def)
  define info1 where "info1 = after_content info (snd c) more b k"
  obtain b2 k2 where b2: "recv_chunked_response True missing info1 = Some (0, after_content info1 (concat (map snd cs)) rest b2 k2)"
    using Cons.IH [of info1] Cons.prems b(2) by (auto simp: info1_def after_content_def more_def)
  have "after_content info1 (concat (map snd cs)) rest b2 k2 = after_content info (snd c @ concat (map snd cs)) rest b2 k2"
    using Cons.prems(1) by (cases info) (auto simp: info1_def after_content_def file_of_def)
  then show ?case using b(1) b2 by (auto simp: info1_def)
qed

lemma chunks_undefined:
  assumes "\<forall>c \<in> set cs. chunk_ok c" and "chunk_ok (h0, [])"
    and "stream_in info = concat (map chunk_text cs) @ chunk_text (h0, []) @ rest" and "length (buffer info) = 8192"
  shows "recv_chunked_response True (\<lambda>_. None) info = None"
  using assms chunk_undefined [of "(h0, [])" info rest]
    chunk_undefined [of "hd cs" info "concat (map chunk_text (tl cs)) @ chunk_text (h0, []) @ rest"]
  by (cases cs) auto

section \<open>Headers\<close>

text \<open>A header line that the download does not look at, without its line feed.\<close>

definition plain_header :: "string \<Rightarrow> bool" where
  "plain_header l = (line_ok l \<and> l \<noteq> [CHR 0x0D] \<and> strncasestr (l @ [LF]) ''Content-length'' = None \<and>
     strncasestr (l @ [LF]) ''Transfer-Encoding'' = None \<and> strncasestr (l @ [LF]) ''Location'' = None)"

lemma header_plain:
  assumes "plain_header l" and "stream_in info = l @ LF # rest" and "length (buffer info) = 8192"
  shows "\<exists>b. header_passes info = header_passes (info\<lparr>buffer := b, stream_in := rest\<rparr>) \<and> length b = 8192"
proof -
  obtain b where "get_line info = Some (True, info\<lparr>buffer := b, stream_in := rest\<rparr>)" "length b = 8192" "cstr b = Some (l @ [LF])"
    using get_line_ok assms by (metis plain_header_def)
  moreover have "strcmp (l @ [LF]) CRLF \<noteq> 0" using assms(1) by (simp add: strcmp_eq_0 CRLF_LF(2) plain_header_def)
  ultimately show ?thesis using assms(1) by (subst header_passes.simps) (auto simp: plain_header_def)
qed

definition header_lines :: "string list \<Rightarrow> string" where
  "header_lines ls = concat (map (\<lambda>l. l @ [LF]) ls)"

lemma headers_plain:
  assumes "\<forall>l \<in> set ls. plain_header l" and "stream_in info = header_lines ls @ rest" and "length (buffer info) = 8192"
  shows "\<exists>b. header_passes info = header_passes (info\<lparr>buffer := b, stream_in := rest\<rparr>) \<and> length b = 8192"
  using assms
proof (induction ls arbitrary: info)
  case Nil
  then show ?case by (intro exI [of _ "buffer info"]) (cases info, simp add: header_lines_def)
next
  case (Cons l ls)
  obtain b where b: "header_passes info = header_passes (info\<lparr>buffer := b, stream_in := header_lines ls @ rest\<rparr>)" "length b = 8192"
    using header_plain [of l info "header_lines ls @ rest"] Cons.prems by (auto simp: header_lines_def)
  show ?case using Cons.IH [of "info\<lparr>buffer := b, stream_in := header_lines ls @ rest\<rparr>"] Cons.prems(1) b by (auto simp: header_lines_def)
qed

lemma header_end:
  assumes "stream_in info = CRLF @ rest" and "length (buffer info) = 8192"
  shows "\<exists>b. header_passes info = Some (0, info\<lparr>buffer := b, stream_in := rest\<rparr>) \<and> length b = 8192"
proof -
  have "line_ok [CHR 0x0D]" by (simp add: line_ok_def LF_def NUL_def)
  then obtain b where "get_line info = Some (True, info\<lparr>buffer := b, stream_in := rest\<rparr>)" "length b = 8192" "cstr b = Some CRLF"
    using get_line_ok [of "[CHR 0x0D]" info rest] assms by (auto simp: CRLF_LF(2))
  then show ?thesis by (subst header_passes.simps) (auto simp: strcmp_eq_0)
qed

lemma header_chunked:
  assumes "stream_in info = ''Transfer-Encoding: chunked'' @ CRLF @ rest" and "length (buffer info) = 8192"
  shows "\<exists>b. header_passes info = header_passes (info\<lparr>buffer := b, stream_in := rest, chunked_flag := 1\<rparr>) \<and> length b = 8192"
proof -
  define l where "l = ''Transfer-Encoding: chunked'' @ [CHR 0x0D]"
  have l: "line_ok l" "''Transfer-Encoding: chunked'' @ CRLF @ rest = l @ LF # rest"
    by (simp_all add: l_def line_ok_def CRLF_LF(2)) (simp add: LF_def NUL_def)
  have "strncasestr (l @ [LF]) ''Content-length'' = None" "strncasestr (l @ [LF]) ''Transfer-Encoding'' \<noteq> None"
    "strncasestr (l @ [LF]) ''chunked'' \<noteq> None" "l @ [LF] \<noteq> CRLF" unfolding l_def by code_simp+
  then show ?thesis using get_line_ok [OF l(1), of info rest] assms l(2)
    by (subst header_passes.simps) (auto simp: strcmp_eq_0)
qed

lemma header_location:
  assumes "stream_in info = ''Location: '' @ u @ CRLF @ rest" and "length (buffer info) = 8192" and "length (location info) = 2048"
    and "LF \<notin> set u" and "NUL \<notin> set u" and "length u < 2000"
    and "strncasestr (''Location: '' @ u @ CRLF) ''Content-length'' = None" and "strncasestr (''Location: '' @ u @ CRLF) ''Transfer-Encoding'' = None"
  shows "\<exists>b l. header_passes info = header_passes (info\<lparr>buffer := b, stream_in := rest, location := l\<rparr>) \<and> length b = 8192 \<and>
    length l = 2048 \<and> cstr l = Some (u @ CRLF)"
proof -
  define l where "l = ''Location: '' @ u @ [CHR 0x0D]"
  have s: "l @ [LF] = ''Location: '' @ u @ CRLF" "''Location: '' @ u @ CRLF @ rest = l @ LF # rest" by (simp_all add: l_def CRLF_LF(2))
  have ok: "line_ok l" using assms(4-6) by (simp add: l_def line_ok_def) (simp add: LF_def NUL_def)
  obtain b where b: "get_line info = Some (True, info\<lparr>buffer := b, stream_in := rest\<rparr>)" "length b = 8192" "cstr b = Some (''Location: '' @ u @ CRLF)"
    using get_line_ok [OF ok, of info rest] assms(1,2) s by auto
  have v: "header_value (''Location: '' @ u @ CRLF) 0 = Some (u @ CRLF)" by (simp add: header_value_def strchr_at_def)
  have "strncasestr (''Location: '' @ u @ CRLF) ''Location'' = Some 0" by simp
  moreover have "''Location: '' @ u @ CRLF \<noteq> CRLF" by (simp add: CRLF_def)
  moreover define loc where "loc = u @ CRLF @ zeros (2045 - length u) @ drop 2047 (location info)"
  have "strncpy_to (location info) (u @ CRLF) 2047 = Some loc"
    using assms(3,6) by (simp add: strncpy_to_Some loc_def zeros_def CRLF_LF(3))
  moreover have "length loc = 2048" using assms(3,6) by (simp add: loc_def CRLF_LF(3))
  moreover have "cstr loc = Some (u @ CRLF)"
  proof -
    have "NUL \<notin> set (u @ CRLF)" using assms(5) by (auto simp: CRLF_def NUL_def)
    moreover have "loc = (u @ CRLF) @ NUL # zeros (2044 - length u) @ drop 2047 (location info)"
    proof -
      have "2045 - length u = Suc (2044 - length u)" using assms(6) by simp
      then show ?thesis by (simp add: loc_def zeros_def)
    qed
    ultimately show ?thesis using cstr_append_NUL by metis
  qed
  ultimately show ?thesis using b v assms(7,8)
    by (subst header_passes.simps) (auto simp: strcmp_eq_0 simp del: strncasestr.simps append.simps)
qed

lemma status_line:
  assumes "stream_in info = l @ LF # rest" and "line_ok l" and "length (buffer info) = 8192" and "strchr_at (l @ [LF]) (CHR '' '') = Some p"
    and "strncasestr (l @ [LF]) ''HTTP'' \<noteq> None" and "atoi (drop (p + 1) (l @ [LF])) = Some n"
  shows "\<exists>b. parse_http_header info = header_passes (info\<lparr>buffer := b, stream_in := rest, status_code := n\<rparr>) \<and> length b = 8192"
  using get_line_ok [OF assms(2,1,3)] assms(4-6) by (auto simp: parse_http_header_def)

section \<open>Addresses\<close>

definition host_ok :: "string \<Rightarrow> bool" where
  "host_ok h = (CHR ''/'' \<notin> set h \<and> CHR '':'' \<notin> set h \<and> NUL \<notin> set h \<and> length h < 256)"

lemma takeWhile_past: "c \<notin> set a \<Longrightarrow> takeWhile (\<lambda>x. x \<noteq> c) (a @ b) = a @ takeWhile (\<lambda>x. x \<noteq> c) b"
  by (induction a) auto

lemma strchr_at_first: "c \<notin> set a \<Longrightarrow> strchr_at (a @ c # b) c = Some (length a)"
  by (simp add: strchr_at_def takeWhile_past)

lemma strchr_at_behind:
  assumes "c \<notin> set a" and "strchr_at (a @ b) c = Some k"
  shows "length a \<le> k"
  using assms by (auto simp: strchr_at_def takeWhile_past split: if_splits)

lemma parser_URL_parts:
  assumes "host_ok host" and "NUL \<notin> set path" and "length path < 2046"
  shows "\<exists>h u. parser_URL (''http://'' @ host @ ''/'' @ path) http_zero =
      Some (0, http_zero\<lparr>host_port := 80, host_name := h, uri := u\<rparr>) \<and> cstr h = Some host \<and> cstr u = Some (''/'' @ path)"
proof -
  define start where "start = host @ CHR ''/'' # path"
  have h: "CHR ''/'' \<notin> set host" "CHR '':'' \<notin> set host" "NUL \<notin> set host" "length host < 256" using assms(1) by (simp_all add: host_ok_def)
  have url: "strncasestr (''http://'' @ host @ ''/'' @ path) ''http://'' = Some 0" "drop 7 (''http://'' @ host @ ''/'' @ path) = start"
    by (simp_all add: start_def)
  have e: "strchr_at start (CHR ''/'') = Some (length host)" using strchr_at_first [OF h(1)] by (simp add: start_def)
  have colon: "\<not> k < length host" if "strchr_at start (CHR '':'') = Some k" for k
    using strchr_at_behind [OF h(2), of "CHR ''/'' # path" k] that by (simp add: start_def)
  define hn where "hn = host @ NUL # zeros (255 - length host)"
  have "strncpy_to (zeros 256) start (length host) = Some (host @ zeros (256 - length host))"
    using h(4) by (simp add: strncpy_to_Some start_def zeros_def)
  moreover have "upd (host @ zeros (256 - length host)) (length host) NUL = Some hn"
  proof -
    have "256 - length host = Suc (255 - length host)" using h(4) by simp
    then show ?thesis by (simp add: upd_def hn_def zeros_def)
  qed
  moreover have "strncpy_to (zeros 2048) (CHR ''/'' # path) 2047 = Some ((CHR ''/'' # path) @ zeros (2047 - length path))"
  proof -
    have "2047 - length path = 2046 - length path + 1" using assms(3) by simp
    then show ?thesis using assms(3) by (simp add: strncpy_to_Some zeros_def replicate_append_same)
  qed
  moreover have "cstr ((CHR ''/'' # path) @ zeros (2047 - length path)) = Some (CHR ''/'' # path)"
    using assms(2,3) by (intro cstr_zeros_padded) (auto simp: NUL_def)
  moreover have "cstr hn = Some host" using h(3) by (simp add: hn_def)
  moreover have "drop (length host) start = CHR ''/'' # path" "min (length host) 255 = length host"
    using h(4) by (simp_all add: start_def)
  ultimately show ?thesis using url e colon h(4)
    by (cases "strchr_at start (CHR '':'')")
      (simp_all add: parser_URL_def http_zero_def del: append.simps strncasestr.simps)
qed

lemma request_sent:
  assumes "cstr (uri info) = Some u" and "cstr (host_name info) = Some h" and "length u < 2048" and "length h < 256"
  shows "\<exists>b. send_request info = Some (request_of u h, info\<lparr>buffer := b\<rparr>) \<and> length b = 8192"
proof -
  have "NUL \<notin> set (request_of u h)" "length (request_of u h) < 8190"
    using cstr_no_NUL [OF assms(1)] cstr_no_NUL [OF assms(2)] assms(3,4)
    by (simp_all add: request_of_def CRLF_LF(3)) (auto simp: NUL_def CRLF_def)
  then have "\<exists>b. snprintf_to (zeros 8192) 8191 (request_of u h) = Some b \<and> cstr b = Some (request_of u h) \<and> length b = 8192"
    using snprintf_to_Some [of 8191 "zeros 8192" "request_of u h"] by simp
  then show ?thesis using assms(1,2) by (auto simp: send_request_def)
qed

section \<open>A download\<close>

text \<open>The state when the connection is open, the request is sent and \<open>text\<close> comes back.\<close>

definition answering :: "http_t \<Rightarrow> char list \<Rightarrow> bool" where
  "answering info text = (stream_in info = text \<and> length (buffer info) = 8192 \<and> length (location info) = 2048 \<and> saved info = None \<and>
     recv_data_len info = 0)"

lemma download_started:
  assumes "host_ok host" and "NUL \<notin> set path" and "length path < 2046" and "answers i (request_of (''/'' @ path) host) = Some (text, stop)"
  obtains info0 info1 where "parser_URL (''http://'' @ host @ ''/'' @ path) http_zero = Some (0, info0)" and "cstr (host_name info0) = Some host"
    and "host_port info0 = 80" and "send_request info0 = Some (request_of (''/'' @ path) host, info1)"
    and "answering (info1\<lparr>stream_in := text, stream_stop := stop\<rparr>) text"
proof -
  obtain h u where hu: "parser_URL (''http://'' @ host @ ''/'' @ path) http_zero = Some (0, http_zero\<lparr>host_port := 80, host_name := h, uri := u\<rparr>)"
    "cstr h = Some host" "cstr u = Some (''/'' @ path)"
    using parser_URL_parts [OF assms(1-3)] by blast
  have len: "length (''/'' @ path) < 2048" "length host < 256" using assms(1,3) by (simp_all add: host_ok_def)
  obtain b where b: "send_request (http_zero\<lparr>host_port := 80, host_name := h, uri := u\<rparr>) =
      Some (request_of (''/'' @ path) host, http_zero\<lparr>host_port := 80, host_name := h, uri := u, buffer := b\<rparr>)" "length b = 8192"
    using request_sent [of "http_zero\<lparr>host_port := 80, host_name := h, uri := u\<rparr>" "''/'' @ path" host] hu(2,3) len by auto
  show thesis by (rule that [OF hu(1) _ _ b(1)]) (simp_all add: hu(2) answering_def http_zero_def b(2))
qed

definition ok_line :: string where "ok_line = ''HTTP/1.1 200 OK'' @ [CHR 0x0D]"
definition found_line :: string where "found_line = ''HTTP/1.1 302 Found'' @ [CHR 0x0D]"

lemma status_200:
  assumes "answering info (ok_line @ LF # rest)"
  shows "\<exists>b. parse_http_header info = header_passes (info\<lparr>buffer := b, stream_in := rest, status_code := 200\<rparr>) \<and> length b = 8192"
proof (rule status_line [where l = ok_line and p = 8])
  show "line_ok ok_line" by (simp add: line_ok_def ok_line_def) (simp add: LF_def NUL_def)
  show "strchr_at (ok_line @ [LF]) (CHR '' '') = Some 8" "strncasestr (ok_line @ [LF]) ''HTTP'' \<noteq> None" "atoi (drop (8 + 1) (ok_line @ [LF])) = Some 200"
    unfolding ok_line_def by code_simp+
qed (use assms in \<open>simp_all add: answering_def\<close>)

lemma status_302:
  assumes "answering info (found_line @ LF # rest)"
  shows "\<exists>b. parse_http_header info = header_passes (info\<lparr>buffer := b, stream_in := rest, status_code := 302\<rparr>) \<and> length b = 8192"
proof (rule status_line [where l = found_line and p = 8])
  show "line_ok found_line" by (simp add: line_ok_def found_line_def) (simp add: LF_def NUL_def)
  show "strchr_at (found_line @ [LF]) (CHR '' '') = Some 8" "strncasestr (found_line @ [LF]) ''HTTP'' \<noteq> None" "atoi (drop (8 + 1) (found_line @ [LF])) = Some 302"
    unfolding found_line_def by code_simp+
qed (use assms in \<open>simp_all add: answering_def\<close>)

lemma chunked_headers:
  assumes "answering info (ok_line @ LF # header_lines ls1 @ ''Transfer-Encoding: chunked'' @ CRLF @ header_lines ls2 @ CRLF @ rest)"
    and "\<forall>l \<in> set ls1 \<union> set ls2. plain_header l"
  shows "\<exists>b. parse_http_header info = Some (0, info\<lparr>buffer := b, stream_in := rest, status_code := 200, chunked_flag := 1\<rparr>) \<and> length b = 8192"
proof -
  define t2 where "t2 = header_lines ls2 @ CRLF @ rest"
  obtain b0 where b0: "parse_http_header info = header_passes (info\<lparr>buffer := b0, stream_in := header_lines ls1 @ ''Transfer-Encoding: chunked'' @ CRLF @ t2, status_code := 200\<rparr>)"
    "length b0 = 8192" using status_200 assms(1) unfolding t2_def by blast
  define info1 where "info1 = info\<lparr>buffer := b0, stream_in := header_lines ls1 @ ''Transfer-Encoding: chunked'' @ CRLF @ t2, status_code := 200\<rparr>"
  obtain b1 where b1: "header_passes info1 = header_passes (info1\<lparr>buffer := b1, stream_in := ''Transfer-Encoding: chunked'' @ CRLF @ t2\<rparr>)" "length b1 = 8192"
    using headers_plain [of ls1 info1] assms(2) b0(2) by (auto simp: info1_def)
  define info2 where "info2 = info1\<lparr>buffer := b1, stream_in := ''Transfer-Encoding: chunked'' @ CRLF @ t2\<rparr>"
  obtain b2 where b2: "header_passes info2 = header_passes (info2\<lparr>buffer := b2, stream_in := t2, chunked_flag := 1\<rparr>)" "length b2 = 8192"
    using header_chunked [of info2 t2] b1(2) by (auto simp: info2_def)
  define info3 where "info3 = info2\<lparr>buffer := b2, stream_in := t2, chunked_flag := 1\<rparr>"
  obtain b3 where b3: "header_passes info3 = header_passes (info3\<lparr>buffer := b3, stream_in := CRLF @ rest\<rparr>)" "length b3 = 8192"
    using headers_plain [of ls2 info3 "CRLF @ rest"] assms(2) b2(2) by (auto simp: info3_def t2_def)
  define info4 where "info4 = info3\<lparr>buffer := b3, stream_in := CRLF @ rest\<rparr>"
  obtain b4 where b4: "header_passes info4 = Some (0, info4\<lparr>buffer := b4, stream_in := rest\<rparr>)" "length b4 = 8192"
    using header_end [of info4 rest] b3(2) by (auto simp: info4_def)
  have "info4\<lparr>buffer := b4, stream_in := rest\<rparr> = info\<lparr>buffer := b4, stream_in := rest, status_code := 200, chunked_flag := 1\<rparr>"
    by (cases info) (simp add: info4_def info3_def info2_def info1_def)
  then show ?thesis using b0(1) b1(1) b2(1) b3(1) b4 info1_def info2_def info3_def info4_def by metis
qed

lemma location_headers:
  assumes "answering info (found_line @ LF # header_lines ls1 @ ''Location: '' @ u @ CRLF @ header_lines ls2 @ CRLF @ rest)"
    and "\<forall>l \<in> set ls1 \<union> set ls2. plain_header l" and "LF \<notin> set u" and "NUL \<notin> set u" and "length u < 2000"
    and "strncasestr (''Location: '' @ u @ CRLF) ''Content-length'' = None" and "strncasestr (''Location: '' @ u @ CRLF) ''Transfer-Encoding'' = None"
  shows "\<exists>info1. parse_http_header info = Some (0, info1) \<and> status_code info1 = 302 \<and> cstr (location info1) = Some (u @ CRLF)"
proof -
  define t2 where "t2 = header_lines ls2 @ CRLF @ rest"
  obtain b0 where b0: "parse_http_header info = header_passes (info\<lparr>buffer := b0, stream_in := header_lines ls1 @ ''Location: '' @ u @ CRLF @ t2, status_code := 302\<rparr>)"
    "length b0 = 8192" using status_302 assms(1) unfolding t2_def by blast
  define info1 where "info1 = info\<lparr>buffer := b0, stream_in := header_lines ls1 @ ''Location: '' @ u @ CRLF @ t2, status_code := 302\<rparr>"
  obtain b1 where b1: "header_passes info1 = header_passes (info1\<lparr>buffer := b1, stream_in := ''Location: '' @ u @ CRLF @ t2\<rparr>)" "length b1 = 8192"
    using headers_plain [of ls1 info1] assms(2) b0(2) by (auto simp: info1_def)
  define info2 where "info2 = info1\<lparr>buffer := b1, stream_in := ''Location: '' @ u @ CRLF @ t2\<rparr>"
  have "length (location info2) = 2048" using assms(1) by (simp add: info2_def info1_def answering_def)
  then obtain b2 l where b2: "header_passes info2 = header_passes (info2\<lparr>buffer := b2, stream_in := t2, location := l\<rparr>)" "length b2 = 8192"
    "cstr l = Some (u @ CRLF)"
    using header_location [of info2 u t2] b1(2) assms(3-7) by (auto simp: info2_def)
  define info3 where "info3 = info2\<lparr>buffer := b2, stream_in := t2, location := l\<rparr>"
  obtain b3 where b3: "header_passes info3 = header_passes (info3\<lparr>buffer := b3, stream_in := CRLF @ rest\<rparr>)" "length b3 = 8192"
    using headers_plain [of ls2 info3 "CRLF @ rest"] assms(2) b2(2) by (auto simp: info3_def t2_def)
  define info4 where "info4 = info3\<lparr>buffer := b3, stream_in := CRLF @ rest\<rparr>"
  obtain b4 where b4: "header_passes info4 = Some (0, info4\<lparr>buffer := b4, stream_in := rest\<rparr>)" "length b4 = 8192"
    using header_end [of info4 rest] b3(2) by (auto simp: info4_def)
  have "parse_http_header info = Some (0, info4\<lparr>buffer := b4, stream_in := rest\<rparr>)"
    using b0(1) b1(1) b2(1) b3(1) b4 info1_def info2_def info3_def info4_def by metis
  then show ?thesis using b2(3) by (simp add: info4_def info3_def info2_def info1_def)
qed

lemma strncpy_padded:
  assumes "length s < n" and "n \<le> m"
  shows "strncpy_to (zeros m) s n = Some (s @ zeros (m - length s))"
proof -
  have "zeros (n - length s) @ zeros (m - n) = zeros (m - length s)" using assms by (simp add: zeros_def flip: replicate_add)
  then show ?thesis using assms by (simp add: strncpy_to_Some zeros_def)
qed

text \<open>A redirection downloads the text of the field, its line end included.\<close>

lemma download_redirected:
  assumes "host_ok host" and "NUL \<notin> set path" and "length path < 2046" and "connects i host 80"
    and "answers i (request_of (''/'' @ path) host) =
      Some (found_line @ LF # header_lines ls1 @ ''Location: '' @ u @ CRLF @ header_lines ls2 @ CRLF @ rest, stop)"
    and "\<forall>l \<in> set ls1 \<union> set ls2. plain_header l" and "LF \<notin> set u" and "NUL \<notin> set u" and "length u < 2000"
    and "strncasestr (''Location: '' @ u @ CRLF) ''Content-length'' = None" and "strncasestr (''Location: '' @ u @ CRLF) ''Transfer-Encoding'' = None"
  shows "http_download can_open missing connects answers i (''http://'' @ host @ ''/'' @ path) =
    http_download can_open missing connects answers (i + 1) (u @ CRLF)"
proof -
  define reply where "reply = found_line @ LF # header_lines ls1 @ ''Location: '' @ u @ CRLF @ header_lines ls2 @ CRLF @ rest"
  have ans: "answers i (request_of (''/'' @ path) host) = Some (reply, stop)" using assms(5) by (simp add: reply_def)
  obtain info0 info1 where start: "parser_URL (''http://'' @ host @ ''/'' @ path) http_zero = Some (0, info0)" "cstr (host_name info0) = Some host"
    "host_port info0 = 80" "send_request info0 = Some (request_of (''/'' @ path) host, info1)"
    "answering (info1\<lparr>stream_in := reply, stream_stop := stop\<rparr>) reply"
    by (rule download_started [where answers = answers and i = i, OF assms(1-3) ans])
  obtain info2 where info2: "parse_http_header (info1\<lparr>stream_in := reply, stream_stop := stop\<rparr>) = Some (0, info2)" "status_code info2 = 302"
    "cstr (location info2) = Some (u @ CRLF)"
    using location_headers [OF _ assms(6-11)] start(5) unfolding reply_def by blast
  have clean: "NUL \<notin> set (u @ CRLF)" using cstr_no_NUL [OF info2(3)] .
  have "strncpy_to (zeros 2048) (u @ CRLF) 2047 = Some ((u @ CRLF) @ zeros (2046 - length u))" "cstr ((u @ CRLF) @ zeros (2046 - length u)) = Some (u @ CRLF)"
    subgoal using assms(9) strncpy_padded [of "u @ CRLF" 2047 2048] by (simp add: CRLF_LF(3))
    subgoal using assms(9) clean by (intro cstr_zeros_padded) auto
    done
  then show ?thesis using start(1-4) assms(4) ans info2
    by (subst http_download.simps) (simp del: append.simps append_assoc)
qed

definition demo_server :: string where "demo_server = ''Server: x'' @ [CHR 0x0D]"

definition demo_chunks :: string where
  "demo_chunks = ok_line @ LF # (demo_server @ [LF]) @ ''Transfer-Encoding: chunked'' @ CRLF @ CRLF @
     (chunk_text (''3'', ''hel'') @ chunk_text (''2'', ''lo'')) @ chunk_text (''0'', [])"

lemma demo_digits:
  "cm_isxdigit (CHR ''3'')" "cm_isxdigit (CHR ''2'')" "cm_isxdigit (CHR ''0'')" "hex_num ''3'' = 3" "hex_num ''2'' = 2" "hex_num ''0'' = 0"
  by code_simp+

lemma demo_server_plain: "plain_header demo_server"
proof -
  have "line_ok demo_server" "demo_server \<noteq> [CHR 0x0D]" by (simp_all add: demo_server_def line_ok_def) (simp add: LF_def NUL_def)
  moreover have "strncasestr (demo_server @ [LF]) ''Content-length'' = None" "strncasestr (demo_server @ [LF]) ''Transfer-Encoding'' = None"
    "strncasestr (demo_server @ [LF]) ''Location'' = None" unfolding demo_server_def by code_simp+
  ultimately show ?thesis by (simp add: plain_header_def)
qed

lemma demo_hosts: "host_ok ''host''" "host_ok ''h2''" "NUL \<notin> set ''a''" "NUL \<notin> set ''b''"
  by (simp_all add: host_ok_def NUL_def)

text \<open>C36: Downloading \<open>http://host/path\<close> asks the host, port 80, for \<open>/path\<close>; when the answer is a 200 in chunks, the
  download returns 0 and the file holds the contents of the chunks in order; without content no file is made. This
  rests on values other than -1 being found where \<open>save_data\<close> and \<open>read_data\<close> end without a return statement
  (\<open>benign\<close>); by the letter of the C standard the same download is undefined. Conditions: the host has no slash,
  colon or NUL and is shorter than 256, the path has no NUL and is shorter than 2046; the connection comes
  about, the file can be opened and written; the status line is \<open>HTTP/1.1 200 OK\<close>, one line is
  \<open>Transfer-Encoding: chunked\<close>; each other header line is shorter than 8190, without NUL, and contains none of
  Content-length, Transfer-Encoding, Location in any case (\<open>plain_header\<close>); a chunk has fewer than 8000
  hexadecimal digits and nothing else as length, all are below \<open>2 ^ 31\<close> bytes together, and an empty one ends them.\<close>

theorem download_chunked:
  assumes "host_ok host" and "NUL \<notin> set path" and "length path < 2046" and "connects i host 80" and "benign (missing i)"
    and "answers i (request_of (''/'' @ path) host) =
      Some (ok_line @ LF # header_lines ls1 @ ''Transfer-Encoding: chunked'' @ CRLF @ header_lines ls2 @ CRLF @
        concat (map chunk_text cs) @ chunk_text (h0, []) @ rest, stop)"
    and "\<forall>l \<in> set ls1 \<union> set ls2. plain_header l"
    and "\<forall>c \<in> set cs. chunk_ok c \<and> snd c \<noteq> []" and "chunk_ok (h0, [])" and "int (length (concat (map snd cs))) < 2 ^ 31"
  shows "http_download True missing connects answers i (''http://'' @ host @ ''/'' @ path) =
      Some (0, if cs = [] then None else Some (concat (map snd cs))) \<and>
    http_download True (\<lambda>_ _. None) connects answers i (''http://'' @ host @ ''/'' @ path) = None"
proof -
  define body where "body = concat (map chunk_text cs) @ chunk_text (h0, []) @ rest"
  define reply where "reply = ok_line @ LF # header_lines ls1 @ ''Transfer-Encoding: chunked'' @ CRLF @ header_lines ls2 @ CRLF @ body"
  have ans: "answers i (request_of (''/'' @ path) host) = Some (reply, stop)" using assms(6) by (simp add: reply_def body_def)
  obtain info0 info1 where start: "parser_URL (''http://'' @ host @ ''/'' @ path) http_zero = Some (0, info0)" "cstr (host_name info0) = Some host"
    "host_port info0 = 80" "send_request info0 = Some (request_of (''/'' @ path) host, info1)"
    "answering (info1\<lparr>stream_in := reply, stream_stop := stop\<rparr>) reply"
    by (rule download_started [where answers = answers and i = i, OF assms(1-3) ans])
  define info2 where "info2 = info1\<lparr>stream_in := reply, stream_stop := stop\<rparr>"
  obtain b where b: "parse_http_header info2 = Some (0, info2\<lparr>buffer := b, stream_in := body, status_code := 200, chunked_flag := 1\<rparr>)" "length b = 8192"
    using chunked_headers [of info2 ls1 ls2 body] start(5) assms(7) by (auto simp: info2_def reply_def)
  define info3 where "info3 = info2\<lparr>buffer := b, stream_in := body, status_code := 200, chunked_flag := 1\<rparr>"
  have i3: "length (buffer info3) = 8192" "saved info3 = None" "recv_data_len info3 = 0" "chunked_flag info3 = 1" "status_code info3 = 200" "stream_in info3 = body"
    using start(5) b(2) by (simp_all add: info3_def info2_def answering_def)
  obtain b2 k where b2: "recv_chunked_response True (missing i) info3 = Some (0, after_content info3 (concat (map snd cs)) rest b2 k)"
    using chunks_saved [OF assms(5,8,9), of info3 rest] i3 assms(10) by (auto simp: body_def)
  have none: "concat (map snd cs) = [] \<longleftrightarrow> cs = []" using assms(8) by (cases cs) auto
  have none2: "recv_chunked_response True (\<lambda>_. None) info3 = None"
    using chunks_undefined [of cs h0 info3 rest] assms(8,9) i3 by (auto simp: body_def)
  have "saved (after_content info3 (concat (map snd cs)) rest b2 k) = (if cs = [] then None else Some (concat (map snd cs)))"
    using i3(2) none by (simp add: after_content_def file_of_def)
  then have "http_download True missing connects answers i (''http://'' @ host @ ''/'' @ path) =
      Some (0, if cs = [] then None else Some (concat (map snd cs)))"
    using start(1-4) assms(4) ans b(1) b2 i3(4,5)
    by (subst http_download.simps) (simp add: recv_response_def info2_def [symmetric] info3_def [symmetric] del: append.simps)
  moreover have "http_download True (\<lambda>_ _. None) connects answers i (''http://'' @ host @ ''/'' @ path) = None"
    using start(1-4) assms(4) ans b(1) none2 i3(4,5)
    by (subst http_download.simps) (simp add: recv_response_def info2_def [symmetric] info3_def [symmetric] del: append.simps)
  ultimately show ?thesis ..
qed

theorem download_chunked_witness:
  "http_download True (\<lambda>i k. Some (int k)) (\<lambda>_ _ _. True) (\<lambda>_ _. Some (demo_chunks, Closed)) 0 (''http://'' @ ''host'' @ ''/'' @ ''a'') =
      Some (0, Some ''hello'') \<and>
    http_download True (\<lambda>_ _. None) (\<lambda>_ _ _. True) (\<lambda>_ _. Some (demo_chunks, Closed)) 0 (''http://'' @ ''host'' @ ''/'' @ ''a'') = None"
proof -
  have benign: "benign (\<lambda>k. Some (int k))" by (simp add: benign_def)
  have chunks: "chunk_ok (''3'', ''hel'')" "chunk_ok (''2'', ''lo'')" "chunk_ok (''0'', [])"
    by (simp_all add: chunk_ok_def demo_digits)
  show ?thesis
    using download_chunked [where host = "''host''" and path = "''a''" and i = 0 and missing = "\<lambda>i k. Some (int k)" and connects = "\<lambda>_ _ _. True"
        and answers = "\<lambda>_ _. Some (demo_chunks, Closed)" and ?ls1.0 = "[demo_server]" and ?ls2.0 = "[]"
        and cs = "[(''3'', ''hel''), (''2'', ''lo'')]" and ?h0.0 = "''0''" and rest = "[]" and stop = Closed]
      demo_hosts chunks demo_server_plain benign
    by (simp add: demo_chunks_def header_lines_def del: append.simps)
qed

text \<open>when the answer of the first host is a redirection (302) to \<open>http://host2/path2\<close>, the address is used with the
  line end of the header field: the second host is asked for \<open>/path2\<close>, a line break, and \<open>HTTP/1.1\<close> on the next line.
  A host that has no answer to such a request ends the download with -1, though its answer to the right request is not
  looked at.
\<close>

theorem download_redirect_broken:
  assumes "host_ok host" and "NUL \<notin> set path" and "length path < 2046" and "connects i host 80"
    and "answers i (request_of (''/'' @ path) host) =
      Some (found_line @ LF # header_lines ls1 @ ''Location: '' @ (''http://'' @ host2 @ ''/'' @ path2) @ CRLF @ header_lines ls2 @ CRLF @ rest, stop)"
    and "\<forall>l \<in> set ls1 \<union> set ls2. plain_header l" and "LF \<notin> set (host2 @ path2)" and "NUL \<notin> set path2" and "length path2 < 1700"
    and "strncasestr (''Location: '' @ (''http://'' @ host2 @ ''/'' @ path2) @ CRLF) ''Content-length'' = None"
    and "strncasestr (''Location: '' @ (''http://'' @ host2 @ ''/'' @ path2) @ CRLF) ''Transfer-Encoding'' = None"
    and "host_ok host2" and "connects (i + 1) host2 80" and "answers (i + 1) (request_of (''/'' @ path2 @ CRLF) host2) = None"
  shows "http_download can_open missing connects answers i (''http://'' @ host @ ''/'' @ path) = Some (- 1, None)"
proof -
  define u where "u = ''http://'' @ host2 @ ''/'' @ path2"
  have h2: "length host2 < 256" "NUL \<notin> set host2" using assms(12) by (simp_all add: host_ok_def)
  have u: "LF \<notin> set u" "NUL \<notin> set u" "length u < 2000"
    using assms(7-9) h2 by (simp_all add: u_def) (simp_all add: LF_def NUL_def)
  have step: "http_download can_open missing connects answers i (''http://'' @ host @ ''/'' @ path) =
      http_download can_open missing connects answers (i + 1) (''http://'' @ host2 @ ''/'' @ path2 @ CRLF)"
    using download_redirected [where connects = connects and answers = answers and i = i and u = u, OF assms(1-5)[folded u_def] assms(6) u assms(10,11)[folded u_def]] by (simp add: u_def)
  have path: "NUL \<notin> set (path2 @ CRLF)" "length (path2 @ CRLF) < 2046" using assms(8,9) by (auto simp: CRLF_def NUL_def)
  obtain h v where hv: "parser_URL (''http://'' @ host2 @ ''/'' @ path2 @ CRLF) http_zero = Some (0, http_zero\<lparr>host_port := 80, host_name := h, uri := v\<rparr>)"
    "cstr h = Some host2" "cstr v = Some (''/'' @ path2 @ CRLF)"
    using parser_URL_parts [OF assms(12) path] by blast
  have "\<exists>b. send_request (http_zero\<lparr>host_port := 80, host_name := h, uri := v\<rparr>) =
      Some (request_of (''/'' @ path2 @ CRLF) host2, http_zero\<lparr>host_port := 80, host_name := h, uri := v, buffer := b\<rparr>)"
    using request_sent [of "http_zero\<lparr>host_port := 80, host_name := h, uri := v\<rparr>" "''/'' @ path2 @ CRLF" host2] hv(2,3) path(2) h2(1) by auto
  then have "http_download can_open missing connects answers (i + 1) (''http://'' @ host2 @ ''/'' @ path2 @ CRLF) = Some (- 1, None)"
    using hv assms(13,14) by (subst http_download.simps) (auto simp del: append.simps append_assoc)
  then show ?thesis using step by simp
qed

definition demo_moved :: string where
  "demo_moved = found_line @ LF # header_lines [demo_server] @ ''Location: '' @ (''http://'' @ ''h2'' @ ''/'' @ ''b'') @ CRLF @
     header_lines [] @ CRLF @ []"

definition demo_answers :: "nat \<Rightarrow> string \<Rightarrow> (char list \<times> stream_end) option" where
  "demo_answers i req = (if i = 0 then Some (demo_moved, Closed) else if req = request_of ''/b'' ''h2'' then Some (demo_chunks, Closed) else None)"

theorem download_redirect_broken_witness:
  "http_download True (\<lambda>_ _. None) (\<lambda>_ _ _. True) demo_answers 0 (''http://'' @ ''host'' @ ''/'' @ ''a'') = Some (- 1, None)"
proof -
  have "strncasestr (''Location: '' @ (''http://'' @ ''h2'' @ ''/'' @ ''b'') @ CRLF) ''Content-length'' = None"
    "strncasestr (''Location: '' @ (''http://'' @ ''h2'' @ ''/'' @ ''b'') @ CRLF) ''Transfer-Encoding'' = None" by code_simp+
  moreover have "demo_answers (0 + 1) (request_of (''/'' @ ''b'' @ CRLF) ''h2'') = None"
    by (simp add: demo_answers_def request_of_def CRLF_def)
  moreover have "demo_answers 0 (request_of (''/'' @ ''a'') ''host'') = Some (demo_moved, Closed)" by (simp add: demo_answers_def)
  moreover have "LF \<notin> set (''h2'' @ ''b'')" by (simp add: LF_def)
  ultimately show ?thesis
    using demo_hosts demo_server_plain
    by (intro download_redirect_broken [where ?host2.0 = "''h2''" and ?path2.0 = "''b''" and ?ls1.0 = "[demo_server]" and ?ls2.0 = "[]" and rest = "[]" and stop = Closed])
      (simp_all only: demo_moved_def, simp_all)
qed

end
