(* ===== verification/Json.thy ===== *)
theory Json
  imports CNumber "HOL-Library.AList"
begin

text \<open>
  The part of src/common/json/json.c that the protocols use: documents, paths into them, and the stack of
  positions that \<open>json_push\<close> and \<open>json_pop\<close> keep, for a handle opened without flags. A document is a tree of values; a position is the way
  to a value from the top. The members of an object are an association list where the library has a balanced tree, whose order only
  the printer sees. Parsing and printing text are arguments, memory is always there.
\<close>

section \<open>Documents\<close>

text \<open>A number is the 64 bits of its \<open>double\<close>.\<close>

datatype json_value = JNull | JBool bool | JNumber u64 | JString string | JArray "json_value list" | JObject "(string \<times> json_value) list"

datatype place = At nat | Under string

fun child :: "json_value \<Rightarrow> place \<Rightarrow> json_value option" where
  "child (JArray vs) (At i) = (if i < length vs then Some (vs ! i) else None)"
| "child (JObject ms) (Under k) = map_of ms k"
| "child _ _ = None"

fun put_child :: "json_value \<Rightarrow> place \<Rightarrow> json_value \<Rightarrow> json_value" where
  "put_child (JArray vs) (At i) x = JArray (vs[i := x])"
| "put_child (JObject ms) (Under k) x = JObject (AList.update k x ms)"
| "put_child v _ x = v"

fun value_at :: "json_value \<Rightarrow> place list \<Rightarrow> json_value option" where
  "value_at v [] = Some v"
| "value_at v (p # ps) = child v p \<bind> (\<lambda>c. value_at c ps)"

fun put_at :: "json_value \<Rightarrow> place list \<Rightarrow> json_value \<Rightarrow> json_value" where
  "put_at v [] x = x"
| "put_at v (p # ps) x = (case child v p of None \<Rightarrow> v | Some c \<Rightarrow> put_child v p (put_at c ps x))"

section \<open>Members and elements\<close>

definition JSON_EBASE :: int where "JSON_EBASE = - 0x4A534F4E"
definition JSON_ENOMORE :: int where "JSON_ENOMORE = JSON_EBASE + 4"
definition JSON_ETYPING :: int where "JSON_ETYPING = JSON_EBASE + 5"
definition JSON_EBADPATH :: int where "JSON_EBADPATH = JSON_EBASE + 6"
definition JSON_EBIGPATH :: int where "JSON_EBIGPATH = JSON_EBASE + 7"

text \<open>\<open>auto\<close> stands for the two mode flags that create and convert: the operations that read use none, the ones that write
  both. The result is the value, changed if it had to be, and the place of the member.\<close>

definition json_v_search :: "bool \<Rightarrow> json_value \<Rightarrow> string \<Rightarrow> json_value \<times> place option" where
  "json_v_search auto v name = (case v of
     JObject ms \<Rightarrow>
       if map_of ms name \<noteq> None then (v, Some (Under name))
       else if auto then (JObject (AList.update name JNull ms), Some (Under name)) else (v, None)
   | _ \<Rightarrow> if auto then (JObject [(name, JNull)], Some (Under name)) else (v, None))"

text \<open>A negative index is subtracted from the number of elements, so it never is one of them.\<close>

definition array_index :: "json_value list \<Rightarrow> int \<Rightarrow> nat option" where
  "array_index vs index =
     (let index = (if index < 0 then int (length vs) - index else index) in
      if 0 \<le> index \<and> index < int (length vs) then Some (nat index) else None)"

definition array_insert :: "json_value list \<Rightarrow> int \<Rightarrow> json_value \<Rightarrow> json_value list \<times> nat" where
  "array_insert vs index v =
     (let index = (if index < 0 then int (length vs) - index else index) in
      if index < 0 \<or> index \<ge> int (length vs) then (vs @ [v], length vs) else (vs[nat index := v], nat index))"

definition json_v_index :: "bool \<Rightarrow> json_value \<Rightarrow> int \<Rightarrow> json_value \<times> place option" where
  "json_v_index auto v index =
     (if \<not> (\<exists>vs. v = JArray vs) \<and> \<not> auto then (v, None)
      else let vs = (case v of JArray vs \<Rightarrow> vs | _ \<Rightarrow> []) in
        case array_index vs index of
          Some i \<Rightarrow> (JArray vs, Some (At i))
        | None \<Rightarrow>
            if auto then let (vs, i) = array_insert vs index JNull in (JArray vs, Some (At i))
            else (JArray vs, None))"

section \<open>Paths\<close>

definition sval :: "char \<Rightarrow> int" where
  "sval c = (let n = int (of_char c) in if n < 128 then n else n - 256)"

text \<open>A character of a path, negative when it is a separator; zero at the end. The backslash takes the next one as it is.
  A character is signed, so one above 127 can look like a separator.\<close>

fun path_popc :: "string \<Rightarrow> int \<times> string" where
  "path_popc [] = (0, [])"
| "path_popc (c # r) =
     (if c = CHR 0x5C then (case r of [] \<Rightarrow> (0, []) | d # r \<Rightarrow> (sval d, r))
      else if c \<in> {CHR ''['', CHR '']'', CHR ''.'', CHR ''#'', CHR ''$''} then (- sval c, r)
      else (sval c, r))"

lemma path_popc_length: "path_popc fp = (ch, r) \<Longrightarrow> length r \<le> length fp \<and> (ch \<noteq> 0 \<longrightarrow> length r < length fp)"
  by (induction fp rule: path_popc.induct) (auto split: if_splits list.splits)

text \<open>The loop over a key: an error, or the key and how many characters it took. The formats \<open>#\<close> and \<open>$\<close> take a further argument, which no
  call here passes.\<close>

function path_key_loop :: "string \<Rightarrow> string \<Rightarrow> nat \<Rightarrow> ((int + string \<times> nat) \<times> string) option" where
  "path_key_loop fp key nf =
     (let (ch, rest) = path_popc fp in
      if ch = 0 then Some (Inr (key, nf), rest)
      else if ch = - 46 \<or> ch = - 91 then Some (Inr (key, nf), drop (length fp - length rest - 1) fp)
      else if ch = - 35 \<or> ch = - 36 then None
      else if length key < 255 then path_key_loop rest (key @ [char_of (nat (ch mod 256))]) (nf + 1)
      else Some (Inl JSON_EBIGPATH, rest))"
  by pat_completeness auto
termination
  by (relation "measure (\<lambda>(fp, key, nf). length fp)") (auto dest!: sym [THEN path_popc_length])

declare path_key_loop.simps [simp del]

definition is_digit_code :: "int \<Rightarrow> bool" where "is_digit_code ch = (48 \<le> ch \<and> ch \<le> 57)"

text \<open>The digits of an index, beginning with the character \<open>ch\<close>, which after a minus sign is the sign itself.\<close>

function index_loop :: "int \<Rightarrow> int \<Rightarrow> string \<Rightarrow> (int \<times> int \<times> string) option" where
  "index_loop ch index fp = do {
     index \<leftarrow> c_int (index * 10);
     index \<leftarrow> c_int (index + (ch - 48));
     let (ch, rest) = path_popc fp;
     if ch > 0 \<and> is_digit_code ch then index_loop ch index rest else Some (index, ch, rest)
   }"
  by pat_completeness auto
termination
  by (relation "measure (\<lambda>(ch, index, fp). length fp)") (auto dest!: sym [THEN path_popc_length])

declare index_loop.simps [simp del]

datatype path_step = Stop int | Key string | Index int

definition path_index :: "string \<Rightarrow> (path_step \<times> string) option" where
  "path_index fp =
     (let (ch, r) = path_popc fp in
      if ch = - 35 then None
      else if ch = 45 \<or> is_digit_code ch then do {
        (index, c, r) \<leftarrow> index_loop ch 0 r;
        Some (if c = - 93 then Index ((if ch = 45 then - 1 else 1) * index) else Stop JSON_EBADPATH, r)
      }
      else Some (Stop JSON_EBADPATH, r))"

definition path_next :: "string \<Rightarrow> (path_step \<times> string) option" where
  "path_next fp =
     (let (ch, r) = path_popc fp in
      if ch = 0 then Some (Stop 0, r)
      else if ch = - 91 then path_index r
      else let start = (if ch = - 46 then r else fp); (c, r) = path_popc start in
        if ch = - 46 \<and> (c = - 46 \<or> c = - 91) then Some (Stop JSON_EBADPATH, r)
        else do {
          (res, r) \<leftarrow> path_key_loop start [] 0;
          Some (case res of Inl e \<Rightarrow> Stop e | Inr (key, nf) \<Rightarrow> if nf > 0 then Key key else Stop 0, r)
        })"

text \<open>The result is the error, the document, the position that was reached and the rest of the path.\<close>

partial_function (option) path_exec ::
  "bool \<Rightarrow> string \<Rightarrow> json_value \<Rightarrow> place list \<Rightarrow> (int \<times> json_value \<times> place list option \<times> string) option" where
  "path_exec auto fp d cur = do {
     (s, fp) \<leftarrow> path_next fp;
     case s of
       Stop e \<Rightarrow> Some (e, d, Some cur, fp)
     | _ \<Rightarrow> do {
         v \<leftarrow> value_at d cur;
         let (v, p) = (case s of Key k \<Rightarrow> json_v_search auto v k | Index i \<Rightarrow> json_v_index auto v i | Stop e \<Rightarrow> (v, None));
         case p of
           None \<Rightarrow> Some (0, d, None, fp)
         | Some p \<Rightarrow> path_exec auto fp (put_at d cur v) (cur @ [p])
       }
   }"

section \<open>Handles\<close>

text \<open>\<open>tops\<close> are the positions that have been pushed, the top of the document at the end; \<open>spoilt\<close> is a handle whose parser stopped in the
  middle of a text.\<close>

record json =
  doc :: "json_value option"
  tops :: "place list list"
  spoilt :: bool

definition json_open :: json where
  "json_open = \<lparr>doc = None, tops = [[]], spoilt = False\<rparr>"

text \<open>Reading: \<open>None\<close> is no such value. Errors in the path are not looked at.\<close>

definition json_find :: "json \<Rightarrow> string \<Rightarrow> json_value option option" where
  "json_find J fmt = (case doc J of
     None \<Rightarrow> Some None
   | Some d \<Rightarrow> do {
       (e, d, p, r) \<leftarrow> path_exec False fmt d (hd (tops J));
       case p of None \<Rightarrow> Some None | Some p \<Rightarrow> do { v \<leftarrow> value_at d p; Some (Some v) }
     })"

text \<open>The text of anything but a string is empty; a text ends at its first NUL.\<close>

definition json_string :: "json \<Rightarrow> string \<Rightarrow> string option" where
  "json_string J fmt = do {
     v \<leftarrow> json_find J fmt;
     Some (case v of Some (JString s) \<Rightarrow> takeWhile (\<lambda>c. c \<noteq> NUL) s | _ \<Rightarrow> [])
   }"

definition json_count :: "json \<Rightarrow> string \<Rightarrow> nat option" where
  "json_count J fmt = do {
     v \<leftarrow> json_find J fmt;
     Some (case v of Some (JArray vs) \<Rightarrow> length vs | Some (JObject ms) \<Rightarrow> length ms | _ \<Rightarrow> 0)
   }"

text \<open>Writing: the position of a path that is made to exist.\<close>

definition json_make :: "json \<Rightarrow> string \<Rightarrow> (int \<times> json \<times> place list) option" where
  "json_make J fmt = do {
     (e, d, p, r) \<leftarrow> path_exec True fmt (case doc J of None \<Rightarrow> JNull | Some d \<Rightarrow> d) (hd (tops J));
     let J = J\<lparr>doc := Some d\<rparr>;
     if e \<noteq> 0 then Some (e, J, [])
     else case p of
       None \<Rightarrow> Some (JSON_ETYPING, J, [])
     | Some p \<Rightarrow> if r = [] then Some (0, J, p) else Some (JSON_ETYPING, J, [])
   }"

text \<open>A position that is pushed twice in a row becomes the last one.\<close>

definition json_push :: "json \<Rightarrow> string \<Rightarrow> (int \<times> json) option" where
  "json_push J fmt = do {
     (e, J, p) \<leftarrow> json_make J fmt;
     if e \<noteq> 0 then Some (e, J)
     else Some (0, J\<lparr>tops := (if p = hd (tops J) then [p, p] else p # tops J)\<rparr>)
   }"

definition json_pop :: "json \<Rightarrow> json" where
  "json_pop J = (case tops J of _ # t # ts \<Rightarrow> J\<lparr>tops := t # ts\<rparr> | _ \<Rightarrow> J)"

definition json_put :: "json \<Rightarrow> json_value \<Rightarrow> string \<Rightarrow> (int \<times> json) option" where
  "json_put J v fmt = do {
     (e, J, p) \<leftarrow> json_make J fmt;
     if e \<noteq> 0 then Some (e, J)
     else do { d \<leftarrow> doc J; Some (0, J\<lparr>doc := Some (put_at d p v)\<rparr>) }
   }"

definition json_setstring :: "json \<Rightarrow> string \<Rightarrow> string \<Rightarrow> (int \<times> json) option" where
  "json_setstring J s fmt = json_put J (JString s) fmt"

definition json_setnull :: "json \<Rightarrow> string \<Rightarrow> (int \<times> json) option" where
  "json_setnull J fmt = json_put J JNull fmt"

text \<open>A handle takes one document. \<open>parse\<close> is what the parser makes of a text, a value or an error.\<close>

definition json_loadstring :: "(string \<Rightarrow> int + json_value) \<Rightarrow> json \<Rightarrow> string \<Rightarrow> (int \<times> json) option" where
  "json_loadstring parse J src =
     (if doc J \<noteq> None then Some (JSON_ENOMORE, J)
      else if spoilt J then None
      else case parse src of
        Inl e \<Rightarrow> Some (e, J\<lparr>spoilt := True\<rparr>)
      | Inr d \<Rightarrow> Some (0, J\<lparr>doc := Some d, tops := [[]]\<rparr>))"

text \<open>\<open>print\<close> is the text of a document; \<open>lim\<close> is the room in \<open>dst\<close>.\<close>

definition json_printstring :: "(json_value \<Rightarrow> string) \<Rightarrow> json \<Rightarrow> char list \<Rightarrow> nat \<Rightarrow> (nat \<times> char list) option" where
  "json_printstring print J dst lim = (case doc J of
     None \<Rightarrow> if lim > 0 then do { dst \<leftarrow> upd dst 0 NUL; Some (0, dst) } else Some (0, dst)
   | Some d \<Rightarrow>
       let s = print d in do {
         dst \<leftarrow> mem_write dst 0 (take lim s);
         dst \<leftarrow> (if lim > 0 then upd dst (min (lim - 1) (length s)) NUL else Some dst);
         Some (length s, dst)
       })"

end
