(* ===== verification/Rasp.thy ===== *)
theory Rasp
  imports Json Signature
begin

text \<open>
  The RASP protocol of src/protocol/rasp: a signed head and a body, as one JSON document. The state of a handle is the record \<open>tagKFRasp\<close>
  with its JSON handle. Functions of the external library are arguments, collected in the record \<open>bvpu\<close>, with the printer and the parser of
  JSON. The union of a body is what was last written to it; reading another member is undefined here. The static buffer
  of \<open>KF_JSON_STRING\<close> is used before the next call everywhere, so the function just gives its text.
\<close>

section \<open>Names\<close>

definition raspkey :: string where "raspkey = ''09d08113-74b4-4ada-a04e-17358b6d0203''"
definition m_head :: string where "m_head = ''MsgHead''"
definition m_cmd :: string where "m_cmd = ''ServiceCode''"
definition m_subcmd :: string where "m_subcmd = ''SrcSysID''"
definition m_tm :: string where "m_tm = ''transactionID''"
definition m_sign :: string where "m_sign = ''SrcSysSign''"
definition m_body :: string where "m_body = ''MsgBody''"
definition m_result :: string where "m_result = ''result''"
definition m_resultCode :: string where "m_resultCode = ''resultCode''"
definition m_resultData :: string where "m_resultData = ''resultData''"
definition m_operation :: string where "m_operation = ''operation''"
definition m_ccmd :: string where "m_ccmd = ''cmd''"
definition m_source :: string where "m_source = ''source''"
definition m_desc :: string where "m_desc = ''desc''"

definition KF_JSON_STRING :: "string \<Rightarrow> string" where
  "KF_JSON_STRING str = take 63 (CHR ''.'' # str)"

section \<open>The state\<close>

record bvpu =
  time_string :: "int \<Rightarrow> string"
  string_compare :: "string \<Rightarrow> string \<Rightarrow> int"
  calloc_ok :: "nat \<Rightarrow> bool"
  print_doc :: "json_value \<Rightarrow> string"
  parse_doc :: "string \<Rightarrow> int + json_value"

record KFDeviceInfo =
  di_name :: "char list"
  di_addr :: "char list"
  di_mac :: "char list"

record KFConnectItemInfo =
  cii_name :: "char list"
  cii_addr :: "char list"
  cii_device :: "char list"
  cii_router :: "char list"

record KFConnectAuthority =
  ca_addr :: "char list"
  ca_port :: int
  ca_user :: "char list"
  ca_password :: "char list"
  ca_mac :: "char list"
  ca_key :: "char list"
  ca_type :: int
  ca_status :: int

record KFBindLists =
  bl_counts :: int
  bl_cii :: "KFConnectItemInfo list option"

datatype body_union = U_zero | U_di KFDeviceInfo | U_cii KFConnectItemInfo | U_ca KFConnectAuthority | U_bl KFBindLists

record KFRaspBody =
  iData :: int
  ResultCode :: "char list"
  ResultData :: "char list"
  u_body :: body_union

record KFRaspHeader =
  iCmd :: int
  iSubCmd :: int
  Cmd :: "char list"
  SubCmd :: "char list"
  Id :: "char list"
  Time :: int
  Sign :: "char list"
  Source :: "char list"

record tagKFRasp =
  header :: KFRaspHeader
  body :: KFRaspBody
  headerStr :: "char list"
  Json :: "json option"

definition di_zero :: KFDeviceInfo where "di_zero = \<lparr>di_name = zeros 256, di_addr = zeros 64, di_mac = zeros 64\<rparr>"

definition cii_zero :: KFConnectItemInfo where
  "cii_zero = \<lparr>cii_name = zeros 256, cii_addr = zeros 64, cii_device = zeros 64, cii_router = zeros 64\<rparr>"

definition ca_zero :: KFConnectAuthority where
  "ca_zero = \<lparr>ca_addr = zeros 64, ca_port = 0, ca_user = zeros 32, ca_password = zeros 64, ca_mac = zeros 64, ca_key = zeros 128,
     ca_type = 0, ca_status = 0\<rparr>"

text \<open>Members of the union; memory that was cleared is the zero of each.\<close>

definition u_di :: "body_union \<Rightarrow> KFDeviceInfo option" where
  "u_di u = (case u of U_zero \<Rightarrow> Some di_zero | U_di d \<Rightarrow> Some d | _ \<Rightarrow> None)"

definition u_cii :: "body_union \<Rightarrow> KFConnectItemInfo option" where
  "u_cii u = (case u of U_zero \<Rightarrow> Some cii_zero | U_cii c \<Rightarrow> Some c | _ \<Rightarrow> None)"

definition u_ca :: "body_union \<Rightarrow> KFConnectAuthority option" where
  "u_ca u = (case u of U_zero \<Rightarrow> Some ca_zero | U_ca c \<Rightarrow> Some c | _ \<Rightarrow> None)"

definition u_bl :: "body_union \<Rightarrow> KFBindLists option" where
  "u_bl u = (case u of U_zero \<Rightarrow> Some \<lparr>bl_counts = 0, bl_cii = None\<rparr> | U_bl b \<Rightarrow> Some b | _ \<Rightarrow> None)"

section \<open>Commands\<close>

definition KF_RASP_CMD_QUERY :: int where "KF_RASP_CMD_QUERY = 1"
definition KF_RASP_CMD_CONTROL :: int where "KF_RASP_CMD_CONTROL = 2"
definition KF_RASP_CMD_NOTIFY :: int where "KF_RASP_CMD_NOTIFY = 3"

definition KF_RASP_SUBCMD_REGISTER :: int where "KF_RASP_SUBCMD_REGISTER = 1"
definition KF_RASP_SUBCMD_BINDREQUEST :: int where "KF_RASP_SUBCMD_BINDREQUEST = 2"
definition KF_RASP_SUBCMD_CONNECTAUTHORITY :: int where "KF_RASP_SUBCMD_CONNECTAUTHORITY = 3"
definition KF_RASP_SUBCMD_CONNECTREQUEST :: int where "KF_RASP_SUBCMD_CONNECTREQUEST = 4"
definition KF_RASP_SUBCMD_BINDLISTS :: int where "KF_RASP_SUBCMD_BINDLISTS = 5"
definition KF_RASP_SUBCMD_UNBINDREQUEST :: int where "KF_RASP_SUBCMD_UNBINDREQUEST = 6"

definition KFRASP_PARSE_DATA_DEVICEINFO :: int where "KFRASP_PARSE_DATA_DEVICEINFO = 2"
definition KFRASP_PARSE_DATA_DEVICEINFO_RESULT :: int where "KFRASP_PARSE_DATA_DEVICEINFO_RESULT = 3"
definition KFRASP_PARSE_DATA_BINDREQUEST_RESULT :: int where "KFRASP_PARSE_DATA_BINDREQUEST_RESULT = 5"
definition KFRASP_PARSE_DATA_BINDLISTS :: int where "KFRASP_PARSE_DATA_BINDLISTS = 6"
definition KFRASP_PARSE_DATA_BINDLISTS_RESULT :: int where "KFRASP_PARSE_DATA_BINDLISTS_RESULT = 7"
definition KFRASP_PARSE_DATA_CONNECTITEMINFO :: int where "KFRASP_PARSE_DATA_CONNECTITEMINFO = 8"
definition KFRASP_PARSE_DATA_CONNECTITEMINFO_RESULT :: int where "KFRASP_PARSE_DATA_CONNECTITEMINFO_RESULT = 9"
definition KFRASP_PARSE_DATA_CONNECTAUTHORITY :: int where "KFRASP_PARSE_DATA_CONNECTAUTHORITY = 10"

definition RaspCmd :: "(int \<times> string) list" where
  "RaspCmd = [(KF_RASP_CMD_QUERY, ''query''), (KF_RASP_CMD_CONTROL, ''control''), (KF_RASP_CMD_NOTIFY, ''notify'')]"

definition RaspSubCmd :: "(int \<times> string) list" where
  "RaspSubCmd = [(KF_RASP_SUBCMD_REGISTER, ''register''), (KF_RASP_SUBCMD_BINDREQUEST, ''bindRequest''),
     (KF_RASP_SUBCMD_CONNECTAUTHORITY, ''connectAuthority''), (KF_RASP_SUBCMD_BINDLISTS, ''bindLists''),
     (KF_RASP_SUBCMD_UNBINDREQUEST, ''unbindRequest'')]"

definition kf_rasp_cmd_str_int :: "bvpu \<Rightarrow> string \<Rightarrow> int" where
  "kf_rasp_cmd_str_int lib s = (case find (\<lambda>(i, c). string_compare lib s c = 0) RaspCmd of Some (i, c) \<Rightarrow> i | None \<Rightarrow> 0)"

definition kf_rasp_cmd_int_str :: "int \<Rightarrow> string option" where
  "kf_rasp_cmd_int_str cmd = map_option snd (find (\<lambda>(i, c). cmd = i) RaspCmd)"

definition kf_rasp_subcmd_str_int :: "bvpu \<Rightarrow> string \<Rightarrow> int" where
  "kf_rasp_subcmd_str_int lib s = (case find (\<lambda>(i, c). string_compare lib s c = 0) RaspSubCmd of Some (i, c) \<Rightarrow> i | None \<Rightarrow> 0)"

definition kf_rasp_subcmd_int_str :: "int \<Rightarrow> string option" where
  "kf_rasp_subcmd_int_str cmd = map_option snd (find (\<lambda>(i, c). cmd = i) RaspSubCmd)"

section \<open>Handles\<close>

definition rasp_zero :: tagKFRasp where
  "rasp_zero = \<lparr>header = \<lparr>iCmd = 0, iSubCmd = 0, Cmd = zeros 32, SubCmd = zeros 32, Id = zeros 8, Time = 0, Sign = zeros 34, Source = zeros 16\<rparr>,
     body = \<lparr>iData = 0, ResultCode = zeros 32, ResultData = zeros 265, u_body = U_zero\<rparr>, headerStr = zeros 128, Json = None\<rparr>"

text \<open>\<open>alloc_ok\<close> and \<open>open_ok\<close>: memory for the handle and for its JSON handle.\<close>

definition kf_rasp_init :: "bool \<Rightarrow> bool \<Rightarrow> int \<times> tagKFRasp option" where
  "kf_rasp_init alloc_ok open_ok =
     (if \<not> alloc_ok then (- 1, None) else if \<not> open_ok then (- 2, None) else (0, Some (rasp_zero\<lparr>Json := Some json_open\<rparr>)))"

text \<open>The pointer to the handle may be null; the handle it points to is used without a test.\<close>

definition kf_rasp_deinit :: "tagKFRasp option option \<Rightarrow> (int \<times> tagKFRasp option option) option" where
  "kf_rasp_deinit rasp = (case rasp of None \<Rightarrow> Some (0, None) | Some None \<Rightarrow> None | Some (Some r) \<Rightarrow> Some (0, Some None))"

definition on_rasp_header :: "(KFRaspHeader \<Rightarrow> KFRaspHeader) \<Rightarrow> tagKFRasp \<Rightarrow> tagKFRasp" where
  "on_rasp_header f r = r\<lparr>header := f (header r)\<rparr>"

definition sign_source :: "string \<Rightarrow> string \<Rightarrow> int \<Rightarrow> string" where
  "sign_source sub i t = sub @ ''-'' @ i @ ''-'' @ fmt_d t @ ''-'' @ raspkey"

definition kf_rasp_generate_sign :: "tagKFRasp option \<Rightarrow> char list \<Rightarrow> (int \<times> char list) option" where
  "kf_rasp_generate_sign rasp signSave = (case rasp of
     None \<Rightarrow> Some (- 1, signSave)
   | Some r \<Rightarrow>
       if Json r = None then Some (- 2, signSave)
       else do {
         sub \<leftarrow> cstr (SubCmd (header r));
         i \<leftarrow> cstr (Id (header r));
         tmpstr \<leftarrow> sprintf_to (zeros 128) (sign_source sub i (Time (header r))) \<bind> cstr;
         (_, save) \<leftarrow> kfmd5_ngx zero_ctx (Some (bytes_of tmpstr)) (Some (replicate 16 0));
         (_, s) \<leftarrow> kfmd5_ngx_tostring save (Some signSave);
         s \<leftarrow> s;
         Some (0, s)
       })"

definition kf_rasp_generate_header :: "int \<Rightarrow> tagKFRasp option \<Rightarrow> int \<Rightarrow> int \<Rightarrow> string option \<Rightarrow> (int \<times> tagKFRasp option) option" where
  "kf_rasp_generate_header now rasp cmd subcmd i = (case (rasp, i) of
     (Some r, Some i) \<Rightarrow>
       if cmd = 0 then Some (- 1, rasp)
       else case kf_rasp_cmd_int_str cmd of
         None \<Rightarrow> Some (- 2, rasp)
       | Some p \<Rightarrow> do {
           c \<leftarrow> snprintf_to (Cmd (header r)) 32 p;
           let r = on_rasp_header (\<lambda>h. h\<lparr>iCmd := cmd, Cmd := c\<rparr>) r;
           case kf_rasp_subcmd_int_str subcmd of
             None \<Rightarrow> Some (- 3, Some r)
           | Some p \<Rightarrow> do {
               s \<leftarrow> snprintf_to (SubCmd (header r)) 32 p;
               i \<leftarrow> snprintf_to (Id (header r)) 8 i;
               let r = on_rasp_header (\<lambda>h. h\<lparr>iSubCmd := subcmd, SubCmd := s, Id := i, Time := now\<rparr>) r;
               (ret, sign) \<leftarrow> kf_rasp_generate_sign (Some r) (Sign (header r));
               src \<leftarrow> sprintf_to (Source (header r)) ''router'';
               Some (ret, Some (on_rasp_header (\<lambda>h. h\<lparr>Sign := sign, Source := src\<rparr>) r))
             }
         }
   | _ \<Rightarrow> Some (- 1, rasp))"

section \<open>Writing\<close>

text \<open>The results of the JSON functions are not looked at.\<close>

definition push_to :: "string \<Rightarrow> json \<Rightarrow> json option" where
  "push_to path J = map_option snd (json_push J path)"

definition set_text :: "string \<Rightarrow> string \<Rightarrow> json \<Rightarrow> json option" where
  "set_text name s J = map_option snd (json_setstring J s (KF_JSON_STRING name))"

definition set_array :: "string \<Rightarrow> char list \<Rightarrow> json \<Rightarrow> json option" where
  "set_array name a J = do { s \<leftarrow> cstr a; set_text name s J }"

definition kf_rasp_header_ready_data :: "bvpu \<Rightarrow> tagKFRasp \<Rightarrow> json \<Rightarrow> json option" where
  "kf_rasp_header_ready_data lib r J = do {
     J \<leftarrow> push_to (KF_JSON_STRING m_head) J;
     J \<leftarrow> set_array m_cmd (SubCmd (header r)) J;
     J \<leftarrow> set_array m_subcmd (Id (header r)) J;
     J \<leftarrow> set_array m_sign (Sign (header r)) J;
     J \<leftarrow> set_text m_tm (time_string lib (Time (header r))) J;
     Some (json_pop J)
   }"

text \<open>The result is null when the text has an error only; \<open>ret\<close> is a \<open>size_t\<close> put into an \<open>int\<close>.\<close>

definition kf_rasp_header_todata :: "bvpu \<Rightarrow> tagKFRasp option \<Rightarrow> (char list option \<times> tagKFRasp option) option" where
  "kf_rasp_header_todata lib rasp = (case rasp of
     None \<Rightarrow> Some (None, None)
   | Some r \<Rightarrow> (case Json r of
       None \<Rightarrow> Some (None, rasp)
     | Some J \<Rightarrow> do {
         J \<leftarrow> push_to (KF_JSON_STRING m_head) J;
         J \<leftarrow> set_array m_cmd (Cmd (header r)) J;
         J \<leftarrow> set_array m_subcmd (SubCmd (header r)) J;
         J \<leftarrow> set_array m_sign (Sign (header r)) J;
         J \<leftarrow> set_text m_tm (time_string lib (Time (header r))) J;
         let J = json_pop J;
         (ret, s) \<leftarrow> json_printstring (print_doc lib) J (headerStr r) 128;
         let r = r\<lparr>Json := Some J, headerStr := s\<rparr>;
         Some (if sint (word_of_nat ret :: u32) < 0 then None else Some s, Some r)
       }))"

definition kf_rasp_generate_data_operation :: "json \<Rightarrow> string \<Rightarrow> string \<Rightarrow> string \<Rightarrow> json option" where
  "kf_rasp_generate_data_operation J pos cmd source = do {
     J \<leftarrow> push_to (KF_JSON_STRING pos) J;
     J \<leftarrow> push_to (KF_JSON_STRING m_operation) J;
     J \<leftarrow> set_text m_ccmd cmd J;
     J \<leftarrow> set_text m_source source J;
     Some (json_pop (json_pop J))
   }"

definition kf_rasp_generate_data_connectiteminfo :: "json \<Rightarrow> KFConnectItemInfo \<Rightarrow> json option" where
  "kf_rasp_generate_data_connectiteminfo J cii = do {
     J \<leftarrow> push_to (KF_JSON_STRING ''MsgBody[0].PARAMS'') J;
     J \<leftarrow> push_to (KF_JSON_STRING ''connectItemInfo'') J;
     J \<leftarrow> set_array ''deviceMac'' (cii_device cii) J;
     J \<leftarrow> set_array ''routerMac'' (cii_router cii) J;
     Some (json_pop (json_pop J))
   }"

definition kf_rasp_generate_data_connectauthority :: "json \<Rightarrow> KFConnectAuthority \<Rightarrow> json option" where
  "kf_rasp_generate_data_connectauthority J ca = do {
     J \<leftarrow> push_to (KF_JSON_STRING ''MsgBody[0].PARAMS'') J;
     J \<leftarrow> push_to (KF_JSON_STRING ''connectAuthority'') J;
     J \<leftarrow> set_array ''addr'' (ca_addr ca) J;
     J \<leftarrow> set_array ''userName'' (ca_user ca) J;
     J \<leftarrow> set_array ''password'' (ca_password ca) J;
     J \<leftarrow> set_array ''mac'' (ca_mac ca) J;
     J \<leftarrow> set_array ''secretKey'' (ca_key ca) J;
     type \<leftarrow> sprintf_to (zeros 8) (fmt_d (ca_type ca));
     J \<leftarrow> set_array ''type'' type J;
     status \<leftarrow> sprintf_to (zeros 8) (fmt_d (ca_status ca));
     J \<leftarrow> set_array ''status'' status J;
     Some (json_pop (json_pop J))
   }"

definition kf_rasp_generate_data_connectiteminfo_result :: "bvpu \<Rightarrow> json \<Rightarrow> KFRaspBody \<Rightarrow> json option" where
  "kf_rasp_generate_data_connectiteminfo_result lib J b = do {
     J \<leftarrow> push_to (KF_JSON_STRING m_body) J;
     J \<leftarrow> push_to (KF_JSON_STRING m_result) J;
     J \<leftarrow> set_array m_resultCode (ResultCode b) J;
     code \<leftarrow> cstr (ResultCode b);
     J \<leftarrow> push_to (KF_JSON_STRING m_resultData) J;
     J \<leftarrow> (if string_compare lib code ''success'' \<noteq> 0 then set_array m_desc (ResultData b) J
       else do {
         cii \<leftarrow> u_cii (u_body b);
         J \<leftarrow> push_to (KF_JSON_STRING ''connectItemInfo'') J;
         J \<leftarrow> set_array ''name'' (cii_name cii) J;
         J \<leftarrow> set_array ''addr'' (cii_addr cii) J;
         J \<leftarrow> set_array ''deviceMac'' (cii_device cii) J;
         J \<leftarrow> set_array ''routerMac'' (cii_router cii) J;
         Some (json_pop J)
       });
     Some (json_pop (json_pop (json_pop J)))
   }"

definition kf_rasp_generate_data_null_body :: "json \<Rightarrow> json option" where
  "kf_rasp_generate_data_null_body J = do {
     J \<leftarrow> push_to (KF_JSON_STRING ''MsgBody[0].PARAMS'') J;
     (_, J) \<leftarrow> json_setstring J '''' '''';
     Some (json_pop J)
   }"

text \<open>The document of a body of kind \<open>iData\<close>; kinds without a case leave the body null.\<close>

definition operation_at :: "tagKFRasp \<Rightarrow> string \<Rightarrow> json \<Rightarrow> json option" where
  "operation_at r pos J = do {
     cmd \<leftarrow> cstr (Cmd (header r));
     source \<leftarrow> cstr (Source (header r));
     kf_rasp_generate_data_operation J pos cmd source
   }"

definition generate_body :: "bvpu \<Rightarrow> tagKFRasp \<Rightarrow> json \<Rightarrow> json option" where
  "generate_body lib r J =
     (let k = iData (body r) in
      if k = KFRASP_PARSE_DATA_CONNECTITEMINFO then do {
        J \<leftarrow> operation_at r ''MsgBody[0].PARAMS'' J;
        cii \<leftarrow> u_cii (u_body (body r));
        kf_rasp_generate_data_connectiteminfo J cii
      }
      else if k = KFRASP_PARSE_DATA_CONNECTITEMINFO_RESULT then do {
        J \<leftarrow> operation_at r ''MsgBody.result.resultData'' J;
        kf_rasp_generate_data_connectiteminfo_result lib J (body r)
      }
      else if k = KFRASP_PARSE_DATA_CONNECTAUTHORITY then do {
        J \<leftarrow> operation_at r ''MsgBody[0].PARAMS'' J;
        ca \<leftarrow> u_ca (u_body (body r));
        kf_rasp_generate_data_connectauthority J ca
      }
      else if k = KFRASP_PARSE_DATA_BINDLISTS then do {
        J \<leftarrow> operation_at r ''MsgBody[0].PARAMS'' J;
        kf_rasp_generate_data_null_body J
      }
      else Some J)"

definition kf_rasp_generate_data ::
  "bvpu \<Rightarrow> tagKFRasp option \<Rightarrow> char list option \<Rightarrow> int option \<Rightarrow> (int \<times> tagKFRasp option \<times> char list option \<times> int option) option" where
  "kf_rasp_generate_data lib rasp dataSave len = (case rasp of
     None \<Rightarrow> Some (- 1, rasp, dataSave, len)
   | Some r \<Rightarrow> (case (Json r, dataSave, len) of
       (None, _, _) \<Rightarrow> Some (- 2, rasp, dataSave, len)
     | (_, None, _) \<Rightarrow> Some (- 3, rasp, dataSave, len)
     | (_, _, None) \<Rightarrow> Some (- 4, rasp, dataSave, len)
     | (Some J, Some dst, Some n) \<Rightarrow> do {
         (_, J) \<leftarrow> json_setnull J (KF_JSON_STRING m_body);
         J \<leftarrow> kf_rasp_header_ready_data lib r J;
         J \<leftarrow> generate_body lib r J;
         (ret, dst) \<leftarrow> json_printstring (print_doc lib) J dst (nat (n mod 2 ^ 64));
         let ret = sint (word_of_nat ret :: u32);
         Some (ret, Some (r\<lparr>Json := Some J\<rparr>), Some dst, Some ret)
       }))"

text \<open>The result is \<open>-2\<close> also when all is well.\<close>

definition kf_rasp_set_body :: "tagKFRasp option \<Rightarrow> KFRaspBody option \<Rightarrow> int \<times> tagKFRasp option" where
  "kf_rasp_set_body rasp b = (case (rasp, b) of
     (Some r, Some b) \<Rightarrow> (- 2, Some (r\<lparr>body := b\<rparr>))
   | _ \<Rightarrow> (- 1, rasp))"

section \<open>Reading\<close>

definition text_at :: "json \<Rightarrow> string \<Rightarrow> string option" where
  "text_at J name = json_string J (KF_JSON_STRING name)"

definition kf_rasp_header_valid :: "tagKFRasp \<Rightarrow> int option" where
  "kf_rasp_header_valid r = do {
     sub \<leftarrow> cstr (SubCmd (header r));
     i \<leftarrow> cstr (Id (header r));
     _ \<leftarrow> sprintf_to (zeros 128) (sign_source sub i (Time (header r)));
     (_, sign) \<leftarrow> kf_rasp_generate_sign (Some r) (zeros 34);
     s \<leftarrow> cstr sign;
     t \<leftarrow> cstr (Sign (header r));
     Some (if strcmp s t = 0 then 1 else 0)
   }"

text \<open>\<open>json_string\<close> never gives a null pointer, so every test for one succeeds and \<open>-3\<close> is not reached.\<close>

definition kf_rasp_parse_data_header :: "bvpu \<Rightarrow> tagKFRasp option \<Rightarrow> (int \<times> tagKFRasp option) option" where
  "kf_rasp_parse_data_header lib rasp = (case rasp of
     None \<Rightarrow> Some (- 1, rasp)
   | Some r \<Rightarrow> (case Json r of
       None \<Rightarrow> Some (- 2, rasp)
     | Some J \<Rightarrow> do {
         J \<leftarrow> push_to (KF_JSON_STRING m_head) J;
         str \<leftarrow> text_at J m_cmd;
         sub \<leftarrow> snprintf_to (SubCmd (header r)) 32 str;
         let r = on_rasp_header (\<lambda>h. h\<lparr>iSubCmd := kf_rasp_subcmd_str_int lib str, SubCmd := sub\<rparr>) r;
         str \<leftarrow> text_at J m_subcmd;
         i \<leftarrow> snprintf_to (Id (header r)) 8 str;
         str \<leftarrow> text_at J m_sign;
         sg \<leftarrow> snprintf_to (Sign (header r)) 34 str;
         tmStr \<leftarrow> text_at J m_tm;
         t \<leftarrow> atol tmStr;
         let r = on_rasp_header (\<lambda>h. h\<lparr>Id := i, Sign := sg, Time := t\<rparr>) (r\<lparr>Json := Some (json_pop J)\<rparr>);
         ret \<leftarrow> kf_rasp_header_valid r;
         Some (if ret = 1 then 0 else - 4, Some r)
       }))"

definition kf_rasp_generate_number :: "tagKFRasp \<Rightarrow> int" where
  "kf_rasp_generate_number r =
     (if iCmd (header r) = KF_RASP_CMD_QUERY then
        if iSubCmd (header r) = KF_RASP_SUBCMD_REGISTER then KFRASP_PARSE_DATA_DEVICEINFO_RESULT
        else if iSubCmd (header r) = KF_RASP_SUBCMD_BINDLISTS then KFRASP_PARSE_DATA_BINDLISTS_RESULT
        else 0
      else if iCmd (header r) = KF_RASP_CMD_CONTROL then
        if iSubCmd (header r) = KF_RASP_SUBCMD_REGISTER then KFRASP_PARSE_DATA_DEVICEINFO
        else if iSubCmd (header r) = KF_RASP_SUBCMD_BINDREQUEST then KFRASP_PARSE_DATA_BINDLISTS_RESULT
        else 0
      else 0)"

text \<open>The text of a failed result; it is looked for in the member \<open>resultData\<close> itself.\<close>

definition kf_rasp_process_common_result :: "bvpu \<Rightarrow> json \<Rightarrow> KFRaspBody \<Rightarrow> (int \<times> json \<times> KFRaspBody) option" where
  "kf_rasp_process_common_result lib J rb = do {
     J \<leftarrow> push_to (KF_JSON_STRING m_body) J;
     J \<leftarrow> push_to (KF_JSON_STRING m_result) J;
     str \<leftarrow> text_at J m_resultCode;
     code \<leftarrow> snprintf_to (ResultCode rb) 32 str;
     let rb = rb\<lparr>ResultCode := code\<rparr>;
     c \<leftarrow> cstr code;
     (ret, rb) \<leftarrow>
       (if string_compare lib c ''SUCCESS'' = 0 then Some (0, rb)
        else do {
          p \<leftarrow> text_at J m_resultData;
          d \<leftarrow> snprintf_to (ResultData rb) 265 p;
          Some (- 3, rb\<lparr>iData := 0, ResultData := d\<rparr>)
        });
     Some (ret, json_pop (json_pop J), rb)
   }"

text \<open>\<open>json_push\<close> creates what it does not find, so the other branch is not reached.\<close>

definition kf_rasp_process_deviceinfo :: "bvpu \<Rightarrow> json \<Rightarrow> KFRaspBody \<Rightarrow> (int \<times> json \<times> KFRaspBody) option" where
  "kf_rasp_process_deviceinfo lib J rb = do {
     J \<leftarrow> push_to ''.MsgBody[0].PARAMS'' J;
     (err, J) \<leftarrow> json_push J ''.deviceInfo'';
     rb \<leftarrow>
       (if err = 0 then do {
          di \<leftarrow> u_di (u_body rb);
          s \<leftarrow> json_string J ''.name'';
          n \<leftarrow> snprintf_to (di_name di) 256 s;
          s \<leftarrow> json_string J ''.addr'';
          a \<leftarrow> snprintf_to (di_addr di) 64 s;
          Some (rb\<lparr>iData := KFRASP_PARSE_DATA_DEVICEINFO, u_body := U_di (di\<lparr>di_name := n, di_addr := a\<rparr>)\<rparr>)
        }
        else Some (rb\<lparr>iData := 0\<rparr>));
     Some (0, json_pop (json_pop J), rb)
   }"

text \<open>One element of the list.\<close>

definition bind_item :: "json \<Rightarrow> nat \<Rightarrow> KFConnectItemInfo \<Rightarrow> KFConnectItemInfo option" where
  "bind_item J i ii = do {
     indxstr \<leftarrow> sprintf_to (zeros 32) (''.bindLists['' @ fmt_d (int i) @ ''].deviceMac'');
     p \<leftarrow> cstr indxstr;
     s \<leftarrow> json_string J p;
     d \<leftarrow> snprintf_to (cii_device ii) 64 s;
     indxstr \<leftarrow> sprintf_to indxstr (''.bindLists['' @ fmt_d (int i) @ ''].routerMac'');
     p \<leftarrow> cstr indxstr;
     s \<leftarrow> json_string J p;
     m \<leftarrow> snprintf_to (cii_router ii) 64 s;
     Some (ii\<lparr>cii_device := d, cii_router := m\<rparr>)
   }"

fun bind_loop :: "json \<Rightarrow> nat \<Rightarrow> KFConnectItemInfo list \<Rightarrow> KFConnectItemInfo list option" where
  "bind_loop J i [] = Some []"
| "bind_loop J i (ii # iis) = do {
     ii \<leftarrow> bind_item J i ii;
     iis \<leftarrow> bind_loop J (Suc i) iis;
     Some (ii # iis)
   }"

text \<open>After a success \<open>resultData\<close> is pushed and not popped. A failed allocation leaves the number of elements with a null pointer.\<close>

definition bind_lists :: "bvpu \<Rightarrow> json \<Rightarrow> KFRaspBody \<Rightarrow> (int \<times> KFRaspBody) option" where
  "bind_lists lib J rb = do {
     n \<leftarrow> json_count J ''.bindLists'';
     cnts \<leftarrow> c_int (int n);
     if cnts > 0 then
       if calloc_ok lib n then do {
         items \<leftarrow> bind_loop J 0 (replicate n cii_zero);
         Some (0, rb\<lparr>u_body := U_bl \<lparr>bl_counts = cnts, bl_cii = Some items\<rparr>\<rparr>)
       }
       else Some (- 4, rb\<lparr>u_body := U_bl \<lparr>bl_counts = cnts, bl_cii = None\<rparr>\<rparr>)
     else do {
       bl \<leftarrow> u_bl (u_body rb);
       Some (- 10, rb\<lparr>u_body := U_bl (bl\<lparr>bl_counts := cnts\<rparr>)\<rparr>)
     }
   }"

definition kf_rasp_process_bindlists_result :: "bvpu \<Rightarrow> json \<Rightarrow> KFRaspBody \<Rightarrow> (int \<times> json \<times> KFRaspBody) option" where
  "kf_rasp_process_bindlists_result lib J rb = do {
     J \<leftarrow> push_to (KF_JSON_STRING m_body) J;
     J \<leftarrow> push_to (KF_JSON_STRING m_result) J;
     str \<leftarrow> text_at J m_resultCode;
     code \<leftarrow> snprintf_to (ResultCode rb) 32 str;
     let rb = rb\<lparr>ResultCode := code\<rparr>;
     c \<leftarrow> cstr code;
     if string_compare lib c ''SUCCESS'' = 0 then do {
       J \<leftarrow> push_to ''.resultData'' J;
       (ret, rb) \<leftarrow> bind_lists lib J (rb\<lparr>iData := KFRASP_PARSE_DATA_BINDLISTS_RESULT\<rparr>);
       Some (ret, json_pop (json_pop J), rb)
     }
     else do {
       J \<leftarrow> push_to (KF_JSON_STRING m_resultData) J;
       p \<leftarrow> text_at J m_desc;
       d \<leftarrow> snprintf_to (ResultData rb) 265 p;
       Some (- 3, json_pop (json_pop (json_pop J)), rb\<lparr>iData := 0, ResultData := d\<rparr>)
     }
   }"

definition kf_rasp_generate_handle :: "bvpu \<Rightarrow> int \<Rightarrow> (json \<Rightarrow> KFRaspBody \<Rightarrow> (int \<times> json \<times> KFRaspBody) option) option" where
  "kf_rasp_generate_handle lib num =
     (if num = KFRASP_PARSE_DATA_DEVICEINFO then Some (kf_rasp_process_deviceinfo lib)
      else if num = KFRASP_PARSE_DATA_BINDREQUEST_RESULT \<or> num = KFRASP_PARSE_DATA_DEVICEINFO_RESULT then Some (kf_rasp_process_common_result lib)
      else if num = KFRASP_PARSE_DATA_BINDLISTS_RESULT then Some (kf_rasp_process_bindlists_result lib)
      else None)"

text \<open>The variable that gets the result of the handle hides the one that is returned, so a failure gives 0.\<close>

definition kf_rasp_parse_msgbody :: "bvpu \<Rightarrow> tagKFRasp option \<Rightarrow> (int \<times> tagKFRasp option) option" where
  "kf_rasp_parse_msgbody lib rasp = (case rasp of
     None \<Rightarrow> Some (- 1, rasp)
   | Some r \<Rightarrow> (case Json r of
       None \<Rightarrow> Some (- 2, rasp)
     | Some J \<Rightarrow> do {
         cnt \<leftarrow> json_count J ''.MsgBody[0].PARAMS'';
         cnt \<leftarrow> c_int (int cnt);
         J \<leftarrow> push_to (if cnt = 0 then ''.MsgBody.result.resultData'' else ''.MsgBody[0].PARAMS'') J;
         J \<leftarrow> push_to (KF_JSON_STRING m_operation) J;
         str \<leftarrow> text_at J m_ccmd;
         c \<leftarrow> snprintf_to (Cmd (header r)) 32 str;
         src \<leftarrow> text_at J m_source;
         s \<leftarrow> snprintf_to (Source (header r)) 16 src;
         let r = on_rasp_header (\<lambda>h. h\<lparr>iCmd := kf_rasp_cmd_str_int lib str, Cmd := c, Source := s\<rparr>) r;
         let J = json_pop (json_pop J);
         let num = kf_rasp_generate_number r;
         let b = (body r)\<lparr>iData := num\<rparr>;
         case kf_rasp_generate_handle lib num of
           None \<Rightarrow> Some (0, Some (r\<lparr>Json := Some J, body := b\<rparr>))
         | Some process \<Rightarrow> do {
             (_, J, b) \<leftarrow> process J b;
             Some (0, Some (r\<lparr>Json := Some J, body := b\<rparr>))
           }
       }))"

definition kf_rasp_parse_data :: "bvpu \<Rightarrow> tagKFRasp option \<Rightarrow> string option \<Rightarrow> (int \<times> tagKFRasp option) option" where
  "kf_rasp_parse_data lib rasp s = (case rasp of
     None \<Rightarrow> Some (- 1, rasp)
   | Some r \<Rightarrow> (case (Json r, s) of
       (None, _) \<Rightarrow> Some (- 2, rasp)
     | (_, None) \<Rightarrow> Some (- 3, rasp)
     | (Some J, Some s) \<Rightarrow> do {
         (error, J) \<leftarrow> json_loadstring (parse_doc lib) J s;
         let rasp = Some (r\<lparr>Json := Some J\<rparr>);
         if error \<noteq> 0 then Some (- 4, rasp)
         else do {
           (ret, rasp) \<leftarrow> kf_rasp_parse_data_header lib rasp;
           if ret < 0 then Some (- 5, rasp)
           else do {
             (ret, rasp) \<leftarrow> kf_rasp_parse_msgbody lib rasp;
             Some (if ret < 0 then - 6 else 0, rasp)
           }
         }
       }))"

definition kf_rasp_parse_data_free :: "tagKFRasp option \<Rightarrow> (int \<times> tagKFRasp option) option" where
  "kf_rasp_parse_data_free rasp = (case rasp of
     None \<Rightarrow> Some (- 1, rasp)
   | Some r \<Rightarrow> do {
       bl \<leftarrow> u_bl (u_body (body r));
       Some (0, Some (r\<lparr>body := (body r)\<lparr>u_body := U_bl (bl\<lparr>bl_cii := None\<rparr>)\<rparr>\<rparr>))
     })"

definition kf_rasp_cmd :: "tagKFRasp option \<Rightarrow> int" where
  "kf_rasp_cmd rasp = (case rasp of None \<Rightarrow> - 1 | Some r \<Rightarrow> iCmd (header r))"

definition kf_rasp_subcmd :: "tagKFRasp option \<Rightarrow> int" where
  "kf_rasp_subcmd rasp = (case rasp of None \<Rightarrow> - 1 | Some r \<Rightarrow> iSubCmd (header r))"

definition kf_rasp_body :: "tagKFRasp option \<Rightarrow> KFRaspBody option" where
  "kf_rasp_body rasp = map_option body rasp"

end
