(* ===== verification/Rasp_Correct.thy ===== *)
theory Rasp_Correct
  imports Rasp
begin

text \<open>
  Correctness of the RASP protocol: what a request looks like, how it is read back, which heads are accepted, what the answer with a list
  gives, and what a handle that was used before does.
\<close>

section \<open>Walking through a document\<close>

lemma path_exec_stop: "path_next fp = Some (Stop e, r) \<Longrightarrow> path_exec auto fp d cur = Some (e, d, Some cur, r)"
  by (subst path_exec.simps) simp

lemma path_exec_key:
  assumes "path_next fp = Some (Key k, r)" and "value_at d cur = Some v" and "json_v_search auto v k = (v', p)"
  shows "path_exec auto fp d cur =
    (case p of None \<Rightarrow> Some (0, d, None, r) | Some p \<Rightarrow> path_exec auto r (put_at d cur v') (cur @ [p]))"
  using assms by (subst path_exec.simps) simp

lemma path_exec_index:
  assumes "path_next fp = Some (Index i, r)" and "value_at d cur = Some v" and "json_v_index auto v i = (v', p)"
  shows "path_exec auto fp d cur =
    (case p of None \<Rightarrow> Some (0, d, None, r) | Some p \<Rightarrow> path_exec auto r (put_at d cur v') (cur @ [p]))"
  using assms by (subst path_exec.simps) simp

named_theorems paths

lemma path_names [paths]:
  "KF_JSON_STRING m_head = ''.MsgHead''" "KF_JSON_STRING m_cmd = ''.ServiceCode''" "KF_JSON_STRING m_subcmd = ''.SrcSysID''"
  "KF_JSON_STRING m_tm = ''.transactionID''" "KF_JSON_STRING m_sign = ''.SrcSysSign''" "KF_JSON_STRING m_body = ''.MsgBody''"
  "KF_JSON_STRING m_result = ''.result''" "KF_JSON_STRING m_resultCode = ''.resultCode''" "KF_JSON_STRING m_resultData = ''.resultData''"
  "KF_JSON_STRING m_operation = ''.operation''" "KF_JSON_STRING m_ccmd = ''.cmd''" "KF_JSON_STRING m_source = ''.source''"
  "KF_JSON_STRING m_desc = ''.desc''" "KF_JSON_STRING ''MsgBody[0].PARAMS'' = ''.MsgBody[0].PARAMS''"
  "KF_JSON_STRING ''connectItemInfo'' = ''.connectItemInfo''" "KF_JSON_STRING ''deviceMac'' = ''.deviceMac''"
  "KF_JSON_STRING ''routerMac'' = ''.routerMac''"
  by code_simp+

text \<open>A key of letters.\<close>

definition letter :: "char \<Rightarrow> bool" where
  "letter c = (let n = of_char c in (65 \<le> n \<and> n \<le> 90) \<or> (97 \<le> n \<and> n \<le> (122 :: nat)))"

lemma letter_popc:
  assumes "letter c"
  shows "path_popc (c # r) = (sval c, r)" and "0 < sval c" and "char_of (nat (sval c mod 256)) = c"
proof -
  have "c \<notin> {CHR 0x5C, CHR ''['', CHR '']'', CHR ''.'', CHR ''#'', CHR ''$''}" using assms by (auto simp: letter_def)
  then show "path_popc (c # r) = (sval c, r)" by simp
  have n: "0 < (of_char c :: nat)" "of_char c < (128 :: nat)" using assms by (auto simp: letter_def Let_def)
  show "0 < sval c" using n by (simp add: sval_def)
  have "nat (sval c mod 256) = of_char c" using n by (simp add: sval_def)
  then show "char_of (nat (sval c mod 256)) = c" by simp
qed

lemma path_key_loop_letters:
  assumes "\<forall>c \<in> set k. letter c" and "rest = [] \<or> hd rest \<in> {CHR ''.'', CHR ''[''}" and "length key + length k \<le> 255"
  shows "path_key_loop (k @ rest) key nf = Some (Inr (key @ k, nf + length k), rest)"
  using assms
proof (induction k arbitrary: key nf)
  case Nil
  then show ?case by (cases rest) (simp add: path_key_loop.simps, auto simp: path_key_loop.simps [of "_ # _"] sval_def)
next
  case (Cons c k)
  have c: "path_popc (c # k @ rest) = (sval c, k @ rest)" "0 < sval c" "char_of (nat (sval c mod 256)) = c"
    using letter_popc [of c] Cons.prems(1) by simp_all
  then show ?case using Cons.IH [of "key @ [c]" "nf + 1"] Cons.prems by (subst path_key_loop.simps) simp
qed

lemma path_key:
  assumes "\<forall>c \<in> set k. letter c" and "k \<noteq> []" and "rest = [] \<or> hd rest \<in> {CHR ''.'', CHR ''[''}" and "length k \<le> 255"
  shows "path_next (CHR ''.'' # k @ rest) = Some (Key k, rest)"
proof -
  obtain c k' where k: "k = c # k'" using assms(2) by (cases k) auto
  have "path_popc (k @ rest) = (sval c, k' @ rest)" "0 < sval c" using letter_popc [of c] assms(1) by (simp_all add: k)
  moreover have "path_popc (CHR ''.'' # k @ rest) = (- 46, k @ rest)" by (simp add: sval_def)
  ultimately show ?thesis
    using path_key_loop_letters [OF assms(1,3), of "[]" 0] assms(2,4) by (simp add: path_next_def)
qed

lemma path_keys [paths]:
  "path_next ''.MsgHead'' = Some (Key ''MsgHead'', [])"
  "path_next ''.ServiceCode'' = Some (Key ''ServiceCode'', [])"
  "path_next ''.SrcSysID'' = Some (Key ''SrcSysID'', [])"
  "path_next ''.transactionID'' = Some (Key ''transactionID'', [])"
  "path_next ''.SrcSysSign'' = Some (Key ''SrcSysSign'', [])"
  "path_next ''.MsgBody'' = Some (Key ''MsgBody'', [])"
  "path_next ''.result'' = Some (Key ''result'', [])"
  "path_next ''.resultCode'' = Some (Key ''resultCode'', [])"
  "path_next ''.resultData'' = Some (Key ''resultData'', [])"
  "path_next ''.operation'' = Some (Key ''operation'', [])"
  "path_next ''.cmd'' = Some (Key ''cmd'', [])"
  "path_next ''.source'' = Some (Key ''source'', [])"
  "path_next ''.desc'' = Some (Key ''desc'', [])"
  "path_next ''.connectItemInfo'' = Some (Key ''connectItemInfo'', [])"
  "path_next ''.deviceMac'' = Some (Key ''deviceMac'', [])"
  "path_next ''.routerMac'' = Some (Key ''routerMac'', [])"
  "path_next ''.bindLists'' = Some (Key ''bindLists'', [])"
  "path_next ''.PARAMS'' = Some (Key ''PARAMS'', [])"
  "path_next ''.MsgBody[0].PARAMS'' = Some (Key ''MsgBody'', ''[0].PARAMS'')"
  "path_next ''.MsgBody.result.resultData'' = Some (Key ''MsgBody'', ''.result.resultData'')"
  "path_next ''.result.resultData'' = Some (Key ''result'', ''.resultData'')"
  using path_key [of "''MsgHead''" "[]"]
      path_key [of "''ServiceCode''" "[]"]
      path_key [of "''SrcSysID''" "[]"]
      path_key [of "''transactionID''" "[]"]
      path_key [of "''SrcSysSign''" "[]"]
      path_key [of "''MsgBody''" "[]"]
      path_key [of "''result''" "[]"]
      path_key [of "''resultCode''" "[]"]
      path_key [of "''resultData''" "[]"]
      path_key [of "''operation''" "[]"]
      path_key [of "''cmd''" "[]"]
      path_key [of "''source''" "[]"]
      path_key [of "''desc''" "[]"]
      path_key [of "''connectItemInfo''" "[]"]
      path_key [of "''deviceMac''" "[]"]
      path_key [of "''routerMac''" "[]"]
      path_key [of "''bindLists''" "[]"]
      path_key [of "''PARAMS''" "[]"]
      path_key [of "''MsgBody''" "''[0].PARAMS''"]
      path_key [of "''MsgBody''" "''.result.resultData''"]
      path_key [of "''result''" "''.resultData''"]
  by (simp_all add: letter_def Let_def)

lemma path_rest [paths]: "path_next ''[0].PARAMS'' = Some (Index 0, ''.PARAMS'')" "path_next [] = Some (Stop 0, [])"
  by code_simp+

lemmas walk = path_exec_stop path_exec_key path_exec_index json_v_search_def json_v_index_def array_index_def array_insert_def
  json_push_def json_make_def json_put_def json_setstring_def json_setnull_def json_find_def json_string_def json_count_def json_pop_def
  push_to_def set_text_def text_at_def

definition handle :: "json_value \<Rightarrow> json" where "handle d = \<lparr>doc = Some d, tops = [[]], spoilt = False\<rparr>"

definition head_of :: "bvpu \<Rightarrow> string \<Rightarrow> string \<Rightarrow> string \<Rightarrow> int \<Rightarrow> json_value" where
  "head_of lib sub i sg t = JObject [(''ServiceCode'', JString sub), (''SrcSysID'', JString i), (''SrcSysSign'', JString sg),
     (''transactionID'', JString (time_string lib t))]"

lemma header_written:
  assumes "cstr (SubCmd (header r)) = Some sub" and "cstr (Id (header r)) = Some i" and "cstr (Sign (header r)) = Some sg"
  shows "kf_rasp_header_ready_data lib r (handle (JObject [(''MsgBody'', b)])) =
    Some (handle (JObject [(''MsgBody'', b), (''MsgHead'', head_of lib sub i sg (Time (header r)))]))"
  using assms by (simp add: kf_rasp_header_ready_data_def set_array_def walk paths handle_def head_of_def)

text \<open>A request: the head, and the operation with what belongs to it.\<close>

definition request_doc :: "json_value \<Rightarrow> json_value \<Rightarrow> json_value" where
  "request_doc mh params = JObject [(''MsgBody'', JArray [JObject [(''PARAMS'', params)]]), (''MsgHead'', mh)]"

definition operation_of :: "string \<Rightarrow> string \<Rightarrow> string \<times> json_value" where
  "operation_of cmd source = (''operation'', JObject [(''cmd'', JString cmd), (''source'', JString source)])"

lemma operation_written:
  "kf_rasp_generate_data_operation (handle (JObject [(''MsgBody'', JNull), (''MsgHead'', mh)])) ''MsgBody[0].PARAMS'' cmd source =
    Some (handle (request_doc mh (JObject [operation_of cmd source])))"
  by (simp add: kf_rasp_generate_data_operation_def walk paths handle_def request_doc_def operation_of_def)

lemma connectiteminfo_written:
  assumes "cstr (cii_device cii) = Some d" and "cstr (cii_router cii) = Some m"
  shows "kf_rasp_generate_data_connectiteminfo (handle (request_doc mh (JObject [operation_of cmd source]))) cii =
    Some (handle (request_doc mh (JObject [operation_of cmd source,
      (''connectItemInfo'', JObject [(''deviceMac'', JString d), (''routerMac'', JString m)])])))"
  using assms by (simp add: kf_rasp_generate_data_connectiteminfo_def set_array_def walk paths handle_def request_doc_def operation_of_def)

lemma null_body_written:
  "kf_rasp_generate_data_null_body (handle (request_doc mh (JObject ms))) = Some (handle (request_doc mh (JString [])))"
  by (simp add: kf_rasp_generate_data_null_body_def walk paths handle_def request_doc_def)

section \<open>Heads\<close>

text \<open>A signature fits and is the digest of the head.\<close>

lemma sign_generated:
  assumes "Json r \<noteq> None" and "cstr (SubCmd (header r)) = Some sub" and "cstr (Id (header r)) = Some i"
    and "length (sign_source sub i (Time (header r))) < 128" and "length sg = 34"
  shows "\<exists>sg'. kf_rasp_generate_sign (Some r) sg = Some (0, sg') \<and> cstr sg' = Some (sign_text (sign_source sub i (Time (header r)))) \<and> length sg' = 34"
proof -
  define src where "src = sign_source sub i (Time (header r))"
  have nul: "NUL \<notin> set raspkey" by (simp add: raspkey_def NUL_def)
  have src: "NUL \<notin> set src" "length src < 128"
    using cstr_no_NUL [OF assms(2)] cstr_no_NUL [OF assms(3)] assms(4) nul by (simp_all add: src_def sign_source_def) (simp add: NUL_def)
  obtain tmp where "sprintf_to (zeros 128) src = Some tmp" "cstr tmp = Some src" using src by (auto simp: sprintf_to_Some)
  moreover obtain sg' where "kfmd5_ngx_tostring (Some (rfc_digest (bytes_of src))) (Some sg) = Some (32, Some sg')" "cstr sg' = Some (sign_text src)" "length sg' = 34"
  proof -
    have t: "length (md5_hex (rfc_digest (bytes_of src))) = 32" "NUL \<notin> set (md5_hex (rfc_digest (bytes_of src)))"
      using md5.length_sign [of src] md5.sign_no_NUL [of src] by (simp_all add: sign_text_def)
    have "sprintf_to (zeros 34) (md5_hex (rfc_digest (bytes_of src))) \<bind> cstr = Some (md5_hex (rfc_digest (bytes_of src)))"
      using t by (simp add: sprintf_to_Some)
    moreover obtain sg' where "sprintf_to sg (md5_hex (rfc_digest (bytes_of src))) = Some sg'" "cstr sg' = Some (sign_text src)" "length sg' = 34"
      using t assms(5) by (auto simp: sprintf_to_Some sign_text_def)
    moreover have "\<not> length (rfc_digest (bytes_of src)) < 16" by simp
    ultimately show thesis using that t(1) by (auto simp: kfmd5_ngx_tostring_def bind_eq_Some_conv)
  qed
  ultimately show ?thesis using assms(1-3) kfmd5_sign [of src]
    by (auto simp: kf_rasp_generate_sign_def src_def [symmetric])
qed

lemma takeWhile_clean: "NUL \<notin> set x \<Longrightarrow> takeWhile (\<lambda>c. c \<noteq> NUL) x = x"
  by (intro takeWhile_all) auto

lemma sprintf_kept:
  assumes "NUL \<notin> set s" and "length s < length a"
  shows "\<exists>b. sprintf_to a s = Some b \<and> cstr b = Some s \<and> length b = length a"
  using sprintf_to_Some [OF assms(2)] sprintf_to_cstr [OF _ assms(1)] by blast

lemma snprintf_kept:
  assumes "0 < n" and "length a = n" and "NUL \<notin> set s" and "length s < n"
  shows "\<exists>b. snprintf_to a n s = Some b \<and> cstr b = Some s \<and> length b = n"
proof -
  obtain b where b: "snprintf_to a n s = Some b" using assms by (simp add: snprintf_to_Some)
  then show ?thesis using snprintf_to_cstr [OF b assms(3,1)] assms by simp
qed

text \<open>A handle with arrays of the declared sizes.\<close>

definition rasp_ok :: "tagKFRasp \<Rightarrow> bool" where
  "rasp_ok r = (length (Cmd (header r)) = 32 \<and> length (SubCmd (header r)) = 32 \<and> length (Id (header r)) = 8 \<and> length (Sign (header r)) = 34 \<and>
     length (Source (header r)) = 16 \<and> length (ResultCode (body r)) = 32 \<and> length (ResultData (body r)) = 265)"

lemma head_read:
  assumes "rasp_ok r" and "Json r = Some (handle (JObject ms))" and "map_of ms ''MsgHead'' = Some (head_of lib sub i (sign_text (sign_source sub i t)) t)"
    and "NUL \<notin> set sub" and "NUL \<notin> set i" and "length sub < 32" and "length i < 8" and "\<bar>t\<bar> < 2 ^ 63" and "atol (takeWhile (\<lambda>c. c \<noteq> NUL) (time_string lib t)) = Some t"
  shows "\<exists>r'. kf_rasp_parse_data_header lib (Some r) = Some (0, Some r') \<and> rasp_ok r' \<and> Json r' = Json r \<and> body r' = body r \<and>
    iSubCmd (header r') = kf_rasp_subcmd_str_int lib sub \<and> cstr (SubCmd (header r')) = Some sub \<and> cstr (Id (header r')) = Some i \<and> Time (header r') = t"
proof -
  define sg where "sg = sign_text (sign_source sub i t)"
  have sg: "NUL \<notin> set sg" "length sg = 32" using md5.sign_no_NUL md5.length_sign by (simp_all add: sg_def)
  obtain a where a: "snprintf_to (SubCmd (header r)) 32 sub = Some a" "cstr a = Some sub" "length a = 32"
    using snprintf_kept [of 32 "SubCmd (header r)" sub] assms(1,4,6) unfolding rasp_ok_def by auto
  obtain b where b: "snprintf_to (Id (header r)) 8 i = Some b" "cstr b = Some i" "length b = 8"
    using snprintf_kept [of 8 "Id (header r)" i] assms(1,5,7) unfolding rasp_ok_def by auto
  obtain c where c: "snprintf_to (Sign (header r)) 34 sg = Some c" "cstr c = Some sg" "length c = 34"
    using snprintf_kept [of 34 "Sign (header r)" sg] assms(1) sg unfolding rasp_ok_def by auto
  define r' where "r' = r\<lparr>header := (header r)\<lparr>iSubCmd := kf_rasp_subcmd_str_int lib sub, SubCmd := a, Id := b, Sign := c, Time := t\<rparr>\<rparr>"
  have short: "length (sign_source sub i t) < 128"
    using assms(6-8) fmt_d_short [of t 19] by (simp add: sign_source_def raspkey_def)
  obtain sg' where "kf_rasp_generate_sign (Some r') (zeros 34) = Some (0, sg')" "cstr sg' = Some sg" "length sg' = 34"
    using sign_generated [of r' sub i "zeros 34"] assms(2) a(2) b(2) short by (auto simp: r'_def sg_def)
  then have valid: "kf_rasp_header_valid r' = Some 1"
    using a(2) b(2) c(2) short by (simp add: kf_rasp_header_valid_def sprintf_to_Some r'_def strcmp_eq_0)
  have same: "r\<lparr>Json := Some \<lparr>doc = Some (JObject ms), tops = [[]], spoilt = False\<rparr>, header := h\<rparr> = r\<lparr>header := h\<rparr>" for h
    using assms(2) by (cases r) (simp add: handle_def)
  have "kf_rasp_parse_data_header lib (Some r) = Some (0, Some r')"
    using a(1) b(1) c(1) assms(2-5,9) sg(1) valid
    by (simp add: same Let_def kf_rasp_parse_data_header_def walk paths handle_def head_of_def sg_def [symmetric] on_rasp_header_def r'_def update_triv takeWhile_clean)
  moreover have "rasp_ok r'" using assms(1) a(3) b(3) c(3) by (simp add: rasp_ok_def r'_def)
  ultimately show ?thesis using a(2) b(2) by (auto simp: r'_def)
qed

section \<open>Requests\<close>

text \<open>What the protocol needs of the comparison: it tells the names of the commands from each other, and from the empty text. It may ignore
  case.\<close>

definition tells_names :: "bvpu \<Rightarrow> bool" where
  "tells_names lib = (\<forall>a \<in> set ([] # map snd RaspCmd @ map snd RaspSubCmd). \<forall>b \<in> set (map snd RaspCmd @ map snd RaspSubCmd).
     string_compare lib a b = 0 \<longleftrightarrow> a = b)"

lemma names_plain:
  "\<forall>x \<in> set RaspCmd. NUL \<notin> set (snd x) \<and> length (snd x) < 32 \<and> fst x \<noteq> 0"
  "\<forall>x \<in> set RaspSubCmd. NUL \<notin> set (snd x) \<and> length (snd x) < 32"
  by (simp_all add: RaspCmd_def RaspSubCmd_def NUL_def KF_RASP_CMD_QUERY_def KF_RASP_CMD_CONTROL_def KF_RASP_CMD_NOTIFY_def)

lemma find_in: "find P xs = Some x \<Longrightarrow> P x \<and> x \<in> set xs"
  by (induction xs) (auto split: if_splits)

lemma command_names:
  "kf_rasp_cmd_int_str cmd = Some c \<Longrightarrow> NUL \<notin> set c \<and> length c < 32 \<and> cmd \<noteq> 0"
  "kf_rasp_subcmd_int_str sub = Some c \<Longrightarrow> NUL \<notin> set c \<and> length c < 32"
proof -
  assume "kf_rasp_cmd_int_str cmd = Some c"
  then obtain x where "find (\<lambda>(i, c). cmd = i) RaspCmd = Some x" "c = snd x" by (auto simp: kf_rasp_cmd_int_str_def)
  then show "NUL \<notin> set c \<and> length c < 32 \<and> cmd \<noteq> 0" using names_plain(1) find_in [of _ RaspCmd x] by fastforce
next
  assume "kf_rasp_subcmd_int_str sub = Some c"
  then obtain x where "find (\<lambda>(i, c). sub = i) RaspSubCmd = Some x" "c = snd x" by (auto simp: kf_rasp_subcmd_int_str_def)
  then show "NUL \<notin> set c \<and> length c < 32" using names_plain(2) find_in [of _ RaspSubCmd x] by fastforce
qed

lemma tells:
  assumes "tells_names lib" and "a \<in> set ([] # map snd RaspCmd @ map snd RaspSubCmd)" and "b \<in> set (map snd RaspCmd @ map snd RaspSubCmd)"
  shows "string_compare lib a b = 0 \<longleftrightarrow> a = b"
  using assms unfolding tells_names_def by blast

lemma rasp_find_name:
  assumes "\<And>i d. (i, d) \<in> set xs \<Longrightarrow> string_compare lib c d = 0 \<longleftrightarrow> c = d"
  shows "find (\<lambda>(i, d). string_compare lib c d = 0) xs = find (\<lambda>(i, d). c = d) xs"
  using assms by (intro find_cong) auto

lemma names_in:
  "(i, d) \<in> set RaspCmd \<Longrightarrow> d \<in> set (map snd RaspCmd @ map snd RaspSubCmd)"
  "(i, d) \<in> set RaspSubCmd \<Longrightarrow> d \<in> set (map snd RaspCmd @ map snd RaspSubCmd)"
  by force+

lemma rasp_names_distinct:
  "(i, c) \<in> set RaspCmd \<Longrightarrow> find (\<lambda>(i, d). c = d) RaspCmd = Some (i, c)"
  "(i, c) \<in> set RaspSubCmd \<Longrightarrow> find (\<lambda>(i, d). c = d) RaspSubCmd = Some (i, c)"
  "find (\<lambda>(i, d). [] = d) RaspCmd = None"
  by (auto simp: RaspCmd_def RaspSubCmd_def)

lemma command_numbers:
  assumes "tells_names lib"
  shows "kf_rasp_cmd_int_str cmd = Some c \<Longrightarrow> kf_rasp_cmd_str_int lib c = cmd"
    and "kf_rasp_subcmd_int_str sub = Some c \<Longrightarrow> kf_rasp_subcmd_str_int lib c = sub"
    and "kf_rasp_cmd_str_int lib [] = 0"
proof -
  assume "kf_rasp_cmd_int_str cmd = Some c"
  then have c: "(cmd, c) \<in> set RaspCmd" using find_in by (fastforce simp: kf_rasp_cmd_int_str_def)
  then have "find (\<lambda>(i, d). string_compare lib c d = 0) RaspCmd = find (\<lambda>(i, d). c = d) RaspCmd"
    by (intro rasp_find_name tells [OF assms]) (auto dest: names_in)
  then show "kf_rasp_cmd_str_int lib c = cmd" using rasp_names_distinct(1) [OF c] by (simp add: kf_rasp_cmd_str_int_def)
next
  assume "kf_rasp_subcmd_int_str sub = Some c"
  then have c: "(sub, c) \<in> set RaspSubCmd" using find_in by (fastforce simp: kf_rasp_subcmd_int_str_def)
  then have "find (\<lambda>(i, d). string_compare lib c d = 0) RaspSubCmd = find (\<lambda>(i, d). c = d) RaspSubCmd"
    by (intro rasp_find_name tells [OF assms]) (auto dest: names_in)
  then show "kf_rasp_subcmd_str_int lib c = sub" using rasp_names_distinct(2) [OF c] by (simp add: kf_rasp_subcmd_str_int_def)
next
  have "find (\<lambda>(i, d). string_compare lib [] d = 0) RaspCmd = find (\<lambda>(i, d). [] = d) RaspCmd"
    by (intro rasp_find_name tells [OF assms]) (auto dest: names_in)
  then show "kf_rasp_cmd_str_int lib [] = 0" using rasp_names_distinct(3) by (simp add: kf_rasp_cmd_str_int_def)
qed

lemma header_generated:
  assumes "rasp_ok r" and "Json r \<noteq> None" and "kf_rasp_cmd_int_str cmd = Some c" and "kf_rasp_subcmd_int_str sub = Some sc"
    and "NUL \<notin> set i" and "length i < 8" and "\<bar>now\<bar> < 2 ^ 63"
  shows "\<exists>r'. kf_rasp_generate_header now (Some r) cmd sub (Some i) = Some (0, Some r') \<and> rasp_ok r' \<and> Json r' = Json r \<and> body r' = body r \<and>
    cstr (Cmd (header r')) = Some c \<and> cstr (SubCmd (header r')) = Some sc \<and> cstr (Id (header r')) = Some i \<and> Time (header r') = now \<and>
    cstr (Sign (header r')) = Some (sign_text (sign_source sc i now)) \<and> cstr (Source (header r')) = Some ''router''"
proof -
  note n = command_names(1) [OF assms(3)] command_names(2) [OF assms(4)]
  obtain a where a: "snprintf_to (Cmd (header r)) 32 c = Some a" "cstr a = Some c" "length a = 32"
    using snprintf_kept [of 32 "Cmd (header r)" c] assms(1) n unfolding rasp_ok_def by auto
  obtain b where b: "snprintf_to (SubCmd (header r)) 32 sc = Some b" "cstr b = Some sc" "length b = 32"
    using snprintf_kept [of 32 "SubCmd (header r)" sc] assms(1) n unfolding rasp_ok_def by auto
  obtain d where d: "snprintf_to (Id (header r)) 8 i = Some d" "cstr d = Some i" "length d = 8"
    using snprintf_kept [of 8 "Id (header r)" i] assms(1,5,6) unfolding rasp_ok_def by auto
  define h where "h = (header r)\<lparr>iCmd := cmd, Cmd := a, iSubCmd := sub, SubCmd := b, Id := d, Time := now\<rparr>"
  have short: "length (sign_source sc i now) < 128"
    using assms(6,7) n fmt_d_short [of now 19] by (simp add: sign_source_def raspkey_def)
  obtain sg where sg: "kf_rasp_generate_sign (Some (r\<lparr>header := h\<rparr>)) (Sign (header r)) = Some (0, sg)"
    "cstr sg = Some (sign_text (sign_source sc i now))" "length sg = 34"
    using sign_generated [of "r\<lparr>header := h\<rparr>" sc i "Sign (header r)"] assms(1,2) b(2) d(2) short by (auto simp: h_def rasp_ok_def)
  have "NUL \<notin> set ''router''" by (simp add: NUL_def)
  then obtain e where e: "sprintf_to (Source (header r)) ''router'' = Some e" "cstr e = Some ''router''" "length e = 16"
    using sprintf_kept [of "''router''" "Source (header r)"] assms(1) by (auto simp: rasp_ok_def)
  define r' where "r' = r\<lparr>header := h\<lparr>Sign := sg, Source := e\<rparr>\<rparr>"
  have "kf_rasp_generate_header now (Some r) cmd sub (Some i) = Some (0, Some r')"
    using n assms(3,4) a(1) b(1) d(1) sg(1) e(1)
    by (simp add: kf_rasp_generate_header_def on_rasp_header_def Let_def r'_def h_def)
  moreover have "rasp_ok r'" using assms(1) a(3) b(3) d(3) sg(3) e(3) by (simp add: rasp_ok_def r'_def h_def)
  ultimately show ?thesis using a(2) b(2) d(2) sg(2) e(2) by (auto simp: r'_def h_def)
qed

lemma printed:
  assumes "length (print d) < n" and "n \<le> length dst" and "NUL \<notin> set (print d)"
  shows "\<exists>out. json_printstring print (handle d) dst n = Some (length (print d), out) \<and> cstr out = Some (print d)"
proof -
  have "mem_write dst 0 (print d) = Some (print d @ drop (length (print d)) dst)" using assms by (simp add: mem_write_def)
  moreover have "upd (print d @ drop (length (print d)) dst) (length (print d)) NUL = Some (print d @ NUL # drop (length (print d) + 1) dst)"
    using assms(1,2) by (simp add: upd_def list_update_append flip: Cons_nth_drop_Suc)
  ultimately show ?thesis using assms by (simp add: json_printstring_def handle_def Let_def min_absorb2)
qed

lemma int_size: "n < 2 ^ 31 \<Longrightarrow> sint (word_of_nat n :: u32) = int n"
  by (simp add: sint_uint signed_take_bit_int_eq_self unsigned_of_nat take_bit_nat_eq_self)

lemma data_generated:
  assumes "Json r = Some json_open" and "cstr (SubCmd (header r)) = Some sub" and "cstr (Id (header r)) = Some i" and "cstr (Sign (header r)) = Some sg"
    and "generate_body lib r (handle (JObject [(''MsgBody'', JNull), (''MsgHead'', head_of lib sub i sg (Time (header r)))])) = Some (handle d)"
    and "length (print_doc lib d) < n" and "n \<le> length dst" and "n < 2 ^ 31" and "NUL \<notin> set (print_doc lib d)"
  shows "\<exists>out. kf_rasp_generate_data lib (Some r) (Some dst) (Some (int n)) =
      Some (int (length (print_doc lib d)), Some (r\<lparr>Json := Some (handle d)\<rparr>), Some out, Some (int (length (print_doc lib d)))) \<and>
    cstr out = Some (print_doc lib d)"
proof -
  have "json_setnull json_open (KF_JSON_STRING m_body) = Some (0, handle (JObject [(''MsgBody'', JNull)]))"
    by (simp add: json_open_def walk paths handle_def)
  moreover have "nat (int n mod 2 ^ 64) = n" using assms(8) by simp
  moreover obtain out where "json_printstring (print_doc lib) (handle d) dst n = Some (length (print_doc lib d), out)" "cstr out = Some (print_doc lib d)"
    using printed [of "print_doc lib" d n dst] assms(6,7,9) by auto
  ultimately show ?thesis
    using assms(1,5) header_written [OF assms(2-4), of lib JNull] int_size [of "length (print_doc lib d)"] assms(6,8)
    by (simp add: kf_rasp_generate_data_def Let_def)
qed

text \<open>Requests whose receiver does not look for an answer in the body.\<close>

definition plain_request :: "int \<Rightarrow> int \<Rightarrow> bool" where
  "plain_request cmd sub = ((cmd, sub) \<notin> {(KF_RASP_CMD_QUERY, KF_RASP_SUBCMD_REGISTER), (KF_RASP_CMD_QUERY, KF_RASP_SUBCMD_BINDLISTS),
     (KF_RASP_CMD_CONTROL, KF_RASP_SUBCMD_REGISTER), (KF_RASP_CMD_CONTROL, KF_RASP_SUBCMD_BINDREQUEST)})"

lemma plain_number: "plain_request (iCmd (header r)) (iSubCmd (header r)) \<Longrightarrow> kf_rasp_generate_number r = 0"
  by (auto simp: plain_request_def kf_rasp_generate_number_def)

lemma no_handle: "kf_rasp_generate_handle lib 0 = None"
  by (simp add: kf_rasp_generate_handle_def KFRASP_PARSE_DATA_DEVICEINFO_def KFRASP_PARSE_DATA_BINDREQUEST_RESULT_def
      KFRASP_PARSE_DATA_DEVICEINFO_RESULT_def KFRASP_PARSE_DATA_BINDLISTS_RESULT_def)

lemma operation_read:
  assumes "rasp_ok r" and "Json r = Some (handle (request_doc mh (JObject (operation_of c src # ps))))"
    and "NUL \<notin> set c" and "length c < 32" and "NUL \<notin> set src" and "length src < 16"
    and "plain_request (kf_rasp_cmd_str_int lib c) (iSubCmd (header r))" and "length ps < 2 ^ 30"
  shows "\<exists>a b. kf_rasp_parse_msgbody lib (Some r) =
      Some (0, Some (r\<lparr>header := (header r)\<lparr>iCmd := kf_rasp_cmd_str_int lib c, Cmd := a, Source := b\<rparr>, body := (body r)\<lparr>iData := 0\<rparr>\<rparr>)) \<and>
    cstr a = Some c \<and> cstr b = Some src"
proof -
  obtain a where a: "snprintf_to (Cmd (header r)) 32 c = Some a" "cstr a = Some c"
    using snprintf_kept [of 32 "Cmd (header r)" c] assms(1,3,4) unfolding rasp_ok_def by auto
  obtain b where b: "snprintf_to (Source (header r)) 16 src = Some b" "cstr b = Some src"
    using snprintf_kept [of 16 "Source (header r)" src] assms(1,5,6) unfolding rasp_ok_def by auto
  have num: "kf_rasp_generate_number (r\<lparr>header := (header r)\<lparr>iCmd := kf_rasp_cmd_str_int lib c, Cmd := a, Source := b\<rparr>\<rparr>) = 0"
    using assms(7) by (intro plain_number) simp
  define J where "J = handle (request_doc mh (JObject (operation_of c src # ps)))"
  have cnt: "json_count J ''.MsgBody[0].PARAMS'' = Some (Suc (length ps))" by (simp add: J_def walk paths handle_def request_doc_def)
  have J: "push_to ''.MsgBody[0].PARAMS'' J = Some (J\<lparr>tops := [[Under ''MsgBody'', At 0, Under ''PARAMS''], []]\<rparr>)"
    "push_to ''.operation'' (J\<lparr>tops := [[Under ''MsgBody'', At 0, Under ''PARAMS''], []]\<rparr>) =
      Some (J\<lparr>tops := [[Under ''MsgBody'', At 0, Under ''PARAMS'', Under ''operation''], [Under ''MsgBody'', At 0, Under ''PARAMS''], []]\<rparr>)"
    by (simp_all add: J_def walk paths handle_def request_doc_def operation_of_def)
  define J2 where "J2 = J\<lparr>tops := [[Under ''MsgBody'', At 0, Under ''PARAMS'', Under ''operation''], [Under ''MsgBody'', At 0, Under ''PARAMS''], []]\<rparr>"
  have texts: "text_at J2 m_ccmd = Some c" "text_at J2 m_source = Some src" "json_pop (json_pop J2) = J"
    using assms(3,5) by (simp_all add: J2_def J_def walk paths handle_def request_doc_def operation_of_def takeWhile_clean)
  have same: "r\<lparr>header := h, Json := Some J, body := k\<rparr> = r\<lparr>header := h, body := k\<rparr>" for h k using assms(2) by (cases r) (simp add: J_def)
  show ?thesis
    using assms(2,8) a b cnt J texts num no_handle
    by (simp add: kf_rasp_parse_msgbody_def J_def [symmetric] J2_def [symmetric] paths c_int_def on_rasp_header_def Let_def same)
      (intro exI conjI, rule refl, rule a(2), rule b(2))
qed

text \<open>The document of a request with the addresses of a device, and what a handle that wrote a body of that kind holds.\<close>

definition device_request :: "bvpu \<Rightarrow> string \<Rightarrow> string \<Rightarrow> string \<Rightarrow> int \<Rightarrow> string \<Rightarrow> string \<Rightarrow> json_value" where
  "device_request lib c sc i now d m = request_doc (head_of lib sc i (sign_text (sign_source sc i now)) now)
     (JObject [operation_of c ''router'', (''connectItemInfo'', JObject [(''deviceMac'', JString d), (''routerMac'', JString m)])])"

definition fresh_rasp :: tagKFRasp where "fresh_rasp = rasp_zero\<lparr>Json := Some json_open\<rparr>"

lemma fresh_ok: "rasp_ok fresh_rasp" "Json fresh_rasp = Some json_open" "kf_rasp_init True True = (0, Some fresh_rasp)"
  by (simp_all add: fresh_rasp_def rasp_ok_def rasp_zero_def kf_rasp_init_def)

text \<open>A new handle writes the document that its body asks for.\<close>

lemma rasp_sent:
  assumes "kf_rasp_cmd_int_str cmd = Some c" and "kf_rasp_subcmd_int_str sub = Some sc" and "NUL \<notin> set i" and "length i < 8" and "\<bar>now\<bar> < 2 ^ 63"
    and "\<And>r. body r = b \<Longrightarrow> cstr (Cmd (header r)) = Some c \<Longrightarrow> cstr (Source (header r)) = Some ''router'' \<Longrightarrow>
      generate_body lib r (handle (JObject [(''MsgBody'', JNull), (''MsgHead'', head_of lib sc i (sign_text (sign_source sc i now)) now)])) =
        Some (handle d)"
    and "length (print_doc lib d) < n" and "n \<le> length dst" and "n < 2 ^ 31" and "NUL \<notin> set (print_doc lib d)"
  shows "\<exists>r1 r2 out. kf_rasp_generate_header now (Some fresh_rasp) cmd sub (Some i) = Some (0, Some r1) \<and>
    kf_rasp_generate_data lib (snd (kf_rasp_set_body (Some r1) (Some b))) (Some dst) (Some (int n)) =
      Some (int (length (print_doc lib d)), Some r2, Some out, Some (int (length (print_doc lib d)))) \<and> cstr out = Some (print_doc lib d)"
proof -
  obtain r1 where r1: "kf_rasp_generate_header now (Some fresh_rasp) cmd sub (Some i) = Some (0, Some r1)" "Json r1 = Some json_open"
    "cstr (Cmd (header r1)) = Some c" "cstr (SubCmd (header r1)) = Some sc" "cstr (Id (header r1)) = Some i" "Time (header r1) = now"
    "cstr (Sign (header r1)) = Some (sign_text (sign_source sc i now))" "cstr (Source (header r1)) = Some ''router''"
    using header_generated [OF fresh_ok(1) _ assms(1-5)] fresh_ok(2) by auto
  define rb where "rb = r1\<lparr>body := b\<rparr>"
  obtain out where out: "kf_rasp_generate_data lib (Some rb) (Some dst) (Some (int n)) =
      Some (int (length (print_doc lib d)), Some (rb\<lparr>Json := Some (handle d)\<rparr>), Some out, Some (int (length (print_doc lib d))))"
    "cstr out = Some (print_doc lib d)"
    using data_generated [of rb sc i "sign_text (sign_source sc i now)" lib d n dst] r1(2-8) assms(6) [of rb] assms(7-10) by (auto simp: rb_def)
  show ?thesis
    by (intro exI conjI) (rule r1(1), simp add: kf_rasp_set_body_def rb_def [symmetric], rule out(1), rule out(2))
qed

text \<open>A new handle reads a request.\<close>

lemma request_read:
  assumes "tells_names lib" and "kf_rasp_cmd_int_str cmd = Some c" and "kf_rasp_subcmd_int_str sub = Some sc" and "plain_request cmd sub"
    and "NUL \<notin> set i" and "length i < 8" and "\<bar>now\<bar> < 2 ^ 63" and "atol (takeWhile (\<lambda>x. x \<noteq> NUL) (time_string lib now)) = Some now"
    and "NUL \<notin> set src" and "length src < 16" and "length ps < 2 ^ 30"
    and "parse_doc lib s = Inr (request_doc (head_of lib sc i (sign_text (sign_source sc i now)) now) (JObject (operation_of c src # ps)))"
  shows "\<exists>r. kf_rasp_parse_data lib (Some fresh_rasp) (Some s) = Some (0, Some r) \<and>
    iCmd (header r) = cmd \<and> iSubCmd (header r) = sub \<and> cstr (Id (header r)) = Some i \<and> Time (header r) = now \<and> cstr (Source (header r)) = Some src"
proof -
  define mh where "mh = head_of lib sc i (sign_text (sign_source sc i now)) now"
  define doc where "doc = request_doc mh (JObject (operation_of c src # ps))"
  note n = command_names(1) [OF assms(2)] command_names(2) [OF assms(3)]
  define r0 where "r0 = fresh_rasp\<lparr>Json := Some (handle doc)\<rparr>"
  have load: "json_loadstring (parse_doc lib) json_open s = Some (0, handle doc)"
    using assms(12) by (simp add: json_loadstring_def json_open_def handle_def doc_def mh_def)
  obtain r2 where r2: "kf_rasp_parse_data_header lib (Some r0) = Some (0, Some r2)" "rasp_ok r2" "Json r2 = Some (handle doc)"
    "iSubCmd (header r2) = sub" "cstr (Id (header r2)) = Some i" "Time (header r2) = now"
    using head_read [of r0 "[(''MsgBody'', _), (''MsgHead'', _)]" lib sc i now] fresh_ok(1) n assms(5-8) command_numbers(2) [OF assms(1,3)]
    by (auto simp: r0_def rasp_ok_def doc_def request_doc_def mh_def)
  obtain a e where r3: "kf_rasp_parse_msgbody lib (Some r2) =
      Some (0, Some (r2\<lparr>header := (header r2)\<lparr>iCmd := cmd, Cmd := a, Source := e\<rparr>, body := (body r2)\<lparr>iData := 0\<rparr>\<rparr>))" "cstr e = Some src"
    using operation_read [OF r2(2), where lib = lib and mh = mh and c = c and src = src and ps = ps] r2(3,4) n assms(4,9-11)
      command_numbers(1) [OF assms(1,2)]
    by (auto simp: doc_def)
  have "kf_rasp_parse_data lib (Some fresh_rasp) (Some s) =
      Some (0, Some (r2\<lparr>header := (header r2)\<lparr>iCmd := cmd, Cmd := a, Source := e\<rparr>, body := (body r2)\<lparr>iData := 0\<rparr>\<rparr>))"
    using load r2(1) r3(1) fresh_ok(2) by (simp add: kf_rasp_parse_data_def r0_def)
  then show ?thesis using r2(4-6) r3(2) by fastforce
qed

text \<open>C37: A request arrives. A new handle is given a head for a command and a subcommand and a body with the addresses of a device, and its text is
  generated; another new handle parses that text, and has the command, the subcommand, the sender's id, the time and the source that were
  given, and the signature is accepted. This holds for the requests that the receiver does not take for an answer, for ids of
  up to seven characters, when printing and parsing JSON undo each other on this document.\<close>

theorem rasp_request_roundtrip:
  assumes "tells_names lib" and "kf_rasp_cmd_int_str cmd = Some c" and "kf_rasp_subcmd_int_str sub = Some sc" and "plain_request cmd sub"
    and "NUL \<notin> set i" and "length i < 8" and "\<bar>now\<bar> < 2 ^ 63" and "atol (takeWhile (\<lambda>x. x \<noteq> NUL) (time_string lib now)) = Some now"
    and "iData b = KFRASP_PARSE_DATA_CONNECTITEMINFO" and "u_body b = U_cii cii"
    and "cstr (cii_device cii) = Some d" and "cstr (cii_router cii) = Some m"
    and "length (print_doc lib (device_request lib c sc i now d m)) < n" and "n \<le> length dst" and "n < 2 ^ 31"
    and "NUL \<notin> set (print_doc lib (device_request lib c sc i now d m))"
    and "parse_doc lib (print_doc lib (device_request lib c sc i now d m)) = Inr (device_request lib c sc i now d m)"
  shows "\<exists>r1 r2 out s r3.
    kf_rasp_generate_header now (Some fresh_rasp) cmd sub (Some i) = Some (0, Some r1) \<and>
    kf_rasp_generate_data lib (snd (kf_rasp_set_body (Some r1) (Some b))) (Some dst) (Some (int n)) =
      Some (int (length s), Some r2, Some out, Some (int (length s))) \<and> cstr out = Some s \<and>
    kf_rasp_parse_data lib (Some fresh_rasp) (Some s) = Some (0, Some r3) \<and>
    kf_rasp_cmd (Some r3) = cmd \<and> kf_rasp_subcmd (Some r3) = sub \<and> cstr (Id (header r3)) = Some i \<and> Time (header r3) = now \<and>
    cstr (Source (header r3)) = Some ''router''"
proof -
  define d0 where "d0 = device_request lib c sc i now d m"
  have "generate_body lib r (handle (JObject [(''MsgBody'', JNull), (''MsgHead'', head_of lib sc i (sign_text (sign_source sc i now)) now)])) = Some (handle d0)"
    if "body r = b" "cstr (Cmd (header r)) = Some c" "cstr (Source (header r)) = Some ''router''" for r
    using that operation_written connectiteminfo_written [OF assms(11,12)] assms(9,10)
    by (simp add: generate_body_def operation_at_def u_cii_def d0_def device_request_def)
  then obtain r1 r2 out where sent: "kf_rasp_generate_header now (Some fresh_rasp) cmd sub (Some i) = Some (0, Some r1)"
    "kf_rasp_generate_data lib (snd (kf_rasp_set_body (Some r1) (Some b))) (Some dst) (Some (int n)) =
      Some (int (length (print_doc lib d0)), Some r2, Some out, Some (int (length (print_doc lib d0))))" "cstr out = Some (print_doc lib d0)"
    using rasp_sent [OF assms(2,3,5-7), of b lib d0 n dst] assms(13-16) unfolding d0_def by blast
  have router: "NUL \<notin> set ''router''" by (simp add: NUL_def)
  obtain r3 where "kf_rasp_parse_data lib (Some fresh_rasp) (Some (print_doc lib d0)) = Some (0, Some r3)"
    "iCmd (header r3) = cmd" "iSubCmd (header r3) = sub" "cstr (Id (header r3)) = Some i" "Time (header r3) = now" "cstr (Source (header r3)) = Some ''router''"
    using request_read [OF assms(1-8) router, of "[(''connectItemInfo'', JObject [(''deviceMac'', JString d), (''routerMac'', JString m)])]"
        "print_doc lib d0"] assms(17) by (auto simp: d0_def device_request_def)
  then show ?thesis using sent unfolding kf_rasp_cmd_def kf_rasp_subcmd_def by fastforce
qed

section \<open>Signatures\<close>






section \<open>A request that gets lost\<close>

lemma lost_read:
  assumes "rasp_ok r" and "Json r = Some (handle (request_doc mh (JString [])))" and "kf_rasp_cmd_str_int lib [] = 0"
  shows "\<exists>r'. kf_rasp_parse_msgbody lib (Some r) = Some (0, Some r') \<and> iCmd (header r') = 0 \<and> cstr (Source (header r')) = Some []"
proof -
  obtain a where a: "snprintf_to (Cmd (header r)) 32 [] = Some a" "cstr a = Some []"
    using snprintf_kept [of 32 "Cmd (header r)" "[]"] assms(1) unfolding rasp_ok_def by auto
  obtain b where b: "snprintf_to (Source (header r)) 16 [] = Some b" "cstr b = Some []"
    using snprintf_kept [of 16 "Source (header r)" "[]"] assms(1) unfolding rasp_ok_def by auto
  define J where "J = handle (request_doc mh (JString []))"
  have cnt: "json_count J ''.MsgBody[0].PARAMS'' = Some 0" by (simp add: J_def walk paths handle_def request_doc_def)
  define d where "d x = JObject [(''MsgBody'', JObject [(''result'', JObject [(''resultData'', x)])]), (''MsgHead'', mh)]" for x
  define t where "t = [Under ''MsgBody'', Under ''result'', Under ''resultData'']"
  have J1: "push_to ''.MsgBody.result.resultData'' J = Some \<lparr>doc = Some (d JNull), tops = [t, []], spoilt = False\<rparr>"
    by (simp add: J_def walk paths handle_def request_doc_def d_def t_def)
  define J2 where "J2 = \<lparr>doc = Some (d (JObject [(''operation'', JNull)])), tops = [t @ [Under ''operation''], t, []], spoilt = False\<rparr>"
  have J2: "push_to ''.operation'' \<lparr>doc = Some (d JNull), tops = [t, []], spoilt = False\<rparr> = Some J2"
    "text_at J2 m_ccmd = Some []" "text_at J2 m_source = Some []"
    by (simp_all add: walk paths d_def t_def J2_def)
  have num: "kf_rasp_generate_number (on_rasp_header (\<lambda>h. h\<lparr>iCmd := 0, Cmd := a, Source := b\<rparr>) r) = 0"
    by (simp add: kf_rasp_generate_number_def on_rasp_header_def KF_RASP_CMD_QUERY_def KF_RASP_CMD_CONTROL_def)
  show ?thesis
    using assms(2,3) a b cnt J1 J2 num no_handle
    by (simp add: kf_rasp_parse_msgbody_def J_def [symmetric] paths c_int_def Let_def) (simp add: on_rasp_header_def)
qed

definition lost_request :: "bvpu \<Rightarrow> string \<Rightarrow> string \<Rightarrow> int \<Rightarrow> json_value" where
  "lost_request lib sc i now = request_doc (head_of lib sc i (sign_text (sign_source sc i now)) now) (JString [])"

text \<open>C40: A request for the list of bound devices gets lost. The text that a new handle generates for it has no operation any more: the empty parameters
  replace the object that holds it. The receiver accepts the signature and reports success, but has neither the command nor the source
  of the request, whatever they were.\<close>

theorem rasp_bindlists_request_lost:
  assumes "tells_names lib" and "kf_rasp_cmd_int_str cmd = Some c" and "kf_rasp_subcmd_int_str sub = Some sc"
    and "NUL \<notin> set i" and "length i < 8" and "\<bar>now\<bar> < 2 ^ 63" and "atol (takeWhile (\<lambda>x. x \<noteq> NUL) (time_string lib now)) = Some now"
    and "iData b = KFRASP_PARSE_DATA_BINDLISTS"
    and "length (print_doc lib (lost_request lib sc i now)) < n" and "n \<le> length dst" and "n < 2 ^ 31" and "NUL \<notin> set (print_doc lib (lost_request lib sc i now))"
    and "parse_doc lib (print_doc lib (lost_request lib sc i now)) = Inr (lost_request lib sc i now)"
  shows "\<exists>r1 r2 out s r3.
    kf_rasp_generate_header now (Some fresh_rasp) cmd sub (Some i) = Some (0, Some r1) \<and>
    kf_rasp_generate_data lib (snd (kf_rasp_set_body (Some r1) (Some b))) (Some dst) (Some (int n)) =
      Some (int (length s), Some r2, Some out, Some (int (length s))) \<and> cstr out = Some s \<and>
    kf_rasp_parse_data lib (Some fresh_rasp) (Some s) = Some (0, Some r3) \<and>
    kf_rasp_cmd (Some r3) = 0 \<and> cstr (Source (header r3)) = Some []"
proof -
  note n = command_names(1) [OF assms(2)] command_names(2) [OF assms(3)]
  define d0 where "d0 = lost_request lib sc i now"
  have "generate_body lib r (handle (JObject [(''MsgBody'', JNull), (''MsgHead'', head_of lib sc i (sign_text (sign_source sc i now)) now)])) = Some (handle d0)"
    if "body r = b" "cstr (Cmd (header r)) = Some c" "cstr (Source (header r)) = Some ''router''" for r
    using that operation_written null_body_written assms(8)
    by (simp add: generate_body_def operation_at_def d0_def lost_request_def KFRASP_PARSE_DATA_BINDLISTS_def KFRASP_PARSE_DATA_CONNECTITEMINFO_def
        KFRASP_PARSE_DATA_CONNECTITEMINFO_RESULT_def KFRASP_PARSE_DATA_CONNECTAUTHORITY_def)
  then obtain r1 r2 out where sent: "kf_rasp_generate_header now (Some fresh_rasp) cmd sub (Some i) = Some (0, Some r1)"
    "kf_rasp_generate_data lib (snd (kf_rasp_set_body (Some r1) (Some b))) (Some dst) (Some (int n)) =
      Some (int (length (print_doc lib d0)), Some r2, Some out, Some (int (length (print_doc lib d0))))" "cstr out = Some (print_doc lib d0)"
    using rasp_sent [OF assms(2-6), of b lib d0 n dst] assms(9-12) unfolding d0_def by blast
  define r0 where "r0 = fresh_rasp\<lparr>Json := Some (handle d0)\<rparr>"
  have load: "json_loadstring (parse_doc lib) json_open (print_doc lib d0) = Some (0, handle d0)"
    using assms(13) by (simp add: json_loadstring_def json_open_def handle_def d0_def)
  obtain r2 where r2: "kf_rasp_parse_data_header lib (Some r0) = Some (0, Some r2)" "rasp_ok r2" "Json r2 = Some (handle d0)"
    using head_read [of r0 "[(''MsgBody'', _), (''MsgHead'', _)]" lib sc i now] fresh_ok(1) n assms(4-7)
    by (auto simp: r0_def rasp_ok_def request_doc_def d0_def lost_request_def)
  obtain r3 where r3: "kf_rasp_parse_msgbody lib (Some r2) = Some (0, Some r3)" "iCmd (header r3) = 0" "cstr (Source (header r3)) = Some []"
    using lost_read [OF r2(2)] r2(3) command_numbers(3) [OF assms(1)] unfolding d0_def lost_request_def by blast
  have "kf_rasp_parse_data lib (Some fresh_rasp) (Some (print_doc lib d0)) = Some (0, Some r3)"
    using load r2(1) r3(1) fresh_ok(2) by (simp add: kf_rasp_parse_data_def r0_def)
  then show ?thesis using sent r3(2,3) unfolding kf_rasp_cmd_def by fastforce
qed

section \<open>An answer with a list\<close>

definition number_from :: "nat \<Rightarrow> string \<Rightarrow> nat" where
  "number_from acc ds = foldl (\<lambda>acc c. 10 * acc + digit_val c) acc ds"

lemma number_from_mono: "acc \<le> number_from acc ds"
proof (induction ds arbitrary: acc)
  case (Cons c ds)
  have "acc \<le> 10 * acc + digit_val c" by simp
  also have "\<dots> \<le> number_from (10 * acc + digit_val c) ds" by (rule Cons.IH)
  finally show ?case by (simp add: number_from_def)
qed (simp add: number_from_def)

lemma digit_popc:
  assumes "is_digit c"
  shows "path_popc (c # r) = (sval c, r)" and "sval c = 48 + int (digit_val c)" and "is_digit_code (sval c)" and "0 < sval c"
proof -
  have "c \<notin> {CHR 0x5C, CHR ''['', CHR '']'', CHR ''.'', CHR ''#'', CHR ''$''}" using assms by (auto simp: is_digit_def)
  then show "path_popc (c # r) = (sval c, r)" by simp
  have n: "48 \<le> (of_char c :: nat)" "of_char c \<le> (57 :: nat)" using assms by (simp_all add: is_digit_def)
  then show "sval c = 48 + int (digit_val c)" "is_digit_code (sval c)" "0 < sval c" by (simp_all add: sval_def digit_val_def is_digit_code_def)
qed

lemma index_loop_digits:
  assumes "is_digit d" and "\<forall>c \<in> set ds. is_digit c" and "number_from acc (d # ds) < 2 ^ 31"
  shows "index_loop (sval d) (int acc) (ds @ CHR '']'' # rest) = Some (int (number_from acc (d # ds)), - 93, rest)"
  using assms
proof (induction ds arbitrary: acc d)
  case Nil
  have "c_int (int acc * 10) = Some (int acc * 10)" "c_int (int acc * 10 + (sval d - 48)) = Some (int (10 * acc + digit_val d))"
    using Nil.prems digit_popc(2) [of d] by (simp_all add: c_int_def number_from_def)
  moreover have "path_popc (CHR '']'' # rest) = (- 93, rest)" by (simp add: sval_def)
  ultimately show ?case by (subst index_loop.simps) (simp add: number_from_def is_digit_code_def del: path_popc.simps)
next
  case (Cons c ds)
  have le: "10 * acc + digit_val d \<le> number_from acc (d # c # ds)" using number_from_mono [of "10 * acc + digit_val d" "c # ds"] by (simp add: number_from_def)
  have "c_int (int acc * 10) = Some (int acc * 10)" "c_int (int acc * 10 + (sval d - 48)) = Some (int (10 * acc + digit_val d))"
    using Cons.prems digit_popc(2) [of d] le by (simp_all add: c_int_def)
  moreover have "index_loop (sval c) (int (10 * acc + digit_val d)) (ds @ CHR '']'' # rest) = Some (int (number_from acc (d # c # ds)), - 93, rest)"
    using Cons.IH [of c "10 * acc + digit_val d"] Cons.prems by (simp add: number_from_def)
  ultimately show ?case using digit_popc(1) [of c "ds @ CHR '']'' # rest"] digit_popc(2-4) [of c] Cons.prems(2)
    by (subst index_loop.simps) (simp del: path_popc.simps)
qed

lemma path_element:
  assumes "n < 2 ^ 31"
  shows "path_next (CHR ''['' # fmt_d (int n) @ CHR '']'' # rest) = Some (Index (int n), rest)"
proof -
  obtain d ds where ds: "show_nat n = d # ds" by (cases "show_nat n") auto
  have dig: "is_digit d" "\<forall>c \<in> set ds. is_digit c" using show_nat_digits [where n = n] unfolding ds by auto
  have n: "number_from 0 (d # ds) = n" using num_of_show_nat [of n] by (simp add: ds num_of_digits_def number_from_def)
  have "index_loop (sval d) (int 0) (ds @ CHR '']'' # rest) = Some (int n, - 93, rest)"
    using index_loop_digits [OF dig, of 0 rest] n assms by simp
  moreover have "path_popc (CHR ''['' # d # ds @ CHR '']'' # rest) = (- 91, d # ds @ CHR '']'' # rest)" by (simp add: sval_def)
  moreover have "sval d \<noteq> 45" "sval d \<noteq> - 35" using digit_popc(2) [OF dig(1)] by simp_all
  ultimately show ?thesis using digit_popc [OF dig(1)]
    by (simp add: path_next_def path_index_def fmt_d_def ds del: path_popc.simps)
qed

text \<open>The answer of a server with a list of bound devices.\<close>

definition bind_value :: "string \<times> string \<Rightarrow> json_value" where
  "bind_value x = JObject [(''deviceMac'', JString (fst x)), (''routerMac'', JString (snd x))]"

definition bind_ok :: "string \<times> string \<Rightarrow> bool" where
  "bind_ok x = (NUL \<notin> set (fst x) \<and> length (fst x) < 64 \<and> NUL \<notin> set (snd x) \<and> length (snd x) < 64)"

definition result_doc :: "json_value \<Rightarrow> string \<Rightarrow> string \<Rightarrow> string \<Rightarrow> (string \<times> string) list \<Rightarrow> json_value" where
  "result_doc mh code c src xs = JObject [(''MsgBody'', JObject [(''result'', JObject [(''resultCode'', JString code),
     (''resultData'', JObject [operation_of c src, (''bindLists'', JArray (map bind_value xs))])])]), (''MsgHead'', mh)]"

definition data_pos :: "place list" where "data_pos = [Under ''MsgBody'', Under ''result'', Under ''resultData'']"

definition bound :: "KFConnectItemInfo \<Rightarrow> string \<times> string \<Rightarrow> bool" where
  "bound ii x = (cstr (cii_device ii) = Some (fst x) \<and> cstr (cii_router ii) = Some (snd x))"

lemma bind_text:
  assumes "J = \<lparr>doc = Some (result_doc mh code c src xs), tops = data_pos # ts, spoilt = sp\<rparr>" and "i < length xs" and "length xs < 2 ^ 31" and "bind_ok (xs ! i)"
  shows "json_string J (''.bindLists['' @ fmt_d (int i) @ ''].deviceMac'') = Some (fst (xs ! i))"
    and "json_string J (''.bindLists['' @ fmt_d (int i) @ ''].routerMac'') = Some (snd (xs ! i))"
proof -
  have p: "path_next (''.bindLists['' @ r) = Some (Key ''bindLists'', CHR ''['' # r)" for r
    using path_key [of "''bindLists''" "CHR ''['' # r"] by (simp add: letter_def Let_def)
  have n: "path_next (CHR ''['' # fmt_d (int i) @ CHR '']'' # r) = Some (Index (int i), r)" for r using path_element [of i] assms(2,3) by simp
  have "json_string J (''.bindLists['' @ fmt_d (int i) @ CHR '']'' # ''.deviceMac'') = Some (fst (xs ! i))"
    "json_string J (''.bindLists['' @ fmt_d (int i) @ CHR '']'' # ''.routerMac'') = Some (snd (xs ! i))"
    using p [of "fmt_d (int i) @ CHR '']'' # ''.deviceMac''"] p [of "fmt_d (int i) @ CHR '']'' # ''.routerMac''"]
      n [of "''.deviceMac''"] n [of "''.routerMac''"] assms(2,4)
    by (simp_all add: assms(1) walk paths result_doc_def data_pos_def operation_of_def bind_value_def bind_ok_def takeWhile_clean)
  then show "json_string J (''.bindLists['' @ fmt_d (int i) @ ''].deviceMac'') = Some (fst (xs ! i))"
    "json_string J (''.bindLists['' @ fmt_d (int i) @ ''].routerMac'') = Some (snd (xs ! i))" by simp_all
qed

lemma bind_item_read:
  assumes "J = \<lparr>doc = Some (result_doc mh code c src xs), tops = data_pos # ts, spoilt = sp\<rparr>" and "i < length xs" and "length xs < 10 ^ 9" and "bind_ok (xs ! i)"
  shows "\<exists>ii. bind_item J i cii_zero = Some ii \<and> bound ii (xs ! i)"
proof -
  have big: "length xs < 2 ^ 31" using assms(3) by simp
  note t = bind_text [OF assms(1,2) big assms(4)]
  define p where "p = ''.bindLists['' @ fmt_d (int i) @ ''].deviceMac''"
  define q where "q = ''.bindLists['' @ fmt_d (int i) @ ''].routerMac''"
  have "length (fmt_d (int i)) \<le> 9" using assms(2,3) by (intro fmt_d_length) auto
  then have len: "length p < 32" "length q < 32" by (simp_all add: p_def q_def)
  have nul: "NUL \<notin> set p" "NUL \<notin> set q" by (simp_all add: p_def q_def) (simp_all add: NUL_def)
  obtain a where a: "sprintf_to (zeros 32) p = Some a" "cstr a = Some p" "length a = 32"
    using sprintf_kept [OF nul(1), of "zeros 32"] len(1) by auto
  obtain b where b: "sprintf_to a q = Some b" "cstr b = Some q"
    using sprintf_kept [OF nul(2), of a] len(2) a(3) by auto
  obtain d where d: "snprintf_to (zeros 64) 64 (fst (xs ! i)) = Some d" "cstr d = Some (fst (xs ! i))"
    using snprintf_kept [of 64 "zeros 64" "fst (xs ! i)"] assms(4) by (auto simp: bind_ok_def)
  obtain m where m: "snprintf_to (zeros 64) 64 (snd (xs ! i)) = Some m" "cstr m = Some (snd (xs ! i))"
    using snprintf_kept [of 64 "zeros 64" "snd (xs ! i)"] assms(4) by (auto simp: bind_ok_def)
  have "bind_item J i cii_zero = Some (cii_zero\<lparr>cii_device := d, cii_router := m\<rparr>)"
    unfolding bind_item_def p_def [symmetric] q_def [symmetric]
    using t [folded p_def q_def] a(1,2) b d(1) m(1) by (simp add: cii_zero_def)
  then show ?thesis using d(2) m(2) by (simp add: bound_def)
qed

lemma bind_loop_read:
  assumes "J = \<lparr>doc = Some (result_doc mh code c src xs), tops = data_pos # ts, spoilt = sp\<rparr>" and "length xs < 10 ^ 9" and "\<forall>x \<in> set xs. bind_ok x"
    and "i + k = length xs"
  shows "\<exists>iis. bind_loop J i (replicate k cii_zero) = Some iis \<and> list_all2 bound iis (drop i xs)"
  using assms(4)
proof (induction k arbitrary: i)
  case 0
  then show ?case by simp
next
  case (Suc k)
  obtain ii where "bind_item J i cii_zero = Some ii" "bound ii (xs ! i)"
    using bind_item_read [OF assms(1) _ assms(2), of i] Suc.prems assms(3) by auto
  moreover obtain iis where "bind_loop J (Suc i) (replicate k cii_zero) = Some iis" "list_all2 bound iis (drop (Suc i) xs)"
    using Suc.IH [of "Suc i"] Suc.prems by auto
  moreover have "drop i xs = xs ! i # drop (Suc i) xs" using Suc.prems by (simp add: Cons_nth_drop_Suc)
  ultimately show ?case by simp
qed

text \<open>The list is taken over; the position of the data stays pushed.\<close>

lemma bindlists_processed:
  assumes "J = handle (result_doc mh code c src xs)" and "length (ResultCode rb) = 32" and "NUL \<notin> set code" and "length code < 32"
    and "string_compare lib code ''SUCCESS'' = 0" and "xs \<noteq> []" and "length xs < 10 ^ 9" and "\<forall>x \<in> set xs. bind_ok x" and "calloc_ok lib (length xs)"
  shows "\<exists>a iis. kf_rasp_process_bindlists_result lib J rb =
      Some (0, J\<lparr>tops := [[Under ''MsgBody''], []]\<rparr>, rb\<lparr>ResultCode := a, iData := KFRASP_PARSE_DATA_BINDLISTS_RESULT,
        u_body := U_bl \<lparr>bl_counts = int (length xs), bl_cii = Some iis\<rparr>\<rparr>) \<and> list_all2 bound iis xs"
proof -
  obtain a where a: "snprintf_to (ResultCode rb) 32 code = Some a" "cstr a = Some code"
    using snprintf_kept [of 32 "ResultCode rb" code] assms(2-4) by auto
  define d where "d = result_doc mh code c src xs"
  define J1 where "J1 = \<lparr>doc = Some d, tops = [[Under ''MsgBody''], []], spoilt = False\<rparr>"
  define J2 where "J2 = \<lparr>doc = Some d, tops = [[Under ''MsgBody'', Under ''result''], [Under ''MsgBody''], []], spoilt = False\<rparr>"
  define J3 where "J3 = \<lparr>doc = Some d, tops = [data_pos, [Under ''MsgBody'', Under ''result''], [Under ''MsgBody''], []], spoilt = False\<rparr>"
  have J: "push_to ''.MsgBody'' J = Some J1" "push_to ''.result'' J1 = Some J2" "text_at J2 m_resultCode = Some code" "push_to ''.resultData'' J2 = Some J3"
    "json_pop (json_pop J3) = J1" "json_count J3 ''.bindLists'' = Some (length xs)"
    using assms(3) by (simp_all add: assms(1) J1_def J2_def J3_def d_def handle_def walk paths result_doc_def operation_of_def data_pos_def takeWhile_clean)
  obtain iis where iis: "bind_loop J3 0 (replicate (length xs) cii_zero) = Some iis" "list_all2 bound iis xs"
    using bind_loop_read [OF J3_def [unfolded d_def] assms(7,8), of 0 "length xs"] by auto
  have "c_int (int (length xs)) = Some (int (length xs))" using assms(7) by (simp add: c_int_def)
  then have "bind_lists lib J3 (rb\<lparr>ResultCode := a, iData := KFRASP_PARSE_DATA_BINDLISTS_RESULT\<rparr>) =
      Some (0, rb\<lparr>ResultCode := a, iData := KFRASP_PARSE_DATA_BINDLISTS_RESULT, u_body := U_bl \<lparr>bl_counts = int (length xs), bl_cii = Some iis\<rparr>\<rparr>)"
    using J(6) iis(1) assms(6,9) by (simp add: bind_lists_def)
  moreover have "J1 = J\<lparr>tops := [[Under ''MsgBody''], []]\<rparr>" by (simp add: assms(1) J1_def d_def handle_def)
  ultimately show ?thesis using a J(1-5) assms(5) iis(2)
    by (simp add: kf_rasp_process_bindlists_result_def paths) blast
qed

lemma result_read:
  assumes "rasp_ok r" and "Json r = Some (handle (result_doc mh code c src xs))"
    and "NUL \<notin> set c" and "length c < 32" and "NUL \<notin> set src" and "length src < 16"
    and "kf_rasp_cmd_str_int lib c = KF_RASP_CMD_QUERY" and "iSubCmd (header r) = KF_RASP_SUBCMD_BINDLISTS"
    and "NUL \<notin> set code" and "length code < 32" and "string_compare lib code ''SUCCESS'' = 0"
    and "xs \<noteq> []" and "length xs < 10 ^ 9" and "\<forall>x \<in> set xs. bind_ok x" and "calloc_ok lib (length xs)"
  shows "\<exists>r' iis. kf_rasp_parse_msgbody lib (Some r) = Some (0, Some r') \<and>
    Json r' = Some \<lparr>doc = Some (result_doc mh code c src xs), tops = [[Under ''MsgBody''], []], spoilt = False\<rparr> \<and>
    iData (body r') = KFRASP_PARSE_DATA_BINDLISTS_RESULT \<and>
    u_body (body r') = U_bl \<lparr>bl_counts = int (length xs), bl_cii = Some iis\<rparr> \<and> list_all2 bound iis xs"
proof -
  obtain a where a: "snprintf_to (Cmd (header r)) 32 c = Some a"
    using snprintf_kept [of 32 "Cmd (header r)" c] assms(1,3,4) unfolding rasp_ok_def by auto
  obtain b where b: "snprintf_to (Source (header r)) 16 src = Some b"
    using snprintf_kept [of 16 "Source (header r)" src] assms(1,5,6) unfolding rasp_ok_def by auto
  define d where "d = result_doc mh code c src xs"
  define J where "J = handle d"
  define J1 where "J1 = \<lparr>doc = Some d, tops = [data_pos, []], spoilt = False\<rparr>"
  define J2 where "J2 = \<lparr>doc = Some d, tops = [data_pos @ [Under ''operation''], data_pos, []], spoilt = False\<rparr>"
  have J: "json_count J ''.MsgBody[0].PARAMS'' = Some 0" "push_to ''.MsgBody.result.resultData'' J = Some J1" "push_to ''.operation'' J1 = Some J2"
    "text_at J2 m_ccmd = Some c" "text_at J2 m_source = Some src" "json_pop (json_pop J2) = J"
    using assms(3,5)
    by (simp_all add: J_def J1_def J2_def d_def handle_def walk paths result_doc_def operation_of_def data_pos_def takeWhile_clean)
  define r1 where "r1 = on_rasp_header (\<lambda>h. h\<lparr>iCmd := KF_RASP_CMD_QUERY, Cmd := a, Source := b\<rparr>) r"
  have num: "kf_rasp_generate_number r1 = KFRASP_PARSE_DATA_BINDLISTS_RESULT"
    using assms(8) by (simp add: kf_rasp_generate_number_def r1_def on_rasp_header_def KF_RASP_SUBCMD_BINDLISTS_def KF_RASP_SUBCMD_REGISTER_def)
  have hd: "kf_rasp_generate_handle lib KFRASP_PARSE_DATA_BINDLISTS_RESULT = Some (kf_rasp_process_bindlists_result lib)"
    by (simp add: kf_rasp_generate_handle_def KFRASP_PARSE_DATA_DEVICEINFO_def KFRASP_PARSE_DATA_BINDREQUEST_RESULT_def
        KFRASP_PARSE_DATA_DEVICEINFO_RESULT_def KFRASP_PARSE_DATA_BINDLISTS_RESULT_def)
  define rb where "rb = (body r1)\<lparr>iData := KFRASP_PARSE_DATA_BINDLISTS_RESULT\<rparr>"
  have rb: "length (ResultCode rb) = 32" using assms(1) by (simp add: rb_def r1_def on_rasp_header_def rasp_ok_def)
  obtain e iis where e: "kf_rasp_process_bindlists_result lib J rb =
      Some (0, J\<lparr>tops := [[Under ''MsgBody''], []]\<rparr>, rb\<lparr>ResultCode := e, iData := KFRASP_PARSE_DATA_BINDLISTS_RESULT,
        u_body := U_bl \<lparr>bl_counts = int (length xs), bl_cii = Some iis\<rparr>\<rparr>)" "list_all2 bound iis xs"
    using bindlists_processed [OF J_def [unfolded d_def] rb assms(9-15)] by blast
  have "kf_rasp_parse_msgbody lib (Some r) = Some (0, Some (r1\<lparr>Json := Some (J\<lparr>tops := [[Under ''MsgBody''], []]\<rparr>),
      body := rb\<lparr>ResultCode := e, iData := KFRASP_PARSE_DATA_BINDLISTS_RESULT, u_body := U_bl \<lparr>bl_counts = int (length xs), bl_cii = Some iis\<rparr>\<rparr>\<rparr>))"
    using assms(2,7) a b J num hd e(1)
    by (simp add: kf_rasp_parse_msgbody_def J_def [symmetric] d_def [symmetric] paths c_int_def Let_def r1_def [symmetric] rb_def [symmetric])
  then show ?thesis using e(2) by (auto simp: J_def handle_def d_def)
qed

text \<open>C39: The list of bound devices is received. A new handle that parses a signed answer to a query for the list, with a code that counts as success, has
  all devices in the order of the document, each with its two addresses, and their number. The handle is used up then: whatever
  it is given next, parsing gives -4 and leaves it as it is.\<close>

theorem rasp_bindlists_received:
  assumes "tells_names lib" and "kf_rasp_cmd_int_str KF_RASP_CMD_QUERY = Some c" and "kf_rasp_subcmd_int_str KF_RASP_SUBCMD_BINDLISTS = Some sc"
    and "NUL \<notin> set i" and "length i < 8" and "\<bar>now\<bar> < 2 ^ 63" and "atol (takeWhile (\<lambda>x. x \<noteq> NUL) (time_string lib now)) = Some now"
    and "NUL \<notin> set src" and "length src < 16" and "NUL \<notin> set code" and "length code < 32" and "string_compare lib code ''SUCCESS'' = 0"
    and "xs \<noteq> []" and "length xs < 10 ^ 9" and "\<forall>x \<in> set xs. bind_ok x" and "calloc_ok lib (length xs)"
    and "parse_doc lib s = Inr (result_doc (head_of lib sc i (sign_text (sign_source sc i now)) now) code c src xs)"
  shows "\<exists>r iis. kf_rasp_parse_data lib (Some fresh_rasp) (Some s) = Some (0, Some r) \<and>
    iData (body r) = KFRASP_PARSE_DATA_BINDLISTS_RESULT \<and>
    u_body (body r) = U_bl \<lparr>bl_counts = int (length xs), bl_cii = Some iis\<rparr> \<and> list_all2 bound iis xs \<and>
    kf_rasp_parse_data lib (Some r) (Some s') = Some (- 4, Some r)"
proof -
  note n = command_names(1) [OF assms(2)] command_names(2) [OF assms(3)]
  define mh where "mh = head_of lib sc i (sign_text (sign_source sc i now)) now"
  define d where "d = result_doc mh code c src xs"
  define r0 where "r0 = fresh_rasp\<lparr>Json := Some (handle d)\<rparr>"
  have load: "json_loadstring (parse_doc lib) json_open s = Some (0, handle d)"
    using assms(17) by (simp add: json_loadstring_def json_open_def handle_def d_def mh_def)
  obtain r2 where r2: "kf_rasp_parse_data_header lib (Some r0) = Some (0, Some r2)" "rasp_ok r2" "Json r2 = Some (handle d)"
    "iSubCmd (header r2) = KF_RASP_SUBCMD_BINDLISTS"
    using head_read [of r0 "[(''MsgBody'', _), (''MsgHead'', _)]" lib sc i now] fresh_ok(1) n assms(4-7) command_numbers(2) [OF assms(1,3)]
    by (auto simp: r0_def rasp_ok_def d_def result_doc_def mh_def)
  obtain r3 iis where r3: "kf_rasp_parse_msgbody lib (Some r2) = Some (0, Some r3)"
    "Json r3 = Some \<lparr>doc = Some d, tops = [[Under ''MsgBody''], []], spoilt = False\<rparr>" "iData (body r3) = KFRASP_PARSE_DATA_BINDLISTS_RESULT"
    "u_body (body r3) = U_bl \<lparr>bl_counts = int (length xs), bl_cii = Some iis\<rparr>" "list_all2 bound iis xs"
    using result_read [OF r2(2), of mh code c src xs lib] r2(3,4) n assms(8-16) command_numbers(1) [OF assms(1,2)] unfolding d_def by auto
  have "kf_rasp_parse_data lib (Some fresh_rasp) (Some s) = Some (0, Some r3)"
    using load r2(1) r3(1) fresh_ok(2) by (simp add: kf_rasp_parse_data_def r0_def)
  moreover have "r3\<lparr>Json := Json r3\<rparr> = r3" by (cases r3) simp
  then have "kf_rasp_parse_data lib (Some r3) (Some s') = Some (- 4, Some r3)"
    using r3(2) by (simp add: kf_rasp_parse_data_def json_loadstring_def JSON_ENOMORE_def JSON_EBASE_def)
  ultimately show ?thesis using r3(3-5) by blast
qed

section \<open>Examples\<close>

definition demo_lib :: "json_value \<Rightarrow> bvpu" where
  "demo_lib d = \<lparr>time_string = fmt_d, string_compare = strcmp, calloc_ok = (\<lambda>n. True), print_doc = (\<lambda>d. ''json''), parse_doc = (\<lambda>s. Inr d)\<rparr>"

lemma demo_lib_ok:
  "tells_names (demo_lib d)" "print_doc (demo_lib d) x = ''json''" "parse_doc (demo_lib d) s = Inr d" "calloc_ok (demo_lib d) n"
  "string_compare (demo_lib d) ''SUCCESS'' ''SUCCESS'' = 0" "atol (takeWhile (\<lambda>x. x \<noteq> NUL) (time_string (demo_lib d) 5)) = Some 5"
  "head_of (demo_lib d) = head_of (demo_lib JNull)"
  by (simp_all add: demo_lib_def tells_names_def strcmp_eq_0 takeWhile_clean atol_fmt_d fun_eq_iff head_of_def)

lemma demo_names:
  "kf_rasp_cmd_int_str KF_RASP_CMD_NOTIFY = Some ''notify''" "kf_rasp_subcmd_int_str KF_RASP_SUBCMD_BINDREQUEST = Some ''bindRequest''"
  "kf_rasp_cmd_int_str KF_RASP_CMD_QUERY = Some ''query''" "kf_rasp_subcmd_int_str KF_RASP_SUBCMD_BINDLISTS = Some ''bindLists''"
  "plain_request KF_RASP_CMD_NOTIFY KF_RASP_SUBCMD_BINDREQUEST"
  by code_simp+

lemma demo_texts: "NUL \<notin> set ''0002''" "NUL \<notin> set ''json''" "NUL \<notin> set ''a''" "NUL \<notin> set ''b''" "NUL \<notin> set ''SUCCESS''" "NUL \<notin> set ''server''"
  "NUL \<notin> set ''router''"
  by (simp_all add: NUL_def)

definition demo_request :: json_value where
  "demo_request = device_request (demo_lib JNull) ''notify'' ''bindRequest'' ''0002'' 5 ''a'' ''b''"

lemma demo_request_same: "device_request (demo_lib d) ''notify'' ''bindRequest'' ''0002'' 5 ''a'' ''b'' = demo_request"
  unfolding demo_request_def device_request_def by (subst demo_lib_ok(7)) (rule refl)

definition demo_cii :: KFConnectItemInfo where
  "demo_cii = cii_zero\<lparr>cii_device := ''a'' @ zeros 63, cii_router := ''b'' @ zeros 63\<rparr>"

lemma demo_cii_texts: "cstr (cii_device demo_cii) = Some ''a''" "cstr (cii_router demo_cii) = Some ''b''"
  using cstr_zeros_padded [of "''a''" 63] cstr_zeros_padded [of "''b''" 63] demo_texts(3,4) by (simp_all add: demo_cii_def)

definition demo_body :: "int \<Rightarrow> KFRaspBody" where
  "demo_body k = (body rasp_zero)\<lparr>iData := k, u_body := U_cii demo_cii\<rparr>"

lemma rasp_request_roundtrip_witness:
  "\<exists>r1 r2 out s r3.
    kf_rasp_generate_header 5 (Some fresh_rasp) KF_RASP_CMD_NOTIFY KF_RASP_SUBCMD_BINDREQUEST (Some ''0002'') = Some (0, Some r1) \<and>
    kf_rasp_generate_data (demo_lib demo_request) (snd (kf_rasp_set_body (Some r1) (Some (demo_body KFRASP_PARSE_DATA_CONNECTITEMINFO)))) (Some (zeros 9)) (Some (int 9)) =
      Some (int (length s), Some r2, Some out, Some (int (length s))) \<and> cstr out = Some s \<and>
    kf_rasp_parse_data (demo_lib demo_request) (Some fresh_rasp) (Some s) = Some (0, Some r3) \<and>
    kf_rasp_cmd (Some r3) = KF_RASP_CMD_NOTIFY \<and> kf_rasp_subcmd (Some r3) = KF_RASP_SUBCMD_BINDREQUEST \<and>
    cstr (Id (header r3)) = Some ''0002'' \<and> Time (header r3) = 5 \<and> cstr (Source (header r3)) = Some ''router''"
  using demo_names demo_texts demo_cii_texts
  by (intro rasp_request_roundtrip [where c = "''notify''" and sc = "''bindRequest''" and d = "''a''" and m = "''b''"]) (simp_all add: demo_body_def demo_lib_ok(1-6) demo_request_same)


definition demo_lost :: json_value where "demo_lost = lost_request (demo_lib JNull) ''bindLists'' ''0002'' 5"

lemma demo_lost_same: "lost_request (demo_lib d) ''bindLists'' ''0002'' 5 = demo_lost"
  unfolding demo_lost_def lost_request_def by (subst demo_lib_ok(7)) (rule refl)

lemma rasp_bindlists_request_lost_witness:
  "\<exists>r1 r2 out s r3.
    kf_rasp_generate_header 5 (Some fresh_rasp) KF_RASP_CMD_QUERY KF_RASP_SUBCMD_BINDLISTS (Some ''0002'') = Some (0, Some r1) \<and>
    kf_rasp_generate_data (demo_lib demo_lost) (snd (kf_rasp_set_body (Some r1) (Some (demo_body KFRASP_PARSE_DATA_BINDLISTS)))) (Some (zeros 9)) (Some (int 9)) =
      Some (int (length s), Some r2, Some out, Some (int (length s))) \<and> cstr out = Some s \<and>
    kf_rasp_parse_data (demo_lib demo_lost) (Some fresh_rasp) (Some s) = Some (0, Some r3) \<and>
    kf_rasp_cmd (Some r3) = 0 \<and> cstr (Source (header r3)) = Some []"
  using demo_names demo_texts
  by (intro rasp_bindlists_request_lost [where c = "''query''" and sc = "''bindLists''"]) (simp_all add: demo_body_def demo_lib_ok(1-6) demo_lost_same)

definition demo_answer_doc :: json_value where
  "demo_answer_doc = result_doc (head_of (demo_lib JNull) ''bindLists'' ''0002'' (sign_text (sign_source ''bindLists'' ''0002'' 5)) 5) ''SUCCESS'' ''query'' ''server''
     [(''a'', ''b''), (''b'', ''a'')]"

lemma rasp_bindlists_received_witness:
  "\<exists>r iis. kf_rasp_parse_data (demo_lib demo_answer_doc) (Some fresh_rasp) (Some ''json'') = Some (0, Some r) \<and>
    iData (body r) = KFRASP_PARSE_DATA_BINDLISTS_RESULT \<and>
    u_body (body r) = U_bl \<lparr>bl_counts = 2, bl_cii = Some iis\<rparr> \<and> list_all2 bound iis [(''a'', ''b''), (''b'', ''a'')] \<and>
    kf_rasp_parse_data (demo_lib demo_answer_doc) (Some r) (Some ''json'') = Some (- 4, Some r)"
proof -
  have "parse_doc (demo_lib demo_answer_doc) ''json'' = Inr (result_doc (head_of (demo_lib demo_answer_doc) ''bindLists'' ''0002''
      (sign_text (sign_source ''bindLists'' ''0002'' 5)) 5) ''SUCCESS'' ''query'' ''server'' [(''a'', ''b''), (''b'', ''a'')])"
    by (subst demo_lib_ok(7)) (simp add: demo_lib_ok(3) demo_answer_doc_def)
  then show ?thesis
    using rasp_bindlists_received [OF demo_lib_ok(1) demo_names(3,4), of "''0002''" 5 demo_answer_doc "''server''" "''SUCCESS''" "[(''a'', ''b''), (''b'', ''a'')]" "''json''" "''json''"]
      demo_lib_ok(2-6) [of demo_answer_doc] demo_texts by (simp add: bind_ok_def)
qed

end
