(* ===== verification/Spec2Isabelle.thy ===== *)
theory Spec2Isabelle
  imports Md5_Spec Base64_Correct Aes_Modes JkProtocol_Correct JkProtocolBin_Correct
    CmTask ReList_Sort XnQueue WallTime TextUtils CodeUtils V4 JkBytes FlashCfg BusServer_Correct CmConf WebSocket_Correct CmHttp_Correct
    WsMessage WsHandshake HttpUpload AvStorage HttpDownload_Correct Rasp_Correct
begin

text \<open>
  Verification of jklibs.

  The library is a collection of C components for camera devices: digests and ciphers, protocols to talk to the device
  and between its processes, lists, queues and timed tasks, text helpers, HTTP and WebSocket clients, configuration and
  factory data, and the recording of video. The components are used by calls; apart from the task list and the queues they share no
  state. This development follows them one by one; the theories that build on others are those of components that call
  others, and the composed behaviour is stated there.

  \<^bold>\<open>How C is read.\<close> (\<open>Prelude\<close>, \<open>CString\<close>, \<open>CNumber\<close>.)
  A function becomes a function from its arguments and the state to its results and the new state. \<open>int\<close>
  is \<open>int\<close> with \<open>c_int\<close>, which is \<open>None\<close> on overflow; unsigned arithmetic wraps, as words (\<open>u8\<close>, \<open>u32\<close>, \<open>u64\<close>)
  where the code works bitwise and as \<open>mod 2 ^ 64\<close> for sizes. An array is a list of its fixed length; a
  pointer into it is an offset; reading or writing outside (\<open>idx\<close>, \<open>upd\<close>, \<open>mem_read\<close>, \<open>mem_write\<close>), running out of
  overflow, using a null pointer and every other undefined behaviour is \<open>None\<close>. A pointer that may be null is an
  option of its own. Strings in arrays are read by \<open>cstr\<close>, which needs the terminator; \<open>sprintf\<close>, \<open>snprintf\<close>,
  \<open>strncpy\<close>, \<open>strstr\<close>, \<open>atoi\<close>, \<open>strtol\<close>, \<open>sscanf\<close> and \<open>fgets\<close> are written out as far as the sources use them.
  Error codes stay the integers of the code. Log output is left out.

  \<^bold>\<open>Loops and fuel.\<close> A loop over an array is a \<open>fun\<close> or a \<open>function\<close> with its measure; a loop that need not end (list walks,
  waits on a connection, retries, parsers that follow the input) is \<open>partial_function (option)\<close>, so not returning is
  \<open>None\<close> like undefined behaviour. There is no fuel. A theorem that says \<open>Some\<close> therefore says that the function returns
  and that nothing undefined happens on the way; two theorems say that a call never returns
  (\<open>CmTask.cm_task_restart_in_callback_deadlocks\<close>, \<open>XnQueue.XN_QueueMove_deadlock\<close>, the second over an inductive step relation on the
  interleavings of two threads). The first also says why: the call that does not return comes in a state in which it would return if
  the mutex were free.

  \<^bold>\<open>What lies outside\<close> is an argument: the clock, \<open>localtime\<close>, \<open>rand\<close>, \<open>stat\<close>, whether a file opens or memory is given,
  what a fresh block of memory holds (\<open>fresh\<close>), what a stream of stdio does with the bytes it is given (\<open>stdio\<close>), what a caller finds where a
  function ends without a return statement (\<open>missing\<close>, \<open>None\<close> by the letter of the standard), how much of a buffer the kernel takes (\<open>accepts\<close>)
  and what arrives on a connection and when (\<open>arrival\<close>: a piece, a timeout, an error). What a theorem needs of it is a named predicate over these
  arguments (\<open>accepting\<close>, \<open>takes_all\<close>, \<open>works\<close>, \<open>benign\<close> and the like), and the witness behind it instantiates them.

  \<^bold>\<open>Parts.\<close> Source files are below \<open>src\<close>.

  \<^item> \<open>Md5\<close>, \<open>Md5_Spec\<close>: common/ngx_md5.c. The context is the record \<open>md5_ctx\<close>. RFC 1321 is stated as tables and one loop; the
    unrolled code computes it, however the message is cut into updates.
  \<^item> \<open>Base64\<close>, \<open>Base64_Correct\<close>: common/cm_base64.c. The round trip, the bounds of the decoder, the spaces that break it.
  \<^item> \<open>Aes\<close>, \<open>Aes_Spec\<close>, \<open>Aes_Modes\<close>: common/crypto/aeslib.c. The table-driven code against FIPS-197, which is stated without the tables of the code: the
    substitution from inversion in \<open>GF(2^8)\<close> and the affine map, the key schedule on lists of bytes. The modes over the locale
    \<open>block_cipher\<close>, which is interpreted on the block functions of the code.
  \<^item> \<open>Signature\<close>, \<open>JkProtocol\<close>, \<open>JkProtocol_Correct\<close>: jkprotocol/jkprotocol.c, a head of lines, a signature over them, a body. The locale
    \<open>signature\<close> is what a protocol needs of the digest, and is interpreted on the MD5 of the code.
  \<^item> \<open>JkProtocolBin\<close>, \<open>JkProtocolBin_Correct\<close>: jkprotocol/binary/jkprotocolbin.c, fields between dashes. The round trip, the sequence counter,
    the signature test that does not reject.
  \<^item> \<open>V4\<close>: jkprotocol/v4/v4.c with jkprotocol/v4/format.md, a header of bit fields.
  \<^item> \<open>BusServer\<close>, \<open>BusServer_Correct\<close>: common/busserver/src/busserver_ex.c over the receive buffer of common/busserver/mongoose. The buffer has its length and its
    size, and is moved when an arrival does not fit. Framing of messages in parts, the table of five clients, joining and sending across server and client.
  \<^item> \<open>Chain\<close>, \<open>CmList\<close>, \<open>CmTask\<close>: common/cm_list.c and cm_list.h, common/cm_task.c. The memory is a map from addresses to links; \<open>Chain\<close> is the shared
    abstraction of rings in it. Tasks are list members with a time; the mutex is part of the state. The
    invariant and the runs are for callbacks that leave the scheduler alone; one that uses it is a theorem of its own.
  \<^item> \<open>ReList\<close>, \<open>ReList_Sort\<close>: common/re_list.c and re_list.h. The operations refine those on sequences; \<open>list_sort\<close> ends for a total
    preorder and does not for a strict one.
  \<^item> \<open>Fifo\<close>, \<open>XnQueue\<close>: common/XN_Queue.h. The locale \<open>fifo\<close> is the promise of a queue; it is interpreted on \<open>cm_list\<close>, \<open>re_list\<close>
    and \<open>XN_Queue\<close>, each in the theory of its component.
  \<^item> \<open>WallTime\<close>, \<open>TextUtils\<close>, \<open>CodeUtils\<close>: groups of functions of common/cm_utils.c. \<open>JkBytes\<close>: common/jkbytes.c.
  \<^item> \<open>FlashCfg\<close>: common/cm_flash_cfg.c. The device is a block of bytes; slots do not disturb each other.
  \<^item> \<open>CmConf\<close>: common/cm_conf.c. The array refines an association list; a file written is read back.
  \<^item> \<open>ConnTcp\<close>: the transfer functions of common/cm_conn_tcp.c, on which the next three rest.
  \<^item> \<open>WebSocket\<close>, \<open>WebSocket_Correct\<close>, \<open>WsMessage\<close>, \<open>WsHandshake\<close>: common/cm_conn_ws.c and the frame functions of common/cm_http.c. RFC 6455 is
    stated as an encoder and a decoder of its own; messages of several frames; the handshake, which uses \<open>Base64\<close> and \<open>CmHttp\<close>.
  \<^item> \<open>CmHttp\<close>, \<open>CmHttp_Correct\<close>, \<open>HttpUpload\<close>: the texts of common/cm_http.c, and common/cm_http_upload.c, which sends them with a file.
  \<^item> \<open>HttpDownload\<close>, \<open>HttpDownload_Correct\<close>: common/cm_http_download.c, answers by length and in chunks, redirections. The missing return
    values of two functions are an argument.
  \<^item> \<open>Json\<close>, \<open>Rasp\<close>, \<open>Rasp_Correct\<close>: common/json/json.c as far as protocol/rasp uses it (documents, paths, the position that is pushed
    and popped), and all of protocol/rasp. A request that one side generates, the other side reads; a message whose signature is wrong
    is refused. The parser and the printer of JSON are arguments of which printing and parsing back is assumed.
  \<^item> \<open>AvStorage\<close>: storage/avstorage.c. Writing refines a recorder that starts a file when the old one is too old; the files
    are behind buffered streams, of which the last is never closed.

  In each part the first theory has the state and one definition per function, loops with the name of their function
  and what they do, in the order of the source; the second, or the sections behind, has the well-formedness of the state
  and that it is kept, the behaviour on each path, and the properties. Where the code does not do what it means to, the property
  states what it does instead, on the inputs where that shows.

  \<^bold>\<open>Not modelled.\<close> Code of others that the repository carries: the rest of mongoose, the lexer, parser, printer and iterators of json, jansson, libconfig, http_parser,
  jsoncpp (common/ex), PolarSSL's AES (common/crypto/polaraes.c), libghttp (protocol/http), libqrencode (qrcode). Code that mostly calls the system or another
  library, so that its model would be arguments only: sockets and devices (cm_conn_udp, cm_unixsocket, cm_uart, cm_sys, cm_time, the connection
  set-up of cm_conn_tcp, common/misc, vdev, recordserver), encoders (codec), OpenCV and OpenGL (openav), log output (cm_print, rt_print), the demos and tools.
  The older variant of the bus (busserver.c, cmbusclient.c, cmbusserver.c) is the same protocol with a fixed message; the programs
  of the directory are left out with it. Of cm_utils.c the functions that read /proc, run commands or use \<open>strtok\<close>,
  \<open>sscanf\<close> and \<open>strftime\<close> are left out, of cm_http_upload.c the two that hand a form to libcurl, of cm_http_download.c the ones that open
  connections and the printed speed. Failing writes (except in \<open>AvStorage\<close>), signals during calls, and threads other than the two of \<open>XnQueue\<close> are outside the model.
\<close>

end
